(* ===== verification/Prelude.thy ===== *)
theory Prelude
  imports Main "HOL-Library.Word"
begin

text \<open>
  Shared vocabulary of the development: the machine-integer types of the Rust code, UTF-8 byte
  strings with the \<open>str\<close> methods the code calls, socket addresses with their textual form, the
  duplicate scan written as a \<open>HashSet::insert\<close> loop, and the generic lemmas the components use.
\<close>

section \<open>Machine integers\<close>

type_synonym u8 = "8 word"
type_synonym u16 = "16 word"
type_synonym u32 = "32 word"
type_synonym u64 = "64 word"
type_synonym u128 = "128 word"

named_theorems str_simps \<open>evaluation rules of the string methods\<close>
named_theorems hdr_simps \<open>rules for header lists\<close>

text \<open>\<open>u64::saturating_sub\<close> and \<open>u64::saturating_mul\<close>.\<close>

definition saturating_sub :: "'a::len word \<Rightarrow> 'a word \<Rightarrow> 'a word" where
  "saturating_sub a b = (if a < b then 0 else a - b)"

definition saturating_mul :: "'a::len word \<Rightarrow> 'a word \<Rightarrow> 'a word" where
  "saturating_mul a b = (if unat a * unat b < 2 ^ LENGTH('a) then a * b else - 1)"

section \<open>Panics\<close>

text \<open>A computation that may panic (a failed assertion or an index out of range).\<close>

datatype 'a rust = Panic | Return 'a

fun rust_map :: "('a \<Rightarrow> 'b) \<Rightarrow> 'a rust \<Rightarrow> 'b rust" where
  "rust_map f Panic = Panic"
| "rust_map f (Return x) = Return (f x)"

lemma rust_map_Return [simp]: "rust_map f r = Return y \<longleftrightarrow> (\<exists>x. r = Return x \<and> y = f x)"
  by (cases r) auto

section \<open>Results\<close>

text \<open>\<open>Result<T, E>\<close> is the sum \<open>E + T\<close>; \<open>and_then\<close> is the \<open>?\<close> operator.\<close>

fun and_then :: "'e + 'a \<Rightarrow> ('a \<Rightarrow> 'e + 'b) \<Rightarrow> 'e + 'b" where
  "and_then (Inl e) k = Inl e"
| "and_then (Inr a) k = k a"

lemma and_then_Inr [simp]: "and_then r k = Inr b \<longleftrightarrow> (\<exists>a. r = Inr a \<and> k a = Inr b)"
  by (cases r) auto

lemma and_then_Inl: "and_then r k = Inl e \<longleftrightarrow> r = Inl e \<or> (\<exists>a. r = Inr a \<and> k a = Inl e)"
  by (cases r) auto

definition map_err :: "('e \<Rightarrow> 'f) \<Rightarrow> 'e + 'a \<Rightarrow> 'f + 'a" where
  "map_err f r = map_sum f id r"

lemma map_err_simps [simp]: "map_err f (Inl e) = Inl (f e)" "map_err f (Inr a) = Inr a"
  by (simp_all add: map_err_def)

lemma map_err_Inr [simp]: "map_err f r = Inr a \<longleftrightarrow> r = Inr a"
  by (cases r) auto

lemma map_err_Inl [simp]: "map_err f r = Inl e \<longleftrightarrow> (\<exists>d. r = Inl d \<and> e = f d)"
  by (cases r) auto

section \<open>Byte strings\<close>

text \<open>
  A Rust \<open>str\<close> is the list of its UTF-8 bytes, one \<open>char\<close> per byte, so \<open>length\<close> is \<open>str::len\<close>.
  \<open>char::is_whitespace\<close> is the Unicode property White\_Space; its members are listed by their
  encodings.
\<close>

type_synonym rstr = string
type_synonym header = "rstr \<times> rstr"

definition byte :: "nat \<Rightarrow> char" where
  "byte n = char_of n"

definition whitespace_encodings :: "rstr list" where
  "whitespace_encodings =
     map (\<lambda>n. [byte n]) [9, 10, 11, 12, 13, 32]
   @ [[byte 194, byte 133], [byte 194, byte 160], [byte 225, byte 154, byte 128]]
   @ map (\<lambda>n. [byte 226, byte 128, byte n])
       [128, 129, 130, 131, 132, 133, 134, 135, 136, 137, 138, 168, 169, 175]
   @ [[byte 226, byte 129, byte 159], [byte 227, byte 128, byte 128]]"

fun starts_with :: "'a list \<Rightarrow> 'a list \<Rightarrow> bool" where
  "starts_with xs [] = True"
| "starts_with [] (p # ps) = False"
| "starts_with (x # xs) (p # ps) = (x = p \<and> starts_with xs ps)"

definition ends_with :: "'a list \<Rightarrow> 'a list \<Rightarrow> bool" where
  "ends_with xs ps = starts_with (rev xs) (rev ps)"

definition strip_prefix :: "'a list \<Rightarrow> 'a list \<Rightarrow> 'a list option" where
  "strip_prefix xs ps = (if starts_with xs ps then Some (drop (length ps) xs) else None)"

definition strip_suffix :: "'a list \<Rightarrow> 'a list \<Rightarrow> 'a list option" where
  "strip_suffix xs ps =
     (if ends_with xs ps then Some (take (length xs - length ps) xs) else None)"

text \<open>Strip the first of the given non-empty patterns that is a prefix, again and again.\<close>

fun strip_first :: "'a list list \<Rightarrow> 'a list \<Rightarrow> 'a list option" where
  "strip_first [] xs = None"
| "strip_first (p # ps) xs =
     (if p \<noteq> [] \<and> starts_with xs p then Some (drop (length p) xs) else strip_first ps xs)"

lemma starts_with_length: "starts_with xs ps \<Longrightarrow> length ps \<le> length xs"
  by (induction xs ps rule: starts_with.induct) auto

lemma strip_first_shorter: "strip_first ps xs = Some ys \<Longrightarrow> length ys < length xs"
proof (induction ps)
  case (Cons p ps)
  then show ?case
    using starts_with_length [of xs p] by (cases p) (auto split: if_splits)
qed simp

function strip_while :: "'a list list \<Rightarrow> 'a list \<Rightarrow> 'a list" where
  "strip_while ps xs = (case strip_first ps xs of None \<Rightarrow> xs | Some ys \<Rightarrow> strip_while ps ys)"
  by pat_completeness auto
termination
  by (relation "measure (\<lambda>(ps, xs). length xs)") (auto dest: strip_first_shorter)

declare strip_while.simps [simp del]

definition trim_start :: "rstr \<Rightarrow> rstr" where
  "trim_start s = strip_while whitespace_encodings s"

definition trim_end :: "rstr \<Rightarrow> rstr" where
  "trim_end s = rev (strip_while (map rev whitespace_encodings) (rev s))"

definition trim :: "rstr \<Rightarrow> rstr" where
  "trim s = trim_end (trim_start s)"

definition is_ascii_digit :: "char \<Rightarrow> bool" where
  "is_ascii_digit c = (48 \<le> (of_char c :: nat) \<and> (of_char c :: nat) \<le> 57)"

definition is_ascii_upper :: "char \<Rightarrow> bool" where
  "is_ascii_upper c = (65 \<le> (of_char c :: nat) \<and> (of_char c :: nat) \<le> 90)"

definition is_ascii_lower :: "char \<Rightarrow> bool" where
  "is_ascii_lower c = (97 \<le> (of_char c :: nat) \<and> (of_char c :: nat) \<le> 122)"

definition is_ascii_alphanumeric :: "char \<Rightarrow> bool" where
  "is_ascii_alphanumeric c = (is_ascii_digit c \<or> is_ascii_upper c \<or> is_ascii_lower c)"

definition is_ascii_control :: "char \<Rightarrow> bool" where
  "is_ascii_control c = ((of_char c :: nat) < 32 \<or> (of_char c :: nat) = 127)"

definition ascii_lower_char :: "char \<Rightarrow> char" where
  "ascii_lower_char c = (if is_ascii_upper c then char_of ((of_char c :: nat) + 32) else c)"

definition ascii_upper_char :: "char \<Rightarrow> char" where
  "ascii_upper_char c = (if is_ascii_lower c then char_of ((of_char c :: nat) - 32) else c)"

definition to_ascii_lowercase :: "rstr \<Rightarrow> rstr" where
  "to_ascii_lowercase s = map ascii_lower_char s"

definition to_ascii_uppercase :: "rstr \<Rightarrow> rstr" where
  "to_ascii_uppercase s = map ascii_upper_char s"

definition eq_ignore_ascii_case :: "rstr \<Rightarrow> rstr \<Rightarrow> bool" where
  "eq_ignore_ascii_case a b = (to_ascii_lowercase a = to_ascii_lowercase b)"

text \<open>\<open>str::split(c)\<close> yields at least one piece; \<open>rsplit_once(c)\<close> cuts at the last separator.\<close>

fun split_on :: "'a \<Rightarrow> 'a list \<Rightarrow> 'a list list" where
  "split_on c [] = [[]]"
| "split_on c (x # xs) =
     (if x = c then [] # split_on c xs
      else case split_on c xs of [] \<Rightarrow> [[x]] | p # ps \<Rightarrow> (x # p) # ps)"

fun split_once :: "'a \<Rightarrow> 'a list \<Rightarrow> ('a list \<times> 'a list) option" where
  "split_once c [] = None"
| "split_once c (x # xs) =
     (if x = c then Some ([], xs)
      else map_option (\<lambda>(a, b). (x # a, b)) (split_once c xs))"

definition rsplit_once :: "'a \<Rightarrow> 'a list \<Rightarrow> ('a list \<times> 'a list) option" where
  "rsplit_once c xs = map_option (\<lambda>(a, b). (rev b, rev a)) (split_once c (rev xs))"

fun join :: "'a list \<Rightarrow> 'a list list \<Rightarrow> 'a list" where
  "join sep [] = []"
| "join sep [x] = x"
| "join sep (x # y # ys) = x @ sep @ join sep (y # ys)"

text \<open>\<open>str::contains\<close>.\<close>

fun str_contains :: "'a list \<Rightarrow> 'a list \<Rightarrow> bool" where
  "str_contains [] needle = (needle = [])"
| "str_contains (x # xs) needle = (starts_with (x # xs) needle \<or> str_contains xs needle)"

fun dec_digits :: "nat \<Rightarrow> rstr" where
  "dec_digits n =
     (if n < 10 then [char_of (48 + n)] else dec_digits (n div 10) @ [char_of (48 + n mod 10)])"

declare dec_digits.simps [simp del]

fun hex_digits :: "nat \<Rightarrow> rstr" where
  "hex_digits n =
     (let d = n mod 16; c = char_of (if d < 10 then 48 + d else 87 + d)
      in if n < 16 then [c] else hex_digits (n div 16) @ [c])"

declare hex_digits.simps [simp del]

section \<open>Socket addresses\<close>

text \<open>
  \<open>std::net::SocketAddr\<close>. An IPv6 address is its eight 16-bit segments; flow label and scope
  identifier take part in equality and only the scope in the textual form.
\<close>

datatype ip_addr = IpV4 u8 u8 u8 u8 | IpV6 "u16 list"

datatype socket_addr =
    SocketAddrV4 u8 u8 u8 u8 u16
  | SocketAddrV6 "u16 list" u16 u32 u32

definition ip :: "socket_addr \<Rightarrow> ip_addr" where
  "ip a = (case a of SocketAddrV4 p q r s _ \<Rightarrow> IpV4 p q r s | SocketAddrV6 segs _ _ _ \<Rightarrow> IpV6 segs)"

definition port :: "socket_addr \<Rightarrow> u16" where
  "port a = (case a of SocketAddrV4 _ _ _ _ p \<Rightarrow> p | SocketAddrV6 _ p _ _ \<Rightarrow> p)"

definition ipv4_to_string :: "u8 \<Rightarrow> u8 \<Rightarrow> u8 \<Rightarrow> u8 \<Rightarrow> rstr" where
  "ipv4_to_string p q r s =
     join ''.'' [dec_digits (unat p), dec_digits (unat q), dec_digits (unat r), dec_digits (unat s)]"

fun zero_run :: "u16 list \<Rightarrow> nat" where
  "zero_run [] = 0"
| "zero_run (x # xs) = (if x = 0 then Suc (zero_run xs) else 0)"

text \<open>Start and length of the first longest run of zero segments.\<close>

fun longest_run :: "nat \<Rightarrow> u16 list \<Rightarrow> nat \<times> nat \<Rightarrow> nat \<times> nat" where
  "longest_run i [] best = best"
| "longest_run i (x # xs) best =
     longest_run (Suc i) xs (if snd best < zero_run (x # xs) then (i, zero_run (x # xs)) else best)"

definition ipv6_to_string :: "u16 list \<Rightarrow> rstr" where
  "ipv6_to_string segs =
     (let hex = (\<lambda>ss. join '':'' (map (\<lambda>w. hex_digits (unat w)) ss))
      in if take 6 segs = [0, 0, 0, 0, 0, 0xffff] \<and> length segs = 8
         then ''::ffff:'' @ ipv4_to_string (ucast (drop_bit 8 (segs ! 6))) (ucast (segs ! 6))
                              (ucast (drop_bit 8 (segs ! 7))) (ucast (segs ! 7))
         else case longest_run 0 segs (0, 0) of (st, n) \<Rightarrow>
           if n > 1 then hex (take st segs) @ ''::'' @ hex (drop (st + n) segs) else hex segs)"

definition ip_to_string :: "ip_addr \<Rightarrow> rstr" where
  "ip_to_string i = (case i of IpV4 p q r s \<Rightarrow> ipv4_to_string p q r s | IpV6 segs \<Rightarrow> ipv6_to_string segs)"

definition addr_to_string :: "socket_addr \<Rightarrow> rstr" where
  "addr_to_string a =
     (case a of
        SocketAddrV4 p q r s pt \<Rightarrow> ipv4_to_string p q r s @ '':'' @ dec_digits (unat pt)
      | SocketAddrV6 segs pt _ scope \<Rightarrow>
          ''['' @ ipv6_to_string segs
          @ (if scope = 0 then [] else ''%'' @ dec_digits (unat scope))
          @ '']:'' @ dec_digits (unat pt))"

definition sample_addr :: "u16 \<Rightarrow> socket_addr" where
  "sample_addr p = SocketAddrV4 10 0 0 1 p"

lemma sample_addr_inj [simp]: "sample_addr p = sample_addr q \<longleftrightarrow> p = q"
  by (simp add: sample_addr_def)

section \<open>Loops\<close>

text \<open>
  \<open>for x in xs { if !seen.insert(key(x)) { return Err(..) } }\<close>: the first element whose key was
  already inserted.
\<close>

fun first_dup :: "'a set \<Rightarrow> 'a list \<Rightarrow> 'a option" where
  "first_dup seen [] = None"
| "first_dup seen (x # xs) = (if x \<in> seen then Some x else first_dup (insert x seen) xs)"

lemma first_dup_None: "first_dup seen xs = None \<longleftrightarrow> distinct xs \<and> set xs \<inter> seen = {}"
  by (induction xs arbitrary: seen) auto

text \<open>Sequencing of checks that return an optional error: the first error wins.\<close>

fun first_err :: "('a \<Rightarrow> 'e option) \<Rightarrow> 'a list \<Rightarrow> 'e option" where
  "first_err f [] = None"
| "first_err f (x # xs) = (case f x of Some e \<Rightarrow> Some e | None \<Rightarrow> first_err f xs)"

lemma first_err_None [simp]: "first_err f xs = None \<longleftrightarrow> (\<forall>x \<in> set xs. f x = None)"
  by (induction xs) (auto split: option.splits)

lemma first_err_SomeD: "first_err f xs = Some e \<Longrightarrow> \<exists>x \<in> set xs. f x = Some e"
  by (induction xs) (auto split: option.splits)

section \<open>Generic lemmas\<close>

lemma starts_with_iff: "starts_with xs ps \<longleftrightarrow> (\<exists>ys. xs = ps @ ys)"
  by (induction xs ps rule: starts_with.induct) auto

lemma starts_with_refl [simp]: "starts_with xs xs"
  by (simp add: starts_with_iff)

lemma starts_with_append [simp]: "starts_with (ps @ xs) ps"
  by (simp add: starts_with_iff)

lemma ends_with_iff: "ends_with xs ps \<longleftrightarrow> (\<exists>ys. xs = ys @ ps)"
proof -
  have "(\<exists>ys. rev xs = rev ps @ ys) \<longleftrightarrow> (\<exists>ys. xs = ys @ ps)"
    by (metis rev_append rev_rev_ident)
  then show ?thesis by (simp add: ends_with_def starts_with_iff)
qed

lemma strip_prefix_Some: "strip_prefix xs ps = Some ys \<longleftrightarrow> xs = ps @ ys"
  by (auto simp: strip_prefix_def starts_with_iff)

lemma strip_suffix_Some: "strip_suffix xs ps = Some ys \<longleftrightarrow> xs = ys @ ps"
  by (auto simp: strip_suffix_def ends_with_iff)

lemma str_contains_iff: "str_contains xs needle \<longleftrightarrow> (\<exists>a b. xs = a @ needle @ b)"
proof (induction xs)
  case (Cons x xs)
  have "(\<exists>a b. x # xs = a @ needle @ b)
      \<longleftrightarrow> (\<exists>b. x # xs = needle @ b) \<or> (\<exists>a b. xs = a @ needle @ b)"
    by (metis append_Cons append_Nil list.inject neq_Nil_conv)
  then show ?case using Cons.IH by (simp add: starts_with_iff)
qed simp

text \<open>A string whose first and last byte occur in no encoding of a blank is its own trim.\<close>

definition solid :: "char \<Rightarrow> bool" where
  "solid c = list_all (\<lambda>p. hd p \<noteq> c \<and> last p \<noteq> c) whitespace_encodings"

text \<open>Printable ASCII without the blank.\<close>

definition graphic :: "char \<Rightarrow> bool" where
  "graphic c = (32 < (of_char c :: nat) \<and> (of_char c :: nat) < 127)"

lemma byte_eq_iff: "n < 256 \<Longrightarrow> byte n = c \<longleftrightarrow> (of_char c :: nat) = n"
  by (auto simp: byte_def of_char_of)

lemma graphic_solid: "graphic c \<Longrightarrow> solid c"
  by (simp add: solid_def graphic_def whitespace_encodings_def byte_eq_iff)

lemma graphic_of_lower: "graphic (ascii_lower_char c) \<Longrightarrow> graphic c"
  by (cases "is_ascii_upper c") (auto simp: graphic_def ascii_lower_char_def is_ascii_upper_def)

lemma solid_of_lower: "list_all graphic (to_ascii_lowercase s) \<Longrightarrow> list_all solid s"
  using graphic_of_lower graphic_solid by (auto simp: to_ascii_lowercase_def list_all_iff)

lemma strip_first_none: "list_all (\<lambda>p. p \<noteq> [] \<longrightarrow> hd p \<noteq> x) ps \<Longrightarrow> strip_first ps (x # xs) = None"
proof (induction ps)
  case (Cons p ps)
  then show ?case by (cases p) auto
qed simp

lemma trim_start_solid: "solid c \<Longrightarrow> trim_start (c # s) = c # s"
  using strip_first_none [of c whitespace_encodings s]
  by (subst trim_start_def, subst strip_while.simps) (simp add: solid_def list_all_iff)

lemma trim_end_solid:
  assumes "solid c"
  shows "trim_end (s @ [c]) = s @ [c]"
proof -
  have "list_all (\<lambda>p. p \<noteq> [] \<longrightarrow> hd p \<noteq> c) (map rev whitespace_encodings)"
    using assms by (auto simp: solid_def list_all_iff hd_rev)
  then show ?thesis
    by (subst trim_end_def, subst strip_while.simps) (simp add: strip_first_none)
qed

lemma trim_solid:
  assumes "list_all solid s"
  shows "trim s = s"
proof (cases s rule: rev_cases)
  case Nil
  then show ?thesis by (simp add: trim_def trim_start_def trim_end_def strip_while.simps
      whitespace_encodings_def)
next
  case (snoc t c)
  with assms have "solid c" "trim_start s = s"
    using trim_start_solid by (cases s; auto simp: snoc)+
  then show ?thesis by (simp add: trim_def snoc trim_end_solid)
qed

lemma to_ascii_lowercase_length [simp]: "length (to_ascii_lowercase s) = length s"
  by (simp add: to_ascii_lowercase_def)

lemma to_ascii_uppercase_length [simp]: "length (to_ascii_uppercase s) = length s"
  by (simp add: to_ascii_uppercase_def)

lemma of_char_lower: "is_ascii_upper c \<Longrightarrow> (of_char (ascii_lower_char c) :: nat) = of_char c + 32"
  by (simp add: ascii_lower_char_def is_ascii_upper_def)

lemma of_char_upper: "is_ascii_lower c \<Longrightarrow> (of_char (ascii_upper_char c) :: nat) = of_char c - 32"
  by (auto simp: ascii_upper_char_def is_ascii_lower_def)

lemma ascii_lower_char_idem [simp]: "ascii_lower_char (ascii_lower_char c) = ascii_lower_char c"
  using of_char_lower [of c] by (auto simp: ascii_lower_char_def is_ascii_upper_def)

lemma ascii_upper_char_idem [simp]: "ascii_upper_char (ascii_upper_char c) = ascii_upper_char c"
  using of_char_upper [of c] by (auto simp: ascii_upper_char_def is_ascii_lower_def)

lemma to_ascii_lowercase_idem [simp]:
  "to_ascii_lowercase (to_ascii_lowercase s) = to_ascii_lowercase s"
  by (simp add: to_ascii_lowercase_def)

lemma to_ascii_uppercase_idem [simp]:
  "to_ascii_uppercase (to_ascii_uppercase s) = to_ascii_uppercase s"
  by (simp add: to_ascii_uppercase_def)

lemma eq_ignore_ascii_case_refl [simp]: "eq_ignore_ascii_case a a"
  by (simp add: eq_ignore_ascii_case_def)

lemma eq_ignore_ascii_case_lower [simp]:
  "eq_ignore_ascii_case (to_ascii_lowercase a) b = eq_ignore_ascii_case a b"
  "eq_ignore_ascii_case a (to_ascii_lowercase b) = eq_ignore_ascii_case a b"
  by (simp_all add: eq_ignore_ascii_case_def)

section \<open>Machines\<close>

text \<open>
  The interface of a component with state: operations applied one after the other, an invariant
  the initial state has and every operation keeps. What follows for runs is proved once here.
\<close>

locale machine =
  fixes init :: "'s" and step :: "'s \<Rightarrow> 'e \<Rightarrow> 's" and inv :: "'s \<Rightarrow> bool"
  assumes inv_init: "inv init"
    and inv_step: "inv s \<Longrightarrow> inv (step s e)"
begin

lemma run_inv: "inv s \<Longrightarrow> inv (foldl step s es)"
  by (induction es arbitrary: s) (auto intro: inv_step)

lemma reach_inv: "inv (foldl step init es)"
  by (rule run_inv) (rule inv_init)

end

end
