(* ===== verification/Config.thy ===== *)
theory Config
  imports Prelude
begin

text \<open>
  The configuration tree and its validation (crates/openrusty-core/src/config.rs and its
  submodules admin, dynamic, egress, ingress, listeners and tls). TOML deserialisation itself is
  serde's; the records below are what it yields, and the \<open>default_*\<close> constants are the values it
  fills in. Name resolution (\<open>to_socket_addrs\<close>) is a parameter of the egress check.
\<close>

section \<open>Errors\<close>

text \<open>One constructor per \<open>ConfigError::Invalid\<close> message, with the values the message shows.\<close>

datatype config_error =
    BadLogLevel | PluginsTimeoutZero | PluginsMemoryZero
  | DynTimeoutZero | DynMemoryZero | DynBodyZero | DynDirEmpty | DynSettingsKey rstr
  | DynRouteMethod rstr | DynRoutePath rstr | DynRouteModule rstr | DynRouteDuplicate rstr rstr
  | ListenerRoleRepeated nat | ListenerAddrRepeated nat | ListenerDetectTimeoutZero nat
  | ListenerTransparentTls nat | ListenerStrayTls nat | ListenerPartialTls nat | ListenerNoCert nat
  | IngressClassEmpty | IngressNamespaceEmpty nat
  | EgressGatewayUnset | EgressGatewayUnresolvable rstr
  | PluginOrderDuplicate rstr
  | RoutesWithoutUpstreams | UpstreamNameEmpty | UpstreamDuplicate rstr | UpstreamNoPeers rstr
  | UpstreamEndpointEmpty rstr nat | UpstreamZeroWeight rstr nat
  | TlsServerNameEmpty rstr | TlsNoTrust rstr | TlsClientPair rstr
  | ActiveIntervalZero rstr | ActiveTimeoutZero rstr | ActiveUnhealthyZero rstr
  | ActiveHealthyZero rstr | ActivePathRelative rstr
  | RoutePathRelative nat | RouteHostEmpty nat | RouteUnknownUpstream nat rstr

section \<open>Data\<close>

datatype fail_policy = FailOpen | FailClosed

datatype balancer_kind = Swrr | IpHash | LeastConn

datatype egress_mode = EgressDirect | EgressGateway | EgressDeny

datatype listener_role = Inbound | Outbound | Admin_Role

record admin_config =
  ad_token :: "rstr option"

definition effective_token :: "admin_config \<Rightarrow> rstr option" where
  "effective_token a =
     (case map_option trim (ad_token a) of
        Some t \<Rightarrow> if t = [] then None else Some t
      | None \<Rightarrow> None)"

record dynamic_route =
  dr_method :: rstr
  dr_path :: rstr
  dr_module :: rstr

record dynamic_config =
  dy_dir :: rstr
  dy_timeout_ms :: u64
  dy_max_memory_mb :: u32
  dy_on_failure :: fail_policy
  dy_max_body_bytes :: u64
  dy_settings :: "(rstr \<times> (rstr \<times> rstr) list) list"
  dy_routes :: "dynamic_route list"

definition default_dynamic_timeout_ms :: u64 where "default_dynamic_timeout_ms = 50"
definition default_dynamic_memory_mb :: u32 where "default_dynamic_memory_mb = 16"
definition default_dynamic_max_body_bytes :: u64 where "default_dynamic_max_body_bytes = 1024 * 1024"

definition dynamic_config_default :: dynamic_config where
  "dynamic_config_default = \<lparr>dy_dir = [], dy_timeout_ms = default_dynamic_timeout_ms,
     dy_max_memory_mb = default_dynamic_memory_mb, dy_on_failure = FailOpen,
     dy_max_body_bytes = default_dynamic_max_body_bytes, dy_settings = [], dy_routes = []\<rparr>"

record egress_config =
  eg_mode :: egress_mode
  eg_gateway :: rstr

record ingress_config =
  ig_enabled :: bool
  ig_ingress_class :: rstr
  ig_kubeconfig :: rstr
  ig_namespaces :: "rstr list"

definition default_ingress_class :: rstr where "default_ingress_class = ''openrusty''"

definition ingress_config_default :: ingress_config where
  "ingress_config_default = \<lparr>ig_enabled = False, ig_ingress_class = default_ingress_class,
     ig_kubeconfig = [], ig_namespaces = []\<rparr>"

definition role_as_str :: "listener_role \<Rightarrow> rstr" where
  "role_as_str r = (case r of Inbound \<Rightarrow> ''inbound'' | Outbound \<Rightarrow> ''outbound'' | Admin_Role \<Rightarrow> ''admin'')"

record listener_config =
  li_role :: listener_role
  li_listen :: socket_addr
  li_http1_only :: bool
  li_transparent :: bool
  li_detect_timeout_ms :: u64
  li_tls :: bool
  li_tls_cert :: "rstr option"
  li_tls_key :: "rstr option"

definition default_detect_timeout_ms :: u64 where "default_detect_timeout_ms = 3000"

record upstream_tls_config =
  tl_server_name :: rstr
  tl_ca_cert :: "rstr option"
  tl_client_cert :: "rstr option"
  tl_client_key :: "rstr option"
  tl_insecure_skip_verify :: bool

record server_config =
  sv_listen :: socket_addr
  sv_log_level :: rstr
  sv_log_file :: "rstr option"
  sv_http1_only :: bool
  sv_listeners :: "listener_config list"
  sv_shutdown_grace_ms :: u64

definition default_log_level :: rstr where "default_log_level = ''warn''"
definition default_shutdown_grace_ms :: u64 where "default_shutdown_grace_ms = 5000"

record plugins_config =
  pl_dir :: rstr
  pl_order :: "rstr list"
  pl_timeout_ms :: u64
  pl_max_memory_mb :: u32
  pl_on_failure :: fail_policy
  pl_settings :: "(rstr \<times> (rstr \<times> rstr) list) list"
  pl_instance_pool_size :: u32
  pl_log_on_no_route :: bool

definition default_timeout_ms :: u64 where "default_timeout_ms = 50"
definition default_max_memory_mb :: u32 where "default_max_memory_mb = 16"
definition default_instance_pool_size :: u32 where "default_instance_pool_size = 1000"
definition default_log_on_no_route :: bool where "default_log_on_no_route = True"

record peer_config =
  pc_addr :: socket_addr
  pc_weight :: u32

definition default_weight :: u32 where "default_weight = 1"

record active_health_config =
  ac_interval_ms :: u64
  ac_timeout_ms :: u64
  ac_path :: rstr
  ac_unhealthy_threshold :: u32
  ac_healthy_threshold :: u32

record health_config =
  hc_max_fails :: u32
  hc_fail_window_s :: u64
  hc_fail_timeout_s :: u64
  hc_active :: "active_health_config option"

definition default_max_fails :: u32 where "default_max_fails = 3"
definition default_fail_window_s :: u64 where "default_fail_window_s = 10"
definition default_fail_timeout_s :: u64 where "default_fail_timeout_s = 10"
definition default_active_interval_ms :: u64 where "default_active_interval_ms = 1000"
definition default_active_timeout_ms :: u64 where "default_active_timeout_ms = 1000"
definition default_active_path :: rstr where "default_active_path = ''/''"
definition default_unhealthy_threshold :: u32 where "default_unhealthy_threshold = 2"
definition default_healthy_threshold :: u32 where "default_healthy_threshold = 2"

definition health_config_default :: health_config where
  "health_config_default = \<lparr>hc_max_fails = default_max_fails,
     hc_fail_window_s = default_fail_window_s, hc_fail_timeout_s = default_fail_timeout_s,
     hc_active = None\<rparr>"

record upstream_config =
  uc_name :: rstr
  uc_balancer :: balancer_kind
  uc_retries :: u32
  uc_retry_on_timeout :: bool
  uc_connect_timeout_ms :: u64
  uc_pool_idle_timeout_ms :: u64
  uc_peers :: "peer_config list"
  uc_endpoints :: "rstr list"
  uc_tls :: "upstream_tls_config option"
  uc_health :: health_config

definition default_connect_timeout_ms :: u64 where "default_connect_timeout_ms = 2000"
definition default_pool_idle_timeout_ms :: u64 where "default_pool_idle_timeout_ms = 60000"

record route_config =
  rt_path_prefix :: rstr
  rt_host :: "rstr option"
  rt_exact :: bool
  rt_upstream :: rstr
  rt_timeout_ms :: u64

record config =
  cf_server :: server_config
  cf_admin :: admin_config
  cf_plugins :: plugins_config
  cf_dynamic :: "dynamic_config option"
  cf_upstreams :: "upstream_config list"
  cf_routes :: "route_config list"
  cf_ingress :: ingress_config
  cf_egress :: egress_config

section \<open>Dynamic routes: names, methods and paths\<close>

definition valid_module_name :: "rstr \<Rightarrow> bool" where
  "valid_module_name name =
     (case name of [] \<Rightarrow> False
      | c # cs \<Rightarrow> is_ascii_alphanumeric c
          \<and> list_all (\<lambda>c. is_ascii_alphanumeric c \<or> c \<in> {CHR ''.'', CHR ''_'', CHR ''-''}) cs)"

definition valid_setting_key :: "rstr \<Rightarrow> bool" where
  "valid_setting_key name = valid_module_name name"

definition MAX_ROUTE_PATH_LEN :: nat where "MAX_ROUTE_PATH_LEN = 1024"

definition is_tchar :: "char \<Rightarrow> bool" where
  "is_tchar b = (is_ascii_alphanumeric b \<or> b \<in> set ''!#$%&*+-.^_`|~'' \<or> b = CHR 0x27)"

definition normalize_method :: "rstr \<Rightarrow> rstr option" where
  "normalize_method method =
     (let m = trim method
      in if m = [] \<or> 32 < length m \<or> \<not> list_all is_tchar m then None
         else Some (to_ascii_uppercase m))"

definition normalize_route_path :: "rstr \<Rightarrow> rstr option" where
  "normalize_route_path path =
     (if \<not> starts_with path ''/'' \<or> MAX_ROUTE_PATH_LEN < length path then None
      else if list_ex (\<lambda>b. is_ascii_control b \<or> b = CHR ''?'' \<or> b = CHR ''#'') path then None
      else Some path)"

text \<open>The base of a binding path: a trailing \<open>/*\<close> removed.\<close>

definition base_path :: "rstr \<Rightarrow> rstr" where
  "base_path path = (case strip_suffix path ''/*'' of Some b \<Rightarrow> b | None \<Rightarrow> path)"

fun validate_dynamic_routes :: "(rstr \<times> rstr) set \<Rightarrow> dynamic_route list \<Rightarrow> config_error option" where
  "validate_dynamic_routes seen [] = None"
| "validate_dynamic_routes seen (r # rs) =
     (case normalize_method (dr_method r) of
        None \<Rightarrow> Some (DynRouteMethod (dr_method r))
      | Some method \<Rightarrow>
          if normalize_route_path (dr_path r) = None then Some (DynRoutePath (dr_path r))
          else if \<not> valid_module_name (dr_module r) then Some (DynRouteModule (dr_module r))
          else if (method, base_path (dr_path r)) \<in> seen
               then Some (DynRouteDuplicate (dr_method r) (dr_path r))
          else validate_dynamic_routes (insert (method, base_path (dr_path r)) seen) rs)"

definition validate_dynamic :: "dynamic_config \<Rightarrow> config_error option" where
  "validate_dynamic d =
     (if dy_timeout_ms d = 0 then Some DynTimeoutZero
      else if dy_max_memory_mb d = 0 then Some DynMemoryZero
      else if dy_max_body_bytes d = 0 then Some DynBodyZero
      else if trim (dy_dir d) = [] then Some DynDirEmpty
      else case first_err (\<lambda>(key, _). if valid_setting_key key then None else Some (DynSettingsKey key))
                  (dy_settings d) of
        Some e \<Rightarrow> Some e
      | None \<Rightarrow> validate_dynamic_routes {} (dy_routes d))"

section \<open>Listeners\<close>

definition effective_listeners :: "config \<Rightarrow> listener_config list" where
  "effective_listeners cfg =
     (if sv_listeners (cf_server cfg) \<noteq> [] then sv_listeners (cf_server cfg)
      else [\<lparr>li_role = Inbound, li_listen = sv_listen (cf_server cfg),
             li_http1_only = sv_http1_only (cf_server cfg), li_transparent = False,
             li_detect_timeout_ms = default_detect_timeout_ms, li_tls = False,
             li_tls_cert = None, li_tls_key = None\<rparr>])"

text \<open>The checks of one listener after the uniqueness tests; \<open>continue\<close> is \<open>None\<close>.\<close>

definition validate_listener_material :: "bool \<Rightarrow> nat \<Rightarrow> listener_config \<Rightarrow> config_error option" where
  "validate_listener_material ingress_enabled i l =
     (if li_transparent l \<and> li_detect_timeout_ms l = 0 then Some (ListenerDetectTimeoutZero i)
      else if li_role l = Outbound then None
      else if li_role l \<noteq> Admin_Role \<and> li_transparent l \<and> li_tls l then Some (ListenerTransparentTls i)
      else if \<not> li_tls l then
        (if li_tls_cert l \<noteq> None \<or> li_tls_key l \<noteq> None then Some (ListenerStrayTls i) else None)
      else
        (let has_static = li_tls_cert l \<noteq> None \<and> li_tls_key l \<noteq> None;
             partial = (li_tls_cert l \<noteq> None) \<noteq> (li_tls_key l \<noteq> None)
         in if \<not> has_static \<and> \<not> ingress_enabled then
              (if partial then Some (ListenerPartialTls i) else Some (ListenerNoCert i))
            else None))"

fun validate_listeners_loop ::
  "bool \<Rightarrow> nat \<Rightarrow> listener_role set \<Rightarrow> socket_addr set \<Rightarrow> listener_config list \<Rightarrow> config_error option"
where
  "validate_listeners_loop ig i roles addrs [] = None"
| "validate_listeners_loop ig i roles addrs (l # ls) =
     (if li_role l \<in> roles then Some (ListenerRoleRepeated i)
      else if li_listen l \<in> addrs then Some (ListenerAddrRepeated i)
      else case validate_listener_material ig i l of
        Some e \<Rightarrow> Some e
      | None \<Rightarrow> validate_listeners_loop ig (Suc i) (insert (li_role l) roles)
                  (insert (li_listen l) addrs) ls)"

definition validate_listeners :: "config \<Rightarrow> config_error option" where
  "validate_listeners cfg =
     (if sv_listeners (cf_server cfg) = [] then None
      else validate_listeners_loop (ig_enabled (cf_ingress cfg)) 0 {} {} (sv_listeners (cf_server cfg)))"

section \<open>Ingress, egress and upstream TLS\<close>

definition validate_ingress :: "ingress_config \<Rightarrow> config_error option" where
  "validate_ingress c =
     (if trim (ig_ingress_class c) = [] then Some IngressClassEmpty
      else first_err (\<lambda>(i, ns). if trim ns = [] then Some (IngressNamespaceEmpty i) else None)
             (List.enumerate 0 (ig_namespaces c)))"

text \<open>
  The resolver maps a \<open>host:port\<close> string to the resolved addresses, \<open>None\<close> when
  \<open>to_socket_addrs\<close> fails; every address is IPv4 or IPv6, so \<open>find\<close> takes the first.
\<close>

type_synonym resolver = "rstr \<Rightarrow> socket_addr list option"

definition resolve_gateway :: "resolver \<Rightarrow> egress_config \<Rightarrow> socket_addr option" where
  "resolve_gateway dns c = Option.bind (dns (eg_gateway c)) (\<lambda>addrs. find (\<lambda>_. True) addrs)"

definition validate_egress :: "resolver \<Rightarrow> egress_config \<Rightarrow> config_error option" where
  "validate_egress dns c =
     (if eg_mode c = EgressGateway then
        (if trim (eg_gateway c) = [] then Some EgressGatewayUnset
         else if resolve_gateway dns c = None then Some (EgressGatewayUnresolvable (eg_gateway c))
         else None)
      else None)"

definition validate_tls :: "rstr \<Rightarrow> upstream_tls_config \<Rightarrow> config_error option" where
  "validate_tls name c =
     (if trim (tl_server_name c) = [] then Some (TlsServerNameEmpty name)
      else if tl_ca_cert c = None \<and> \<not> tl_insecure_skip_verify c then Some (TlsNoTrust name)
      else if (tl_client_cert c \<noteq> None) \<noteq> (tl_client_key c \<noteq> None) then Some (TlsClientPair name)
      else None)"

section \<open>Validation\<close>

definition validate_active :: "rstr \<Rightarrow> active_health_config \<Rightarrow> config_error option" where
  "validate_active name a =
     (if ac_interval_ms a = 0 then Some (ActiveIntervalZero name)
      else if ac_timeout_ms a = 0 then Some (ActiveTimeoutZero name)
      else if ac_unhealthy_threshold a = 0 then Some (ActiveUnhealthyZero name)
      else if ac_healthy_threshold a = 0 then Some (ActiveHealthyZero name)
      else if \<not> starts_with (ac_path a) ''/'' then Some (ActivePathRelative name)
      else None)"

text \<open>
  The body of the upstream loop after the name checks. \<open>orelse\<close> is the sequence of early returns.
\<close>

definition orelse :: "'e option \<Rightarrow> 'e option \<Rightarrow> 'e option" where
  "orelse a b = (case a of Some e \<Rightarrow> Some e | None \<Rightarrow> b)"

definition validate_upstream_body :: "upstream_config \<Rightarrow> config_error option" where
  "validate_upstream_body up =
     (if uc_peers up = [] \<and> uc_endpoints up = [] then Some (UpstreamNoPeers (uc_name up))
      else
        orelse (first_err (\<lambda>(i, ep). if trim ep = [] then Some (UpstreamEndpointEmpty (uc_name up) i) else None)
                  (List.enumerate 0 (uc_endpoints up)))
        (orelse (first_err (\<lambda>(i, p). if pc_weight p = 0 then Some (UpstreamZeroWeight (uc_name up) i) else None)
                  (List.enumerate 0 (uc_peers up)))
        (orelse (case uc_tls up of Some t \<Rightarrow> validate_tls (uc_name up) t | None \<Rightarrow> None)
                (case hc_active (uc_health up) of Some a \<Rightarrow> validate_active (uc_name up) a | None \<Rightarrow> None))))"

fun validate_upstreams :: "rstr set \<Rightarrow> upstream_config list \<Rightarrow> config_error option" where
  "validate_upstreams seen [] = None"
| "validate_upstreams seen (up # ups) =
     (if uc_name up = [] then Some UpstreamNameEmpty
      else if uc_name up \<in> seen then Some (UpstreamDuplicate (uc_name up))
      else orelse (validate_upstream_body up) (validate_upstreams (insert (uc_name up) seen) ups))"

definition validate_route :: "upstream_config list \<Rightarrow> nat \<times> route_config \<Rightarrow> config_error option" where
  "validate_route ups = (\<lambda>(i, r).
     if \<not> starts_with (rt_path_prefix r) ''/'' then Some (RoutePathRelative i)
     else if (case rt_host r of Some h \<Rightarrow> trim h = [] | None \<Rightarrow> False) then Some (RouteHostEmpty i)
     else if \<not> list_ex (\<lambda>u. uc_name u = rt_upstream r) ups then Some (RouteUnknownUpstream i (rt_upstream r))
     else None)"

definition validate_plugin_order :: "rstr list \<Rightarrow> config_error option" where
  "validate_plugin_order ord = map_option PluginOrderDuplicate (first_dup {} ord)"

text \<open>\<open>Ok(())\<close> is \<open>None\<close>, \<open>Err(e)\<close> is \<open>Some e\<close>.\<close>

definition validate :: "resolver \<Rightarrow> config \<Rightarrow> config_error option" where
  "validate dns cfg =
     (if sv_log_level (cf_server cfg) \<notin> {''trace'', ''debug'', ''info'', ''warn'', ''error''} then Some BadLogLevel
      else if pl_timeout_ms (cf_plugins cfg) = 0 then Some PluginsTimeoutZero
      else if pl_max_memory_mb (cf_plugins cfg) = 0 then Some PluginsMemoryZero
      else
        orelse (case cf_dynamic cfg of Some d \<Rightarrow> validate_dynamic d | None \<Rightarrow> None)
        (orelse (validate_listeners cfg)
        (orelse (validate_ingress (cf_ingress cfg))
        (orelse (validate_egress dns (cf_egress cfg))
        (orelse (validate_plugin_order (pl_order (cf_plugins cfg)))
        (if cf_upstreams cfg = [] \<and> cf_routes cfg \<noteq> [] then Some RoutesWithoutUpstreams
         else orelse (validate_upstreams {} (cf_upstreams cfg))
                (first_err (validate_route (cf_upstreams cfg)) (List.enumerate 0 (cf_routes cfg)))))))))"

text \<open>
  \<open>OPENRUSTY_DYNAMIC_DIR\<close>: \<open>None\<close> when the variable is unset or not valid Unicode.
  \<open>load_config\<close> after reading and parsing, both of which are the platform's and serde's.
\<close>

definition apply_dynamic_dir_env :: "rstr option \<Rightarrow> dynamic_config option \<Rightarrow> dynamic_config option" where
  "apply_dynamic_dir_env env dynamic =
     (case env of
        None \<Rightarrow> dynamic
      | Some dir \<Rightarrow>
          if trim dir = [] then dynamic
          else Some (case dynamic of
                 Some d \<Rightarrow> d\<lparr>dy_dir := trim dir\<rparr>
               | None \<Rightarrow> dynamic_config_default\<lparr>dy_dir := trim dir\<rparr>))"

definition load_config :: "resolver \<Rightarrow> rstr option \<Rightarrow> config \<Rightarrow> config_error + config" where
  "load_config dns env parsed =
     (let cfg = parsed\<lparr>cf_dynamic := apply_dynamic_dir_env env (cf_dynamic parsed)\<rparr>
      in case validate dns cfg of Some e \<Rightarrow> Inl e | None \<Rightarrow> Inr cfg)"

section \<open>The declarative specification of a valid configuration\<close>

definition ok_dynamic :: "dynamic_config \<Rightarrow> bool" where
  "ok_dynamic d \<longleftrightarrow> dy_timeout_ms d \<noteq> 0 \<and> dy_max_memory_mb d \<noteq> 0 \<and> dy_max_body_bytes d \<noteq> 0
     \<and> trim (dy_dir d) \<noteq> []
     \<and> (\<forall>(k, _) \<in> set (dy_settings d). valid_module_name k)
     \<and> (\<forall>r \<in> set (dy_routes d). normalize_method (dr_method r) \<noteq> None
          \<and> normalize_route_path (dr_path r) \<noteq> None \<and> valid_module_name (dr_module r))
     \<and> distinct (map (\<lambda>r. (normalize_method (dr_method r), base_path (dr_path r))) (dy_routes d))"

definition ok_listener :: "bool \<Rightarrow> listener_config \<Rightarrow> bool" where
  "ok_listener ig l \<longleftrightarrow>
     (li_transparent l \<longrightarrow> li_detect_timeout_ms l \<noteq> 0)
     \<and> (li_role l = Inbound \<longrightarrow> \<not> (li_transparent l \<and> li_tls l))
     \<and> (li_role l \<noteq> Outbound \<longrightarrow>
          (\<not> li_tls l \<longrightarrow> li_tls_cert l = None \<and> li_tls_key l = None)
          \<and> (li_tls l \<longrightarrow> ig \<or> (li_tls_cert l \<noteq> None \<and> li_tls_key l \<noteq> None)))"

definition ok_tls :: "upstream_tls_config \<Rightarrow> bool" where
  "ok_tls t \<longleftrightarrow> trim (tl_server_name t) \<noteq> []
     \<and> (tl_ca_cert t \<noteq> None \<or> tl_insecure_skip_verify t)
     \<and> (tl_client_cert t = None \<longleftrightarrow> tl_client_key t = None)"

definition ok_active :: "active_health_config \<Rightarrow> bool" where
  "ok_active a \<longleftrightarrow> ac_interval_ms a \<noteq> 0 \<and> ac_timeout_ms a \<noteq> 0 \<and> ac_unhealthy_threshold a \<noteq> 0
     \<and> ac_healthy_threshold a \<noteq> 0 \<and> starts_with (ac_path a) ''/''"

definition ok_upstream :: "upstream_config \<Rightarrow> bool" where
  "ok_upstream u \<longleftrightarrow> (uc_peers u \<noteq> [] \<or> uc_endpoints u \<noteq> [])
     \<and> (\<forall>ep \<in> set (uc_endpoints u). trim ep \<noteq> [])
     \<and> (\<forall>p \<in> set (uc_peers u). pc_weight p \<noteq> 0)
     \<and> (\<forall>t \<in> set_option (uc_tls u). ok_tls t)
     \<and> (\<forall>a \<in> set_option (hc_active (uc_health u)). ok_active a)"

definition ok_route :: "upstream_config list \<Rightarrow> route_config \<Rightarrow> bool" where
  "ok_route ups r \<longleftrightarrow> starts_with (rt_path_prefix r) ''/''
     \<and> (\<forall>h \<in> set_option (rt_host r). trim h \<noteq> []) \<and> rt_upstream r \<in> uc_name ` set ups"

definition ok_config :: "resolver \<Rightarrow> config \<Rightarrow> bool" where
  "ok_config dns cfg \<longleftrightarrow>
     sv_log_level (cf_server cfg) \<in> {''trace'', ''debug'', ''info'', ''warn'', ''error''}
     \<and> pl_timeout_ms (cf_plugins cfg) \<noteq> 0 \<and> pl_max_memory_mb (cf_plugins cfg) \<noteq> 0
     \<and> (\<forall>d \<in> set_option (cf_dynamic cfg). ok_dynamic d)
     \<and> distinct (map li_role (sv_listeners (cf_server cfg)))
     \<and> distinct (map li_listen (sv_listeners (cf_server cfg)))
     \<and> (\<forall>l \<in> set (sv_listeners (cf_server cfg)). ok_listener (ig_enabled (cf_ingress cfg)) l)
     \<and> trim (ig_ingress_class (cf_ingress cfg)) \<noteq> []
     \<and> (\<forall>ns \<in> set (ig_namespaces (cf_ingress cfg)). trim ns \<noteq> [])
     \<and> (eg_mode (cf_egress cfg) = EgressGateway \<longrightarrow>
          trim (eg_gateway (cf_egress cfg)) \<noteq> [] \<and> resolve_gateway dns (cf_egress cfg) \<noteq> None)
     \<and> distinct (pl_order (cf_plugins cfg))
     \<and> distinct (map uc_name (cf_upstreams cfg))
     \<and> (\<forall>u \<in> set (cf_upstreams cfg). uc_name u \<noteq> [] \<and> ok_upstream u)
     \<and> (\<forall>r \<in> set (cf_routes cfg). ok_route (cf_upstreams cfg) r)"

section \<open>Lemmas\<close>

lemma orelse_None [simp]: "orelse a b = None \<longleftrightarrow> a = None \<and> b = None"
  by (simp add: orelse_def split: option.split)

lemma ball_enumerate [simp]: "(\<forall>x \<in> set (List.enumerate n xs). P (snd x)) \<longleftrightarrow> (\<forall>x \<in> set xs. P x)"
  by (metis (no_types, lifting) image_iff list.set_map map_snd_enumerate)

lemma first_err_enumerate:
  "first_err (\<lambda>(i, x). if Q x then Some (e i) else None) (List.enumerate n xs) = None
     \<longleftrightarrow> (\<forall>x \<in> set xs. \<not> Q x)"
  using ball_enumerate [of n xs "\<lambda>x. \<not> Q x"] by (auto simp: split_def)

lemma validate_dynamic_routes_None:
  "validate_dynamic_routes seen rs = None \<longleftrightarrow>
     (\<forall>r \<in> set rs. normalize_method (dr_method r) \<noteq> None \<and> normalize_route_path (dr_path r) \<noteq> None
        \<and> valid_module_name (dr_module r)
        \<and> (the (normalize_method (dr_method r)), base_path (dr_path r)) \<notin> seen)
     \<and> distinct (map (\<lambda>r. (normalize_method (dr_method r), base_path (dr_path r))) rs)"
proof (induction rs arbitrary: seen)
  case (Cons r rs)
  show ?case
  proof (cases "normalize_method (dr_method r)")
    case (Some m)
    then show ?thesis
      by (auto simp: Cons.IH)
  qed simp
qed simp

lemma dynamic_settings_None:
  "first_err (\<lambda>(k, _). if valid_setting_key k then None else Some (DynSettingsKey k)) ss = None
     \<longleftrightarrow> (\<forall>(k, _) \<in> set ss. valid_module_name k)"
  by (induction ss) (auto simp: valid_setting_key_def simp del: first_err_None
      split: option.splits if_splits)

lemma validate_dynamic_None: "validate_dynamic d = None \<longleftrightarrow> ok_dynamic d"
  using dynamic_settings_None [of "dy_settings d"]
  by (auto simp: validate_dynamic_def ok_dynamic_def validate_dynamic_routes_None
      simp del: first_err_None split: option.splits)

lemma validate_listener_material_None:
  "validate_listener_material ig i l = None \<longleftrightarrow> ok_listener ig l"
  by (cases "li_role l") (auto simp: validate_listener_material_def ok_listener_def Let_def)

lemma validate_listeners_loop_None:
  "validate_listeners_loop ig i roles addrs ls = None \<longleftrightarrow>
     distinct (map li_role ls) \<and> distinct (map li_listen ls)
     \<and> (\<forall>l \<in> set ls. li_role l \<notin> roles \<and> li_listen l \<notin> addrs \<and> ok_listener ig l)"
proof (induction ls arbitrary: i roles addrs)
  case (Cons l ls)
  then show ?case
    using validate_listener_material_None [of ig i l]
    by (cases "validate_listener_material ig i l") (auto simp: image_iff)
qed simp

lemma validate_listeners_None:
  "validate_listeners cfg = None \<longleftrightarrow>
     distinct (map li_role (sv_listeners (cf_server cfg)))
     \<and> distinct (map li_listen (sv_listeners (cf_server cfg)))
     \<and> (\<forall>l \<in> set (sv_listeners (cf_server cfg)). ok_listener (ig_enabled (cf_ingress cfg)) l)"
  by (simp add: validate_listeners_def validate_listeners_loop_None)

lemma validate_tls_None: "validate_tls n t = None \<longleftrightarrow> ok_tls t"
  by (auto simp: validate_tls_def ok_tls_def)

lemma validate_active_None: "validate_active n a = None \<longleftrightarrow> ok_active a"
  by (auto simp: validate_active_def ok_active_def)

lemma validate_upstream_body_None: "validate_upstream_body u = None \<longleftrightarrow> ok_upstream u"
  by (auto simp: validate_upstream_body_def ok_upstream_def first_err_enumerate validate_tls_None
      validate_active_None simp del: first_err_None split: option.splits)

lemma validate_upstreams_None:
  "validate_upstreams seen ups = None \<longleftrightarrow>
     distinct (map uc_name ups)
     \<and> (\<forall>u \<in> set ups. uc_name u \<notin> seen \<and> uc_name u \<noteq> [] \<and> ok_upstream u)"
  by (induction ups arbitrary: seen) (auto simp: validate_upstream_body_None image_iff)

lemma validate_route_None: "validate_route ups (i, r) = None \<longleftrightarrow> ok_route ups r"
proof -
  have "list_ex (\<lambda>u. uc_name u = rt_upstream r) ups \<longleftrightarrow> rt_upstream r \<in> uc_name ` set ups"
    by (force simp: list_ex_iff)
  then show ?thesis
    by (auto simp: validate_route_def ok_route_def split: option.splits)
qed

lemma validate_routes_None:
  "first_err (validate_route ups) (List.enumerate n rs) = None \<longleftrightarrow> (\<forall>r \<in> set rs. ok_route ups r)"
proof -
  have "validate_route ups x = None \<longleftrightarrow> ok_route ups (snd x)" for x
    by (cases x) (simp add: validate_route_None)
  then show ?thesis by simp
qed

lemma validate_ingress_None:
  "validate_ingress c = None \<longleftrightarrow>
     trim (ig_ingress_class c) \<noteq> [] \<and> (\<forall>ns \<in> set (ig_namespaces c). trim ns \<noteq> [])"
  by (simp add: validate_ingress_def first_err_enumerate del: first_err_None)

lemma validate_egress_None:
  "validate_egress dns c = None \<longleftrightarrow>
     (eg_mode c = EgressGateway \<longrightarrow> trim (eg_gateway c) \<noteq> [] \<and> resolve_gateway dns c \<noteq> None)"
  by (simp add: validate_egress_def)

lemma validate_plugin_order_None: "validate_plugin_order ord = None \<longleftrightarrow> distinct ord"
  by (simp add: validate_plugin_order_def first_dup_None)

lemmas validate_None_simps =
  validate_dynamic_None validate_listeners_None validate_ingress_None validate_egress_None
  validate_plugin_order_None validate_upstreams_None validate_routes_None

lemma validate_None: "validate dns cfg = None \<longleftrightarrow> ok_config dns cfg"
proof -
  have "(case cf_dynamic cfg of Some d \<Rightarrow> validate_dynamic d | None \<Rightarrow> None) = None
      \<longleftrightarrow> (\<forall>d \<in> set_option (cf_dynamic cfg). ok_dynamic d)"
    by (auto simp: validate_dynamic_None split: option.splits)
  moreover have "cf_upstreams cfg = [] \<Longrightarrow> (\<forall>r \<in> set (cf_routes cfg). ok_route (cf_upstreams cfg) r)
      \<longleftrightarrow> cf_routes cfg = []"
    by (auto simp: ok_route_def)
  ultimately show ?thesis
    by (auto simp: validate_def ok_config_def validate_None_simps simp del: first_err_None)
qed

section \<open>Properties\<close>

text \<open>
  C6: validation is sound and complete. \<open>load_config\<close> returns a configuration exactly when the
  parsed one, with the dynamic directory taken from the environment, satisfies the declarative
  specification \<open>ok_config\<close> (unique upstream names, plugin order, listener roles and addresses and
  dynamic bindings, positive weights and timeouts, absolute paths, routes that name an existing
  upstream, complete TLS material, a resolvable egress gateway); and what it returns is that
  configuration, otherwise unchanged.
\<close>

theorem load_config_iff:
  "load_config dns env parsed = Inr cfg \<longleftrightarrow>
     cfg = parsed\<lparr>cf_dynamic := apply_dynamic_dir_env env (cf_dynamic parsed)\<rparr> \<and> ok_config dns cfg"
  by (auto simp: load_config_def Let_def validate_None [symmetric] split: option.splits)

end
