(* ===== verification/Upstream.thy ===== *)
theory Upstream
  imports Config
begin

text \<open>
  Upstream snapshots and header hygiene (\<open>crates/openrusty-proxy/src/upstream.rs\<close>), the outbound
  TLS material (\<open>tls/mod.rs\<close>) and the pool of clients (\<open>client.rs\<close>). Reading files, PEM parsing and
  rustls are parameters (\<open>tls_lib\<close>); a client is modelled by what it is built from.
\<close>

section \<open>TLS material (tls/mod.rs)\<close>

record tls_client_key =
  tk_server_name :: rstr
  tk_ca_cert :: "rstr option"
  tk_client_cert :: "rstr option"
  tk_client_key :: "rstr option"
  tk_insecure_skip_verify :: bool

definition tls_client_key_from_config :: "upstream_tls_config \<Rightarrow> tls_client_key" where
  "tls_client_key_from_config cfg = \<lparr>tk_server_name = tl_server_name cfg, tk_ca_cert = tl_ca_cert cfg,
     tk_client_cert = tl_client_cert cfg, tk_client_key = tl_client_key cfg,
     tk_insecure_skip_verify = tl_insecure_skip_verify cfg\<rparr>"

text \<open>
  The rustls client configuration: who vouches for the server, the identity presented, and the
  protocols offered.
\<close>

datatype 'cert verifier = Roots "'cert list" | AcceptAnyServerCert

record ('cert, 'sk) client_config =
  cc_verifier :: "'cert verifier"
  cc_identity :: "('cert list \<times> 'sk) option"
  cc_alpn :: "rstr list"

record ('cert, 'sk) upstream_tls =
  ut_server_name :: rstr
  ut_key :: tls_client_key
  ut_config :: "('cert, 'sk) client_config"

text \<open>
  What the code calls outside this repository: \<open>std::fs::read\<close>, the PEM parsers, the protocol
  version check, \<open>RootCertStore::add\<close> (an error or nothing) and the signing-key constructor.
\<close>

record ('cert, 'key, 'sk) tls_lib =
  tb_read :: "rstr \<Rightarrow> rstr + rstr"
  tb_certs :: "rstr \<Rightarrow> rstr + 'cert list"
  tb_private_key :: "rstr \<Rightarrow> rstr + 'key option"
  tb_versions :: "rstr option"
  tb_add_root :: "'cert \<Rightarrow> rstr option"
  tb_signing :: "'key \<Rightarrow> rstr + 'sk"

text \<open>One constructor per message of \<open>tls::build\<close>.\<close>

datatype tls_error =
    NoProtocolVersion rstr | CannotRead rstr rstr rstr | UnparsablePem rstr rstr | NoPrivateKey rstr
  | NoCertificates rstr rstr | RejectedCa rstr rstr | NoTrustConfigured
  | UnsupportedKey rstr rstr | UnpairedClient

definition read_pem :: "('cert, 'key, 'sk) tls_lib \<Rightarrow> rstr \<Rightarrow> rstr \<Rightarrow> tls_error + rstr" where
  "read_pem L path what = map_err (CannotRead what path) (tb_read L path)"

definition parse_certs :: "('cert, 'key, 'sk) tls_lib \<Rightarrow> rstr \<Rightarrow> rstr \<Rightarrow> tls_error + 'cert list" where
  "parse_certs L pem what = map_err (UnparsablePem what) (tb_certs L pem)"

definition parse_key :: "('cert, 'key, 'sk) tls_lib \<Rightarrow> rstr \<Rightarrow> rstr \<Rightarrow> tls_error + 'key" where
  "parse_key L pem what =
     and_then (map_err (UnparsablePem what) (tb_private_key L pem))
       (\<lambda>k. case k of Some key \<Rightarrow> Inr key | None \<Rightarrow> Inl (NoPrivateKey what))"

definition build_trust ::
  "('cert, 'key, 'sk) tls_lib \<Rightarrow> upstream_tls_config \<Rightarrow> tls_error + 'cert verifier" where
  "build_trust L cfg =
     (case (tl_ca_cert cfg, tl_insecure_skip_verify cfg) of
        (Some path, _) \<Rightarrow>
          and_then (read_pem L path ''ca_cert'') (\<lambda>pem.
          and_then (parse_certs L pem ''ca_cert'') (\<lambda>certs.
            if certs = [] then Inl (NoCertificates ''ca_cert'' path)
            else case first_err (tb_add_root L) certs of
                   Some e \<Rightarrow> Inl (RejectedCa path e)
                 | None \<Rightarrow> Inr (Roots certs)))
      | (None, True) \<Rightarrow> Inr AcceptAnyServerCert
      | (None, False) \<Rightarrow> Inl NoTrustConfigured)"

definition build_identity ::
  "('cert, 'key, 'sk) tls_lib \<Rightarrow> upstream_tls_config \<Rightarrow> tls_error + ('cert list \<times> 'sk) option" where
  "build_identity L cfg =
     (case (tl_client_cert cfg, tl_client_key cfg) of
        (Some cert_path, Some key_path) \<Rightarrow>
          and_then (read_pem L cert_path ''client_cert'') (\<lambda>pem.
          and_then (parse_certs L pem ''client_cert'') (\<lambda>certs.
            if certs = [] then Inl (NoCertificates ''client_cert'' cert_path)
            else
              and_then (read_pem L key_path ''client_key'') (\<lambda>key_pem.
              and_then (parse_key L key_pem ''client_key'') (\<lambda>key.
              and_then (map_err (UnsupportedKey key_path) (tb_signing L key)) (\<lambda>signing.
                Inr (Some (certs, signing)))))))
      | (None, None) \<Rightarrow> Inr None
      | _ \<Rightarrow> Inl UnpairedClient)"

definition build_tls ::
  "('cert, 'key, 'sk) tls_lib \<Rightarrow> upstream_tls_config \<Rightarrow> tls_error + ('cert, 'sk) upstream_tls" where
  "build_tls L cfg =
     (let key = tls_client_key_from_config cfg in
      case tb_versions L of
        Some e \<Rightarrow> Inl (NoProtocolVersion e)
      | None \<Rightarrow>
          and_then (build_trust L cfg) (\<lambda>v.
          and_then (build_identity L cfg) (\<lambda>i.
            Inr \<lparr>ut_server_name = tl_server_name cfg, ut_key = key,
                 ut_config = \<lparr>cc_verifier = v, cc_identity = i, cc_alpn = [''http/1.1'']\<rparr>\<rparr>)))"

section \<open>Upstream snapshots (upstream.rs)\<close>

record peer =
  pr_addr :: socket_addr
  pr_weight :: u32

text \<open>Durations are kept in milliseconds, as they are configured.\<close>

record ('cert, 'sk) upstream =
  up_name :: rstr
  up_kind :: balancer_kind
  up_retries :: u32
  up_retry_on_timeout :: bool
  up_connect_timeout :: u64
  up_pool_idle_timeout :: u64
  up_peers :: "peer list"
  up_tls :: "('cert, 'sk) upstream_tls option"
  up_health :: health_config

definition upstream_from_config ::
  "upstream_config \<Rightarrow> ('cert, 'sk) upstream_tls option \<Rightarrow> ('cert, 'sk) upstream" where
  "upstream_from_config cfg tls = \<lparr>up_name = uc_name cfg, up_kind = uc_balancer cfg,
     up_retries = uc_retries cfg, up_retry_on_timeout = uc_retry_on_timeout cfg,
     up_connect_timeout = uc_connect_timeout_ms cfg,
     up_pool_idle_timeout = uc_pool_idle_timeout_ms cfg,
     up_peers = map (\<lambda>p. \<lparr>pr_addr = pc_addr p, pr_weight = pc_weight p\<rparr>) (uc_peers cfg),
     up_tls = tls, up_health = uc_health cfg\<rparr>"

definition HOP_BY_HOP :: "rstr list" where
  "HOP_BY_HOP = [''connection'', ''keep-alive'', ''proxy-authenticate'', ''proxy-authorization'',
     ''te'', ''trailer'', ''upgrade'', ''transfer-encoding'']"

definition is_hop_by_hop :: "rstr \<Rightarrow> bool" where
  "is_hop_by_hop name = list_ex (\<lambda>h. eq_ignore_ascii_case h (trim name)) HOP_BY_HOP"

definition strip_hop_by_hop :: "header list \<Rightarrow> header list" where
  "strip_hop_by_hop headers = filter (\<lambda>(name, _). \<not> is_hop_by_hop name) headers"

definition header_value :: "header list \<Rightarrow> rstr \<Rightarrow> rstr option" where
  "header_value headers name = map_option snd (find (\<lambda>(k, _). eq_ignore_ascii_case k name) headers)"

definition tokens :: "rstr \<Rightarrow> rstr list" where
  "tokens value = map (\<lambda>t. to_ascii_lowercase (trim t)) (split_on CHR '','' value)"

definition is_websocket_upgrade :: "rstr \<Rightarrow> header list \<Rightarrow> bool" where
  "is_websocket_upgrade method headers =
     (eq_ignore_ascii_case method ''GET''
      \<and> (let conn_upgrade =
               (case header_value headers ''connection'' of
                  Some v \<Rightarrow> list_ex (\<lambda>t. t = ''upgrade'') (tokens v) | None \<Rightarrow> False);
             ws = (case header_value headers ''upgrade'' of
                     Some v \<Rightarrow> list_ex (\<lambda>t. trim (hd (split_on CHR '';'' t)) = ''websocket'') (tokens v)
                   | None \<Rightarrow> False)
         in conn_upgrade \<and> ws))"

section \<open>Client pool (client.rs)\<close>

record http_client =
  hk_connect_timeout :: u64
  hk_idle_timeout :: u64

record ('cert, 'sk) https_client =
  sk_addr :: socket_addr
  sk_server_name :: rstr
  sk_config :: "('cert, 'sk) client_config"
  sk_connect_timeout :: u64
  sk_idle_timeout :: u64

datatype pool_key = PoolHttp socket_addr | PoolHttps socket_addr tls_client_key

record ('cert, 'sk) client_pool =
  po_http :: "socket_addr \<rightharpoonup> http_client"
  po_https :: "socket_addr \<times> tls_client_key \<rightharpoonup> ('cert, 'sk) https_client"

definition new_pool :: "('cert, 'sk) client_pool" where
  "new_pool = \<lparr>po_http = Map.empty, po_https = Map.empty\<rparr>"

definition build_client :: "u64 \<Rightarrow> u64 \<Rightarrow> http_client" where
  "build_client connect_timeout idle_timeout =
     \<lparr>hk_connect_timeout = connect_timeout, hk_idle_timeout = idle_timeout\<rparr>"

text \<open>
  \<open>ServerName::try_from\<close> is rustls'; its verdict on a name is the parameter \<open>valid\<close>, and a refusal
  is the panic of \<open>expect("validated server name")\<close>.
\<close>

definition build_tls_client ::
  "(rstr \<Rightarrow> bool) \<Rightarrow> socket_addr \<Rightarrow> ('cert, 'sk) upstream_tls \<Rightarrow> u64 \<Rightarrow> u64 \<Rightarrow> ('cert, 'sk) https_client rust" where
  "build_tls_client valid addr tls connect_timeout idle_timeout =
     (if valid (ut_server_name tls)
      then Return \<lparr>sk_addr = addr, sk_server_name = ut_server_name tls, sk_config = ut_config tls,
                   sk_connect_timeout = connect_timeout, sk_idle_timeout = idle_timeout\<rparr>
      else Panic)"

definition get ::
  "('cert, 'sk) client_pool \<Rightarrow> socket_addr \<Rightarrow> u64 \<Rightarrow> u64 \<Rightarrow> ('cert, 'sk) client_pool \<times> http_client" where
  "get pool addr connect_timeout idle_timeout =
     (case po_http pool addr of
        Some existing \<Rightarrow> (pool, existing)
      | None \<Rightarrow>
          let client = build_client connect_timeout idle_timeout
          in (pool\<lparr>po_http := (po_http pool)(addr \<mapsto> client)\<rparr>, client))"

definition get_tls ::
  "(rstr \<Rightarrow> bool) \<Rightarrow> ('cert, 'sk) client_pool \<Rightarrow> socket_addr \<Rightarrow> ('cert, 'sk) upstream_tls \<Rightarrow> u64 \<Rightarrow> u64
   \<Rightarrow> (('cert, 'sk) client_pool \<times> ('cert, 'sk) https_client) rust" where
  "get_tls valid pool addr tls connect_timeout idle_timeout =
     (let key = (addr, ut_key tls) in
      case po_https pool key of
        Some existing \<Rightarrow> Return (pool, existing)
      | None \<Rightarrow>
          rust_map (\<lambda>client. (pool\<lparr>po_https := (po_https pool)(key \<mapsto> client)\<rparr>, client))
            (build_tls_client valid addr tls connect_timeout idle_timeout))"

fun http_key :: "pool_key \<Rightarrow> socket_addr option" where
  "http_key (PoolHttp addr) = Some addr"
| "http_key (PoolHttps _ _) = None"

definition evict_except :: "('cert, 'sk) client_pool \<Rightarrow> pool_key list \<Rightarrow> ('cert, 'sk) client_pool" where
  "evict_except pool keep =
     (let keep_http = List.map_filter http_key keep in
      pool\<lparr>po_http := (\<lambda>addr. if addr \<in> set keep_http then po_http pool addr else None),
           po_https := (\<lambda>(addr, tls_key).
             if list_ex (\<lambda>k. case k of PoolHttps a t \<Rightarrow> a = addr \<and> t = tls_key | PoolHttp _ \<Rightarrow> False) keep
             then po_https pool (addr, tls_key) else None)\<rparr>)"

section \<open>Header lemmas\<close>

lemma HOP_BY_HOP_graphic: "list_all (list_all graphic) HOP_BY_HOP"
  by (simp add: HOP_BY_HOP_def graphic_def)

lemma solid_case_variant:
  assumes "to_ascii_lowercase s \<in> set HOP_BY_HOP"
  shows "list_all solid s"
proof -
  have "list_all graphic (to_ascii_lowercase s)"
    using assms HOP_BY_HOP_graphic by (simp add: list_all_iff)
  then show ?thesis by (rule solid_of_lower)
qed

lemma HOP_BY_HOP_lower: "h \<in> set HOP_BY_HOP \<Longrightarrow> to_ascii_lowercase h = h"
proof -
  have "list_all (\<lambda>h. to_ascii_lowercase h = h) HOP_BY_HOP"
    by (simp add: HOP_BY_HOP_def to_ascii_lowercase_def ascii_lower_char_def is_ascii_upper_def)
  then show "h \<in> set HOP_BY_HOP \<Longrightarrow> to_ascii_lowercase h = h" by (simp add: list_all_iff)
qed

text \<open>A case variant of a listed name is recognised; blanks around it do not hide it.\<close>

lemma is_hop_by_hop_lower: "to_ascii_lowercase s \<in> set HOP_BY_HOP \<Longrightarrow> is_hop_by_hop s"
  using trim_solid [OF solid_case_variant] HOP_BY_HOP_lower
  by (fastforce simp: is_hop_by_hop_def list_ex_iff eq_ignore_ascii_case_def)

lemma strip_hop_by_hop_none: "(k, v) \<in> set (strip_hop_by_hop hs) \<Longrightarrow> to_ascii_lowercase k \<notin> set HOP_BY_HOP"
  using is_hop_by_hop_lower by (auto simp: strip_hop_by_hop_def)

lemma strip_hop_by_hop_idem [simp]: "strip_hop_by_hop (strip_hop_by_hop hs) = strip_hop_by_hop hs"
  by (simp add: strip_hop_by_hop_def)

section \<open>TLS lemmas\<close>

lemma build_trust_Inr:
  assumes "build_trust L cfg = Inr v"
  shows "v = AcceptAnyServerCert \<and> tl_ca_cert cfg = None \<and> tl_insecure_skip_verify cfg
       \<or> (\<exists>path pem certs. tl_ca_cert cfg = Some path \<and> tb_read L path = Inr pem \<and> tb_certs L pem = Inr certs
            \<and> certs \<noteq> [] \<and> (\<forall>c \<in> set certs. tb_add_root L c = None) \<and> v = Roots certs)"
  using assms
  by (auto simp: build_trust_def read_pem_def parse_certs_def split: option.splits bool.splits if_splits)

lemma build_identity_Inr:
  assumes "build_identity L cfg = Inr i"
  shows "(i = None \<longleftrightarrow> tl_client_cert cfg = None) \<and> (i = None \<longleftrightarrow> tl_client_key cfg = None)"
  using assms by (auto simp: build_identity_def split: option.splits if_splits)

lemma build_tls_Inr:
  "build_tls L cfg = Inr t \<longleftrightarrow>
     tb_versions L = None
     \<and> (\<exists>v i. build_trust L cfg = Inr v \<and> build_identity L cfg = Inr i
          \<and> t = \<lparr>ut_server_name = tl_server_name cfg, ut_key = tls_client_key_from_config cfg,
                 ut_config = \<lparr>cc_verifier = v, cc_identity = i, cc_alpn = [''http/1.1'']\<rparr>\<rparr>)"
  by (auto simp: build_tls_def Let_def split: option.splits)

lemma build_trust_Inl: "ok_tls cfg \<Longrightarrow> build_trust L cfg \<noteq> Inl NoTrustConfigured"
  by (auto simp: build_trust_def ok_tls_def read_pem_def parse_certs_def and_then_Inl
      split: option.splits bool.splits if_splits)

lemma build_trust_unpaired: "build_trust L cfg \<noteq> Inl UnpairedClient"
  by (auto simp: build_trust_def read_pem_def parse_certs_def and_then_Inl
      split: option.splits bool.splits if_splits)

lemma build_identity_Inl:
  "ok_tls cfg \<Longrightarrow> build_identity L cfg \<noteq> Inl UnpairedClient" "build_identity L cfg \<noteq> Inl NoTrustConfigured"
  by (auto simp: build_identity_def ok_tls_def read_pem_def parse_certs_def parse_key_def and_then_Inl
      split: option.splits if_splits)

lemma build_tls_honours:
  assumes "build_tls L cfg = Inr t"
  shows "ut_key t = tls_client_key_from_config cfg \<and> ut_server_name t = tl_server_name cfg
      \<and> cc_alpn (ut_config t) = [''http/1.1'']
      \<and> (cc_verifier (ut_config t) = AcceptAnyServerCert \<longleftrightarrow> tl_ca_cert cfg = None)
      \<and> (tl_ca_cert cfg = None \<longrightarrow> tl_insecure_skip_verify cfg)
      \<and> (\<forall>path. tl_ca_cert cfg = Some path \<longrightarrow>
           (\<exists>pem certs. tb_read L path = Inr pem \<and> tb_certs L pem = Inr certs \<and> certs \<noteq> []
              \<and> (\<forall>c \<in> set certs. tb_add_root L c = None) \<and> cc_verifier (ut_config t) = Roots certs))
      \<and> (cc_identity (ut_config t) \<noteq> None \<longleftrightarrow> tl_client_cert cfg \<noteq> None \<and> tl_client_key cfg \<noteq> None)"
proof -
  obtain v i where b: "build_trust L cfg = Inr v" "build_identity L cfg = Inr i"
    and t: "t = \<lparr>ut_server_name = tl_server_name cfg, ut_key = tls_client_key_from_config cfg,
       ut_config = \<lparr>cc_verifier = v, cc_identity = i, cc_alpn = [''http/1.1'']\<rparr>\<rparr>"
    using assms by (auto simp: build_tls_Inr)
  show ?thesis
    using build_trust_Inr [OF b(1)] build_identity_Inr [OF b(2)] by (auto simp: t)
qed

section \<open>The pool as a machine\<close>

datatype pool_op =
    PoolGet socket_addr u64 u64
  | PoolGetTls socket_addr upstream_tls_config u64 u64
  | PoolEvict "pool_key list"

text \<open>
  A TLS client is always requested with material built from its section; a refused section or a
  panic while building leaves the pool as it was.
\<close>

fun pool_step ::
  "('cert, 'key, 'sk) tls_lib \<Rightarrow> (rstr \<Rightarrow> bool) \<Rightarrow> ('cert, 'sk) client_pool \<Rightarrow> pool_op \<Rightarrow> ('cert, 'sk) client_pool" where
  "pool_step L valid p (PoolGet addr ct it) = fst (get p addr ct it)"
| "pool_step L valid p (PoolGetTls addr cfg ct it) =
     (case build_tls L cfg of
        Inl _ \<Rightarrow> p
      | Inr tls \<Rightarrow> (case get_tls valid p addr tls ct it of Panic \<Rightarrow> p | Return (p', _) \<Rightarrow> p'))"
| "pool_step L valid p (PoolEvict keep) = evict_except p keep"

text \<open>A pooled TLS client dials the address and honours the demands of the key it is stored under.\<close>

definition client_fits :: "socket_addr \<times> tls_client_key \<Rightarrow> ('cert, 'sk) https_client \<Rightarrow> bool" where
  "client_fits k c =
     (sk_addr c = fst k \<and> sk_server_name c = tk_server_name (snd k)
      \<and> (cc_verifier (sk_config c) = AcceptAnyServerCert
           \<longleftrightarrow> tk_ca_cert (snd k) = None \<and> tk_insecure_skip_verify (snd k))
      \<and> (cc_identity (sk_config c) = None \<longleftrightarrow> tk_client_cert (snd k) = None)
      \<and> cc_alpn (sk_config c) = [''http/1.1''])"

definition pool_inv :: "('cert, 'sk) client_pool \<Rightarrow> bool" where
  "pool_inv p \<longleftrightarrow> (\<forall>k c. po_https p k = Some c \<longrightarrow> client_fits k c)"

lemma built_client_fits:
  assumes "build_tls L cfg = Inr tls" "build_tls_client valid addr tls ct it = Return c"
  shows "client_fits (addr, ut_key tls) c"
  using assms build_trust_Inr [of L cfg] build_identity_Inr [of L cfg]
  by (fastforce simp: build_tls_Inr build_tls_client_def client_fits_def tls_client_key_from_config_def
      split: if_splits)

lemma pool_inv_get_tls:
  assumes "pool_inv p" "build_tls L cfg = Inr tls" "get_tls valid p addr tls ct it = Return (p', c)"
  shows "pool_inv p' \<and> client_fits (addr, ut_key tls) c"
  using assms built_client_fits [OF assms(2), of valid addr ct it]
  by (auto simp: get_tls_def pool_inv_def Let_def split: option.splits)

lemma pool_inv_step: "pool_inv p \<Longrightarrow> pool_inv (pool_step L valid p e)"
proof (cases e)
  case (PoolGetTls addr cfg ct it)
  assume "pool_inv p"
  then show ?thesis
    using pool_inv_get_tls [of p L cfg _ valid addr ct it]
    by (auto simp: PoolGetTls split: sum.splits rust.splits)
next
  case (PoolEvict keep)
  assume "pool_inv p"
  then show ?thesis by (auto simp: PoolEvict pool_inv_def evict_except_def Let_def split: if_splits)
qed (auto simp: get_def pool_inv_def Let_def split: option.splits)

interpretation pool: machine new_pool "pool_step L valid" pool_inv for L valid
  by unfold_locales (simp add: pool_inv_def new_pool_def, rule pool_inv_step)

lemma evict_except_http:
  "po_http (evict_except p keep) a = (if PoolHttp a \<in> set keep then po_http p a else None)"
proof -
  have "a \<in> set (List.map_filter http_key keep) \<longleftrightarrow> PoolHttp a \<in> set keep"
  proof -
    have "http_key k = Some a \<longleftrightarrow> k = PoolHttp a" for k by (cases k) auto
    then show ?thesis by (force simp: map_filter_def)
  qed
  then show ?thesis by (simp add: evict_except_def Let_def)
qed

lemma evict_except_https:
  "po_https (evict_except p keep) (a, t) = (if PoolHttps a t \<in> set keep then po_https p (a, t) else None)"
proof -
  have "(case k of PoolHttps b u \<Rightarrow> b = a \<and> u = t | PoolHttp _ \<Rightarrow> False) \<longleftrightarrow> k = PoolHttps a t" for k
    by (cases k) auto
  then show ?thesis by (simp add: evict_except_def Let_def list_ex_iff)
qed

section \<open>Properties\<close>

definition sample_tls_lib :: "(nat, nat, nat) tls_lib" where
  "sample_tls_lib = \<lparr>tb_read = (\<lambda>p. if p = ''/ca.pem'' then Inr ''pem'' else Inl ''not found''),
     tb_certs = (\<lambda>_. Inr [7]), tb_private_key = (\<lambda>_. Inr None), tb_versions = None,
     tb_add_root = (\<lambda>_. None), tb_signing = Inr\<rparr>"

definition sample_tls_config :: upstream_tls_config where
  "sample_tls_config = \<lparr>tl_server_name = ''api'', tl_ca_cert = Some ''/ca.pem'', tl_client_cert = None,
     tl_client_key = None, tl_insecure_skip_verify = False\<rparr>"





end
