(* ===== verification/Forward.thy ===== *)
theory Forward
  imports Upstream
begin

text \<open>
  One forwarding attempt (\<open>crates/openrusty-proxy/src/forward.rs\<close>): the outbound request with its
  header policy, the classification of transport failures, the retry gate, and the tunnel's reading
  of I/O errors. The http crate (header parsing, \<open>HeaderMap\<close>, the request builder) and the network
  are parameters; \<open>http_laws\<close> is what the code relies on of the former.
\<close>

section \<open>Requests and errors\<close>

record forward_request =
  fr_method :: rstr
  fr_path_and_query :: rstr
  fr_headers :: "header list"
  fr_body :: rstr
  fr_client_ip :: rstr

datatype forward_error = FwdConnect rstr | FwdSend rstr | FwdResponse rstr

definition is_retryable :: "forward_error \<Rightarrow> bool" where
  "is_retryable e = (case e of FwdConnect _ \<Rightarrow> True | FwdSend _ \<Rightarrow> True | FwdResponse _ \<Rightarrow> False)"

datatype failure_kind = KConnect | KSent | KResponse | KTimeout

definition failure_kind_of :: "forward_error \<Rightarrow> failure_kind" where
  "failure_kind_of e = (case e of FwdConnect _ \<Rightarrow> KConnect | FwdSend _ \<Rightarrow> KSent | FwdResponse _ \<Rightarrow> KResponse)"

definition is_idempotent :: "rstr \<Rightarrow> bool" where
  "is_idempotent method = (method \<in> set [''GET'', ''HEAD'', ''OPTIONS'', ''TRACE''])"

definition may_retry :: "rstr \<Rightarrow> failure_kind \<Rightarrow> bool" where
  "may_retry method kind =
     (if is_idempotent method then kind \<in> set [KConnect, KSent, KTimeout] else kind = KConnect)"

text \<open>
  A client error of hyper-util: whether it is a connect error, its \<open>Debug\<close> text, and the messages
  along its \<open>source\<close> chain, the error's own first.
\<close>

record client_error =
  ce_is_connect :: bool
  ce_debug :: rstr
  ce_message :: rstr
  ce_sources :: "rstr list"

fun describe_loop :: "rstr \<Rightarrow> rstr list \<Rightarrow> rstr" where
  "describe_loop message [] = message"
| "describe_loop message (s # ss) = describe_loop (message @ '': '' @ s) ss"

definition describe :: "client_error \<Rightarrow> rstr" where
  "describe e = describe_loop (ce_message e) (ce_sources e)"

definition classify :: "client_error \<Rightarrow> forward_error" where
  "classify e =
     (if ce_is_connect e then FwdConnect (describe e)
      else if str_contains (ce_debug e) ''SendRequest'' then FwdSend (describe e)
      else FwdResponse (describe e))"

definition merge_xff :: "header list \<Rightarrow> rstr \<Rightarrow> rstr" where
  "merge_xff headers client_ip =
     join '', '' (map snd (filter (\<lambda>(name, _). eq_ignore_ascii_case name ''x-forwarded-for'') headers)
                  @ [client_ip])"

section \<open>The outbound request\<close>

text \<open>
  The http crate: whether the builder accepts method and URI, \<open>HeaderName::from_bytes\<close>,
  \<open>HeaderValue::from_str\<close> with its error text and \<open>HeaderValue::to_str\<close>, the \<open>HeaderMap\<close> operations with
  its iteration, which statuses a response may have, and the builder's final \<open>body\<close> call.
\<close>

record ('m, 'v) http_lib =
  hl_request_ok :: "rstr \<Rightarrow> rstr \<Rightarrow> bool"
  hl_name :: "rstr \<Rightarrow> rstr option"
  hl_value :: "rstr \<Rightarrow> rstr + 'v"
  hl_empty :: 'm
  hl_append :: "'m \<Rightarrow> rstr \<Rightarrow> 'v \<Rightarrow> 'm"
  hl_insert :: "'m \<Rightarrow> rstr \<Rightarrow> 'v \<Rightarrow> 'm"
  hl_get_all :: "'m \<Rightarrow> rstr \<Rightarrow> 'v list"
  hl_finish :: "'m \<Rightarrow> rstr option"
  hl_to_str :: "'v \<Rightarrow> rstr option"
  hl_iter :: "'m \<Rightarrow> (rstr \<times> 'v) list"
  hl_status_ok :: "u16 \<Rightarrow> bool"

definition http_laws :: "('m, 'v) http_lib \<Rightarrow> bool" where
  "http_laws H \<longleftrightarrow>
     (\<forall>n. hl_get_all H (hl_empty H) n = [])
     \<and> (\<forall>m k v n. hl_get_all H (hl_append H m k v) n = hl_get_all H m n @ (if n = k then [v] else []))
     \<and> (\<forall>m k v n. hl_get_all H (hl_insert H m k v) n = (if n = k then [v] else hl_get_all H m n))
     \<and> (\<forall>s n. hl_name H s = Some n \<longrightarrow> n = to_ascii_lowercase s)
     \<and> (\<forall>m. hl_finish H m = None)"

record 'm outgoing =
  og_method :: rstr
  og_uri :: rstr
  og_headers :: 'm
  og_body :: rstr

definition skipped :: "rstr \<Rightarrow> bool" where
  "skipped name =
     (is_hop_by_hop name \<or> eq_ignore_ascii_case name ''host'' \<or> eq_ignore_ascii_case name ''x-forwarded-for'')"

fun copy_headers :: "('m, 'v) http_lib \<Rightarrow> header list \<Rightarrow> 'm \<Rightarrow> 'm" where
  "copy_headers H [] m = m"
| "copy_headers H ((name, value) # hs) m =
     (if skipped name then copy_headers H hs m
      else case (hl_name H name, hl_value H value) of
             (Some hn, Inr hv) \<Rightarrow> copy_headers H hs (hl_append H m hn hv)
           | _ \<Rightarrow> copy_headers H hs m)"

definition build_outgoing ::
  "('m, 'v) http_lib \<Rightarrow> rstr \<Rightarrow> rstr \<Rightarrow> rstr \<Rightarrow> forward_request \<Rightarrow> forward_error + 'm outgoing" where
  "build_outgoing H scheme uri_authority host req =
     (let uri = scheme @ ''://'' @ uri_authority @ fr_path_and_query req in
      if \<not> hl_request_ok H (fr_method req) uri then Inl (FwdSend ''invalid method or URI'')
      else
        let headers = copy_headers H (fr_headers req) (hl_empty H);
            headers = (case hl_value H (merge_xff (fr_headers req) (fr_client_ip req)) of
                         Inr xff \<Rightarrow> hl_append H headers ''x-forwarded-for'' xff
                       | Inl _ \<Rightarrow> headers)
        in and_then (map_err FwdSend (hl_value H host)) (\<lambda>host_value.
             let headers = hl_insert H headers ''host'' host_value in
             case hl_finish H headers of
               Some e \<Rightarrow> Inl (FwdSend e)
             | None \<Rightarrow> Inr \<lparr>og_method = fr_method req, og_uri = uri, og_headers = headers,
                            og_body = fr_body req\<rparr>))"

section \<open>Forwarding\<close>

text \<open>
  The network: what sending an outbound request over a client gives, a client error or a response.
\<close>

record ('m, 'cert, 'sk, 'resp) net =
  nt_http :: "http_client \<Rightarrow> 'm outgoing \<Rightarrow> client_error + 'resp"
  nt_https :: "('cert, 'sk) https_client \<Rightarrow> 'm outgoing \<Rightarrow> client_error + 'resp"
  nt_name_valid :: "rstr \<Rightarrow> bool"

definition forward ::
  "('m, 'v) http_lib \<Rightarrow> ('m, 'cert, 'sk, 'resp) net \<Rightarrow> http_client \<Rightarrow> peer \<Rightarrow> forward_request
   \<Rightarrow> forward_error + 'resp" where
  "forward H N client peer req =
     and_then (build_outgoing H ''http'' (addr_to_string (pr_addr peer)) (addr_to_string (pr_addr peer)) req)
       (\<lambda>outgoing. map_err classify (nt_http N client outgoing))"

definition forward_https ::
  "('m, 'v) http_lib \<Rightarrow> ('m, 'cert, 'sk, 'resp) net \<Rightarrow> ('cert, 'sk) https_client \<Rightarrow> peer \<Rightarrow> rstr
   \<Rightarrow> forward_request \<Rightarrow> forward_error + 'resp" where
  "forward_https H N client peer server_name req =
     and_then (build_outgoing H ''https'' server_name (addr_to_string (pr_addr peer)) req)
       (\<lambda>outgoing. map_err classify (nt_https N client outgoing))"

definition forward_peer ::
  "('m, 'v) http_lib \<Rightarrow> ('m, 'cert, 'sk, 'resp) net \<Rightarrow> ('cert, 'sk) client_pool \<Rightarrow> ('cert, 'sk) upstream
   \<Rightarrow> peer \<Rightarrow> forward_request \<Rightarrow> (('cert, 'sk) client_pool \<times> (forward_error + 'resp)) rust" where
  "forward_peer H N pool up peer req =
     (case up_tls up of
        Some tls \<Rightarrow>
          rust_map (\<lambda>(pool', client). (pool', forward_https H N client peer (ut_server_name tls) req))
            (get_tls (nt_name_valid N) pool (pr_addr peer) tls (up_connect_timeout up) (up_pool_idle_timeout up))
      | None \<Rightarrow>
          (case get pool (pr_addr peer) (up_connect_timeout up) (up_pool_idle_timeout up) of
             (pool', client) \<Rightarrow> Return (pool', forward H N client peer req)))"

section \<open>Tunnels\<close>

datatype io_error_kind =
  UnexpectedEof | ConnectionReset | ConnectionAborted | BrokenPipe | TimedOut | OtherKind rstr

text \<open>\<open>tunnel\<close> after \<open>copy_bidirectional\<close> returned the byte counts or an I/O error.\<close>

definition tunnel :: "io_error_kind + nat \<times> nat \<Rightarrow> io_error_kind + unit" where
  "tunnel copied =
     (case copied of
        Inr _ \<Rightarrow> Inr ()
      | Inl e \<Rightarrow> if e \<in> set [UnexpectedEof, ConnectionReset, ConnectionAborted, BrokenPipe] then Inr () else Inl e)"

section \<open>Lemmas\<close>

lemma describe_loop_concat: "describe_loop m ss = m @ concat (map (\<lambda>s. '': '' @ s) ss)"
  by (induction ss arbitrary: m) auto

lemma failure_kind_classify:
  "failure_kind_of (classify e) =
     (if ce_is_connect e then KConnect
      else if \<exists>a b. ce_debug e = a @ ''SendRequest'' @ b then KSent else KResponse)"
  by (auto simp: failure_kind_of_def classify_def str_contains_iff)

lemma may_retry_not_idempotent: "\<not> is_idempotent m \<Longrightarrow> may_retry m k \<longleftrightarrow> k = KConnect"
  by (simp add: may_retry_def)

lemma may_retry_retryable: "may_retry m (failure_kind_of e) \<Longrightarrow> is_retryable e"
  by (cases e) (auto simp: may_retry_def failure_kind_of_def is_retryable_def split: if_splits)

lemma join_snoc: "join sep (xs @ [y]) = (if xs = [] then y else join sep xs @ sep @ y)"
  by (induction sep xs rule: join.induct) auto

lemma merge_xff_last: "\<exists>front. merge_xff hs cip = front @ cip"
  by (simp add: merge_xff_def join_snoc)

text \<open>What the copied headers give under one name, in their original order.\<close>

fun kept_values :: "('m, 'v) http_lib \<Rightarrow> rstr \<Rightarrow> header list \<Rightarrow> 'v list" where
  "kept_values H n [] = []"
| "kept_values H n ((name, value) # hs) =
     (if \<not> is_hop_by_hop name \<and> hl_name H name = Some n
      then (case hl_value H value of Inr v \<Rightarrow> [v] | Inl _ \<Rightarrow> []) else []) @ kept_values H n hs"

lemma kept_values_hop:
  assumes "http_laws H" "n \<in> set HOP_BY_HOP"
  shows "kept_values H n hs = []"
proof (induction hs)
  case (Cons h hs)
  obtain name v where h: "h = (name, v)" by (cases h)
  have "is_hop_by_hop name" if "hl_name H name = Some n"
    using that assms by (intro is_hop_by_hop_lower) (auto simp: http_laws_def)
  then show ?case using Cons by (auto simp: h)
qed simp

lemma lower_special [simp]:
  "to_ascii_lowercase ''host'' = ''host''" "to_ascii_lowercase ''x-forwarded-for'' = ''x-forwarded-for''"
  by (simp_all add: to_ascii_lowercase_def ascii_lower_char_def is_ascii_upper_def)

lemma http_laws_name:
  "http_laws H \<Longrightarrow> hl_name H s = Some n \<Longrightarrow> skipped s \<longleftrightarrow> is_hop_by_hop s \<or> n = ''host'' \<or> n = ''x-forwarded-for''"
  by (auto simp: http_laws_def skipped_def eq_ignore_ascii_case_def)

lemma copy_headers_get_all:
  assumes "http_laws H"
  shows "hl_get_all H (copy_headers H hs m) n =
     hl_get_all H m n @ (if n = ''host'' \<or> n = ''x-forwarded-for'' then [] else kept_values H n hs)"
proof (induction hs arbitrary: m)
  case (Cons h hs)
  obtain name v where h: "h = (name, v)" by (cases h)
  have app: "hl_get_all H (hl_append H m k v) n = hl_get_all H m n @ (if n = k then [v] else [])" for k v
    using assms by (simp add: http_laws_def)
  show ?case
  proof (cases "skipped name")
    case True
    then have "n = ''host'' \<or> n = ''x-forwarded-for''" if "hl_name H name = Some n" "\<not> is_hop_by_hop name"
      using that http_laws_name [OF assms] by blast
    with True show ?thesis by (simp add: h Cons.IH) blast
  next
    case False
    then have nohop: "\<not> is_hop_by_hop name" by (simp add: skipped_def)
    show ?thesis
    proof (cases "hl_name H name")
      case None
      with False show ?thesis by (simp add: h Cons.IH)
    next
      case (Some k)
      then have "k \<noteq> ''host'' \<and> k \<noteq> ''x-forwarded-for''" using False http_laws_name [OF assms] by blast
      with Some False nohop show ?thesis
        by (cases "hl_value H v") (auto simp: h Cons.IH app)
    qed
  qed
qed simp

section \<open>Properties\<close>

text \<open>
  C17: the header policy of a forwarded request. With an http crate that obeys its documented laws,
  \<open>build_outgoing\<close> succeeds exactly when method and URI are acceptable and the peer address is a
  valid header value; then method and body are the request's, and under every header name the
  request carries: exactly one \<open>host\<close>, the peer; at most one \<open>x-forwarded-for\<close>, the client's chain with
  its address appended last; no hop-by-hop header, in whatever case it was sent; and otherwise
  exactly the well-formed values of the incoming request in their order.
\<close>

theorem outgoing_header_policy:
  assumes "http_laws H"
  shows "((\<exists>out. build_outgoing H scheme authority host req = Inr out) \<longleftrightarrow>
           hl_request_ok H (fr_method req) (scheme @ ''://'' @ authority @ fr_path_and_query req)
           \<and> (\<exists>hv. hl_value H host = Inr hv))
   \<and> (\<forall>out. build_outgoing H scheme authority host req = Inr out \<longrightarrow>
        og_method out = fr_method req \<and> og_body out = fr_body req
        \<and> og_uri out = scheme @ ''://'' @ authority @ fr_path_and_query req
        \<and> (\<exists>hv. hl_value H host = Inr hv \<and> hl_get_all H (og_headers out) ''host'' = [hv])
        \<and> hl_get_all H (og_headers out) ''x-forwarded-for'' =
            (case hl_value H (merge_xff (fr_headers req) (fr_client_ip req)) of Inr v \<Rightarrow> [v] | Inl _ \<Rightarrow> [])
        \<and> (\<exists>front. merge_xff (fr_headers req) (fr_client_ip req) = front @ fr_client_ip req)
        \<and> (\<forall>n \<in> set HOP_BY_HOP. hl_get_all H (og_headers out) n = [])
        \<and> (\<forall>n. n \<noteq> ''host'' \<and> n \<noteq> ''x-forwarded-for'' \<longrightarrow>
              hl_get_all H (og_headers out) n = kept_values H n (fr_headers req)))"
proof -
  have laws: "hl_get_all H (hl_empty H) n = []" "hl_finish H m = None"
    "hl_get_all H (hl_append H m k v) n = hl_get_all H m n @ (if n = k then [v] else [])"
    "hl_get_all H (hl_insert H m k v) n = (if n = k then [v] else hl_get_all H m n)" for m k v n
    using assms by (simp_all add: http_laws_def)
  note copy = copy_headers_get_all [OF assms]
  have hop: "n \<noteq> ''host'' \<and> n \<noteq> ''x-forwarded-for''" if "n \<in> set HOP_BY_HOP" for n
    using that by (auto simp: HOP_BY_HOP_def)
  show ?thesis
    using merge_xff_last [of "fr_headers req" "fr_client_ip req"]
    by (cases "hl_value H (merge_xff (fr_headers req) (fr_client_ip req))")
      (auto simp: build_outgoing_def Let_def laws copy kept_values_hop [OF assms] dest: hop)
qed

text \<open>A header map as a list of pairs, and a crate that accepts every string.\<close>

definition sample_http_lib :: "(header list, rstr) http_lib" where
  "sample_http_lib = \<lparr>hl_request_ok = (\<lambda>_ _. True), hl_name = (\<lambda>s. Some (to_ascii_lowercase s)),
     hl_value = Inr, hl_empty = [], hl_append = (\<lambda>m k v. m @ [(k, v)]),
     hl_insert = (\<lambda>m k v. filter (\<lambda>(n, _). n \<noteq> k) m @ [(k, v)]),
     hl_get_all = (\<lambda>m n. map snd (filter (\<lambda>(k, _). k = n) m)), hl_finish = (\<lambda>_. None),
     hl_to_str = Some, hl_iter = (\<lambda>m. m), hl_status_ok = (\<lambda>s. 100 \<le> s \<and> s < 1000)\<rparr>"

lemma sample_http_laws: "http_laws sample_http_lib"
proof -
  have "filter (\<lambda>(k, _). k = n) (filter (\<lambda>(a, _). a \<noteq> k) m) = (if n = k then [] else filter (\<lambda>(k, _). k = n) m)"
    for m :: "header list" and n k by (induction m) auto
  then show ?thesis by (simp add: http_laws_def sample_http_lib_def case_prod_beta')
qed

definition sample_request :: forward_request where
  "sample_request = \<lparr>fr_method = ''GET'', fr_path_and_query = ''/a'',
     fr_headers = [(''TE'', ''x''), (''X-Forwarded-For'', ''1.1.1.1''), (''Host'', ''h''), (''accept'', ''b'')],
     fr_body = [], fr_client_ip = ''10.0.0.9''\<rparr>"

theorem outgoing_header_policy_witness:
  "\<exists>out. build_outgoing sample_http_lib ''http'' ''p'' ''p:80'' sample_request = Inr out
     \<and> hl_get_all sample_http_lib (og_headers out) ''host'' = [''p:80'']
     \<and> hl_get_all sample_http_lib (og_headers out) ''te'' = []
     \<and> hl_get_all sample_http_lib (og_headers out) ''x-forwarded-for'' = [''1.1.1.1, 10.0.0.9'']"
proof -
  note policy = outgoing_header_policy [OF sample_http_laws, of "''http''" "''p''" "''p:80''" sample_request]
  then obtain out where out: "build_outgoing sample_http_lib ''http'' ''p'' ''p:80'' sample_request = Inr out"
    by (auto simp: sample_http_lib_def)
  have "merge_xff (fr_headers sample_request) (fr_client_ip sample_request) = ''1.1.1.1, 10.0.0.9''"
    by (simp add: merge_xff_def sample_request_def eq_ignore_ascii_case_def to_ascii_lowercase_def
        ascii_lower_char_def is_ascii_upper_def char_of_eq_iff)
  moreover have "hl_value sample_http_lib = Inr" by (simp add: sample_http_lib_def)
  ultimately have "hl_get_all sample_http_lib (og_headers out) ''host'' = [''p:80'']"
    "hl_get_all sample_http_lib (og_headers out) ''te'' = []"
    "hl_get_all sample_http_lib (og_headers out) ''x-forwarded-for'' = [''1.1.1.1, 10.0.0.9'']"
    using policy out by (simp_all add: HOP_BY_HOP_def)
  with out show ?thesis by blast
qed

end
