(* ===== verification/Detect.thy ===== *)
theory Detect
  imports Forward
begin

text \<open>
  Interception of raw connections: protocol sniffing (\<open>crates/openrusty-proxy/src/detect.rs\<close>), the
  original destination and the loop guard (\<open>orig_dst.rs\<close>, \<open>loop_guard.rs\<close>). What each poll of the
  probe finds (bytes, end of stream, an error, the deadline) is an argument, and so are the answers
  of the socket options.
\<close>

section \<open>Protocol detection\<close>

definition H2_PREFIX :: rstr where "H2_PREFIX = ''PRI *''"

definition H1_METHODS :: "rstr list" where
  "H1_METHODS = [''GET'', ''POST'', ''PUT'', ''DELETE'', ''HEAD'', ''OPTIONS'', ''PATCH'', ''CONNECT'', ''TRACE'']"

definition READ_CHUNK :: nat where "READ_CHUNK = 16"

datatype protocol = H1 | H2 | Opaque

datatype sniff = Complete protocol | Incomplete

fun method_loop :: "rstr \<Rightarrow> rstr list \<Rightarrow> sniff" where
  "method_loop buf [] = Complete Opaque"
| "method_loop buf (m # ms) =
     (if starts_with buf m then
        (if length buf > length m
         then (if buf ! length m = CHR '' '' then Complete H1 else Complete Opaque)
         else Incomplete)
      else if starts_with m buf then Incomplete
      else method_loop buf ms)"

definition classify :: "rstr \<Rightarrow> sniff" where
  "classify buf =
     (if starts_with buf H2_PREFIX then Complete H2
      else if starts_with H2_PREFIX buf then Incomplete
      else if starts_with buf ''PRI '' then Complete Opaque
      else method_loop buf H1_METHODS)"

text \<open>
  What the \<open>select!\<close> of one round yields: the deadline, the bytes of a read (none at end of stream)
  or its error.
\<close>

datatype probe_event = Deadline | ReadOk rstr | ReadErr io_error_kind

text \<open>An undecided prefix is shorter than eight bytes, so a non-empty read makes progress.\<close>

lemma method_loop_short:
  assumes "method_loop buf ms = Incomplete" "\<forall>m \<in> set ms. length m \<le> 7"
  shows "length buf \<le> 7"
  using assms by (induction ms) (auto split: if_splits dest: starts_with_length)

lemma H1_METHODS_length: "m \<in> set H1_METHODS \<Longrightarrow> length m \<le> 7"
  by (auto simp: H1_METHODS_def)

lemma classify_short:
  assumes "classify buf = Incomplete"
  shows "length buf \<le> 7"
proof (cases "starts_with H2_PREFIX buf")
  case True
  then show ?thesis using starts_with_length [OF True] by (simp add: H2_PREFIX_def)
next
  case False
  then have "method_loop buf H1_METHODS = Incomplete" using assms by (simp add: classify_def split: if_splits)
  then show ?thesis using method_loop_short H1_METHODS_length by blast
qed

function detect_loop :: "rstr \<Rightarrow> (nat \<Rightarrow> probe_event) \<Rightarrow> nat \<Rightarrow> io_error_kind + protocol \<times> rstr" where
  "detect_loop buf ev i =
     (case ev i of
        Deadline \<Rightarrow> Inr (Opaque, buf)
      | ReadErr e \<Rightarrow> Inl e
      | ReadOk bs \<Rightarrow>
          if bs = [] then Inl UnexpectedEof
          else (case classify (buf @ bs) of
                  Complete p \<Rightarrow> Inr (p, buf @ bs)
                | Incomplete \<Rightarrow> detect_loop (buf @ bs) ev (Suc i)))"
  by pat_completeness auto
termination
proof (relation "measure (\<lambda>(buf, ev, i). 8 - length buf)", goal_cases)
  case (2 buf ev i bs)
  then show ?case using classify_short [of "buf @ bs"] by (cases bs) auto
qed simp

declare detect_loop.simps [simp del]

definition detect :: "(nat \<Rightarrow> probe_event) \<Rightarrow> io_error_kind + protocol \<times> rstr" where
  "detect ev = detect_loop [] ev 0"

section \<open>Original destination and loop guard\<close>

text \<open>
  A socket address as the kernel reports it; \<open>as_socket\<close> keeps the IP families. \<open>local_addr\<close> and the
  two socket options are the socket's answers.
\<close>

datatype ip_family = FamilyV4 | FamilyV6

definition original_dst_addr :: "io_error_kind + socket_addr option \<Rightarrow> io_error_kind + socket_addr" where
  "original_dst_addr addr =
     and_then addr (\<lambda>a. case a of Some s \<Rightarrow> Inr s | None \<Rightarrow> Inl (OtherKind ''InvalidData''))"

definition original_dst ::
  "io_error_kind + ip_family option \<Rightarrow> io_error_kind + socket_addr option \<Rightarrow> io_error_kind + socket_addr option
   \<Rightarrow> io_error_kind + socket_addr" where
  "original_dst local_addr dst_v4 dst_v6 =
     and_then local_addr (\<lambda>f. case f of
         Some FamilyV4 \<Rightarrow> original_dst_addr dst_v4
       | Some FamilyV6 \<Rightarrow> original_dst_addr dst_v6
       | None \<Rightarrow> Inl (OtherKind ''Unsupported''))"

definition is_loopback :: "socket_addr \<Rightarrow> u16 list \<Rightarrow> bool" where
  "is_loopback dst own_ports = (port dst \<in> set own_ports)"

section \<open>Specification of the sniffer\<close>

text \<open>The complete preambles, and the verdict on a prefix of a stream.\<close>

definition preambles :: "rstr list" where
  "preambles = H2_PREFIX # map (\<lambda>m. m @ '' '') H1_METHODS"

definition sniff_spec :: "rstr \<Rightarrow> sniff" where
  "sniff_spec buf =
     (if starts_with buf H2_PREFIX then Complete H2
      else if \<exists>m \<in> set H1_METHODS. starts_with buf (m @ '' '') then Complete H1
      else if \<exists>p \<in> set preambles. starts_with p buf then Incomplete
      else Complete Opaque)"

text \<open>No method is a prefix of another, so the loop stops at the only one that can match.\<close>

definition independent :: "rstr list \<Rightarrow> bool" where
  "independent ms \<longleftrightarrow> (\<forall>m \<in> set ms. \<forall>n \<in> set ms. starts_with m n \<longrightarrow> m = n)"

lemma starts_with_both: "starts_with xs a \<Longrightarrow> starts_with xs b \<Longrightarrow> starts_with a b \<or> starts_with b a"
  by (induction xs a arbitrary: b rule: starts_with.induct) (case_tac b, auto)+

lemma starts_with_single: "starts_with xs [c] \<longleftrightarrow> (\<exists>ys. xs = c # ys)"
  by (cases xs) auto

lemma starts_with_space:
  "starts_with buf (m @ '' '') \<longleftrightarrow> starts_with buf m \<and> length m < length buf \<and> buf ! length m = CHR '' ''"
proof (induction buf m rule: starts_with.induct)
  case (1 xs)
  then show ?case by (cases xs) auto
qed auto

lemma starts_with_trans: "starts_with a b \<Longrightarrow> starts_with b c \<Longrightarrow> starts_with a c"
  by (auto simp: starts_with_iff)

lemma starts_with_snoc: "starts_with (m @ [c]) buf \<longleftrightarrow> starts_with m buf \<or> buf = m @ [c]"
proof (induction m buf rule: starts_with.induct)
  case (2 p ps)
  then show ?case by (cases ps) auto
qed auto

lemma starts_with_antisym: "starts_with a b \<Longrightarrow> starts_with b a \<Longrightarrow> a = b"
  by (induction a b rule: starts_with.induct) (case_tac xs, auto)

lemma method_loop_spec:
  assumes "independent ms"
  shows "method_loop buf ms =
    (if \<exists>m \<in> set ms. starts_with buf (m @ '' '') then Complete H1
     else if \<exists>m \<in> set ms. starts_with (m @ '' '') buf then Incomplete else Complete Opaque)"
  using assms
proof (induction ms)
  case (Cons m ms)
  have ind: "n = m" if "n \<in> set (m # ms)" "starts_with m n \<or> starts_with n m" for n
    using Cons.prems that by (auto simp: independent_def)
  show ?case
  proof (cases "starts_with buf m")
    case True
    have eq: "n = m" if n: "n \<in> set (m # ms)" and "starts_with buf (n @ '' '') \<or> starts_with (n @ '' '') buf" for n
    proof -
      have "starts_with n m \<or> starts_with m n \<or> m = n @ '' ''"
        using that(2) True starts_with_both [of buf n m] starts_with_trans [of "n @ '' ''" buf m]
        by (auto simp: starts_with_space starts_with_snoc)
      then have "starts_with m n \<or> starts_with n m" by (auto simp: starts_with_iff)
      with ind [OF n] show ?thesis by blast
    qed
    have sp: "(\<exists>n \<in> set (m # ms). starts_with buf (n @ '' '')) \<longleftrightarrow> starts_with buf (m @ '' '')"
      "(\<exists>n \<in> set (m # ms). starts_with (n @ '' '') buf) \<longleftrightarrow> starts_with (m @ '' '') buf"
      using eq by auto
    have "length m = length buf \<Longrightarrow> buf = m" using True by (auto simp: starts_with_iff)
    then have "starts_with m buf \<longleftrightarrow> buf = m" "length m = length buf \<longleftrightarrow> buf = m"
      using starts_with_antisym [OF True] by auto
    then show ?thesis
      unfolding sp using True starts_with_length [OF True]
      by (auto simp: starts_with_space starts_with_snoc)
  next
    case False
    show ?thesis
    proof (cases "starts_with m buf")
      case True
      have "n = m" if "n \<in> set (m # ms)" "starts_with buf (n @ '' '')" for n
        using ind [OF that(1)] that(2) starts_with_trans [OF True] by (auto simp: starts_with_space)
      then have "\<not> (\<exists>n \<in> set (m # ms). starts_with buf (n @ '' ''))" using False by (auto simp: starts_with_space)
      then show ?thesis using True False by (auto simp: starts_with_snoc)
    next
      case False2: False
      have "independent ms" using Cons.prems by (auto simp: independent_def)
      from Cons.IH [OF this] show ?thesis
        using False False2 by (auto simp: starts_with_space starts_with_snoc)
    qed
  qed
qed simp

lemma H1_METHODS_independent: "independent H1_METHODS"
  by (simp add: independent_def H1_METHODS_def)

lemma starts_with_append_iff:
  "starts_with (xs @ ys) p \<Longrightarrow> starts_with xs p \<or> starts_with p xs"
  using starts_with_both [of "xs @ ys" p xs] starts_with_append by blast

lemma classify_spec: "classify buf = sniff_spec buf"
proof -
  have pri: "\<not> starts_with buf (m @ '' '') \<and> \<not> starts_with (m @ '' '') buf"
    if m: "m \<in> set H1_METHODS" and b: "starts_with buf ''PRI '' " for m
  proof -
    have "\<not> starts_with (m @ '' '') ''PRI '' \<and> \<not> starts_with ''PRI '' (m @ '' '')"
      using m by (auto simp: H1_METHODS_def)
    then show ?thesis using b starts_with_both [OF b] starts_with_trans [OF _ b] by blast
  qed
  have h2: "\<not> starts_with buf (m @ '' '')" if m: "m \<in> set H1_METHODS" and b: "starts_with H2_PREFIX buf" for m
  proof -
    have "\<not> starts_with H2_PREFIX (m @ '' '')" using m by (auto simp: H1_METHODS_def H2_PREFIX_def)
    then show ?thesis using starts_with_trans [OF b] by blast
  qed
  have inc: "(\<exists>p \<in> set preambles. starts_with p buf) \<longleftrightarrow>
      starts_with H2_PREFIX buf \<or> (\<exists>m \<in> set H1_METHODS. starts_with (m @ '' '') buf)"
    by (simp add: preambles_def)
  show ?thesis
    unfolding classify_def sniff_spec_def inc method_loop_spec [OF H1_METHODS_independent]
    using pri h2 by auto
qed

text \<open>A verdict is final: no byte that follows changes it.\<close>

lemma classify_stable:
  assumes "classify buf = Complete p"
  shows "classify (buf @ rest) = Complete p"
proof -
  have no: "\<not> starts_with (buf @ rest) t" if "\<not> starts_with buf t" "\<not> starts_with t buf" for t
    using that starts_with_append_iff by blast
  have inc: "\<not> starts_with t (buf @ rest)" if "\<not> starts_with t buf" for t
    using that starts_with_trans [of t "buf @ rest" buf] starts_with_append by blast
  have h2: "\<not> starts_with (buf @ rest) H2_PREFIX" if "starts_with buf (m @ '' '')" "m \<in> set H1_METHODS" for m
  proof -
    have "\<not> starts_with H2_PREFIX (m @ '' '') \<and> \<not> starts_with (m @ '' '') H2_PREFIX"
      using that(2) by (auto simp: H1_METHODS_def H2_PREFIX_def)
    moreover have "starts_with (buf @ rest) (m @ '' '')"
      using that(1) starts_with_trans [OF starts_with_append that(1)] by blast
    ultimately show ?thesis using starts_with_both by blast
  qed
  have grow: "starts_with (buf @ rest) t" if "starts_with buf t" for t
    using that starts_with_trans [OF starts_with_append that] by blast
  have pre: "H2_PREFIX \<in> set preambles" "\<And>m. m \<in> set H1_METHODS \<Longrightarrow> m @ '' '' \<in> set preambles"
    by (auto simp: preambles_def)
  show ?thesis
  proof (cases p)
    case H1
    then obtain m where m: "m \<in> set H1_METHODS" "starts_with buf (m @ '' '')"
      using assms by (auto simp: classify_spec sniff_spec_def split: if_splits)
    then show ?thesis using H1 h2 [OF m(2,1)] grow [OF m(2)] by (auto simp: classify_spec sniff_spec_def)
  next
    case H2
    then have "starts_with buf H2_PREFIX" using assms by (auto simp: classify_spec sniff_spec_def split: if_splits)
    then show ?thesis using H2 grow by (auto simp: classify_spec sniff_spec_def)
  next
    case Opaque
    then have *: "\<not> starts_with buf t" "\<not> starts_with t buf" if "t \<in> set preambles" for t
      using assms that by (auto simp: classify_spec sniff_spec_def preambles_def split: if_splits)
    then have "\<not> starts_with (buf @ rest) t" "\<not> starts_with t (buf @ rest)" if "t \<in> set preambles" for t
      using that no inc by blast+
    then show ?thesis using Opaque pre by (auto simp: classify_spec sniff_spec_def)
  qed
qed

section \<open>Lemmas on the probe\<close>

fun read_bytes :: "probe_event \<Rightarrow> rstr" where
  "read_bytes (ReadOk bs) = bs"
| "read_bytes _ = []"

definition received :: "(nat \<Rightarrow> probe_event) \<Rightarrow> nat \<Rightarrow> nat \<Rightarrow> rstr" where
  "received ev i n = concat (map (\<lambda>k. read_bytes (ev k)) [i..<i + n])"

lemma received_simps [simp]:
  "received ev i 0 = []" "received ev i (Suc n) = read_bytes (ev i) @ received ev (Suc i) n"
  by (simp_all add: received_def upt_conv_Cons del: upt_Suc)

text \<open>How a probe that has read the undecided \<open>buf\<close> ends, after \<open>n\<close> more undecided reads.\<close>

definition probe_end :: "rstr \<Rightarrow> (nat \<Rightarrow> probe_event) \<Rightarrow> nat \<Rightarrow> nat \<Rightarrow> io_error_kind + protocol \<times> rstr \<Rightarrow> bool" where
  "probe_end buf ev i n r \<longleftrightarrow>
     n + length buf \<le> 7 \<and>
     (case r of
        Inr (p, bytes) \<Rightarrow>
          ev (i + n) = Deadline \<and> p = Opaque \<and> bytes = buf @ received ev i n \<and> sniff_spec bytes = Incomplete
          \<or> bytes = buf @ received ev i (Suc n) \<and> sniff_spec bytes = Complete p
      | Inl e \<Rightarrow> ev (i + n) = ReadErr e \<or> ev (i + n) = ReadOk [] \<and> e = UnexpectedEof)"

lemma probe_end_step:
  assumes "ev i = ReadOk bs" "bs \<noteq> []" "probe_end (buf @ bs) ev (Suc i) n r"
  shows "probe_end buf ev i (Suc n) r"
  using assms by (cases bs) (auto simp: probe_end_def split: sum.splits)

lemma detect_loop_end:
  assumes "classify buf = Incomplete"
  shows "\<exists>n. probe_end buf ev i n (detect_loop buf ev i)"
  using assms
proof (induction buf ev i rule: detect_loop.induct)
  case (1 buf ev i)
  note short = classify_short [OF 1(2)]
  show ?case
  proof (cases "ev i")
    case Deadline
    then show ?thesis using 1(2) short
      by (auto simp: detect_loop.simps [of buf] probe_end_def classify_spec intro!: exI [of _ 0])
  next
    case (ReadErr e)
    then show ?thesis using short by (auto simp: detect_loop.simps [of buf] probe_end_def intro!: exI [of _ 0])
  next
    case (ReadOk bs)
    show ?thesis
    proof (cases "bs = []")
      case True
      then show ?thesis using ReadOk short
        by (auto simp: detect_loop.simps [of buf] probe_end_def intro!: exI [of _ 0])
    next
      case False
      show ?thesis
      proof (cases "classify (buf @ bs)")
        case (Complete p)
        then show ?thesis using ReadOk False short
          by (auto simp: detect_loop.simps [of buf] probe_end_def classify_spec intro!: exI [of _ 0])
      next
        case Incomplete
        then have "detect_loop buf ev i = detect_loop (buf @ bs) ev (Suc i)"
          using ReadOk False by (simp add: detect_loop.simps [of buf])
        then show ?thesis
          using 1(1) [OF ReadOk False Incomplete Incomplete] probe_end_step [where ev = ev and i = i and bs = bs, OF ReadOk False] by metis
      qed
    qed
  qed
qed

lemma detect_loop_agree:
  assumes "classify buf = Incomplete" "\<forall>j. i \<le> j \<and> j + length buf < i + 8 \<longrightarrow> ev' j = ev j"
  shows "detect_loop buf ev' i = detect_loop buf ev i"
  using assms
proof (induction buf ev i rule: detect_loop.induct)
  case (1 buf ev i)
  have here: "ev' i = ev i" using 1(3) classify_short [OF 1(2)] by auto
  show ?case
  proof (cases "\<exists>bs. ev i = ReadOk bs \<and> bs \<noteq> [] \<and> classify (buf @ bs) = Incomplete")
    case True
    then obtain bs where bs: "ev i = ReadOk bs" "bs \<noteq> []" "classify (buf @ bs) = Incomplete" by blast
    then have "\<forall>j. Suc i \<le> j \<and> j + length (buf @ bs) < Suc i + 8 \<longrightarrow> ev' j = ev j"
      using 1(3) by (cases bs) auto
    from 1(1) [OF bs bs(3) this] show ?thesis
      using bs here by (simp add: detect_loop.simps [of buf])
  next
    case False
    then show ?thesis
      using here by (auto simp: detect_loop.simps [of buf] split: probe_event.splits sniff.splits)
  qed
qed

section \<open>Properties\<close>

text \<open>
  C30: sniffing ends, decides correctly and loses nothing. Whatever the peer sends, \<open>detect\<close> looks at
  no more than eight rounds. Its verdict is the reference verdict on the bytes it received (HTTP/2
  preface, HTTP/1 method token with its space, anything else opaque), or opaque when the deadline
  found an undecided prefix; it returns exactly the bytes received; and it fails only on a read
  error or on end of stream. A verdict is final: \<open>classify\<close> never changes it on a longer prefix.
\<close>

theorem detect_terminates:
  "(\<exists>n \<le> 7. probe_end [] ev 0 n (detect ev))
   \<and> ((\<forall>j < 8. ev' j = ev j) \<longrightarrow> detect ev' = detect ev)
   \<and> classify buf = sniff_spec buf
   \<and> (classify buf = Complete p \<longrightarrow> classify (buf @ rest) = Complete p)"
proof -
  have open_empty: "classify [] = Incomplete" by (simp add: classify_def H2_PREFIX_def)
  have "\<exists>n \<le> 7. probe_end [] ev 0 n (detect ev)"
    using detect_loop_end [OF open_empty, of ev 0] by (auto simp: detect_def probe_end_def)
  moreover have "detect ev' = detect ev" if "\<forall>j < 8. ev' j = ev j"
    using detect_loop_agree [OF open_empty, of 0 ev' ev] that by (simp add: detect_def)
  ultimately show ?thesis using classify_spec classify_stable by blast
qed

theorem detect_terminates_witness:
  "let ev = (\<lambda>i. if i = 0 then ReadOk ''PA'' else if i = 1 then ReadOk ''TCH /x'' else Deadline);
       ev' = (\<lambda>i. if i < 8 then ev i else ReadErr TimedOut)
   in detect ev = Inr (H1, ''PATCH /x'') \<and> detect ev' = detect ev
      \<and> classify ''GET /'' = Complete H1 \<and> classify (''GET /'' @ ''index'') = Complete H1"
proof -
  define ev where "ev = (\<lambda>i :: nat. if i = 0 then ReadOk ''PA'' else if i = 1 then ReadOk ''TCH /x'' else Deadline)"
  have d: "detect ev = Inr (H1, ''PATCH /x'')"
    by (simp add: ev_def detect_def detect_loop.simps [of "[]"] detect_loop.simps [of "''PA''"] classify_def
        H2_PREFIX_def H1_METHODS_def)
  have c: "classify ''GET /'' = Complete H1" by (simp add: classify_def H2_PREFIX_def H1_METHODS_def)
  show ?thesis
    using d c detect_terminates [of ev "\<lambda>i. if i < 8 then ev i else ReadErr TimedOut" "''GET /''" H1 "''index''"]
    unfolding ev_def [symmetric] Let_def by simp
qed

end
