(* ===== verification/Phases.thy ===== *)
theory Phases
  imports Prelude
begin

text \<open>
  The request phases, the decisions a plugin may return with their ABI codes
  (crates/openrusty-core/src/phase.rs) and the per-request context
  (crates/openrusty-core/src/context.rs).
\<close>

section \<open>Phases\<close>

datatype phase =
    PostRead | Rewrite | Access | Content | Balancer_Phase | HeaderFilter | BodyFilter | Log_Phase

text \<open>The discriminants of the \<open>repr(i32)\<close> enum: \<open>phase as i32\<close>.\<close>

definition phase_id :: "phase \<Rightarrow> u32" where
  "phase_id p = (case p of PostRead \<Rightarrow> 0 | Rewrite \<Rightarrow> 1 | Access \<Rightarrow> 2 | Content \<Rightarrow> 3
     | Balancer_Phase \<Rightarrow> 4 | HeaderFilter \<Rightarrow> 5 | BodyFilter \<Rightarrow> 6 | Log_Phase \<Rightarrow> 7)"

definition phase_COUNT :: nat where
  "phase_COUNT = 8"

definition PRE_PROXY :: "phase list" where
  "PRE_PROXY = [PostRead, Rewrite, Access, Content]"

definition phase_from_i32 :: "u32 \<Rightarrow> phase option" where
  "phase_from_i32 v =
     (if v = 0 then Some PostRead else if v = 1 then Some Rewrite else if v = 2 then Some Access
      else if v = 3 then Some Content else if v = 4 then Some Balancer_Phase
      else if v = 5 then Some HeaderFilter else if v = 6 then Some BodyFilter
      else if v = 7 then Some Log_Phase else None)"

definition phase_name :: "phase \<Rightarrow> rstr" where
  "phase_name p = (case p of PostRead \<Rightarrow> ''post_read'' | Rewrite \<Rightarrow> ''rewrite'' | Access \<Rightarrow> ''access''
     | Content \<Rightarrow> ''content'' | Balancer_Phase \<Rightarrow> ''balancer'' | HeaderFilter \<Rightarrow> ''header_filter''
     | BodyFilter \<Rightarrow> ''body_filter'' | Log_Phase \<Rightarrow> ''log'')"

section \<open>Decisions\<close>

datatype decision = Ok | Declined | Done | Deny u16

text \<open>ABI codes are \<open>i32\<close>, kept as 32-bit words and read as signed.\<close>

definition abi_OK :: u32 where "abi_OK = 0"
definition abi_DECLINED :: u32 where "abi_DECLINED = - 5"
definition abi_DONE :: u32 where "abi_DONE = - 4"
definition abi_ERROR :: u32 where "abi_ERROR = - 1"

definition from_abi :: "u32 \<Rightarrow> decision option" where
  "from_abi code =
     (if sint code = 0 then Some Ok
      else if sint code = - 5 then Some Declined
      else if sint code = - 4 then Some Done
      else if 100 \<le> sint code \<and> sint code \<le> 599 then Some (Deny (ucast code))
      else None)"

definition to_abi :: "decision \<Rightarrow> u32" where
  "to_abi d =
     (case d of Ok \<Rightarrow> abi_OK | Declined \<Rightarrow> abi_DECLINED | Done \<Rightarrow> abi_DONE
      | Deny status \<Rightarrow> if 100 \<le> status \<and> status \<le> 599 then ucast status else abi_ERROR)"

definition is_terminal :: "decision \<Rightarrow> bool" where
  "is_terminal d = (case d of Done \<Rightarrow> True | Deny _ \<Rightarrow> True | _ \<Rightarrow> False)"

lemma is_terminal_simps [simp]:
  "is_terminal Done" "is_terminal (Deny s)" "\<not> is_terminal Ok" "\<not> is_terminal Declined"
  by (simp_all add: is_terminal_def)

section \<open>Request context\<close>

record req_ctx =
  rc_method :: rstr
  rc_path :: rstr
  rc_query :: rstr
  rc_version :: rstr
  rc_client_addr :: socket_addr
  rc_headers :: "header list"
  rc_route_index :: "nat option"
  rc_upstream :: "rstr option"
  rc_peer_index :: "u32 option"
  rc_attempts :: u32
  rc_tried :: "socket_addr list"

definition req_ctx_empty :: req_ctx where
  "req_ctx_empty = \<lparr>rc_method = [], rc_path = [], rc_query = [], rc_version = [],
     rc_client_addr = SocketAddrV4 127 0 0 1 0, rc_headers = [], rc_route_index = None,
     rc_upstream = None, rc_peer_index = None, rc_attempts = 0, rc_tried = []\<rparr>"

definition client_ip :: "req_ctx \<Rightarrow> rstr" where
  "client_ip c = ip_to_string (ip (rc_client_addr c))"

definition is_tried :: "req_ctx \<Rightarrow> socket_addr \<Rightarrow> bool" where
  "is_tried c a = (a \<in> set (rc_tried c))"

definition mark_tried :: "req_ctx \<Rightarrow> socket_addr \<Rightarrow> req_ctx" where
  "mark_tried c a = (if a \<in> set (rc_tried c) then c else c\<lparr>rc_tried := rc_tried c @ [a]\<rparr>)"

text \<open>First header value whose name matches case-insensitively.\<close>

definition find_header :: "header list \<Rightarrow> rstr \<Rightarrow> rstr option" where
  "find_header hs name = map_option snd (find (\<lambda>(k, _). eq_ignore_ascii_case k name) hs)"

definition ctx_header :: "req_ctx \<Rightarrow> rstr \<Rightarrow> rstr option" where
  "ctx_header c name = find_header (rc_headers c) name"

text \<open>The first-prefix matcher of context.rs (routing proper is in Pipeline).\<close>

fun match_route_first :: "('r \<Rightarrow> rstr) \<Rightarrow> 'r list \<Rightarrow> rstr \<Rightarrow> nat option" where
  "match_route_first prefix_of [] path = None"
| "match_route_first prefix_of (r # rs) path =
     (if starts_with path (prefix_of r) then Some 0
      else map_option Suc (match_route_first prefix_of rs path))"

section \<open>Lemmas\<close>

lemma sint_ucast_u16: "sint (ucast (s :: u16) :: u32) = uint s"
proof -
  have "- (2 ^ 31) \<le> uint s"
    by (rule order.trans [OF _ uint_ge_0]) simp
  moreover have "uint s < 2 ^ 31"
    using uint_lt2p [of s] by simp
  ultimately have "- (2 ^ 31) \<le> uint s" "uint s < 2 ^ 31" .
  then show ?thesis by (simp add: signed_ucast_eq signed_take_bit_int_eq_self)
qed

lemma ucast_u16_u32: "ucast (ucast (s :: u16) :: u32) = s"
  by (simp add: ucast_down_ucast_id is_down)

lemma deny_range: "100 \<le> s \<and> s \<le> 599 \<longleftrightarrow> 100 \<le> uint s \<and> uint s \<le> 599" for s :: u16
  by (simp add: word_le_def)

lemma ucast_abi_status:
  assumes "100 \<le> sint (c :: u32)" "sint c \<le> 599"
  shows "ucast (ucast c :: u16) = c" and "uint (ucast c :: u16) = sint c"
proof -
  have u: "uint c = sint c"
    using assms by (simp add: uint_sint take_bit_int_eq_self)
  show v: "uint (ucast c :: u16) = sint c"
    using assms u by (simp add: unsigned_ucast_eq take_bit_int_eq_self)
  have "uint (ucast (ucast c :: u16) :: u32) = uint (ucast c :: u16)"
    by (rule uint_up_ucast) (simp add: is_up)
  with u v have "uint (ucast (ucast c :: u16) :: u32) = uint c" by simp
  then show "ucast (ucast c :: u16) = c" by (simp only: word_uint_eq_iff)
qed

lemma sint_abi_codes [simp]:
  "sint abi_OK = 0" "sint abi_DECLINED = - 5" "sint abi_DONE = - 4" "sint abi_ERROR = - 1"
  by (simp_all add: abi_OK_def abi_DECLINED_def abi_DONE_def abi_ERROR_def)

lemma abi_code_sint: "sint (c :: u32) = k \<Longrightarrow> c = of_int k"
  by (drule sym) simp

lemma from_abi_to_abi:
  "from_abi (to_abi d) =
     (case d of Deny s \<Rightarrow> if 100 \<le> s \<and> s \<le> 599 then Some d else None | _ \<Rightarrow> Some d)"
proof (cases d)
  case (Deny s)
  then show ?thesis
    by (auto simp: from_abi_def to_abi_def sint_ucast_u16 ucast_u16_u32 deny_range)
qed (simp_all add: from_abi_def to_abi_def)

lemma to_abi_from_abi: "from_abi code = Some e \<Longrightarrow> to_abi e = code"
  by (auto simp: from_abi_def to_abi_def deny_range ucast_abi_status abi_OK_def abi_DECLINED_def
      abi_DONE_def dest: abi_code_sint split: if_splits)

lemma phase_from_i32_id: "phase_from_i32 (phase_id p) = Some p"
  by (cases p) (simp_all add: phase_from_i32_def phase_id_def)

lemma phase_from_i32_Some: "phase_from_i32 v = Some p \<longleftrightarrow> v = phase_id p"
  by (cases p) (auto simp: phase_from_i32_def phase_id_def)

lemma phase_id_less: "unat (phase_id p) < phase_COUNT"
  by (cases p) (simp_all add: phase_id_def phase_COUNT_def)

lemma phase_id_inj: "phase_id p = phase_id q \<Longrightarrow> p = q"
  by (metis phase_from_i32_id option.inject)

lemma find_header_Some:
  "find_header hs n = Some v \<Longrightarrow> \<exists>k. (k, v) \<in> set hs \<and> eq_ignore_ascii_case k n"
  by (induction hs) (auto simp: find_header_def split: if_splits)

lemma find_header_None:
  "find_header hs n = None \<longleftrightarrow> (\<forall>(k, v) \<in> set hs. \<not> eq_ignore_ascii_case k n)"
  by (induction hs) (auto simp: find_header_def)

lemma set_mark_tried [simp]: "set (rc_tried (mark_tried c a)) = insert a (set (rc_tried c))"
  by (auto simp: mark_tried_def)

lemma distinct_mark_tried: "distinct (rc_tried c) \<Longrightarrow> distinct (rc_tried (mark_tried c a))"
  by (auto simp: mark_tried_def)

lemma match_route_first_Some:
  "match_route_first f rs path = Some i \<longleftrightarrow>
     i < length rs \<and> starts_with path (f (rs ! i)) \<and> (\<forall>j < i. \<not> starts_with path (f (rs ! j)))"
proof (induction rs arbitrary: i)
  case (Cons r rs)
  then show ?case
    by (cases i) (auto simp: less_Suc_eq_0_disj)
qed simp

section \<open>The codec\<close>

text \<open>
  The ABI codec is exact. Decoding an encoded decision gives the decision back for every
  decision with a wire form; an out-of-range \<open>Deny\<close> never decodes to anything, so it can never be
  taken for \<open>Ok\<close>; and every code that decodes is the encoding of what it decodes to.
\<close>

lemma abi_codec:
  "from_abi (to_abi d) =
     (case d of Deny s \<Rightarrow> if 100 \<le> s \<and> s \<le> 599 then Some d else None | _ \<Rightarrow> Some d)
   \<and> (from_abi code = Some e \<longrightarrow> to_abi e = code)"
  by (simp add: from_abi_to_abi to_abi_from_abi)

end
