(* ===== verification/Routing.thy ===== *)
theory Routing
  imports Phases Config
begin

text \<open>
  Route selection of the request pipeline (\<open>crates/openrusty-server/src/pipeline/mod.rs\<close>): the host
  class and then the path precedence, the normalised request host, and the folding of the HTTP/2
  authority into the headers.
\<close>

section \<open>Definitions\<close>

definition host_matches :: "rstr option \<Rightarrow> rstr option \<Rightarrow> bool" where
  "host_matches route_host req_host =
     (case (route_host, req_host) of
        (None, _) \<Rightarrow> True
      | (Some _, None) \<Rightarrow> False
      | (Some r, Some h) \<Rightarrow> eq_ignore_ascii_case r h)"

text \<open>The loop of \<open>path_in_class\<close>: the first exact hit, and the best prefix with its length.\<close>

fun path_loop :: "rstr \<Rightarrow> (nat \<times> route_config) list \<Rightarrow> nat option \<Rightarrow> (nat \<times> nat) option
    \<Rightarrow> nat option \<times> (nat \<times> nat) option" where
  "path_loop path [] exact best_prefix = (exact, best_prefix)"
| "path_loop path ((i, r) # cands) exact best_prefix =
     (if rt_exact r then
        path_loop path cands (if exact = None \<and> rt_path_prefix r = path then Some i else exact) best_prefix
      else
        let p = rt_path_prefix r in
        path_loop path cands exact
          (if path = p \<or> starts_with path p then
             (case best_prefix of
                Some (_, len) \<Rightarrow> if length p \<le> len then best_prefix else Some (i, length p)
              | None \<Rightarrow> Some (i, length p))
           else best_prefix))"

definition path_in_class :: "(nat \<times> route_config) list \<Rightarrow> rstr \<Rightarrow> nat option" where
  "path_in_class cands path =
     (case path_loop path cands None None of
        (Some i, _) \<Rightarrow> Some i
      | (None, best_prefix) \<Rightarrow> map_option fst best_prefix)"

definition match_route :: "route_config list \<Rightarrow> rstr option \<Rightarrow> rstr \<Rightarrow> nat option" where
  "match_route routes host path =
     (case path_in_class (filter (\<lambda>(_, r). rt_host r \<noteq> None \<and> host_matches (rt_host r) host)
             (List.enumerate 0 routes)) path of
        Some i \<Rightarrow> Some i
      | None \<Rightarrow> path_in_class (filter (\<lambda>(_, r). rt_host r = None) (List.enumerate 0 routes)) path)"

definition fold_h2_authority :: "header list \<Rightarrow> rstr option \<Rightarrow> header list" where
  "fold_h2_authority headers authority =
     (if list_ex (\<lambda>(k, _). eq_ignore_ascii_case k ''host'') headers then headers
      else case authority of Some a \<Rightarrow> headers @ [(''host'', a)] | None \<Rightarrow> headers)"

definition bare_host :: "rstr \<Rightarrow> rstr" where
  "bare_host raw =
     (case strip_prefix raw ''['' of
        Some rest \<Rightarrow> hd (split_on CHR '']'' rest)
      | None \<Rightarrow>
          (case rsplit_once CHR '':'' raw of
             Some (h, pt) \<Rightarrow> if list_all is_ascii_digit pt then h else raw
           | None \<Rightarrow> raw))"

definition request_host :: "header list \<Rightarrow> rstr option" where
  "request_host headers =
     (case find (\<lambda>(k, _). eq_ignore_ascii_case k ''host'') headers of
        None \<Rightarrow> None
      | Some (_, v) \<Rightarrow>
          let raw = trim v in if raw = [] then None else Some (to_ascii_lowercase (bare_host raw)))"

section \<open>Specification\<close>

text \<open>
  When a route applies to a path, and its rank: an exact hit beats every prefix, a longer prefix a
  shorter one. The winner of a class is the route of highest rank, the first in the table on ties.
\<close>

definition applies :: "rstr \<Rightarrow> route_config \<Rightarrow> bool" where
  "applies path r = (if rt_exact r then rt_path_prefix r = path else starts_with path (rt_path_prefix r))"

definition rank :: "rstr \<Rightarrow> route_config \<Rightarrow> nat" where
  "rank path r = (if rt_exact r then Suc (length path) else length (rt_path_prefix r))"

definition winner :: "(route_config \<Rightarrow> bool) \<Rightarrow> route_config list \<Rightarrow> rstr \<Rightarrow> nat \<Rightarrow> bool" where
  "winner C routes path i \<longleftrightarrow>
     i < length routes \<and> C (routes ! i) \<and> applies path (routes ! i)
     \<and> (\<forall>j < length routes. C (routes ! j) \<and> applies path (routes ! j) \<longrightarrow>
          rank path (routes ! j) < rank path (routes ! i)
          \<or> rank path (routes ! j) = rank path (routes ! i) \<and> i \<le> j)"

definition host_class :: "rstr option \<Rightarrow> route_config \<Rightarrow> bool" where
  "host_class host r = (\<exists>rh h. rt_host r = Some rh \<and> host = Some h \<and> eq_ignore_ascii_case rh h)"

definition catch_all :: "route_config \<Rightarrow> bool" where
  "catch_all r = (rt_host r = None)"

section \<open>Lemmas\<close>

text \<open>What the loop has found after the candidates \<open>cs\<close>, whose indices increase.\<close>

definition found :: "rstr \<Rightarrow> (nat \<times> route_config) list \<Rightarrow> nat option \<Rightarrow> (nat \<times> nat) option \<Rightarrow> bool" where
  "found path cs ex best \<longleftrightarrow>
     (case ex of
        None \<Rightarrow> \<forall>(j, q) \<in> set cs. \<not> (rt_exact q \<and> applies path q)
      | Some i \<Rightarrow> (\<exists>r. (i, r) \<in> set cs \<and> rt_exact r \<and> applies path r)
          \<and> (\<forall>(j, q) \<in> set cs. rt_exact q \<and> applies path q \<longrightarrow> i \<le> j))
     \<and> (case best of
          None \<Rightarrow> \<forall>(j, q) \<in> set cs. \<not> (\<not> rt_exact q \<and> applies path q)
        | Some (i, l) \<Rightarrow> (\<exists>r. (i, r) \<in> set cs \<and> \<not> rt_exact r \<and> applies path r \<and> l = length (rt_path_prefix r))
            \<and> (\<forall>(j, q) \<in> set cs. \<not> rt_exact q \<and> applies path q \<longrightarrow>
                 length (rt_path_prefix q) < l \<or> length (rt_path_prefix q) = l \<and> i \<le> j))"

lemma found_exact:
  assumes "found path cs ex best" "rt_exact r" "\<forall>(j, q) \<in> set cs. j < i"
  shows "found path (cs @ [(i, r)]) (if ex = None \<and> rt_path_prefix r = path then Some i else ex) best"
proof (cases ex)
  case None
  then show ?thesis using assms by (cases best) (fastforce simp: found_def applies_def)+
next
  case (Some a)
  then show ?thesis using assms by (cases best) (fastforce simp: found_def applies_def)+
qed

lemma found_prefix:
  assumes "found path cs ex best" "\<not> rt_exact r" "\<forall>(j, q) \<in> set cs. j < i"
  shows "found path (cs @ [(i, r)]) ex
     (if starts_with path (rt_path_prefix r) then
        (case best of
           Some (_, len) \<Rightarrow> if length (rt_path_prefix r) \<le> len then best else Some (i, length (rt_path_prefix r))
         | None \<Rightarrow> Some (i, length (rt_path_prefix r)))
      else best)"
proof -
  have ex: "case ex of
        None \<Rightarrow> \<forall>(j, q) \<in> set (cs @ [(i, r)]). \<not> (rt_exact q \<and> applies path q)
      | Some a \<Rightarrow> (\<exists>q. (a, q) \<in> set (cs @ [(i, r)]) \<and> rt_exact q \<and> applies path q)
          \<and> (\<forall>(j, q) \<in> set (cs @ [(i, r)]). rt_exact q \<and> applies path q \<longrightarrow> a \<le> j)"
    using assms(1,2) by (auto simp: found_def split: option.splits)
  show ?thesis
  proof (cases best)
    case None
    then show ?thesis using assms ex by (auto simp: found_def applies_def split: option.splits)
  next
    case (Some b)
    obtain a l where b: "b = (a, l)" by (cases b)
    show ?thesis using assms ex by (auto simp: found_def applies_def Some b split: option.splits)
  qed
qed

lemma path_loop_found:
  assumes "found path cs ex best" "sorted_wrt (\<lambda>a b. fst a < fst b) (cs @ cands)"
  shows "case path_loop path cands ex best of (ex', best') \<Rightarrow> found path (cs @ cands) ex' best'"
  using assms
proof (induction path cands ex best arbitrary: cs rule: path_loop.induct)
  case (2 path i r cands ex best)
  have lt: "\<forall>(j, q) \<in> set cs. j < i" using 2(4) by (auto simp: sorted_wrt_append)
  have srt: "sorted_wrt (\<lambda>a b. fst a < fst b) ((cs @ [(i, r)]) @ cands)" using 2(4) by simp
  show ?case
  proof (cases "rt_exact r")
    case True
    then show ?thesis using 2(1) [OF True found_exact [OF 2(3) True lt] srt] by simp
  next
    case False
    have "path = rt_path_prefix r \<or> starts_with path (rt_path_prefix r)
        \<longleftrightarrow> starts_with path (rt_path_prefix r)" by auto
    then show ?thesis
      using 2(2) [OF False refl _ srt] found_prefix [OF 2(3) False lt] False by (simp add: Let_def)
  qed
qed simp

lemma sorted_enumerate_filter: "sorted_wrt (\<lambda>a b. fst a < fst b) (filter P (List.enumerate n xs))"
proof -
  have "sorted_wrt (<) (map fst (List.enumerate n xs))" by simp
  then have "sorted_wrt (\<lambda>a b. fst a < fst b) (List.enumerate n xs)"
    by (simp only: sorted_wrt_map)
  then show ?thesis by (rule sorted_wrt_filter)
qed

abbreviation class_cands :: "(route_config \<Rightarrow> bool) \<Rightarrow> route_config list \<Rightarrow> (nat \<times> route_config) list" where
  "class_cands C routes \<equiv> filter (\<lambda>(_, r). C r) (List.enumerate 0 routes)"

lemma in_class_cands: "(j, q) \<in> set (class_cands C routes) \<longleftrightarrow> j < length routes \<and> q = routes ! j \<and> C q"
  by (auto simp: in_set_enumerate_eq)

lemma rank_prefix_less: "applies path r \<Longrightarrow> \<not> rt_exact r \<Longrightarrow> rank path r \<le> length path"
  using starts_with_length by (auto simp: applies_def rank_def)

lemma class_found:
  "case path_loop path (class_cands C routes) None None of (ex, best) \<Rightarrow> found path (class_cands C routes) ex best"
proof -
  have "found path [] None None" by (simp add: found_def)
  from path_loop_found [OF this, of "class_cands C routes"]
    sorted_enumerate_filter [of "\<lambda>(_, r). C r" 0 routes] show ?thesis by simp
qed

lemma path_in_class_Some:
  assumes "path_in_class (class_cands C routes) path = Some i"
  shows "winner C routes path i"
proof -
  let ?cs = "class_cands C routes"
  obtain ex best where l: "path_loop path ?cs None None = (ex, best)" by fastforce
  have f: "found path ?cs ex best" using class_found [of path C routes] l by simp
  have mem: "(j, routes ! j) \<in> set ?cs" if "j < length routes" "C (routes ! j)" for j
    using that by (simp add: in_set_enumerate_eq)
  show ?thesis
  proof (cases ex)
    case (Some a)
    then have a: "a = i" using assms l by (simp add: path_in_class_def)
    have i: "i < length routes" "C (routes ! i)" "rt_exact (routes ! i)" "applies path (routes ! i)"
      using f by (auto simp: found_def Some a in_set_enumerate_eq)
    have first: "i \<le> j" if "j < length routes" "C (routes ! j)" "rt_exact (routes ! j)" "applies path (routes ! j)" for j
      using f mem [OF that(1,2)] that(3,4) by (fastforce simp: found_def Some a)
    have "rank path (routes ! j) < rank path (routes ! i)
        \<or> rank path (routes ! j) = rank path (routes ! i) \<and> i \<le> j"
      if "j < length routes" "C (routes ! j)" "applies path (routes ! j)" for j
      using first [OF that(1,2)] that(3) rank_prefix_less [OF that(3)] i(3)
      by (cases "rt_exact (routes ! j)") (auto simp: rank_def)
    then show ?thesis using i by (simp add: winner_def)
  next
    case None
    then obtain l' where b: "best = Some (i, l')" using assms l by (auto simp: path_in_class_def)
    then have i: "i < length routes" "C (routes ! i)" "\<not> rt_exact (routes ! i)" "applies path (routes ! i)"
      and l': "l' = length (rt_path_prefix (routes ! i))"
      using f by (auto simp: found_def None in_set_enumerate_eq)
    have "\<not> rt_exact (routes ! j)
        \<and> (length (rt_path_prefix (routes ! j)) < l' \<or> length (rt_path_prefix (routes ! j)) = l' \<and> i \<le> j)"
      if "j < length routes" "C (routes ! j)" "applies path (routes ! j)" for j
      using f mem [OF that(1,2)] that(3) by (fastforce simp: found_def None b)
    then show ?thesis using i l' by (auto simp: winner_def rank_def)
  qed
qed

lemma path_in_class_None:
  assumes "path_in_class (class_cands C routes) path = None" "j < length routes" "C (routes ! j)"
  shows "\<not> applies path (routes ! j)"
proof -
  let ?cs = "class_cands C routes"
  obtain ex best where l: "path_loop path ?cs None None = (ex, best)" by fastforce
  then have "ex = None" "best = None" using assms(1) by (auto simp: path_in_class_def split: option.splits)
  then have "found path ?cs None None" using class_found [of path C routes] l by simp
  moreover have "(j, routes ! j) \<in> set ?cs" using assms(2,3) by (simp add: in_set_enumerate_eq)
  ultimately show ?thesis by (auto simp: found_def)
qed

lemma winner_unique: "winner C routes path i \<Longrightarrow> winner C routes path j \<Longrightarrow> i = j"
  by (fastforce simp: winner_def)

lemma path_in_class_iff: "path_in_class (class_cands C routes) path = Some i \<longleftrightarrow> winner C routes path i"
proof
  assume w: "winner C routes path i"
  then show "path_in_class (class_cands C routes) path = Some i"
  proof (cases "path_in_class (class_cands C routes) path")
    case None
    then show ?thesis using w path_in_class_None by (auto simp: winner_def)
  next
    case (Some j)
    then show ?thesis using w winner_unique path_in_class_Some by metis
  qed
qed (rule path_in_class_Some)

lemma host_class_iff: "rt_host r \<noteq> None \<and> host_matches (rt_host r) host \<longleftrightarrow> host_class host r"
  by (auto simp: host_matches_def host_class_def split: option.splits)

lemma match_route_classes:
  "match_route routes host path =
     (case path_in_class (class_cands (host_class host) routes) path of
        Some i \<Rightarrow> Some i | None \<Rightarrow> path_in_class (class_cands catch_all routes) path)"
  unfolding match_route_def catch_all_def
  using host_class_iff [of _ host] by (simp add: case_prod_beta')

lemma match_route_less: "match_route routes host path = Some i \<Longrightarrow> i < length routes"
  using path_in_class_iff by (auto simp: match_route_classes winner_def split: option.splits)

section \<open>Properties\<close>

text \<open>
  C23: route precedence. The route chosen for a request is the winner of its host class (routes
  naming the request's host, case-insensitively), and only when no route of that class applies the
  winner of the catch-all class: the exact route if one matches, else the longest prefix, the
  earlier route on ties. No route is chosen exactly when none of either class applies; a host
  route never serves another host nor a request without a host.
\<close>

theorem route_precedence:
  "(match_route routes host path = Some i \<longleftrightarrow>
      winner (host_class host) routes path i
      \<or> (\<forall>r \<in> set routes. \<not> (host_class host r \<and> applies path r)) \<and> winner catch_all routes path i)
   \<and> (match_route routes host path = None \<longleftrightarrow>
      (\<forall>r \<in> set routes. \<not> ((host_class host r \<or> catch_all r) \<and> applies path r)))"
proof -
  have none: "path_in_class (class_cands C routes) path = None \<longleftrightarrow> (\<forall>r \<in> set routes. \<not> (C r \<and> applies path r))" for C
  proof
    assume "path_in_class (class_cands C routes) path = None"
    then show "\<forall>r \<in> set routes. \<not> (C r \<and> applies path r)"
      using path_in_class_None by (metis in_set_conv_nth)
  next
    assume *: "\<forall>r \<in> set routes. \<not> (C r \<and> applies path r)"
    show "path_in_class (class_cands C routes) path = None"
    proof (cases "path_in_class (class_cands C routes) path")
      case (Some i)
      then show ?thesis using * path_in_class_Some [OF Some] by (auto simp: winner_def)
    qed simp
  qed
  have no: "\<not> winner C routes path j" if "\<forall>r \<in> set routes. \<not> (C r \<and> applies path r)" for C j
    using that by (auto simp: winner_def)
  show ?thesis
  proof (cases "path_in_class (class_cands (host_class host) routes) path")
    case None
    then have h: "\<forall>r \<in> set routes. \<not> (host_class host r \<and> applies path r)" using none by blast
    have "match_route routes host path = path_in_class (class_cands catch_all routes) path"
      by (simp add: match_route_classes None)
    then show ?thesis
      using h no [OF h] none [of catch_all] path_in_class_iff [of catch_all routes path i]
      by (simp only:) blast
  next
    case (Some k)
    then have w: "winner (host_class host) routes path k" by (rule path_in_class_Some)
    then have h: "routes ! k \<in> set routes" "host_class host (routes ! k)" "applies path (routes ! k)"
      by (auto simp: winner_def)
    have "match_route routes host path = Some k" by (simp add: match_route_classes Some)
    then show ?thesis using h w winner_unique by auto
  qed
qed

definition sample_route :: "rstr \<Rightarrow> rstr option \<Rightarrow> bool \<Rightarrow> route_config" where
  "sample_route p h e = \<lparr>rt_path_prefix = p, rt_host = h, rt_exact = e, rt_upstream = ''u'', rt_timeout_ms = 0\<rparr>"

theorem route_precedence_witness:
  "let routes = [sample_route ''/a'' None False, sample_route ''/'' (Some ''x'') False, sample_route ''/a/b'' None False] in
   match_route routes (Some ''x'') ''/a/b'' = Some 1 \<and> winner (host_class (Some ''x'')) routes ''/a/b'' 1
   \<and> match_route routes None ''/a/b'' = Some 2"
proof -
  let ?r = "[sample_route ''/a'' None False, sample_route ''/'' (Some ''x'') False, sample_route ''/a/b'' None False]"
  have m: "match_route ?r (Some ''x'') ''/a/b'' = Some 1" "match_route ?r None ''/a/b'' = Some 2"
    by (simp_all add: match_route_def path_in_class_def sample_route_def host_matches_def)
  then have "winner (host_class (Some ''x'')) ?r ''/a/b'' 1"
    using route_precedence [of ?r "Some ''x''" "''/a/b''" 1] by (auto simp: host_class_def sample_route_def applies_def)
  with m show ?thesis by (simp add: Let_def)
qed

end
