(* ===== verification/Balancer.thy ===== *)
theory Balancer
  imports Prelude
begin

unbundle bit_operations_syntax

text \<open>
  The peer-selection algorithms of crates/openrusty-proxy/src/balancer.rs: smooth weighted
  round-robin, \<open>ip_hash\<close> over FNV-1a and \<open>least_conn\<close>, the contract they share, and the exact
  distribution of the round-robin.
\<close>

section \<open>Definitions\<close>

definition FNV_OFFSET :: u64 where "FNV_OFFSET = 0xcbf29ce484222325"
definition FNV_PRIME :: u64 where "FNV_PRIME = 0x00000100000001b3"

definition fnv1a64 :: "rstr \<Rightarrow> u64" where
  "fnv1a64 bytes = foldl (\<lambda>hash b. (hash XOR of_nat (of_char b)) * FNV_PRIME) FNV_OFFSET bytes"

definition ip_hash_pick :: "rstr \<Rightarrow> nat list \<Rightarrow> nat option" where
  "ip_hash_pick client_ip healthy =
     (if healthy = [] then None
      else Some (healthy ! (unat (fnv1a64 client_ip) mod length healthy)))"

text \<open>
  Smooth weighted round-robin. Effective weights are \<open>i64\<close> in the code and mathematical integers
  here; \<open>swrr_bounds\<close> below shows that they stay inside \<open>i64\<close>. The assertions are the panic.
\<close>

definition argmax :: "int list \<Rightarrow> nat" where
  "argmax current = foldl (\<lambda>best i. if current ! i > current ! best then i else best) 0 [1..<length current]"

definition swrr_total :: "u32 list \<Rightarrow> int" where
  "swrr_total weights = sum_list (map uint weights)"

definition swrr_add :: "u32 list \<Rightarrow> int list \<Rightarrow> int list" where
  "swrr_add weights current = map2 (\<lambda>eff weight. eff + uint weight) current weights"

definition swrr_next :: "u32 list \<Rightarrow> int list \<Rightarrow> (nat \<times> int list) rust" where
  "swrr_next weights current =
     (if weights = [] \<or> length weights \<noteq> length current then Panic
      else let eff = swrr_add weights current; best = argmax eff
           in Return (best, eff[best := eff ! best - swrr_total weights]))"

text \<open>
  \<open>least_conn\<close>: the cross products are \<open>u128\<close> in the code; a \<open>usize\<close> times a \<open>u32\<close> is below
  \<open>2^96\<close>, so natural numbers compute the same.
\<close>

fun least_conn_loop :: "nat list \<Rightarrow> u32 list \<Rightarrow> nat \<Rightarrow> nat list \<Rightarrow> nat rust" where
  "least_conn_loop in_flight weights best [] = Return best"
| "least_conn_loop in_flight weights best (i # is) =
     (if i < length in_flight \<and> best < length weights \<and> best < length in_flight \<and> i < length weights
      then least_conn_loop in_flight weights
             (if in_flight ! i * unat (weights ! best) < in_flight ! best * unat (weights ! i)
              then i else best) is
      else Panic)"

definition least_conn_pick :: "nat list \<Rightarrow> u32 list \<Rightarrow> nat list \<Rightarrow> nat option rust" where
  "least_conn_pick in_flight weights healthy =
     (case healthy of [] \<Rightarrow> Return None
      | best # is \<Rightarrow> rust_map Some (least_conn_loop in_flight weights best is))"

section \<open>The chooser contract\<close>

text \<open>
  What the peer selection relies on, whichever algorithm is configured: under its precondition a
  chooser returns a candidate, and returns none only when there is none.
\<close>

locale chooser =
  fixes pick :: "'c \<Rightarrow> nat list \<Rightarrow> nat option rust"
    and pre :: "'c \<Rightarrow> nat list \<Rightarrow> bool"
  assumes pick_empty: "pre c [] \<Longrightarrow> pick c [] = Return None"
    and pick_total: "pre c cs \<Longrightarrow> cs \<noteq> [] \<Longrightarrow> \<exists>i \<in> set cs. pick c cs = Return (Some i)"
begin

lemma pick_mem:
  assumes "pre c cs" and "pick c cs = Return (Some i)"
  shows "i \<in> set cs"
  using assms pick_total [of c cs] pick_empty [of c] by (cases "cs = []") auto

lemma pick_none:
  assumes "pre c cs"
  shows "pick c cs = Return None \<longleftrightarrow> cs = []"
  using assms pick_total [of c cs] pick_empty [of c] by (cases "cs = []") auto

lemma pick_no_panic:
  assumes "pre c cs"
  shows "pick c cs \<noteq> Panic"
  using assms pick_total [of c cs] pick_empty [of c] by (cases "cs = []") auto

lemma pick_filtered:
  assumes "pre c (filter P cs)" and "pick c (filter P cs) = Return (Some i)"
  shows "P i" and "i \<in> set cs"
  using pick_mem [OF assms] by auto

end

section \<open>Lemmas on the scan for the maximum\<close>

lemma argmax_scan:
  "foldl (\<lambda>best i. if cur ! i > cur ! best then i else best) b is \<in> insert b (set is)
   \<and> (\<forall>j \<in> insert b (set is).
        cur ! j \<le> cur ! foldl (\<lambda>best i. if cur ! i > cur ! best then i else best) b is)"
  for cur :: "int list"
proof (induction "is" arbitrary: b)
  case (Cons i "is")
  let ?b = "if cur ! i > cur ! b then i else b"
  have "cur ! b \<le> cur ! ?b" "cur ! i \<le> cur ! ?b" by simp_all
  with Cons [of ?b] show ?case by (force simp: if_split)
qed simp

lemma argmax_less: "cur \<noteq> [] \<Longrightarrow> argmax cur < length cur"
  using argmax_scan [of cur 0 "[1..<length cur]"] by (auto simp: argmax_def)

lemma argmax_max: "j < length cur \<Longrightarrow> cur ! j \<le> cur ! argmax cur"
  using argmax_scan [of cur 0 "[1..<length cur]"] by (cases j) (auto simp: argmax_def)

section \<open>Lemmas on the round-robin step\<close>

lemma length_swrr_add [simp]: "length (swrr_add ws cur) = min (length cur) (length ws)"
  by (simp add: swrr_add_def)

lemma swrr_add_nth: "i < length ws \<Longrightarrow> length ws = length cur \<Longrightarrow> swrr_add ws cur ! i = cur ! i + uint (ws ! i)"
  by (simp add: swrr_add_def)

lemma sum_swrr_add:
  "length ws = length cur \<Longrightarrow> sum_list (swrr_add ws cur) = sum_list cur + swrr_total ws"
  by (induction ws cur rule: list_induct2) (simp_all add: swrr_add_def swrr_total_def)

lemma swrr_total_nonneg: "0 \<le> swrr_total ws"
  by (auto simp: swrr_total_def intro: sum_list_nonneg)

lemma sum_list_update_int:
  "k < length xs \<Longrightarrow> sum_list (xs[k := x]) = sum_list xs + x - xs ! k" for xs :: "int list"
  by (induction xs arbitrary: k) (auto split: nat.splits)

lemma swrr_next_Return:
  assumes "swrr_next ws cur = Return (b, cur')"
  shows "ws \<noteq> []" "length ws = length cur" "b < length ws" "length cur' = length ws"
    and "\<And>i. i < length ws \<Longrightarrow>
           cur' ! i = cur ! i + uint (ws ! i) - (if i = b then swrr_total ws else 0)"
    and "\<And>i. i < length ws \<Longrightarrow> cur ! i + uint (ws ! i) \<le> cur ! b + uint (ws ! b)"
    and "sum_list cur' = sum_list cur"
proof -
  from assms show ne: "ws \<noteq> []" and len: "length ws = length cur"
    by (auto simp: swrr_next_def split: if_splits)
  define eff where "eff = swrr_add ws cur"
  have eff: "length eff = length ws" "eff \<noteq> []" using ne len by (auto simp: eff_def swrr_add_def)
  have b: "b = argmax eff" and c: "cur' = eff[b := eff ! b - swrr_total ws]"
    using assms ne len by (auto simp: swrr_next_def eff_def Let_def)
  show lt: "b < length ws" using eff b argmax_less by metis
  show lc: "length cur' = length ws" using c eff by simp
  show "cur' ! i = cur ! i + uint (ws ! i) - (if i = b then swrr_total ws else 0)"
    if "i < length ws" for i
    using that c eff len by (simp add: nth_list_update eff_def swrr_add_nth)
  show "cur ! i + uint (ws ! i) \<le> cur ! b + uint (ws ! b)" if "i < length ws" for i
    using argmax_max [of i eff] that lt eff b len by (simp add: eff_def swrr_add_nth)
  have "sum_list cur' = sum_list eff - swrr_total ws"
    using lt eff c by (simp add: sum_list_update_int)
  then show "sum_list cur' = sum_list cur" using len by (simp add: eff_def sum_swrr_add)
qed

lemma swrr_next_total:
  "ws \<noteq> [] \<Longrightarrow> length ws = length cur \<Longrightarrow> \<exists>b cur'. swrr_next ws cur = Return (b, cur')"
  by (simp add: swrr_next_def Let_def)

text \<open>The state invariant of the round-robin: what holds after every call from the zero state.\<close>

definition swrr_inv :: "u32 list \<Rightarrow> int list \<Rightarrow> bool" where
  "swrr_inv ws cur \<longleftrightarrow> length cur = length ws \<and> sum_list cur = 0
     \<and> (\<forall>i < length ws. - swrr_total ws < cur ! i)"

lemma swrr_inv_init: "0 < swrr_total ws \<Longrightarrow> swrr_inv ws (replicate (length ws) 0)"
  by (simp add: swrr_inv_def sum_list_replicate)

lemma sum_list_pos_max:
  assumes "0 < sum_list (xs :: int list)"
  shows "\<exists>i < length xs. 0 < xs ! i"
proof (rule ccontr)
  assume "\<not> ?thesis"
  then have "x \<in> set xs \<Longrightarrow> x \<le> 0" for x by (metis in_set_conv_nth not_less)
  then have "sum_list xs \<le> 0" by (rule sum_list_nonpos)
  with assms show False by simp
qed

lemma swrr_inv_next:
  assumes inv: "swrr_inv ws cur" and W: "0 < swrr_total ws" and step: "swrr_next ws cur = Return (b, cur')"
  shows "swrr_inv ws cur'"
proof -
  note s = swrr_next_Return [OF step]
  have "0 < sum_list (swrr_add ws cur)"
    using inv W s(2) by (simp add: sum_swrr_add swrr_inv_def)
  then obtain i where "i < length (swrr_add ws cur)" "0 < swrr_add ws cur ! i"
    using sum_list_pos_max by blast
  then have "0 < cur ! b + uint (ws ! b)"
    using s(2) s(6) [of i] by (simp add: swrr_add_nth)
  moreover have "- swrr_total ws < cur ! j + uint (ws ! j)" if "j < length ws" for j
    using inv that uint_ge_0 [of "ws ! j"] by (smt (verit) swrr_inv_def)
  ultimately show ?thesis
    using inv s(2,4,5,7) by (auto simp: swrr_inv_def)
qed

section \<open>Consecutive calls\<close>

text \<open>\<open>k\<close> calls on fixed weights: the picks in order and the final effective weights.\<close>

fun swrr_run :: "nat \<Rightarrow> u32 list \<Rightarrow> int list \<Rightarrow> (nat list \<times> int list) rust" where
  "swrr_run 0 ws cur = Return ([], cur)"
| "swrr_run (Suc k) ws cur =
     (case swrr_next ws cur of Panic \<Rightarrow> Panic
      | Return (b, cur') \<Rightarrow> rust_map (\<lambda>(bs, c). (b # bs, c)) (swrr_run k ws cur'))"

lemma swrr_run_total:
  "ws \<noteq> [] \<Longrightarrow> length ws = length cur \<Longrightarrow> \<exists>bs c. swrr_run k ws cur = Return (bs, c)"
proof (induction k arbitrary: cur)
  case (Suc k)
  from swrr_next_total [OF Suc.prems] obtain b cur' where s: "swrr_next ws cur = Return (b, cur')"
    by blast
  with Suc.IH [OF Suc.prems(1), of cur'] swrr_next_Return(4) [OF s] show ?case by auto
qed simp

lemma swrr_run_inv:
  "swrr_inv ws cur \<Longrightarrow> 0 < swrr_total ws \<Longrightarrow> swrr_run k ws cur = Return (bs, c) \<Longrightarrow> swrr_inv ws c"
proof (induction k arbitrary: cur bs)
  case (Suc k)
  from Suc.prems(3) obtain b cur' bs' where s: "swrr_next ws cur = Return (b, cur')"
    and r: "swrr_run k ws cur' = Return (bs', c)"
    by (auto split: rust.splits)
  from Suc.IH [OF swrr_inv_next [OF Suc.prems(1,2) s] Suc.prems(2) r] show ?case .
qed simp

lemma swrr_run_picks:
  "swrr_run k ws cur = Return (bs, c) \<Longrightarrow> length bs = k \<and> set bs \<subseteq> {..<length ws}"
proof (induction k arbitrary: cur bs)
  case (Suc k)
  then show ?case by (fastforce split: rust.splits dest: swrr_next_Return(3))
qed simp

lemma swrr_run_balance:
  "swrr_run k ws cur = Return (bs, c) \<Longrightarrow> i < length ws \<Longrightarrow>
     c ! i = cur ! i + int k * uint (ws ! i) - swrr_total ws * int (count_list bs i)"
proof (induction k arbitrary: cur bs)
  case (Suc k)
  from Suc.prems obtain b cur' bs' where s: "swrr_next ws cur = Return (b, cur')"
    and r: "swrr_run k ws cur' = Return (bs', c)" and bs: "bs = b # bs'"
    by (auto split: rust.splits)
  have "c ! i = cur' ! i + int k * uint (ws ! i) - swrr_total ws * int (count_list bs' i)"
    using Suc.IH [OF r Suc.prems(2)] .
  with swrr_next_Return(5) [OF s Suc.prems(2)] bs show ?case
    by (auto simp: algebra_simps)
qed simp

lemma swrr_run_add:
  "swrr_run (j + k) ws cur =
     (case swrr_run j ws cur of Panic \<Rightarrow> Panic
      | Return (as, d) \<Rightarrow> rust_map (\<lambda>(bs, c). (as @ bs, c)) (swrr_run k ws d))"
proof (induction j arbitrary: cur)
  case 0
  then show ?case by (cases "swrr_run k ws cur") auto
next
  case (Suc j)
  show ?case
  proof (cases "swrr_next ws cur")
    case (Return p)
    obtain b cur' where p: "p = (b, cur')" by (cases p)
    show ?thesis
    proof (cases "swrr_run j ws cur'")
      case (Return q)
      with Suc [of cur'] \<open>swrr_next ws cur = Return p\<close> p show ?thesis
        by (cases "swrr_run k ws (snd q)") (auto split: prod.splits)
    qed (use Suc [of cur'] Return p in simp)
  qed simp
qed

lemma sum_unat_weights: "(\<Sum>i<length ws. unat (ws ! i)) = nat (swrr_total ws)"
proof -
  have "int (\<Sum>i<length ws. unat (ws ! i)) = swrr_total ws"
    by (simp add: swrr_total_def sum_list_sum_nth atLeast0LessThan)
  then show ?thesis by (metis nat_int)
qed

text \<open>One full cycle from the zero state picks every peer exactly weight times and ends at zero.\<close>

lemma swrr_cycle:
  assumes W: "0 < swrr_total ws"
    and run: "swrr_run (nat (swrr_total ws)) ws (replicate (length ws) 0) = Return (bs, c)"
  shows "c = replicate (length ws) 0" and "i < length ws \<Longrightarrow> count_list bs i = unat (ws ! i)"
proof -
  let ?W = "swrr_total ws" and ?n = "length ws"
  have inv: "swrr_inv ws c"
    using swrr_run_inv [OF swrr_inv_init [OF W] W run] .
  have bal: "c ! i = ?W * (uint (ws ! i) - int (count_list bs i))" if "i < ?n" for i
    using swrr_run_balance [OF run that] that W by (simp add: algebra_simps)
  have le: "count_list bs i \<le> unat (ws ! i)" if "i < ?n" for i
  proof -
    have "- ?W < ?W * (uint (ws ! i) - int (count_list bs i))"
      using inv bal [OF that] that by (metis swrr_inv_def)
    then have "?W * (- 1) < ?W * (uint (ws ! i) - int (count_list bs i))" by simp
    then have "- 1 < uint (ws ! i) - int (count_list bs i)"
      using W by (simp only: mult_less_cancel_left_pos)
    then have "int (count_list bs i) \<le> int (unat (ws ! i))" by simp
    then show ?thesis by (simp only: of_nat_le_iff)
  qed
  have sums: "(\<Sum>i<?n. count_list bs i) = (\<Sum>i<?n. unat (ws ! i))"
    using swrr_run_picks [OF run] sum_count_set [of bs "{..<?n}"] by (simp add: sum_unat_weights)
  have eq: "count_list bs i = unat (ws ! i)" if "i < ?n" for i
    by (rule sum_mono_inv [OF sums]) (use le that in auto)
  then show "i < length ws \<Longrightarrow> count_list bs i = unat (ws ! i)" by simp
  show "c = replicate ?n 0"
    using eq bal inv by (intro nth_equalityI) (auto simp: swrr_inv_def)
qed


text \<open>Two runs of one cycle each leave the same state, so the picks repeat with that period.\<close>

lemma swrr_window_state:
  assumes W: "0 < swrr_total ws"
    and m: "swrr_run m ws (replicate (length ws) 0) = Return (as, d)"
  shows "\<exists>bs. swrr_run (nat (swrr_total ws)) ws d = Return (bs, d)"
proof -
  let ?Z = "replicate (length ws) (0 :: int)" and ?W = "nat (swrr_total ws)"
  have ne: "ws \<noteq> []" using W by (auto simp: swrr_total_def)
  obtain cs where c: "swrr_run ?W ws ?Z = Return (cs, ?Z)"
    using swrr_run_total [OF ne, of ?Z ?W] swrr_cycle(1) [OF W] by fastforce
  have len: "length d = length ws"
    using swrr_run_inv [OF swrr_inv_init [OF W] W m] by (simp add: swrr_inv_def)
  obtain bs e where e: "swrr_run ?W ws d = Return (bs, e)"
    using swrr_run_total [OF ne, of d ?W] len by auto
  have "swrr_run (m + ?W) ws ?Z = Return (as @ bs, e)"
    using m e by (simp add: swrr_run_add)
  moreover have "swrr_run (?W + m) ws ?Z = Return (cs @ as, d)"
    using m c by (simp add: swrr_run_add)
  ultimately have "e = d" by (simp add: add.commute)
  with e show ?thesis by auto
qed

lemma swrr_window_counts:
  assumes W: "0 < swrr_total ws"
    and m: "swrr_run m ws (replicate (length ws) 0) = Return (as, d)"
    and run: "swrr_run (nat (swrr_total ws)) ws d = Return (bs, d)"
    and i: "i < length ws"
  shows "count_list bs i = unat (ws ! i)"
proof -
  have "swrr_total ws * uint (ws ! i) = swrr_total ws * int (count_list bs i)"
    using swrr_run_balance [OF run i] W by simp
  then have "int (count_list bs i) = int (unat (ws ! i))" using W by simp
  then show ?thesis by (simp only: of_nat_eq_iff)
qed

lemma sum_list_ge_elem:
  assumes "\<And>i. i < length xs \<Longrightarrow> - B \<le> xs ! i" and "j < length (xs :: int list)"
  shows "xs ! j \<le> sum_list xs + B * int (length xs - 1)"
  using assms
proof (induction xs arbitrary: j)
  case (Cons x xs)
  have xs: "- B \<le> xs ! i" if "i < length xs" for i using Cons.prems(1) [of "Suc i"] that by simp
  have lo: "- (B * int (length xs)) \<le> sum_list xs"
  proof -
    have "sum_list (map (\<lambda>_. - B) xs) \<le> sum_list xs"
      using sum_list_mono [of xs "\<lambda>_. - B" "\<lambda>x. x"] xs by (auto simp: in_set_conv_nth)
    then show ?thesis by (simp add: sum_list_triv mult.commute)
  qed
  show ?case
  proof (cases j)
    case 0
    with lo show ?thesis by simp
  next
    case (Suc k)
    then have k: "k < length xs" using Cons.prems(2) by simp
    from Cons.IH [OF xs k] have "xs ! k \<le> sum_list xs + B * int (length xs - 1)" by simp
    moreover have "- B \<le> x" using Cons.prems(1) [of 0] by simp
    moreover have "B * int (length xs) = B * int (length xs - 1) + B"
      using k by (cases xs) (simp_all add: algebra_simps)
    ultimately show ?thesis using Suc by simp
  qed
qed simp

definition in_i64 :: "int \<Rightarrow> bool" where
  "in_i64 v \<longleftrightarrow> - (2 ^ 63) \<le> v \<and> v < 2 ^ 63"

lemma swrr_weight_le_total: "i < length ws \<Longrightarrow> uint (ws ! i) \<le> swrr_total ws"
  unfolding swrr_total_def
  by (rule member_le_sum_list) auto

lemma swrr_inv_in_i64:
  assumes inv: "swrr_inv ws c" and W: "0 < swrr_total ws"
    and small: "int (length ws) * swrr_total ws < 2 ^ 63" and i: "i < length ws"
  shows "in_i64 (c ! i)" and "in_i64 (c ! i + uint (ws ! i))" and "in_i64 (swrr_total ws)"
proof -
  let ?W = "swrr_total ws" and ?n = "int (length ws)"
  have n: "1 \<le> ?n" using i by simp
  have "?W \<le> ?n * ?W" using n W by (simp add: mult_le_cancel_right1)
  then have Wlt: "?W < 2 ^ 63" using small by linarith
  then show "in_i64 ?W" using W by (simp add: in_i64_def)
  have lo: "- ?W < c ! i" using inv i by (simp add: swrr_inv_def)
  have "c ! i \<le> sum_list c + ?W * int (length c - 1)"
    using inv i by (intro sum_list_ge_elem) (auto simp: swrr_inv_def less_imp_le)
  also have "\<dots> = ?n * ?W - ?W"
    using inv i by (simp add: swrr_inv_def of_nat_diff algebra_simps)
  finally have hi: "c ! i \<le> ?n * ?W - ?W" .
  show "in_i64 (c ! i)" using lo hi Wlt small W by (simp add: in_i64_def)
  show "in_i64 (c ! i + uint (ws ! i))"
    using lo hi Wlt small W swrr_weight_le_total [OF i] uint_ge_0 [of "ws ! i"]
    unfolding in_i64_def by linarith
qed

section \<open>Lemmas on the other choosers\<close>

lemma ip_hash_pick_mem: "ip_hash_pick c cs = Some i \<Longrightarrow> i \<in> set cs"
  by (auto simp: ip_hash_pick_def split: if_splits)

lemma ratio_trans:
  assumes "r * wb \<le> b * wr" "b * wj \<le> j * wb" "0 < wb"
  shows "r * wj \<le> j * (wr :: nat)"
proof -
  have "r * wb * wj \<le> b * wr * wj" using assms(1) by (rule mult_right_mono) simp
  also have "\<dots> \<le> j * wb * wr" using mult_right_mono [OF assms(2), of wr] by (simp add: ac_simps)
  finally show ?thesis using assms(3) by (simp add: ac_simps)
qed

lemma ratio_trans_less:
  assumes "r * wb \<le> b * wr" "b * wj < j * wb" "0 < wb" "0 < wr"
  shows "r * wj < j * (wr :: nat)"
proof -
  have "r * wb * wj \<le> b * wr * wj" using assms(1) by (rule mult_right_mono) simp
  also have "\<dots> < j * wb * wr" using mult_strict_right_mono [OF assms(2,4)] by (simp add: ac_simps)
  finally show ?thesis using assms(3) by (simp add: ac_simps)
qed

lemma least_conn_loop_first:
  assumes "\<forall>i \<in> insert b (set is). i < length fl \<and> i < length ws \<and> 0 < unat (ws ! i)"
  shows "\<exists>as r bs. b # is = as @ r # bs \<and> least_conn_loop fl ws b is = Return r
     \<and> (\<forall>j \<in> insert b (set is). fl ! r * unat (ws ! j) \<le> fl ! j * unat (ws ! r))
     \<and> (\<forall>j \<in> set as. fl ! r * unat (ws ! j) < fl ! j * unat (ws ! r))"
  using assms
proof (induction "is" arbitrary: b)
  case Nil
  then show ?case by (intro exI [of _ "[]"]) auto
next
  case (Cons i "is")
  let ?lt = "\<lambda>x y. fl ! x * unat (ws ! y) < fl ! y * unat (ws ! x)"
  let ?le = "\<lambda>x y. fl ! x * unat (ws ! y) \<le> fl ! y * unat (ws ! x)"
  have pos: "0 < unat (ws ! x)" if "x \<in> insert b (set (i # is))" for x using Cons.prems that by blast
  show ?case
  proof (cases "?lt i b")
    case True
    from Cons.IH [of i] Cons.prems obtain as r bs where r: "i # is = as @ r # bs"
      "least_conn_loop fl ws i is = Return r" "\<forall>j \<in> insert i (set is). ?le r j" "\<forall>j \<in> set as. ?lt r j"
      by auto
    have rin: "r \<in> set (i # is)" using r(1) by simp
    have "?lt r b" using ratio_trans_less [OF _ True, of "fl ! r" "unat (ws ! r)"] r(3) pos rin by simp
    moreover have "least_conn_loop fl ws b (i # is) = Return r" using True r(2) Cons.prems by simp
    moreover have "b # i # is = (b # as) @ r # bs" using r(1) by simp
    moreover have "\<forall>j \<in> insert b (set (i # is)). ?le r j"
      using r(3) \<open>?lt r b\<close> by (simp add: less_imp_le)
    moreover have "\<forall>j \<in> set (b # as). ?lt r j" using r(4) \<open>?lt r b\<close> by simp
    ultimately show ?thesis by blast
  next
    case False
    then have le: "?le b i" by simp
    from Cons.IH [of b] Cons.prems obtain as r bs where r: "b # is = as @ r # bs"
      "least_conn_loop fl ws b is = Return r" "\<forall>j \<in> insert b (set is). ?le r j" "\<forall>j \<in> set as. ?lt r j"
      by auto
    have run: "least_conn_loop fl ws b (i # is) = Return r" using False r(2) Cons.prems by simp
    have ri: "?le r i" using ratio_trans [OF _ le, of "fl ! r" "unat (ws ! r)"] r(3) pos by simp
    show ?thesis
    proof (cases as)
      case Nil
      then have "b # i # is = [] @ r # i # is" using r(1) by simp
      moreover have "\<forall>j \<in> insert b (set (i # is)). ?le r j" using r(3) ri by simp
      moreover have "\<forall>j \<in> set []. ?lt r j" by simp
      ultimately show ?thesis using run by blast
    next
      case (Cons a as')
      then have as: "as = b # as'" "is = as' @ r # bs" using r(1) by auto
      have rin: "r \<in> set is" using as by simp
      have "?lt r b" using r(4) as by simp
      then have nle: "\<not> ?le b r" by simp
      have "\<not> ?le i r"
      proof
        assume "?le i r"
        from ratio_trans [OF le this] pos [of i] have "?le b r" by simp
        with nle show False by blast
      qed
      then have "?lt r i" by simp
      with as(1) r(4) have lts: "\<forall>j \<in> set (b # i # as'). ?lt r j"
        by (metis list.set_intros(1) list.set_intros(2) set_ConsD)
      show ?thesis
      proof (intro exI conjI)
        show "b # i # is = (b # i # as') @ r # bs" using as(2) by simp
        show "\<forall>j \<in> insert b (set (i # is)). ?le r j" using r(3) ri by simp
      qed (use run lts in blast)+
    qed
  qed
qed

lemma least_conn_loop_spec:
  assumes "\<forall>i \<in> insert b (set is). i < length fl \<and> i < length ws \<and> 0 < unat (ws ! i)"
  shows "\<exists>r \<in> insert b (set is). least_conn_loop fl ws b is = Return r"
proof -
  from least_conn_loop_first [OF assms] obtain as r bs
    where "b # is = as @ r # bs" "least_conn_loop fl ws b is = Return r" by blast
  then show ?thesis by (metis in_set_conv_decomp list.set(2))
qed

definition indexed :: "nat list \<Rightarrow> u32 list \<Rightarrow> nat list \<Rightarrow> bool" where
  "indexed fl ws cs \<longleftrightarrow> (\<forall>i \<in> set cs. i < length fl \<and> i < length ws \<and> 0 < unat (ws ! i))"

lemma least_conn_pick_spec:
  assumes "indexed fl ws cs" and "cs \<noteq> []"
  shows "\<exists>r \<in> set cs. least_conn_pick fl ws cs = Return (Some r)"
proof -
  obtain b "is" where cs: "cs = b # is" using assms(2) by (cases cs) auto
  with assms(1) have "\<forall>i \<in> insert b (set is). i < length fl \<and> i < length ws \<and> 0 < unat (ws ! i)"
    by (simp add: indexed_def)
  from least_conn_loop_spec [OF this] show ?thesis by (auto simp: least_conn_pick_def cs)
qed

interpretation ip_hash: chooser "\<lambda>client cs. Return (ip_hash_pick client cs)" "\<lambda>_ _. True"
  by unfold_locales (auto simp: ip_hash_pick_def)

interpretation least_conn: chooser "\<lambda>(fl, ws) cs. least_conn_pick fl ws cs"
  "\<lambda>(fl, ws) cs. indexed fl ws cs"
proof (unfold_locales, goal_cases)
  case (1 c)
  show ?case by (simp add: least_conn_pick_def split: prod.split)
next
  case (2 c cs)
  then show ?case using least_conn_pick_spec [of "fst c" "snd c" cs] by (auto split: prod.splits)
qed

section \<open>Properties\<close>

text \<open>
  C1: the smooth weighted round-robin distributes exactly. Whatever number \<open>m\<close> of calls came
  before on the same weights from the zero state, the next \<open>sum(weights)\<close> consecutive picks hit
  every peer exactly as often as its weight says, and leave the effective weights as they were.
\<close>

theorem swrr_exact_distribution:
  assumes "0 < swrr_total ws"
  shows "\<exists>as d bs. swrr_run m ws (replicate (length ws) 0) = Return (as, d)
     \<and> swrr_run (nat (swrr_total ws)) ws d = Return (bs, d)
     \<and> (\<forall>i < length ws. count_list bs i = unat (ws ! i))"
proof -
  have ne: "ws \<noteq> []" using assms by (auto simp: swrr_total_def)
  obtain as d where m: "swrr_run m ws (replicate (length ws) 0) = Return (as, d)"
    using swrr_run_total [OF ne, of "replicate (length ws) 0" m] by auto
  from swrr_window_state [OF assms m] obtain bs
    where "swrr_run (nat (swrr_total ws)) ws d = Return (bs, d)" by blast
  with m swrr_window_counts [OF assms m this] show ?thesis by blast
qed

theorem swrr_exact_distribution_witness:
  "0 < swrr_total [5, 1, 1]
   \<and> (\<exists>as d bs. swrr_run 3 [5, 1, 1] (replicate (length [5, 1, 1 :: u32]) 0) = Return (as, d)
     \<and> swrr_run (nat (swrr_total [5, 1, 1])) [5, 1, 1] d = Return (bs, d)
     \<and> (\<forall>i < length [5, 1, 1 :: u32]. count_list bs i = unat ([5, 1, 1 :: u32] ! i)))"
proof -
  have h: "0 < swrr_total [5, 1, 1]" by (simp add: swrr_total_def)
  from h swrr_exact_distribution [OF h, of 3] show ?thesis by blast
qed

text \<open>
  C2: the \<open>i64\<close> effective weights of the round-robin never overflow. From the zero state, after
  any number of calls on fixed weights with \<open>n * total < 2^63\<close>, the next call succeeds and every
  value it forms (the running total, each old value plus its weight, each new value) is in the range
  of \<open>i64\<close>.
\<close>

theorem swrr_bounds:
  assumes W: "0 < swrr_total ws" and small: "int (length ws) * swrr_total ws < 2 ^ 63"
    and run: "swrr_run k ws (replicate (length ws) 0) = Return (bs, c)"
  shows "\<exists>b c'. swrr_next ws c = Return (b, c') \<and> in_i64 (swrr_total ws)
     \<and> (\<forall>i < length ws. in_i64 (c ! i + uint (ws ! i)) \<and> in_i64 (c' ! i))"
proof -
  have inv: "swrr_inv ws c" using swrr_run_inv [OF swrr_inv_init [OF W] W run] .
  have ne: "ws \<noteq> []" using W by (auto simp: swrr_total_def)
  obtain b c' where n: "swrr_next ws c = Return (b, c')"
    using swrr_next_total [OF ne, of c] inv by (auto simp: swrr_inv_def)
  have inv': "swrr_inv ws c'" using swrr_inv_next [OF inv W n] .
  have "in_i64 (c ! i + uint (ws ! i))" if "i < length ws" for i
    using swrr_inv_in_i64(2) [OF inv W small that] .
  moreover have "in_i64 (c' ! i)" if "i < length ws" for i
    using swrr_inv_in_i64(1) [OF inv' W small that] .
  moreover have "in_i64 (swrr_total ws)"
    using swrr_inv_in_i64(3) [OF inv W small] ne by blast
  ultimately show ?thesis using n by blast
qed

theorem swrr_bounds_witness:
  "\<exists>b c'. swrr_next [3, 1] [0, 0] = Return (b, c') \<and> in_i64 (swrr_total [3, 1])
     \<and> (\<forall>i < length [3, 1 :: u32]. in_i64 ([0, 0] ! i + uint ([3, 1 :: u32] ! i)) \<and> in_i64 (c' ! i))"
proof -
  have W: "0 < swrr_total [3, 1]" by (simp add: swrr_total_def)
  have small: "int (length [3, 1 :: u32]) * swrr_total [3, 1] < 2 ^ 63" by (simp add: swrr_total_def)
  have run: "swrr_run 0 [3, 1] (replicate (length [3, 1 :: u32]) 0) = Return ([], [0, 0])" by simp
  from swrr_bounds [OF W small run] show ?thesis .
qed

text \<open>
  C3: \<open>least_conn_pick\<close> picks a candidate whose in-flight-to-weight ratio is minimal (compared by
  cross multiplication), and the first such candidate: every earlier candidate has a strictly
  larger ratio. It never panics on candidates that index both arrays with positive weights.
\<close>

theorem least_conn_minimal:
  assumes "indexed fl ws cs" and "cs \<noteq> []"
  shows "\<exists>as r bs. cs = as @ r # bs \<and> least_conn_pick fl ws cs = Return (Some r)
     \<and> (\<forall>j \<in> set cs. fl ! r * unat (ws ! j) \<le> fl ! j * unat (ws ! r))
     \<and> (\<forall>j \<in> set as. fl ! r * unat (ws ! j) < fl ! j * unat (ws ! r))"
proof -
  obtain b "is" where cs: "cs = b # is" using assms(2) by (cases cs) auto
  have "\<forall>i \<in> insert b (set is). i < length fl \<and> i < length ws \<and> 0 < unat (ws ! i)"
    using assms(1) by (simp add: indexed_def cs)
  from least_conn_loop_first [OF this] obtain as r bs where
    r: "b # is = as @ r # bs" "least_conn_loop fl ws b is = Return r"
    "\<forall>j \<in> insert b (set is). fl ! r * unat (ws ! j) \<le> fl ! j * unat (ws ! r)"
    "\<forall>j \<in> set as. fl ! r * unat (ws ! j) < fl ! j * unat (ws ! r)" by blast
  moreover have "least_conn_pick fl ws (b # is) = Return (Some r)"
    using r(2) by (simp add: least_conn_pick_def)
  ultimately show ?thesis unfolding cs by (metis list.set(2))
qed

theorem least_conn_minimal_witness:
  "indexed [4, 2, 1] [1, 2, 1] [0, 1, 2] \<and> [0 :: nat, 1, 2] \<noteq> []
   \<and> least_conn_pick [4, 2, 1] [1, 2, 1] [0, 1, 2] = Return (Some 1)"
proof -
  have h: "indexed [4, 2, 1] [1, 2, 1] [0, 1, 2]" "[0 :: nat, 1, 2] \<noteq> []"
    by (simp_all add: indexed_def)
  have "least_conn_pick [4, 2, 1] [1, 2, 1] [0, 1, 2] = Return (Some 1)"
    using least_conn_minimal [OF h] by (simp add: least_conn_pick_def)
  with h show ?thesis by blast
qed

end
