(* ===== verification/Health.thy ===== *)
theory Health
  imports Config "HOL-Library.List_Lexorder" "HOL-Library.Char_ord" "HOL-Library.Product_Lexorder"
begin

text \<open>
  Passive and active health of upstream peers (crates/openrusty-proxy/src/health.rs). The registry
  is explicit state: the per-upstream slot blocks and the active plane, both as partial maps.
  Mutexes and atomics guard single operations, so each operation is one atomic step here; lock
  poisoning is recovered in the code and needs no case.
\<close>

section \<open>State\<close>

record peer_counters =
  fails :: u32
  window_start_ms :: u64

definition peer_counters_default :: peer_counters where
  "peer_counters_default = \<lparr>fails = 0, window_start_ms = 0\<rparr>"

record peer_health =
  counters :: peer_counters
  down_until_ms :: u64
  active_ok :: bool
  in_flight :: nat

record peer_slots =
  sl_addrs :: "socket_addr list"
  sl_peers :: "peer_health list"

record active_peer =
  ap_healthy :: bool
  ap_fails :: u32
  ap_successes :: u32

record health_registry =
  hr_upstreams :: "rstr \<rightharpoonup> peer_slots"
  hr_active :: "(rstr \<times> rstr) list"
  hr_active_map :: "rstr \<times> rstr \<rightharpoonup> active_peer"

text \<open>\<open>hr_active\<close> lists the keys of the active map once each, for iteration.\<close>

definition health_new :: health_registry where
  "health_new = \<lparr>hr_upstreams = Map.empty, hr_active = [], hr_active_map = Map.empty\<rparr>"

definition fresh_peer :: peer_health where
  "fresh_peer = \<lparr>counters = peer_counters_default, down_until_ms = 0, active_ok = True, in_flight = 0\<rparr>"

section \<open>Registration\<close>

text \<open>
  The previous state by address: collecting \<open>(addr, peer)\<close> pairs into a \<open>HashMap\<close> keeps the last
  pair of a repeated address, hence the reversal before \<open>map_of\<close>.
\<close>

definition previous_peers :: "peer_slots option \<Rightarrow> socket_addr \<rightharpoonup> peer_health" where
  "previous_peers so =
     (case so of Some slots \<Rightarrow> map_of (rev (zip (sl_addrs slots) (sl_peers slots))) | None \<Rightarrow> Map.empty)"

definition active_verdict :: "health_registry \<Rightarrow> rstr \<Rightarrow> rstr \<Rightarrow> bool" where
  "active_verdict h upstream addr =
     (case hr_active_map h (upstream, addr) of Some p \<Rightarrow> ap_healthy p | None \<Rightarrow> True)"

definition register :: "health_registry \<Rightarrow> rstr \<Rightarrow> socket_addr list \<Rightarrow> health_registry" where
  "register h upstream addrs =
     (let previous = previous_peers (hr_upstreams h upstream);
          peers = map (\<lambda>addr.
            (case previous addr of Some p \<Rightarrow> p | None \<Rightarrow> fresh_peer)
              \<lparr>active_ok := active_verdict h upstream (addr_to_string addr)\<rparr>) addrs
      in h\<lparr>hr_upstreams := (hr_upstreams h)(upstream \<mapsto> \<lparr>sl_addrs = addrs, sl_peers = peers\<rparr>)\<rparr>)"

section \<open>Queries\<close>

definition slot_lookup :: "health_registry \<Rightarrow> rstr \<Rightarrow> nat \<Rightarrow> peer_slots option" where
  "slot_lookup h upstream idx =
     (case hr_upstreams h upstream of
        Some slots \<Rightarrow> if idx < length (sl_peers slots) then Some slots else None
      | None \<Rightarrow> None)"

definition peer_up :: "peer_health \<Rightarrow> u64 \<Rightarrow> bool" where
  "peer_up p now_ms = (down_until_ms p \<le> now_ms \<and> active_ok p)"

definition is_healthy :: "health_registry \<Rightarrow> rstr \<Rightarrow> nat \<Rightarrow> u64 \<Rightarrow> bool" where
  "is_healthy h upstream idx now_ms =
     (case slot_lookup h upstream idx of Some slots \<Rightarrow> peer_up (sl_peers slots ! idx) now_ms | None \<Rightarrow> True)"

definition healthy_indices :: "health_registry \<Rightarrow> rstr \<Rightarrow> nat \<Rightarrow> u64 \<Rightarrow> nat list" where
  "healthy_indices h upstream peer_count now_ms =
     (case hr_upstreams h upstream of
        None \<Rightarrow> [0..<peer_count]
      | Some slots \<Rightarrow>
          filter (\<lambda>i. i < length (sl_peers slots) \<longrightarrow> peer_up (sl_peers slots ! i) now_ms) [0..<peer_count])"

section \<open>Passive plane\<close>

definition window_ms :: "health_config \<Rightarrow> u64" where
  "window_ms cfg = saturating_mul (hc_fail_window_s cfg) 1000"

text \<open>The addition of the deadline is plain \<open>u64\<close> addition in the code: it wraps.\<close>

definition evaluate_failure :: "u32 \<Rightarrow> u64 \<Rightarrow> u64 \<Rightarrow> health_config \<Rightarrow> u64 option" where
  "evaluate_failure fails_after window_start now_ms cfg =
     (if hc_max_fails cfg = 0 then None
      else if saturating_sub now_ms window_start > window_ms cfg then None
      else if fails_after \<ge> hc_max_fails cfg
           then Some (now_ms + saturating_mul (hc_fail_timeout_s cfg) 1000)
           else None)"

definition update_peer :: "health_registry \<Rightarrow> rstr \<Rightarrow> nat \<Rightarrow> (peer_health \<Rightarrow> peer_health) \<Rightarrow> health_registry" where
  "update_peer h upstream idx f =
     (case slot_lookup h upstream idx of
        None \<Rightarrow> h
      | Some slots \<Rightarrow> h\<lparr>hr_upstreams := (hr_upstreams h)(upstream \<mapsto>
            slots\<lparr>sl_peers := (sl_peers slots)[idx := f (sl_peers slots ! idx)]\<rparr>)\<rparr>)"

definition fail_peer :: "health_config \<Rightarrow> u64 \<Rightarrow> peer_health \<Rightarrow> peer_health" where
  "fail_peer cfg now_ms p =
     (let c = (if saturating_sub now_ms (window_start_ms (counters p)) > window_ms cfg
               then \<lparr>fails = 0, window_start_ms = now_ms\<rparr> else counters p);
          c1 = c\<lparr>fails := fails c + 1\<rparr>
      in case evaluate_failure (fails c1) (window_start_ms c1) now_ms cfg of
           Some d \<Rightarrow> p\<lparr>counters := c1\<lparr>fails := 0\<rparr>, down_until_ms := d\<rparr>
         | None \<Rightarrow> p\<lparr>counters := c1\<rparr>)"

definition record_failure :: "health_registry \<Rightarrow> rstr \<Rightarrow> nat \<Rightarrow> health_config \<Rightarrow> u64 \<Rightarrow> health_registry" where
  "record_failure h upstream idx cfg now_ms =
     (if hc_max_fails cfg = 0 then h else update_peer h upstream idx (fail_peer cfg now_ms))"

definition record_success :: "health_registry \<Rightarrow> rstr \<Rightarrow> nat \<Rightarrow> u64 \<Rightarrow> health_registry" where
  "record_success h upstream idx now_ms =
     update_peer h upstream idx (\<lambda>p. p\<lparr>counters := \<lparr>fails = 0, window_start_ms = now_ms\<rparr>\<rparr>)"

section \<open>Active plane\<close>

definition evaluate_active :: "bool \<Rightarrow> u32 \<Rightarrow> u32 \<Rightarrow> bool \<Rightarrow> u32 \<Rightarrow> u32 \<Rightarrow> bool \<times> u32 \<times> u32" where
  "evaluate_active healthy f s ok unhealthy_threshold healthy_threshold =
     (if ok then (healthy \<or> s + 1 \<ge> healthy_threshold, 0, s + 1)
      else (healthy \<and> f + 1 < unhealthy_threshold, f + 1, 0))"

definition active_fresh :: active_peer where
  "active_fresh = \<lparr>ap_healthy = True, ap_fails = 0, ap_successes = 0\<rparr>"

definition record_probe ::
  "health_registry \<Rightarrow> rstr \<Rightarrow> nat \<Rightarrow> rstr \<Rightarrow> bool \<Rightarrow> u32 \<Rightarrow> u32 \<Rightarrow> health_registry \<times> bool" where
  "record_probe h upstream idx addr ok unhealthy_threshold healthy_threshold =
     (let key = (upstream, addr);
          peer = (case hr_active_map h key of Some p \<Rightarrow> p | None \<Rightarrow> active_fresh);
          (healthy, f, s) = evaluate_active (ap_healthy peer) (ap_fails peer) (ap_successes peer) ok
                              unhealthy_threshold healthy_threshold;
          h1 = h\<lparr>hr_active := (if hr_active_map h key = None then hr_active h @ [key] else hr_active h),
                 hr_active_map := (hr_active_map h)(key \<mapsto>
                   \<lparr>ap_healthy = healthy, ap_fails = f, ap_successes = s\<rparr>)\<rparr>
      in (update_peer h1 upstream idx (\<lambda>p. p\<lparr>active_ok := healthy\<rparr>), healthy))"

definition is_active_healthy :: "health_registry \<Rightarrow> rstr \<Rightarrow> rstr \<Rightarrow> bool" where
  "is_active_healthy h upstream addr =
     (case hr_active_map h (upstream, addr) of Some p \<Rightarrow> ap_healthy p | None \<Rightarrow> True)"

definition active_peers :: "health_registry \<Rightarrow> (rstr \<times> rstr \<times> bool) list" where
  "active_peers h = sort (map (\<lambda>(u, a). (u, a, is_active_healthy h u a)) (hr_active h))"

section \<open>In-flight gauges\<close>

fun addr_slot :: "socket_addr list \<Rightarrow> socket_addr \<Rightarrow> nat option" where
  "addr_slot [] addr = None"
| "addr_slot (a # as) addr = (if a = addr then Some 0 else map_option Suc (addr_slot as addr))"

text \<open>Gauges are \<open>usize\<close>; the increment is a natural-number successor (no reachable wrap).\<close>

definition update_in_flight :: "health_registry \<Rightarrow> rstr \<Rightarrow> socket_addr \<Rightarrow> (nat \<Rightarrow> nat) \<Rightarrow> health_registry" where
  "update_in_flight h upstream addr f =
     (case hr_upstreams h upstream of
        None \<Rightarrow> h
      | Some slots \<Rightarrow>
          (case addr_slot (sl_addrs slots) addr of
             None \<Rightarrow> h
           | Some pos \<Rightarrow> update_peer h upstream pos (\<lambda>p. p\<lparr>in_flight := f (in_flight p)\<rparr>)))"

definition inc_in_flight :: "health_registry \<Rightarrow> rstr \<Rightarrow> socket_addr \<Rightarrow> health_registry" where
  "inc_in_flight h upstream addr = update_in_flight h upstream addr Suc"

definition dec_in_flight :: "health_registry \<Rightarrow> rstr \<Rightarrow> socket_addr \<Rightarrow> health_registry" where
  "dec_in_flight h upstream addr = update_in_flight h upstream addr (\<lambda>v. v - 1)"

definition gauge :: "peer_slots \<Rightarrow> socket_addr \<Rightarrow> nat" where
  "gauge slots addr =
     (case addr_slot (sl_addrs slots) addr of None \<Rightarrow> 0 | Some pos \<Rightarrow> in_flight (sl_peers slots ! pos))"

definition in_flights :: "health_registry \<Rightarrow> rstr \<Rightarrow> socket_addr list \<Rightarrow> nat list" where
  "in_flights h upstream peers =
     (case hr_upstreams h upstream of
        None \<Rightarrow> replicate (length peers) 0
      | Some slots \<Rightarrow> map (gauge slots) peers)"

section \<open>Operations as events\<close>

datatype health_op =
    Register rstr "socket_addr list"
  | Failure rstr nat health_config u64
  | Success rstr nat u64
  | Probe rstr nat rstr bool u32 u32
  | Inc rstr socket_addr
  | Dec rstr socket_addr

fun health_step :: "health_registry \<Rightarrow> health_op \<Rightarrow> health_registry" where
  "health_step h (Register u addrs) = register h u addrs"
| "health_step h (Failure u i cfg now) = record_failure h u i cfg now"
| "health_step h (Success u i now) = record_success h u i now"
| "health_step h (Probe u i a ok ut ht) = fst (record_probe h u i a ok ut ht)"
| "health_step h (Inc u a) = inc_in_flight h u a"
| "health_step h (Dec u a) = dec_in_flight h u a"

text \<open>Slot blocks are parallel arrays, and the key list of the active plane is its domain.\<close>

definition health_inv :: "health_registry \<Rightarrow> bool" where
  "health_inv h \<longleftrightarrow>
     (\<forall>u slots. hr_upstreams h u = Some slots \<longrightarrow> length (sl_addrs slots) = length (sl_peers slots))
     \<and> distinct (hr_active h) \<and> set (hr_active h) = dom (hr_active_map h)"

section \<open>Lemmas\<close>

lemma slot_lookup_Some:
  "slot_lookup h u i = Some slots \<longleftrightarrow> hr_upstreams h u = Some slots \<and> i < length (sl_peers slots)"
  by (auto simp: slot_lookup_def split: option.splits if_splits)

lemma update_peer_active [simp]:
  "hr_active (update_peer h u i f) = hr_active h"
  "hr_active_map (update_peer h u i f) = hr_active_map h"
  by (simp_all add: update_peer_def split: option.splits)

lemma update_peer_slots:
  "hr_upstreams (update_peer h u i f) v =
     (if v = u then map_option (\<lambda>s. s\<lparr>sl_peers := (sl_peers s)[i := f (sl_peers s ! i)]\<rparr>) (hr_upstreams h u)
      else hr_upstreams h v)"
  by (auto simp: update_peer_def slot_lookup_def list_update_beyond split: option.splits)

lemma health_inv_update_peer: "health_inv h \<Longrightarrow> health_inv (update_peer h u i f)"
  by (auto simp: health_inv_def update_peer_slots split: if_splits)

lemma health_inv_register: "health_inv h \<Longrightarrow> health_inv (register h u addrs)"
  by (auto simp: health_inv_def register_def Let_def)

lemma health_inv_probe: "health_inv h \<Longrightarrow> health_inv (fst (record_probe h u i a ok ut ht))"
  by (auto simp: record_probe_def Let_def split_beta intro!: health_inv_update_peer)
    (auto simp: health_inv_def)

lemma health_inv_in_flight: "health_inv h \<Longrightarrow> health_inv (update_in_flight h u a f)"
  by (auto simp: update_in_flight_def intro: health_inv_update_peer split: option.splits)

lemma health_inv_step: "health_inv h \<Longrightarrow> health_inv (health_step h e)"
  by (cases e) (simp_all add: health_inv_register health_inv_probe health_inv_in_flight
      record_failure_def record_success_def inc_in_flight_def dec_in_flight_def health_inv_update_peer)

interpretation health: machine health_new health_step health_inv
  by unfold_locales (auto simp: health_inv_step, simp add: health_inv_def health_new_def)

lemma addr_slot_Some:
  "addr_slot as a = Some i \<Longrightarrow> i < length as \<and> as ! i = a"
  by (induction as arbitrary: i) (auto split: if_splits)

lemma addr_slot_None: "addr_slot as a = None \<longleftrightarrow> a \<notin> set as"
  by (induction as) auto

lemma previous_peers_nth:
  assumes "length (sl_addrs s) = length (sl_peers s)" "distinct (sl_addrs s)" "i < length (sl_addrs s)"
  shows "previous_peers (Some s) (sl_addrs s ! i) = Some (sl_peers s ! i)"
proof -
  have "(sl_addrs s ! i, sl_peers s ! i) \<in> set (rev (zip (sl_addrs s) (sl_peers s)))"
    using assms by (auto simp: in_set_zip)
  moreover have "distinct (map fst (rev (zip (sl_addrs s) (sl_peers s))))"
    using assms by (simp flip: rev_map)
  ultimately show ?thesis by (simp add: previous_peers_def)
qed

lemma previous_peers_None:
  "length (sl_addrs s) = length (sl_peers s) \<Longrightarrow> a \<notin> set (sl_addrs s) \<Longrightarrow> previous_peers (Some s) a = None"
  by (auto simp: previous_peers_def map_of_eq_None_iff dest: set_zip_leftD)

lemma register_slots:
  "hr_upstreams (register h u addrs) v =
     (if v = u then Some \<lparr>sl_addrs = addrs, sl_peers = map (\<lambda>addr.
            (case previous_peers (hr_upstreams h u) addr of Some p \<Rightarrow> p | None \<Rightarrow> fresh_peer)
              \<lparr>active_ok := active_verdict h u (addr_to_string addr)\<rparr>) addrs\<rparr>
      else hr_upstreams h v)"
  by (simp add: register_def Let_def)

section \<open>Lemmas on failure windows\<close>

lemma saturating_sub_0 [simp]: "saturating_sub a a = 0"
  by (simp add: saturating_sub_def)

text \<open>Failures of one peer at the given times, in order.\<close>

definition fail_all :: "health_config \<Rightarrow> u64 list \<Rightarrow> peer_health \<Rightarrow> peer_health" where
  "fail_all cfg ts p = foldl (\<lambda>p t. fail_peer cfg t p) p ts"

definition in_window :: "health_config \<Rightarrow> u64 \<Rightarrow> u64 \<Rightarrow> bool" where
  "in_window cfg w t \<longleftrightarrow> saturating_sub t w \<le> window_ms cfg"

lemma fail_peer_in_window:
  assumes "in_window cfg (window_start_ms (counters p)) t" and "hc_max_fails cfg \<noteq> 0"
  shows "fail_peer cfg t p =
     (if fails (counters p) + 1 \<ge> hc_max_fails cfg
      then p\<lparr>counters := (counters p)\<lparr>fails := 0\<rparr>,
             down_until_ms := t + saturating_mul (hc_fail_timeout_s cfg) 1000\<rparr>
      else p\<lparr>counters := (counters p)\<lparr>fails := fails (counters p) + 1\<rparr>\<rparr>)"
  using assms by (simp add: fail_peer_def evaluate_failure_def in_window_def not_less Let_def)

lemma unat_Suc_word: "Suc (unat (w :: 'a::len word)) < 2 ^ LENGTH('a) \<Longrightarrow> unat (w + 1) = Suc (unat w)"
  by (simp add: unat_word_ariths)

lemma fail_all_below:
  assumes "unat (fails (counters p)) + length ts < unat (hc_max_fails cfg)"
    and "\<forall>t \<in> set ts. in_window cfg (window_start_ms (counters p)) t"
  shows "fail_all cfg ts p =
     p\<lparr>counters := (counters p)\<lparr>fails := fails (counters p) + of_nat (length ts)\<rparr>\<rparr>"
  using assms
proof (induction ts arbitrary: p)
  case Nil
  then show ?case by (simp add: fail_all_def)
next
  case (Cons t ts)
  have mx: "unat (hc_max_fails cfg) < 2 ^ 32" using unsigned_less [of "hc_max_fails cfg", where 'a = nat] by simp
  then have s: "unat (fails (counters p) + 1) = Suc (unat (fails (counters p)))"
    using Cons.prems(1) by (intro unat_Suc_word) simp
  then have lt: "fails (counters p) + 1 < hc_max_fails cfg"
    using Cons.prems(1) by (simp add: word_less_nat_alt)
  have nz: "hc_max_fails cfg \<noteq> 0" using Cons.prems(1) by auto
  let ?p = "p\<lparr>counters := (counters p)\<lparr>fails := fails (counters p) + 1\<rparr>\<rparr>"
  have step: "fail_peer cfg t p = ?p"
    using fail_peer_in_window [of cfg p t] Cons.prems(2) nz lt by simp
  have "fail_all cfg ts ?p = ?p\<lparr>counters := (counters ?p)\<lparr>fails := fails (counters ?p) + of_nat (length ts)\<rparr>\<rparr>"
    using Cons.prems s by (intro Cons.IH) auto
  then show ?case by (simp add: fail_all_def step algebra_simps)
qed

lemma fail_all_append: "fail_all cfg (ts @ us) p = fail_all cfg us (fail_all cfg ts p)"
  by (simp add: fail_all_def)

section \<open>Lemmas on the probe counters\<close>

text \<open>A run of equal probe outcomes on the consecutive counters.\<close>

fun probe_run :: "nat \<Rightarrow> bool \<Rightarrow> u32 \<Rightarrow> u32 \<Rightarrow> bool \<times> u32 \<times> u32 \<Rightarrow> bool \<times> u32 \<times> u32" where
  "probe_run 0 ok ut ht st = st"
| "probe_run (Suc k) ok ut ht (h, f, s) = probe_run k ok ut ht (evaluate_active h f s ok ut ht)"

lemma probe_run_fail:
  "unat f + Suc k < 2 ^ 32 \<Longrightarrow>
     probe_run (Suc k) False ut ht (h, f, s) = (h \<and> unat f + Suc k < unat ut, f + of_nat (Suc k), 0)"
proof (induction k arbitrary: h f s)
  case 0
  then have "unat (f + 1) = Suc (unat f)" by (intro unat_Suc_word) simp
  then show ?case by (simp add: evaluate_active_def word_less_nat_alt)
next
  case (Suc k)
  then have s: "unat (f + 1) = Suc (unat f)" by (intro unat_Suc_word) simp
  have "probe_run (Suc (Suc k)) False ut ht (h, f, s) =
      probe_run (Suc k) False ut ht (h \<and> f + 1 < ut, f + 1, 0)"
    by (simp add: evaluate_active_def)
  also have "\<dots> = ((h \<and> f + 1 < ut) \<and> unat (f + 1) + Suc k < unat ut, f + 1 + of_nat (Suc k), 0)"
    using Suc.prems s by (intro Suc.IH) simp
  also have "\<dots> = (h \<and> unat f + Suc (Suc k) < unat ut, f + of_nat (Suc (Suc k)), 0)"
    using s by (auto simp: word_less_nat_alt algebra_simps)
  finally show ?case .
qed

lemma probe_run_ok:
  "unat s + Suc k < 2 ^ 32 \<Longrightarrow>
     probe_run (Suc k) True ut ht (h, f, s) = (h \<or> unat ht \<le> unat s + Suc k, 0, s + of_nat (Suc k))"
proof (induction k arbitrary: h f s)
  case 0
  then have "unat (s + 1) = Suc (unat s)" by (intro unat_Suc_word) simp
  then show ?case by (simp add: evaluate_active_def word_le_nat_alt)
next
  case (Suc k)
  then have s: "unat (s + 1) = Suc (unat s)" by (intro unat_Suc_word) simp
  have "probe_run (Suc (Suc k)) True ut ht (h, f, s) =
      probe_run (Suc k) True ut ht (h \<or> ht \<le> s + 1, 0, s + 1)"
    by (simp add: evaluate_active_def)
  also have "\<dots> = ((h \<or> ht \<le> s + 1) \<or> unat ht \<le> unat (s + 1) + Suc k, 0, s + 1 + of_nat (Suc k))"
    using Suc.prems s by (intro Suc.IH) simp
  also have "\<dots> = (h \<or> unat ht \<le> unat s + Suc (Suc k), 0, s + of_nat (Suc (Suc k)))"
    using s by (auto simp: word_le_nat_alt algebra_simps)
  finally show ?case .
qed

section \<open>Lemmas on registry runs\<close>

lemma record_failures_slots:
  assumes "hr_upstreams h u = Some slots" "i < length (sl_peers slots)" "hc_max_fails cfg \<noteq> 0"
  shows "hr_upstreams (foldl (\<lambda>h t. record_failure h u i cfg t) h ts) u =
     Some (slots\<lparr>sl_peers := (sl_peers slots)[i := fail_all cfg ts (sl_peers slots ! i)]\<rparr>)"
  using assms
proof (induction ts arbitrary: h slots)
  case Nil
  then show ?case by (simp add: fail_all_def)
next
  case (Cons t ts)
  let ?s = "slots\<lparr>sl_peers := (sl_peers slots)[i := fail_peer cfg t (sl_peers slots ! i)]\<rparr>"
  have "hr_upstreams (record_failure h u i cfg t) u = Some ?s"
    using Cons.prems by (simp add: record_failure_def update_peer_slots)
  from Cons.IH [OF this] Cons.prems show ?case by (simp add: fail_all_def)
qed

lemma is_healthy_slot:
  "hr_upstreams h u = Some slots \<Longrightarrow> i < length (sl_peers slots) \<Longrightarrow>
     is_healthy h u i now = peer_up (sl_peers slots ! i) now"
  by (simp add: is_healthy_def slot_lookup_def)

lemma healthy_indices_is_healthy:
  "healthy_indices h u n now = filter (\<lambda>i. is_healthy h u i now) [0..<n]"
  by (auto simp: healthy_indices_def is_healthy_def slot_lookup_def split: option.splits
      intro!: filter_cong [symmetric])

text \<open>The index slots mirror the active plane, for blocks whose address strings are distinct.\<close>

definition mirrored :: "health_registry \<Rightarrow> bool" where
  "mirrored h \<longleftrightarrow> (\<forall>u slots i. hr_upstreams h u = Some slots \<longrightarrow> i < length (sl_peers slots) \<longrightarrow>
     active_ok (sl_peers slots ! i) = active_verdict h u (addr_to_string (sl_addrs slots ! i)))"

definition distinct_slots :: "health_registry \<Rightarrow> bool" where
  "distinct_slots h \<longleftrightarrow>
     (\<forall>u slots. hr_upstreams h u = Some slots \<longrightarrow> distinct (map addr_to_string (sl_addrs slots)))"

text \<open>A probe addresses the slot of the address it probed (what \<open>active_probe\<close> does).\<close>

fun op_ok :: "health_registry \<Rightarrow> health_op \<Rightarrow> bool" where
  "op_ok h (Register u addrs) = distinct (map addr_to_string addrs)"
| "op_ok h (Probe u i a ok ut ht) =
     (case hr_upstreams h u of None \<Rightarrow> True
      | Some slots \<Rightarrow> i < length (sl_addrs slots) \<and> addr_to_string (sl_addrs slots ! i) = a
          \<or> a \<notin> addr_to_string ` set (sl_addrs slots) \<and> length (sl_addrs slots) \<le> i)"
| "op_ok h _ = True"

lemma mirrored_update_peer:
  assumes "mirrored h" and "\<And>p. active_ok (f p) = active_ok p"
  shows "mirrored (update_peer h u i f)"
  unfolding mirrored_def
proof (intro allI impI)
  fix v slots j
  assume s: "hr_upstreams (update_peer h u i f) v = Some slots" and j: "j < length (sl_peers slots)"
  have v: "active_verdict (update_peer h u i f) = active_verdict h"
    by (simp add: active_verdict_def fun_eq_iff)
  show "active_ok (sl_peers slots ! j)
      = active_verdict (update_peer h u i f) v (addr_to_string (sl_addrs slots ! j))"
    using s j assms
    by (cases "j = i") (auto simp: v update_peer_slots mirrored_def split: if_splits)
qed

lemma mirrored_register: "mirrored h \<Longrightarrow> mirrored (register h u addrs)"
  by (auto simp: mirrored_def register_slots active_verdict_def register_def Let_def split: if_splits)

lemma mirrored_probe:
  assumes m: "mirrored h" and inv: "health_inv h" and d: "distinct_slots h" and ok: "op_ok h (Probe u i a ok ut ht)"
  shows "mirrored (fst (record_probe h u i a ok ut ht))"
proof -
  obtain healthy f s h1 where h': "fst (record_probe h u i a ok ut ht) = update_peer h1 u i (\<lambda>p. p\<lparr>active_ok := healthy\<rparr>)"
    and u: "hr_upstreams h1 = hr_upstreams h"
    and av: "\<And>v b. active_verdict h1 v b = (if (v, b) = (u, a) then healthy else active_verdict h v b)"
    by (auto simp: record_probe_def Let_def split_beta active_verdict_def)
  show ?thesis
    unfolding mirrored_def h'
  proof (intro allI impI)
    fix v slots j
    assume s: "hr_upstreams (update_peer h1 u i (\<lambda>p. p\<lparr>active_ok := healthy\<rparr>)) v = Some slots"
      and j: "j < length (sl_peers slots)"
    have verdict: "active_verdict (update_peer h1 u i (\<lambda>p. p\<lparr>active_ok := healthy\<rparr>)) = active_verdict h1"
      by (simp add: active_verdict_def fun_eq_iff)
    show "active_ok (sl_peers slots ! j) = active_verdict
        (update_peer h1 u i (\<lambda>p. p\<lparr>active_ok := healthy\<rparr>)) v (addr_to_string (sl_addrs slots ! j))"
    proof (cases "v = u")
      case False
      with s j m show ?thesis by (auto simp: verdict av update_peer_slots u mirrored_def)
    next
      case True
      then obtain old where o: "hr_upstreams h u = Some old"
        and so: "slots = old\<lparr>sl_peers := (sl_peers old)[i := (sl_peers old ! i)\<lparr>active_ok := healthy\<rparr>]\<rparr>"
        using s by (auto simp: update_peer_slots u)
      have len: "length (sl_addrs old) = length (sl_peers old)" using inv o by (auto simp: health_inv_def)
      have dist: "distinct (map addr_to_string (sl_addrs old))" using d o by (auto simp: distinct_slots_def)
      have "active_ok (sl_peers old ! j) = active_verdict h u (addr_to_string (sl_addrs old ! j))"
        using m o j so by (auto simp: mirrored_def)
      moreover have "addr_to_string (sl_addrs old ! j) = a \<longleftrightarrow> j = i"
      proof (cases "i < length (sl_addrs old)")
        case True
        with ok o have "map addr_to_string (sl_addrs old) ! i = a" by auto
        with True dist j so len show ?thesis
          using nth_eq_iff_index_eq [OF dist, of j i] by simp
      next
        case False
        with ok o have "a \<notin> addr_to_string ` set (sl_addrs old)" by auto
        moreover have "sl_addrs old ! j \<in> set (sl_addrs old)" using j so len by simp
        ultimately show ?thesis using False j so len by auto
      qed
      ultimately show ?thesis using True j so by (cases "j = i") (auto simp: verdict av)
    qed
  qed
qed

fun ops_ok :: "health_registry \<Rightarrow> health_op list \<Rightarrow> bool" where
  "ops_ok h [] = True"
| "ops_ok h (e # es) = (op_ok h e \<and> ops_ok (health_step h e) es)"

lemma mirrored_step:
  assumes "mirrored h" "health_inv h" "distinct_slots h" "op_ok h e"
  shows "mirrored (health_step h e)" and "distinct_slots (health_step h e)"
proof -
  show "mirrored (health_step h e)"
    using assms by (cases e) (auto intro!: mirrored_register mirrored_probe mirrored_update_peer
        simp: record_failure_def record_success_def inc_in_flight_def dec_in_flight_def
          update_in_flight_def fail_peer_def Let_def split: option.splits)
  show "distinct_slots (health_step h e)"
    using assms(3,4)
    by (cases e) (auto simp: distinct_slots_def register_slots record_failure_def record_success_def
        record_probe_def Let_def split_beta inc_in_flight_def dec_in_flight_def update_in_flight_def
        update_peer_slots split: option.splits if_splits)
qed

lemma mirrored_run:
  assumes "mirrored h" "health_inv h" "distinct_slots h" "ops_ok h es"
  shows "mirrored (foldl health_step h es)"
  using assms
proof (induction es arbitrary: h)
  case (Cons e es)
  then show ?case using mirrored_step [of h e] by (simp add: health_inv_step)
qed simp

lemma update_in_flight_eq:
  assumes "hr_upstreams h u = Some slots" and "addr_slot (sl_addrs slots) a = Some pos"
    and "pos < length (sl_peers slots)"
  shows "update_in_flight h u a f = h\<lparr>hr_upstreams := (hr_upstreams h)(u \<mapsto>
     slots\<lparr>sl_peers := (sl_peers slots)[pos := (sl_peers slots ! pos)
       \<lparr>in_flight := f (in_flight (sl_peers slots ! pos))\<rparr>]\<rparr>)\<rparr>"
  using assms by (simp add: update_in_flight_def update_peer_def slot_lookup_def)

lemma gauge_update:
  assumes "addr_slot (sl_addrs slots) a = Some pos" and "length (sl_addrs slots) = length (sl_peers slots)"
  shows "gauge (slots\<lparr>sl_peers := (sl_peers slots)[pos := (sl_peers slots ! pos)\<lparr>in_flight := n\<rparr>]\<rparr>) b =
     (if b = a then n else gauge slots b)"
proof (cases "addr_slot (sl_addrs slots) b")
  case None
  with assms show ?thesis by (auto simp: gauge_def)
next
  case (Some q)
  show ?thesis
  proof (cases "q = pos")
    case True
    then have "b = a" using addr_slot_Some [OF Some] addr_slot_Some [OF assms(1)] by simp
    with True Some addr_slot_Some [OF assms(1)] assms(2) show ?thesis by (simp add: gauge_def)
  next
    case False
    then have "b \<noteq> a" using Some assms(1) by auto
    with False Some show ?thesis by (simp add: gauge_def)
  qed
qed

lemma in_flights_update:
  assumes "health_inv h" and "hr_upstreams h u = Some slots" and "a \<in> set (sl_addrs slots)"
  shows "in_flights (update_in_flight h u a f) u as =
     map (\<lambda>b. if b = a then f (gauge slots a) else gauge slots b) as"
proof -
  obtain pos where pos: "addr_slot (sl_addrs slots) a = Some pos"
    using assms(3) by (metis addr_slot_None not_None_eq)
  have len: "length (sl_addrs slots) = length (sl_peers slots)" using assms(1,2) by (auto simp: health_inv_def)
  have lt: "pos < length (sl_peers slots)" using addr_slot_Some [OF pos] len by simp
  show ?thesis
    using pos by (simp add: update_in_flight_eq [OF assms(2) pos lt] in_flights_def
        gauge_update [OF pos len]) (simp add: gauge_def)
qed

lemma dec_inc_in_flight:
  assumes "health_inv h" and "hr_upstreams h u = Some slots" and "a \<in> set (sl_addrs slots)"
  shows "dec_in_flight (inc_in_flight h u a) u a = h"
proof -
  obtain pos where pos: "addr_slot (sl_addrs slots) a = Some pos"
    using assms(3) by (metis addr_slot_None not_None_eq)
  have len: "length (sl_addrs slots) = length (sl_peers slots)" using assms(1,2) by (auto simp: health_inv_def)
  have lt: "pos < length (sl_peers slots)" using addr_slot_Some [OF pos] len by simp
  show ?thesis
    using assms(2) pos lt
    by (simp add: inc_in_flight_def dec_in_flight_def update_in_flight_def update_peer_def
        slot_lookup_def map_upd_triv)
qed

text \<open>The in-flight gauge of one address of one upstream, 0 when it has none.\<close>

definition flight :: "health_registry \<Rightarrow> rstr \<Rightarrow> socket_addr \<Rightarrow> nat" where
  "flight h u a = (case hr_upstreams h u of None \<Rightarrow> 0 | Some slots \<Rightarrow> gauge slots a)"

definition registered :: "health_registry \<Rightarrow> rstr \<Rightarrow> socket_addr \<Rightarrow> bool" where
  "registered h u a = (case hr_upstreams h u of None \<Rightarrow> False | Some slots \<Rightarrow> a \<in> set (sl_addrs slots))"

lemma registered_update_peer [simp]: "registered (update_peer h u i f) v a = registered h v a"
  by (auto simp: registered_def update_peer_slots split: option.splits)

lemma registered_update_in_flight [simp]: "registered (update_in_flight h u b f) v a = registered h v a"
  by (simp add: update_in_flight_def split: option.splits)

lemma flight_update_peer:
  assumes "\<And>p. in_flight (f p) = in_flight p"
  shows "flight (update_peer h u i f) v a = flight h v a"
proof -
  have "in_flight ((sl_peers s)[i := f (sl_peers s ! i)] ! pos) = in_flight (sl_peers s ! pos)" for s pos
    by (cases "pos = i"; cases "i < length (sl_peers s)") (simp_all add: assms list_update_beyond)
  then show ?thesis
    by (auto simp: flight_def update_peer_slots gauge_def split: option.splits)
qed

lemma flight_update_in_flight:
  assumes "health_inv h"
  shows "flight (update_in_flight h u a f) v b =
     (if v = u \<and> b = a \<and> registered h u a then f (flight h v b) else flight h v b)"
proof (cases "registered h u a")
  case True
  then obtain slots where slots: "hr_upstreams h u = Some slots" "a \<in> set (sl_addrs slots)"
    by (auto simp: registered_def split: option.splits)
  obtain pos where pos: "addr_slot (sl_addrs slots) a = Some pos"
    using slots(2) by (metis addr_slot_None not_None_eq)
  have len: "length (sl_addrs slots) = length (sl_peers slots)" using assms slots(1) by (auto simp: health_inv_def)
  have lt: "pos < length (sl_peers slots)" using addr_slot_Some [OF pos] len by simp
  show ?thesis
    using True slots pos
    by (simp add: update_in_flight_eq [OF slots(1) pos lt] flight_def gauge_update [OF pos len]) (simp add: gauge_def)
next
  case False
  then show ?thesis
    by (auto simp: update_in_flight_def registered_def addr_slot_None [symmetric] split: option.splits)
qed

lemma flight_records:
  "flight (record_success h u i now) v a = flight h v a"
  "flight (record_failure h u i cfg now) v a = flight h v a"
proof -
  have "in_flight (fail_peer cfg now p) = in_flight p" for p
    by (simp add: fail_peer_def Let_def split: option.splits)
  then show "flight (record_failure h u i cfg now) v a = flight h v a"
    by (simp add: record_failure_def flight_update_peer)
  show "flight (record_success h u i now) v a = flight h v a"
    by (simp add: record_success_def flight_update_peer)
qed

lemma health_inv_ops:
  assumes "health_inv h"
  shows "health_inv (record_success h u i now)" "health_inv (record_failure h u i cfg now)"
    "health_inv (inc_in_flight h u a)" "health_inv (dec_in_flight h u a)"
  using assms
  by (simp_all add: record_success_def record_failure_def inc_in_flight_def dec_in_flight_def
      health_inv_update_peer health_inv_in_flight)

text \<open>Taking a slot, recording an outcome and releasing the slot leaves every gauge as it was.\<close>

lemma flight_bracket:
  assumes "health_inv h"
  shows "flight (dec_in_flight (record_success (inc_in_flight h u a) u' i now) u a) v b = flight h v b"
    and "flight (dec_in_flight (record_failure (inc_in_flight h u a) u' i cfg now) u a) v b = flight h v b"
proof -
  have r: "registered (record_success h' u' i now) u a = registered h' u a"
    "registered (record_failure h' u' i cfg now) u a = registered h' u a" for h'
    by (simp_all add: record_success_def record_failure_def)
  note inv = health_inv_ops(1,2) [OF health_inv_ops(3) [OF assms]]
  show "flight (dec_in_flight (record_success (inc_in_flight h u a) u' i now) u a) v b = flight h v b"
    unfolding dec_in_flight_def flight_update_in_flight [OF inv(1)] flight_records r
    unfolding inc_in_flight_def flight_update_in_flight [OF assms] by simp
  show "flight (dec_in_flight (record_failure (inc_in_flight h u a) u' i cfg now) u a) v b = flight h v b"
    unfolding dec_in_flight_def flight_update_in_flight [OF inv(2)] flight_records r
    unfolding inc_in_flight_def flight_update_in_flight [OF assms] by simp
qed

section \<open>Properties\<close>

text \<open>
  C4: peer health survives a reload by address. When an upstream is registered again, a peer whose
  address was in the previous block keeps its failure counters, its down deadline and its in-flight
  gauge whatever its new position, its active flag is the active plane's verdict for that address,
  and an address that was not there starts fresh.
\<close>

theorem register_by_address:
  assumes "health_inv h" and "hr_upstreams h u = Some old" and "distinct (sl_addrs old)"
    and "j < length addrs"
  shows "\<exists>new. hr_upstreams (register h u addrs) u = Some new \<and> sl_addrs new = addrs
     \<and> (\<forall>i < length (sl_addrs old). sl_addrs old ! i = addrs ! j \<longrightarrow>
          sl_peers new ! j = (sl_peers old ! i)\<lparr>active_ok := is_active_healthy h u (addr_to_string (addrs ! j))\<rparr>)
     \<and> (addrs ! j \<notin> set (sl_addrs old) \<longrightarrow>
          sl_peers new ! j = fresh_peer\<lparr>active_ok := is_active_healthy h u (addr_to_string (addrs ! j))\<rparr>)"
proof -
  have len: "length (sl_addrs old) = length (sl_peers old)" using assms(1,2) by (auto simp: health_inv_def)
  have "previous_peers (Some old) (addrs ! j) = Some (sl_peers old ! i)"
    if "i < length (sl_addrs old)" "sl_addrs old ! i = addrs ! j" for i
    using previous_peers_nth [OF len assms(3) that(1)] that(2) by simp
  then show ?thesis
    using assms(2,4) previous_peers_None [OF len, of "addrs ! j"]
    by (auto simp: register_slots is_active_healthy_def active_verdict_def)
qed

theorem register_by_address_witness:
  "\<exists>new. hr_upstreams (register (record_failure (register health_new ''u'' [sample_addr 1]) ''u'' 0
        health_config_default 7) ''u'' [sample_addr 2, sample_addr 1]) ''u'' = Some new
     \<and> fails (counters (sl_peers new ! 1)) = 1"
proof -
  let ?h = "record_failure (register health_new ''u'' [sample_addr 1]) ''u'' 0 health_config_default 7"
  let ?as = "[sample_addr 2, sample_addr 1]"
  let ?p = "fail_peer health_config_default 7 fresh_peer"
  let ?old = "\<lparr>sl_addrs = [sample_addr 1], sl_peers = [?p]\<rparr>"
  have i: "health_inv ?h"
    by (simp add: record_failure_def health_inv_update_peer health_inv_register health.inv_init)
  have o: "hr_upstreams ?h ''u'' = Some ?old"
    by (simp add: record_failure_def update_peer_slots register_slots health_new_def previous_peers_def
        active_verdict_def fresh_peer_def health_config_default_def default_max_fails_def)
  have d: "distinct (sl_addrs ?old)" "1 < length ?as" by simp_all
  from register_by_address [OF i o d] obtain new where
    n: "hr_upstreams (register ?h ''u'' ?as) ''u'' = Some new"
    and "sl_peers new ! 1 = ?p\<lparr>active_ok := is_active_healthy ?h ''u'' (addr_to_string (?as ! 1))\<rparr>"
    by auto
  then have "counters (sl_peers new ! 1) = counters ?p" by simp
  moreover have "fails (counters ?p) = 1"
    by (simp add: fail_peer_def fresh_peer_def peer_counters_default_def health_config_default_def
        saturating_sub_def saturating_mul_def window_ms_def default_fail_window_s_def evaluate_failure_def
        default_max_fails_def default_fail_timeout_s_def word_le_nat_alt Let_def)
  ultimately show ?thesis using n by auto
qed



text \<open>
  The active plane has hysteresis. After \<open>k\<close> consecutive failed probes a healthy peer is
  unhealthy exactly when \<open>k\<close> plus the failures already counted reached \<open>unhealthy_threshold\<close>, an
  unhealthy one stays so; after \<open>k\<close> consecutive successes an unhealthy peer is healthy exactly when
  the successes reached \<open>healthy_threshold\<close>, a healthy one stays so (counters below \<open>2^32\<close>).
\<close>

lemma probe_hysteresis:
  assumes "unat f + Suc k < 2 ^ 32" and "unat s + Suc k < 2 ^ 32"
  shows "probe_run (Suc k) False ut ht (h, f, s) = (h \<and> unat f + Suc k < unat ut, f + of_nat (Suc k), 0)
     \<and> probe_run (Suc k) True ut ht (h, f, s) = (h \<or> unat ht \<le> unat s + Suc k, 0, s + of_nat (Suc k))"
  using probe_run_fail [OF assms(1)] probe_run_ok [OF assms(2)] by blast

lemma probe_hysteresis_run:
  "probe_run (Suc 1) False 2 2 (True, 0, 0) = (False, 2, 0)
   \<and> probe_run (Suc 1) True 2 2 (False, 0, 0) = (True, 0, 2)"
proof -
  have h: "unat (0 :: u32) + Suc 1 < 2 ^ 32" by simp
  from probe_hysteresis [OF h h, of 2 2 True] probe_hysteresis [OF h h, of 2 2 False]
  show ?thesis by simp
qed

text \<open>
  The two health planes stay coherent. From the empty registry, any sequence of registrations
  (of lists with distinct address strings), failures, successes, probes of a block's own addresses
  and gauge updates leaves the index slots in step with the address-keyed active plane, so the
  verdict \<open>is_healthy\<close> reads by index is the one recorded for that address.
\<close>

lemma planes_coherent:
  assumes "ops_ok health_new es" and "hr_upstreams (foldl health_step health_new es) u = Some slots"
    and "i < length (sl_peers slots)"
  shows "is_healthy (foldl health_step health_new es) u i now =
     (down_until_ms (sl_peers slots ! i) \<le> now
      \<and> is_active_healthy (foldl health_step health_new es) u (addr_to_string (sl_addrs slots ! i)))"
proof -
  have "mirrored (foldl health_step health_new es)"
    using assms(1) health.inv_init
    by (intro mirrored_run) (auto simp: mirrored_def distinct_slots_def health_new_def)
  with assms(2,3) show ?thesis
    by (simp add: is_healthy_slot peer_up_def mirrored_def active_verdict_def is_active_healthy_def)
qed

lemma planes_coherent_run:
  "is_healthy (foldl health_step health_new
     [Register ''u'' [sample_addr 1], Probe ''u'' 0 (addr_to_string (sample_addr 1)) False 1 1]) ''u'' 0 9 = False"
proof -
  let ?es = "[Register ''u'' [sample_addr 1], Probe ''u'' 0 (addr_to_string (sample_addr 1)) False 1 1]"
  let ?h = "foldl health_step health_new ?es"
  let ?s = "\<lparr>sl_addrs = [sample_addr 1], sl_peers = [fresh_peer\<lparr>active_ok := False\<rparr>]\<rparr>"
  have ok: "ops_ok health_new ?es" by (simp add: register_slots)
  have s: "hr_upstreams ?h ''u'' = Some ?s"
    by (simp add: record_probe_def update_peer_slots register_slots health_new_def previous_peers_def
        active_verdict_def fresh_peer_def evaluate_active_def active_fresh_def register_def Let_def)
  have i: "0 < length (sl_peers ?s)" by simp
  have "\<not> is_active_healthy ?h ''u'' (addr_to_string (sl_addrs ?s ! 0))"
    by (simp add: record_probe_def is_active_healthy_def evaluate_active_def active_fresh_def
        register_def health_new_def Let_def)
  then show ?thesis using planes_coherent [OF ok s i, of 9] by blast
qed

text \<open>
  In-flight accounting. Acquiring a slot on a registered address adds one to its gauge and to
  no other, releasing it gives the registry back exactly, and a stray release never underflows.
\<close>

lemma in_flight_balanced:
  assumes "health_inv h" and "hr_upstreams h u = Some slots" and "a \<in> set (sl_addrs slots)"
  shows "dec_in_flight (inc_in_flight h u a) u a = h
     \<and> in_flights (inc_in_flight h u a) u as = map (\<lambda>b. if b = a then gauge slots a + 1 else gauge slots b) as
     \<and> in_flights (dec_in_flight h u a) u as = map (\<lambda>b. if b = a then gauge slots a - 1 else gauge slots b) as"
  using dec_inc_in_flight [OF assms] in_flights_update [OF assms]
  by (simp add: inc_in_flight_def dec_in_flight_def)

end
