(* ===== verification/Abi.thy ===== *)
theory Abi
  imports Prelude
begin

text \<open>
  The byte-level contract with the guests: the TLV codec (\<open>crates/openrusty-wasm/src/abi.rs\<close>) and the
  accesses to a guest's linear memory (\<open>mem.rs\<close>). A linear memory is the list of its bytes;
  \<open>Memory::read\<close> and \<open>Memory::write\<close> of wasmtime fail exactly when the range is out of bounds.
\<close>

type_synonym i32 = "32 word"

section \<open>TLV codec (abi.rs)\<close>

definition to_le_bytes :: "u32 \<Rightarrow> rstr" where
  "to_le_bytes w = map (\<lambda>i. char_of (unat w div 256 ^ i mod 256)) [0..<4]"

definition from_le_bytes :: "rstr \<Rightarrow> u32" where
  "from_le_bytes b = of_nat (\<Sum>i<length b. of_char (b ! i) * 256 ^ i)"

definition encode_tlv :: "rstr list \<Rightarrow> rstr" where
  "encode_tlv items = concat (map (\<lambda>item. to_le_bytes (of_nat (length item)) @ item) items)"

function decode_loop :: "rstr list \<Rightarrow> nat \<Rightarrow> rstr \<Rightarrow> rstr list option" where
  "decode_loop items pos buf =
     (if pos < length buf then
        if length buf < pos + 4 then None
        else
          let len = unat (from_le_bytes (take 4 (drop pos buf))); pos = pos + 4 in
          if length buf < pos + len then None
          else decode_loop (items @ [take len (drop pos buf)]) (pos + len) buf
      else Some items)"
  by pat_completeness auto
termination
  by (relation "measure (\<lambda>(items, pos, buf). length buf - pos)") (auto simp: Let_def)

declare decode_loop.simps [simp del]

definition decode_tlv :: "rstr \<Rightarrow> rstr list option" where
  "decode_tlv buf = decode_loop [] 0 buf"

definition encode_kv_pair :: "rstr \<Rightarrow> rstr \<Rightarrow> rstr" where
  "encode_kv_pair key value = encode_tlv [key, value]"

section \<open>Guest memory (mem.rs)\<close>

text \<open>The memory of the current call, \<open>None\<close> when the module has none.\<close>

type_synonym memory = "rstr option"

definition mem_read :: "rstr \<Rightarrow> nat \<Rightarrow> nat \<Rightarrow> rstr option" where
  "mem_read d offset len = (if offset + len \<le> length d then Some (take len (drop offset d)) else None)"

definition mem_write :: "rstr \<Rightarrow> nat \<Rightarrow> rstr \<Rightarrow> rstr option" where
  "mem_write d offset payload =
     (if offset + length payload \<le> length d
      then Some (take offset d @ payload @ drop (offset + length payload) d) else None)"

definition read_guest :: "memory \<Rightarrow> i32 \<Rightarrow> i32 \<Rightarrow> rstr option" where
  "read_guest m ptr len =
     (if sint ptr < 0 \<or> sint len < 0 then None
      else case m of
             None \<Rightarrow> None
           | Some d \<Rightarrow> if length d < unat len then None else mem_read d (unat ptr) (unat len))"

text \<open>
  \<open>String::from_utf8_lossy\<close>: each maximal prefix of an ill-formed sequence becomes U+FFFD. The
  second byte of a multi-byte sequence is restricted as in the Unicode standard.
\<close>

definition second_range :: "nat \<Rightarrow> (nat \<times> nat \<times> nat) option" where
  "second_range b =
     (if 0xC2 \<le> b \<and> b \<le> 0xDF then Some (0x80, 0xBF, 2)
      else if b = 0xE0 then Some (0xA0, 0xBF, 3)
      else if b = 0xED then Some (0x80, 0x9F, 3)
      else if 0xE1 \<le> b \<and> b \<le> 0xEF then Some (0x80, 0xBF, 3)
      else if b = 0xF0 then Some (0x90, 0xBF, 4)
      else if 0xF1 \<le> b \<and> b \<le> 0xF3 then Some (0x80, 0xBF, 4)
      else if b = 0xF4 then Some (0x80, 0x8F, 4) else None)"

definition byte_in :: "nat \<Rightarrow> nat \<Rightarrow> rstr \<Rightarrow> nat \<Rightarrow> bool" where
  "byte_in lo hi s i = (i < length s \<and> lo \<le> (of_char (s ! i) :: nat) \<and> (of_char (s ! i) :: nat) \<le> hi)"

text \<open>Length of the next unit of a non-empty string and whether it is well-formed.\<close>

definition utf8_unit :: "rstr \<Rightarrow> nat \<times> bool" where
  "utf8_unit s =
     (let b = of_char (hd s) :: nat in
      if b < 0x80 then (1, True)
      else case second_range b of
             None \<Rightarrow> (1, False)
           | Some (lo, hi, n) \<Rightarrow>
               if \<not> byte_in lo hi s 1 then (1, False)
               else if n = 2 then (2, True)
               else if \<not> byte_in 0x80 0xBF s 2 then (2, False)
               else if n = 3 then (3, True)
               else if \<not> byte_in 0x80 0xBF s 3 then (3, False)
               else (4, True))"

lemma utf8_unit_pos: "0 < fst (utf8_unit s)"
  by (simp add: utf8_unit_def Let_def split: option.splits)

function from_utf8_lossy :: "rstr \<Rightarrow> rstr" where
  "from_utf8_lossy s =
     (if s = [] then []
      else case utf8_unit s of
             (k, ok) \<Rightarrow> (if ok then take k s else map byte [0xEF, 0xBF, 0xBD]) @ from_utf8_lossy (drop k s))"
  by pat_completeness auto
termination
  apply (relation "measure length")
   apply simp
  subgoal for s k ok
    using utf8_unit_pos [of s] by (auto dest: sym)
  done

declare from_utf8_lossy.simps [simp del]

definition read_guest_str :: "memory \<Rightarrow> i32 \<Rightarrow> i32 \<Rightarrow> rstr option" where
  "read_guest_str m ptr len = map_option from_utf8_lossy (read_guest m ptr len)"

definition write_out :: "memory \<Rightarrow> i32 \<Rightarrow> i32 \<Rightarrow> rstr \<Rightarrow> memory \<times> i32" where
  "write_out m out_ptr out_cap payload =
     (if payload = [] then (m, 0)
      else
        let required = - of_nat (min (length payload) 2147483647) in
        if sint out_ptr < 0 \<or> sint out_cap < 0 \<or> unat out_cap < length payload then (m, required)
        else case m of
               None \<Rightarrow> (m, required)
             | Some d \<Rightarrow>
                 (case mem_write d (unat out_ptr) payload of
                    None \<Rightarrow> (m, required)
                  | Some d' \<Rightarrow> (Some d', of_nat (length payload))))"

section \<open>Lemmas\<close>

lemma length_to_le_bytes [simp]: "length (to_le_bytes w) = 4"
  by (simp add: to_le_bytes_def)

lemma digits_sum: "(\<Sum>i<n. x div 256 ^ i mod 256 * 256 ^ i) = x mod 256 ^ n" for x :: nat
proof (induction n)
  case (Suc n)
  have "x mod 256 ^ Suc n = 256 ^ n * (x div 256 ^ n mod 256) + x mod 256 ^ n"
    using mod_mult2_eq [of x "256 ^ n" 256] by (simp add: mult.commute)
  with Suc show ?case by simp
qed simp

lemma sum_digits_less: "(\<And>i. i < n \<Longrightarrow> d i < 256) \<Longrightarrow> (\<Sum>i<n. d i * 256 ^ i) < (256 :: nat) ^ n"
proof (induction n)
  case (Suc n)
  have IH: "(\<Sum>i<n. d i * 256 ^ i) < 256 ^ n" using Suc by simp
  have "d n * 256 ^ n \<le> 255 * 256 ^ n" using Suc.prems [of n] by (intro mult_right_mono) auto
  then show ?case unfolding sum.lessThan_Suc power_Suc using IH by linarith
qed simp

lemma digit_sum:
  assumes "\<And>i. i < n \<Longrightarrow> d i < 256" "j < n"
  shows "(\<Sum>i<n. d i * 256 ^ i) div 256 ^ j mod 256 = (d j :: nat)"
  using assms
proof (induction n)
  case (Suc n)
  let ?S = "\<Sum>i<n. d i * 256 ^ i"
  show ?case
  proof (cases "j = n")
    case True
    then show ?thesis using Suc.prems sum_digits_less [of n d] by (simp add: less_Suc_eq)
  next
    case False
    with Suc.prems have j: "j < n" by simp
    have "(256 :: nat) ^ n = 256 ^ j * 256 ^ Suc (n - Suc j)"
      unfolding power_add [symmetric] using j by simp
    then have e: "d n * 256 ^ n = 256 ^ j * (256 * (d n * 256 ^ (n - Suc j)))" by simp
    have "(?S + d n * 256 ^ n) div 256 ^ j = ?S div 256 ^ j + 256 * (d n * 256 ^ (n - Suc j))"
      unfolding e by simp
    then show ?thesis using Suc j by simp
  qed
qed simp

lemma from_to_le_bytes [simp]: "from_le_bytes (to_le_bytes w) = w"
proof -
  have "unat w < 256 ^ 4" using unsigned_less [of w] by simp
  then show ?thesis
    using digits_sum [of "unat w" 4] by (simp add: from_le_bytes_def to_le_bytes_def)
qed

lemma to_from_le_bytes:
  assumes "length b = 4"
  shows "to_le_bytes (from_le_bytes b) = b"
proof -
  let ?d = "\<lambda>i. of_char (b ! i) :: nat"
  have d: "?d i < 256" for i by (simp add: of_char_def horner_sum_bound)
  have "(\<Sum>i<4. ?d i * 256 ^ i) < 256 ^ 4" by (rule sum_digits_less) (simp add: d)
  moreover have "unat (of_nat k :: u32) = k" if "k < 256 ^ 4" for k :: nat
    using that by (simp add: unat_of_nat)
  ultimately have "unat (from_le_bytes b) = (\<Sum>i<4. ?d i * 256 ^ i)"
    unfolding from_le_bytes_def assms by blast
  then show ?thesis
    using digit_sum [of 4 ?d] d assms by (intro nth_equalityI) (simp_all add: to_le_bytes_def char_of_eq_iff take_bit_eq_mod)
qed

lemma encode_tlv_simps [simp]:
  "encode_tlv [] = []" "encode_tlv (x # xs) = to_le_bytes (of_nat (length x)) @ x @ encode_tlv xs"
  by (simp_all add: encode_tlv_def)

lemma decode_loop_encode:
  assumes "\<forall>x \<in> set xs. length x < 2 ^ 32"
  shows "decode_loop items (length pre) (pre @ encode_tlv xs) = Some (items @ xs)"
  using assms
proof (induction xs arbitrary: items pre)
  case Nil
  then show ?case by (simp add: decode_loop.simps)
next
  case (Cons x xs)
  let ?h = "to_le_bytes (of_nat (length x))"
  have len: "unat (of_nat (length x) :: u32) = length x"
    using Cons.prems by (simp add: unat_of_nat)
  have "decode_loop (items @ [x]) (length (pre @ ?h @ x)) ((pre @ ?h @ x) @ encode_tlv xs)
      = Some ((items @ [x]) @ xs)"
    using Cons by (intro Cons.IH) simp
  then show ?case
    by (subst decode_loop.simps) (simp add: Let_def len add.assoc)
qed

lemma decode_loop_Some:
  "decode_loop items pos buf = Some out \<Longrightarrow> pos \<le> length buf \<Longrightarrow>
     \<exists>ys. out = items @ ys \<and> drop pos buf = encode_tlv ys \<and> (\<forall>y \<in> set ys. length y < 2 ^ 32)"
proof (induction items pos buf rule: decode_loop.induct)
  case (1 items pos buf)
  show ?case
  proof (cases "pos < length buf")
    case False
    then show ?thesis
      using 1(2,3) by (intro exI [of _ "[]"]) (simp add: decode_loop.simps)
  next
    case True
    let ?h = "take 4 (drop pos buf)"
    let ?len = "unat (from_le_bytes ?h)"
    let ?x = "take ?len (drop (pos + 4) buf)"
    have h4: "pos + 4 \<le> length buf" and b: "pos + 4 + ?len \<le> length buf"
      and r: "decode_loop (items @ [?x]) (pos + 4 + ?len) buf = Some out"
      using 1 True by (auto simp: decode_loop.simps [of items pos buf] Let_def split: if_splits)
    obtain ys where ys: "out = (items @ [?x]) @ ys" "drop (pos + 4 + ?len) buf = encode_tlv ys"
      "\<forall>y \<in> set ys. length y < 2 ^ 32"
      using 1(1) [OF True _ refl refl _ r b] h4 b by auto
    have lx: "length ?x = ?len" using b by simp
    have "?len < 2 ^ 32" by (rule order.strict_trans2 [OF unsigned_less]) simp
    moreover have "drop pos buf = ?h @ ?x @ drop (pos + 4 + ?len) buf"
      by (metis add.commute append_take_drop_id drop_drop)
    moreover have "to_le_bytes (of_nat (length ?x)) = ?h"
      unfolding lx using h4 to_from_le_bytes [of ?h] by simp
    ultimately show ?thesis
      using ys lx by (intro exI [of _ "?x # ys"]) simp
  qed
qed

lemma mem_write_Some:
  "mem_write d off p = Some d' \<longleftrightarrow>
     off + length p \<le> length d \<and> d' = take off d @ p @ drop (off + length p) d"
  by (auto simp: mem_write_def)

lemma mem_write_read:
  assumes "mem_write d off p = Some d'"
  shows "length d' = length d \<and> mem_read d' off (length p) = Some p
    \<and> (\<forall>i. i < length d \<longrightarrow> i < off \<or> off + length p \<le> i \<longrightarrow> d' ! i = d ! i)"
  using assms by (auto simp: mem_write_Some mem_read_def nth_append)

lemma sint_of_int_i32: "- (2 ^ 31) \<le> k \<Longrightarrow> k < 2 ^ 31 \<Longrightarrow> sint (of_int k :: i32) = k"
  by (simp add: signed_of_int signed_take_bit_int_eq_self)

lemma sint_of_nat_i32:
  assumes "n < 2 ^ 31"
  shows "sint (of_nat n :: i32) = int n" and "sint (- of_nat n :: i32) = - int n"
  using sint_of_int_i32 [of "int n"] sint_of_int_i32 [of "- int n"] assms by simp_all

lemma unat_of_nat_i32: "n < 2 ^ 31 \<Longrightarrow> unat (of_nat n :: i32) = n"
  by (simp add: unat_of_nat)

text \<open>The three outcomes of a write of a non-empty payload.\<close>

lemma write_out_cases:
  assumes "payload \<noteq> []" "length payload < 2 ^ 31"
  shows "write_out m ptr cap payload =
     (case m of
        Some d \<Rightarrow>
          if 0 \<le> sint ptr \<and> 0 \<le> sint cap \<and> length payload \<le> unat cap
             \<and> unat ptr + length payload \<le> length d
          then (Some (take (unat ptr) d @ payload @ drop (unat ptr + length payload) d), of_nat (length payload))
          else (m, - of_nat (length payload))
      | None \<Rightarrow> (m, - of_nat (length payload)))"
proof -
  have "min (length payload) 2147483647 = length payload" using assms(2) by simp
  then show ?thesis
    using assms by (auto simp: write_out_def Let_def mem_write_def split: option.splits)
qed

section \<open>The contract of codec and memory\<close>

text \<open>
  The TLV codec is a bijection between lists of items shorter than 4 GiB and well-formed
  buffers. Decoding an encoding returns the items, and whatever decodes is the encoding of what it
  decodes to, so truncated or trailing bytes are never accepted.
\<close>

lemma tlv_roundtrip:
  "decode_tlv buf = Some items \<longleftrightarrow> encode_tlv items = buf \<and> (\<forall>x \<in> set items. length x < 2 ^ 32)"
  using decode_loop_encode [of items "[]" "[]"] decode_loop_Some [of "[]" 0 buf items]
  by (auto simp: decode_tlv_def)

lemma tlv_roundtrip_run:
  "decode_tlv (encode_tlv [''ab'', []]) = Some [''ab'', []]"
  using tlv_roundtrip [of "encode_tlv [''ab'', []]" "[''ab'', []]"] by simp

text \<open>
  The two-phase write. For a payload that an i32 can describe, \<open>write_out\<close> either returns the
  payload's length, and then the payload is in the guest's buffer, which was large enough, and no
  other byte of the memory changed; or it returns the negated length and the memory is untouched.
  The negated length is what a buffer must hold: a retry with that capacity at an address inside
  the memory succeeds.
\<close>

lemma write_out_contract:
  assumes "payload \<noteq> []" and "length payload < 2 ^ 31" and "write_out m ptr cap payload = (m', r)"
  shows "(sint r = int (length payload)
           \<and> (\<exists>d d'. m = Some d \<and> m' = Some d' \<and> length d' = length d \<and> length payload \<le> unat cap
                \<and> unat ptr + length payload \<le> length d
                \<and> mem_read d' (unat ptr) (length payload) = Some payload
                \<and> (\<forall>i < length d. i < unat ptr \<or> unat ptr + length payload \<le> i \<longrightarrow> d' ! i = d ! i))
         \<or> sint r = - int (length payload) \<and> m' = m)
     \<and> (\<forall>d ptr'. m = Some d \<longrightarrow> 0 \<le> sint ptr' \<longrightarrow> unat ptr' + length payload \<le> length d \<longrightarrow>
          snd (write_out m ptr' (of_nat (length payload)) payload) = of_nat (length payload))"
proof -
  note cases' = write_out_cases [OF assms(1,2)]
  note sint_len = sint_of_nat_i32 [OF assms(2)] unat_of_nat_i32 [OF assms(2)]
  have "snd (write_out m ptr' (of_nat (length payload)) payload) = of_nat (length payload)"
    if "m = Some d" "0 \<le> sint ptr'" "unat ptr' + length payload \<le> length d" for d ptr'
    using that by (simp add: cases' sint_len)
  moreover have "sint r = int (length payload)
           \<and> (\<exists>d d'. m = Some d \<and> m' = Some d' \<and> length d' = length d \<and> length payload \<le> unat cap
                \<and> unat ptr + length payload \<le> length d
                \<and> mem_read d' (unat ptr) (length payload) = Some payload
                \<and> (\<forall>i < length d. i < unat ptr \<or> unat ptr + length payload \<le> i \<longrightarrow> d' ! i = d ! i))
         \<or> sint r = - int (length payload) \<and> m' = m"
  proof (cases "\<exists>d. m = Some d \<and> 0 \<le> sint ptr \<and> 0 \<le> sint cap \<and> length payload \<le> unat cap
             \<and> unat ptr + length payload \<le> length d")
    case True
    then obtain d where d: "m = Some d" "0 \<le> sint ptr" "0 \<le> sint cap" "length payload \<le> unat cap"
      "unat ptr + length payload \<le> length d" by blast
    let ?d' = "take (unat ptr) d @ payload @ drop (unat ptr + length payload) d"
    have "write_out m ptr cap payload = (Some ?d', of_nat (length payload))"
      unfolding cases' using d by simp
    then have r: "r = of_nat (length payload)" and m': "m' = Some ?d'" using assms(3) by simp_all
    have "mem_write d (unat ptr) payload = Some ?d'" using d(5) by (simp add: mem_write_Some)
    from mem_write_read [OF this] show ?thesis
      using d(1,4,5) m' sint_len(1) unfolding r by blast
  next
    case False
    then have "write_out m ptr cap payload = (m, - of_nat (length payload))"
      by (auto simp: cases' split: option.splits)
    then show ?thesis using assms(3) sint_len(2) by simp
  qed
  ultimately show ?thesis by blast
qed

lemma write_out_contract_run:
  "write_out (Some ''xxxx'') 1 2 ''ab'' = (Some ''xabx'', 2)
   \<and> mem_read ''xabx'' 1 2 = Some ''ab''
   \<and> write_out (Some ''xxxx'') 1 1 ''ab'' = (Some ''xxxx'', - 2)
   \<and> snd (write_out (Some ''xxxx'') 2 (of_nat (length ''ab'')) ''ab'') = of_nat (length ''ab'')"
proof -
  have w: "write_out (Some ''xxxx'') 1 2 ''ab'' = (Some ''xabx'', 2)"
    "write_out (Some ''xxxx'') 1 1 ''ab'' = (Some ''xxxx'', - 2)"
    by (simp_all add: write_out_cases)
  then show ?thesis
    using write_out_contract [OF _ _ w(1)] write_out_contract [OF _ _ w(2)]
    by (simp add: mem_read_def)
qed

end
