(* ===== verification/HostState.thy ===== *)
theory HostState
  imports Prelude "HOL-Library.List_Lexorder" "HOL-Library.Char_ord" "HOL-Library.Multiset"
begin

text \<open>
  The per-plugin host state that survives hot reloads (crates/openrusty-wasm/src/host_state.rs): a
  key-value store with time-to-live and byte quotas, snapshot scan cursors, and error counters; and
  the epoch-tick arithmetic of crates/openrusty-wasm/src/epoch.rs. Maps are association lists with
  distinct keys, whose order stands for the unspecified iteration order of \<open>DashMap\<close> and
  \<open>HashMap\<close>; the clock readings of an operation are its arguments. \<open>total_bytes\<close> is a 64-bit word
  updated with wrapping addition and subtraction, as the atomic is.
\<close>

section \<open>Definitions\<close>

type_synonym bytes = rstr

definition is_expired :: "u64 \<Rightarrow> u64 \<Rightarrow> bool" where
  "is_expired expires_at now_ms = (expires_at \<noteq> - 1 \<and> now_ms \<ge> expires_at)"

record kv_entry =
  kv_value :: bytes
  kv_expires_at :: u64

record scan_cursor =
  cu_entries :: "(bytes \<times> bytes) list"
  cu_pos :: nat
  cu_created_at :: u64

definition SWEEP_EVERY :: u32 where "SWEEP_EVERY = 256"
definition CURSOR_TTL_MS :: u64 where "CURSOR_TTL_MS = 60000"
definition MAX_CURSORS :: nat where "MAX_CURSORS = 64"
definition KV_MAX_VALUE_BYTES :: nat where "KV_MAX_VALUE_BYTES = 64 * 1024"
definition KV_MAX_TOTAL_BYTES :: nat where "KV_MAX_TOTAL_BYTES = 1024 * 1024"

definition kv_set_verdict :: "nat \<Rightarrow> nat \<Rightarrow> nat \<Rightarrow> bool" where
  "kv_set_verdict key_len val_len held =
     (val_len \<le> KV_MAX_VALUE_BYTES \<and> held + (key_len + val_len) \<le> KV_MAX_TOTAL_BYTES)"

record host_state =
  hs_name :: rstr
  hs_kv :: "(bytes \<times> kv_entry) list"
  hs_cursors :: "(u32 \<times> scan_cursor) list"
  hs_next_cursor :: u32
  hs_errors :: u64
  hs_error_kinds :: "(rstr \<times> u64) list"
  hs_stale_ops :: u32
  hs_total_bytes :: u64

definition host_state_new :: "rstr \<Rightarrow> host_state" where
  "host_state_new plugin_name = \<lparr>hs_name = plugin_name, hs_kv = [], hs_cursors = [],
     hs_next_cursor = 0, hs_errors = 0, hs_error_kinds = [], hs_stale_ops = 0, hs_total_bytes = 0\<rparr>"

text \<open>Removal and insertion on the association lists.\<close>

definition al_remove :: "'k \<Rightarrow> ('k \<times> 'v) list \<Rightarrow> ('k \<times> 'v) list" where
  "al_remove k xs = filter (\<lambda>(k', _). k' \<noteq> k) xs"

definition al_insert :: "'k \<Rightarrow> 'v \<Rightarrow> ('k \<times> 'v) list \<Rightarrow> ('k \<times> 'v) list" where
  "al_insert k v xs = (k, v) # al_remove k xs"

definition entry_bytes :: "bytes \<Rightarrow> kv_entry \<Rightarrow> nat" where
  "entry_bytes k e = length k + length (kv_value e)"

definition account :: "nat \<Rightarrow> nat \<Rightarrow> host_state \<Rightarrow> host_state" where
  "account added removed s =
     (if added > removed then s\<lparr>hs_total_bytes := hs_total_bytes s + of_nat (added - removed)\<rparr>
      else if removed > added then s\<lparr>hs_total_bytes := hs_total_bytes s - of_nat (removed - added)\<rparr>
      else s)"

definition kv_get_with :: "u64 \<Rightarrow> host_state \<Rightarrow> bytes \<Rightarrow> (bytes \<Rightarrow> 'r) \<Rightarrow> host_state \<times> 'r option" where
  "kv_get_with now s key f =
     (case map_of (hs_kv s) key of
        None \<Rightarrow> (s, None)
      | Some e \<Rightarrow>
          if \<not> is_expired (kv_expires_at e) now then (s, Some (f (kv_value e)))
          else (account 0 (entry_bytes key e) (s\<lparr>hs_kv := al_remove key (hs_kv s)\<rparr>), None))"

definition kv_get :: "u64 \<Rightarrow> host_state \<Rightarrow> bytes \<Rightarrow> host_state \<times> bytes option" where
  "kv_get now s key = kv_get_with now s key (\<lambda>v. v)"

text \<open>\<open>ttl_ms\<close> is an \<open>i64\<close>; \<open>saturating_add\<close> on the clock.\<close>

definition expiry :: "u64 \<Rightarrow> int \<Rightarrow> u64" where
  "expiry now ttl_ms =
     (if ttl_ms \<le> 0 then - 1
      else if unat now + nat ttl_ms < 2 ^ 64 then now + of_int ttl_ms else - 1)"

definition kv_set :: "u64 \<Rightarrow> host_state \<Rightarrow> bytes \<Rightarrow> bytes \<Rightarrow> int \<Rightarrow> host_state \<times> bool" where
  "kv_set now s key val ttl_ms =
     (let released = (case map_of (hs_kv s) key of Some e \<Rightarrow> entry_bytes key e | None \<Rightarrow> 0)
      in if \<not> kv_set_verdict (length key) (length val) (unat (hs_total_bytes s) - released)
         then (s, False)
         else let entry = \<lparr>kv_value = val, kv_expires_at = expiry now ttl_ms\<rparr>;
                  s1 = s\<lparr>hs_kv := al_insert key entry (hs_kv s)\<rparr>
              in (account (length key + length val) released s1, True))"

definition kv_del :: "host_state \<Rightarrow> bytes \<Rightarrow> host_state \<times> bool" where
  "kv_del s key =
     (case map_of (hs_kv s) key of
        Some e \<Rightarrow> (account 0 (entry_bytes key e) (s\<lparr>hs_kv := al_remove key (hs_kv s)\<rparr>), True)
      | None \<Rightarrow> (s, False))"

definition kv_total_bytes :: "host_state \<Rightarrow> nat" where
  "kv_total_bytes s = unat (hs_total_bytes s)"

definition kv_scan :: "u64 \<Rightarrow> host_state \<Rightarrow> bytes \<Rightarrow> (bytes \<times> bytes) list" where
  "kv_scan now s prefix =
     sort_key fst (map (\<lambda>(k, e). (k, kv_value e))
       (filter (\<lambda>(k, e). starts_with k prefix \<and> \<not> is_expired (kv_expires_at e) now) (hs_kv s)))"

definition cursor_stale :: "u64 \<Rightarrow> scan_cursor \<Rightarrow> bool" where
  "cursor_stale now c =
     (cu_pos c \<ge> length (cu_entries c) \<or> saturating_sub now (cu_created_at c) \<ge> CURSOR_TTL_MS)"

definition sweep :: "u64 \<Rightarrow> host_state \<Rightarrow> host_state \<times> nat" where
  "sweep now s =
     (let dead = filter (\<lambda>(k, e). is_expired (kv_expires_at e) now) (hs_kv s);
          expired_bytes = sum_list (map (\<lambda>(k, e). entry_bytes k e) dead);
          s1 = account 0 expired_bytes
                 (s\<lparr>hs_kv := filter (\<lambda>(k, e). \<not> is_expired (kv_expires_at e) now) (hs_kv s)\<rparr>);
          gone = filter (\<lambda>(_, c). cursor_stale now c) (hs_cursors s)
      in (s1\<lparr>hs_cursors := filter (\<lambda>(_, c). \<not> cursor_stale now c) (hs_cursors s)\<rparr>,
          length dead + length gone))"

text \<open>
  \<open>scan_begin\<close> reads the clock up to three times. The result is the \<open>i32\<close> as a 32-bit word,
  \<open>- 1\<close> for a refusal; \<open>fetch_add\<close> returns the old value.
\<close>

definition scan_begin :: "u64 \<Rightarrow> u64 \<Rightarrow> u64 \<Rightarrow> host_state \<Rightarrow> bytes \<Rightarrow> host_state \<times> u32" where
  "scan_begin t_sweep t_scan t_create s prefix =
     (let s0 = s\<lparr>hs_stale_ops := hs_stale_ops s + 1\<rparr>;
          s1 = (if hs_stale_ops s \<ge> SWEEP_EVERY then fst (sweep t_sweep (s0\<lparr>hs_stale_ops := 0\<rparr>)) else s0);
          entries = kv_scan t_scan s1 prefix
      in if length (hs_cursors s1) \<ge> MAX_CURSORS then (s1, - 1)
         else let id = hs_next_cursor s1; s2 = s1\<lparr>hs_next_cursor := id + 1\<rparr>
              in if unat id \<ge> 2 ^ 31 then (s2, - 1)
                 else (s2\<lparr>hs_cursors := al_insert id
                         \<lparr>cu_entries = entries, cu_pos = 0, cu_created_at = t_create\<rparr> (hs_cursors s2)\<rparr>, id))"

definition cursor_item :: "scan_cursor \<Rightarrow> (bytes \<times> bytes) option" where
  "cursor_item c = (if cu_pos c < length (cu_entries c) then Some (cu_entries c ! cu_pos c) else None)"

definition scan_peek :: "host_state \<Rightarrow> u32 \<Rightarrow> (bytes \<times> bytes) option" where
  "scan_peek s cursor = Option.bind (map_of (hs_cursors s) cursor) cursor_item"

text \<open>Advance one cursor and drop it when it is exhausted.\<close>

definition bump_cursor :: "host_state \<Rightarrow> u32 \<Rightarrow> scan_cursor \<Rightarrow> host_state" where
  "bump_cursor s cursor c =
     (if Suc (cu_pos c) \<ge> length (cu_entries c)
      then s\<lparr>hs_cursors := al_remove cursor (hs_cursors s)\<rparr>
      else s\<lparr>hs_cursors := al_insert cursor (c\<lparr>cu_pos := Suc (cu_pos c)\<rparr>) (hs_cursors s)\<rparr>)"

definition scan_advance :: "host_state \<Rightarrow> u32 \<Rightarrow> host_state" where
  "scan_advance s cursor =
     (case map_of (hs_cursors s) cursor of Some c \<Rightarrow> bump_cursor s cursor c | None \<Rightarrow> s)"

definition scan_is_valid :: "host_state \<Rightarrow> u32 \<Rightarrow> bool" where
  "scan_is_valid s cursor = (map_of (hs_cursors s) cursor \<noteq> None)"

definition scan_next :: "host_state \<Rightarrow> u32 \<Rightarrow> host_state \<times> (bytes \<times> bytes) option" where
  "scan_next s cursor =
     (case map_of (hs_cursors s) cursor of
        None \<Rightarrow> (s, None)
      | Some c \<Rightarrow>
          (case cursor_item c of
             Some item \<Rightarrow> (bump_cursor s cursor c, Some item)
           | None \<Rightarrow> (s\<lparr>hs_cursors := al_remove cursor (hs_cursors s)\<rparr>, None)))"

definition scan_end :: "host_state \<Rightarrow> u32 \<Rightarrow> host_state" where
  "scan_end s cursor = s\<lparr>hs_cursors := al_remove cursor (hs_cursors s)\<rparr>"

definition cursors_len :: "host_state \<Rightarrow> nat" where
  "cursors_len s = length (hs_cursors s)"

definition record_error :: "rstr \<Rightarrow> host_state \<Rightarrow> host_state" where
  "record_error kind s =
     (let n = (case map_of (hs_error_kinds s) kind of Some n \<Rightarrow> n | None \<Rightarrow> 0)
      in s\<lparr>hs_errors := hs_errors s + 1, hs_error_kinds := al_insert kind (n + 1) (hs_error_kinds s)\<rparr>)"

definition error_count :: "host_state \<Rightarrow> u64" where
  "error_count s = hs_errors s"

definition error_kinds :: "host_state \<Rightarrow> (rstr \<times> u64) list" where
  "error_kinds s = sort_key fst (hs_error_kinds s)"

definition kv_len :: "host_state \<Rightarrow> nat" where
  "kv_len s = length (hs_kv s)"

text \<open>Epoch ticks: \<open>timeout.as_millis()\<close> as a \<open>u64\<close> (saturated) divided by the tick.\<close>

definition TICK_MS :: u64 where "TICK_MS = 10"

definition ticks_for :: "u64 \<Rightarrow> u64" where
  "ticks_for timeout_ms = max 1 (timeout_ms div TICK_MS)"

section \<open>Invariant\<close>

definition kv_sum :: "(bytes \<times> kv_entry) list \<Rightarrow> nat" where
  "kv_sum kv = sum_list (map (\<lambda>(k, e). entry_bytes k e) kv)"

definition hs_inv :: "host_state \<Rightarrow> bool" where
  "hs_inv s \<longleftrightarrow> distinct (map fst (hs_kv s)) \<and> hs_total_bytes s = of_nat (kv_sum (hs_kv s))
     \<and> kv_sum (hs_kv s) \<le> KV_MAX_TOTAL_BYTES
     \<and> (\<forall>(k, e) \<in> set (hs_kv s). length (kv_value e) \<le> KV_MAX_VALUE_BYTES)
     \<and> distinct (map fst (hs_cursors s)) \<and> length (hs_cursors s) \<le> MAX_CURSORS
     \<and> distinct (map fst (hs_error_kinds s))
     \<and> hs_errors s = sum_list (map snd (hs_error_kinds s))"

datatype hs_op =
    KvGet u64 bytes | KvSet u64 bytes bytes int | KvDel bytes
  | ScanBegin u64 u64 u64 bytes | ScanAdvance u32 | ScanNext u32 | ScanEnd u32
  | Sweep u64 | RecordError rstr

fun hs_step :: "host_state \<Rightarrow> hs_op \<Rightarrow> host_state" where
  "hs_step s (KvGet now k) = fst (kv_get now s k)"
| "hs_step s (KvSet now k v ttl) = fst (kv_set now s k v ttl)"
| "hs_step s (KvDel k) = fst (kv_del s k)"
| "hs_step s (ScanBegin t1 t2 t3 p) = fst (scan_begin t1 t2 t3 s p)"
| "hs_step s (ScanAdvance c) = scan_advance s c"
| "hs_step s (ScanNext c) = fst (scan_next s c)"
| "hs_step s (ScanEnd c) = scan_end s c"
| "hs_step s (Sweep now) = fst (sweep now s)"
| "hs_step s (RecordError kind) = record_error kind s"

text \<open>What a guest sees: the value of a key that is present and not expired.\<close>

definition live :: "u64 \<Rightarrow> host_state \<Rightarrow> bytes \<Rightarrow> bytes option" where
  "live now s k =
     (case map_of (hs_kv s) k of
        Some e \<Rightarrow> if is_expired (kv_expires_at e) now then None else Some (kv_value e)
      | None \<Rightarrow> None)"

section \<open>Lemmas on association lists\<close>

lemma al_remove_simps [simp]:
  "al_remove k [] = []"
  "al_remove k (x # xs) = (if fst x = k then al_remove k xs else x # al_remove k xs)"
  by (simp_all add: al_remove_def split_beta)

lemma map_of_al_remove [simp]: "map_of (al_remove k xs) = (map_of xs)(k := None)"
  by (induction xs) auto

lemma map_of_al_insert [simp]: "map_of (al_insert k v xs) = (map_of xs)(k \<mapsto> v)"
  by (auto simp: al_insert_def)

lemma set_al_remove: "set (al_remove k xs) = {(k', v) \<in> set xs. k' \<noteq> k}"
  by (auto simp: al_remove_def)

lemma distinct_al_remove: "distinct (map fst xs) \<Longrightarrow> distinct (map fst (al_remove k xs))"
  unfolding al_remove_def by (rule distinct_map_filter)

lemma distinct_al_insert: "distinct (map fst xs) \<Longrightarrow> distinct (map fst (al_insert k v xs))"
  by (auto simp: al_insert_def distinct_al_remove set_al_remove)

lemma al_remove_id: "map_of xs k = None \<Longrightarrow> al_remove k xs = xs"
  by (induction xs) (auto split: if_splits)

lemma length_al_remove_Some:
  "distinct (map fst xs) \<Longrightarrow> map_of xs k = Some v \<Longrightarrow> Suc (length (al_remove k xs)) = length xs"
proof (induction xs)
  case (Cons x xs)
  then show ?case
    by (cases "fst x = k") (auto simp: al_remove_id map_of_eq_None_iff split: if_splits)
qed simp

lemma length_al_remove_le: "length (al_remove k xs) \<le> length xs"
  by (simp add: al_remove_def)

lemma sum_al_remove:
  "distinct (map fst xs) \<Longrightarrow>
     sum_list (map f xs) = sum_list (map f (al_remove k xs))
       + (case map_of xs k of Some v \<Rightarrow> f (k, v) | None \<Rightarrow> 0)"
  for f :: "'k \<times> 'v \<Rightarrow> 'b :: comm_monoid_add"
proof (induction xs)
  case (Cons x xs)
  show ?case
  proof (cases "fst x = k")
    case True
    with Cons.prems have "map_of xs k = None" by (auto simp: map_of_eq_None_iff)
    with True show ?thesis by (cases x) (simp add: al_remove_id add.commute)
  next
    case False
    with Cons show ?thesis by (cases x) (auto simp: add.assoc split: option.splits)
  qed
qed simp

section \<open>Lemmas on the store\<close>

lemma kv_sum_remove:
  assumes "distinct (map fst kv)"
  shows "kv_sum kv = kv_sum (al_remove k kv) + (case map_of kv k of Some e \<Rightarrow> entry_bytes k e | None \<Rightarrow> 0)"
  using sum_al_remove [OF assms, of "\<lambda>(k, e). entry_bytes k e" k] by (simp add: kv_sum_def split: option.splits)

lemma account_bytes:
  "hs_total_bytes (account added removed s) = hs_total_bytes s + of_nat added - of_nat removed"
  by (simp add: account_def of_nat_diff)

lemma account_frame [simp]:
  "hs_kv (account a r s) = hs_kv s" "hs_cursors (account a r s) = hs_cursors s"
  "hs_errors (account a r s) = hs_errors s" "hs_error_kinds (account a r s) = hs_error_kinds s"
  "hs_next_cursor (account a r s) = hs_next_cursor s" "hs_stale_ops (account a r s) = hs_stale_ops s"
  "hs_name (account a r s) = hs_name s"
  by (simp_all add: account_def)

lemma unat_total: "hs_inv s \<Longrightarrow> unat (hs_total_bytes s) = kv_sum (hs_kv s)"
  by (simp add: hs_inv_def unat_of_nat KV_MAX_TOTAL_BYTES_def)

lemma kv_sum_filter:
  "kv_sum kv = kv_sum (filter P kv) + kv_sum (filter (\<lambda>x. \<not> P x) kv)"
  by (induction kv) (auto simp: kv_sum_def)

lemma hs_inv_frame:
  "hs_inv (s\<lparr>hs_next_cursor := n\<rparr>) = hs_inv s" "hs_inv (s\<lparr>hs_stale_ops := m\<rparr>) = hs_inv s"
  by (simp_all add: hs_inv_def)

lemma hs_inv_drop_key:
  assumes "hs_inv s" and "map_of (hs_kv s) k = Some e"
  shows "hs_inv (account 0 (entry_bytes k e) (s\<lparr>hs_kv := al_remove k (hs_kv s)\<rparr>))"
proof -
  have d: "distinct (map fst (hs_kv s))" using assms(1) by (simp add: hs_inv_def)
  from kv_sum_remove [OF d, of k] assms(2) have "kv_sum (hs_kv s) = kv_sum (al_remove k (hs_kv s)) + entry_bytes k e"
    by simp
  with assms(1) show ?thesis
    by (auto simp: hs_inv_def account_bytes distinct_al_remove set_al_remove)
qed

lemma hs_inv_kv_get: "hs_inv s \<Longrightarrow> hs_inv (fst (kv_get now s k))"
  by (auto simp: kv_get_def kv_get_with_def hs_inv_drop_key split: option.splits)

lemma hs_inv_kv_del: "hs_inv s \<Longrightarrow> hs_inv (fst (kv_del s k))"
  by (auto simp: kv_del_def hs_inv_drop_key split: option.splits)

lemma hs_inv_kv_set:
  assumes "hs_inv s"
  shows "hs_inv (fst (kv_set now s k v ttl))"
proof -
  define rel where "rel = (case map_of (hs_kv s) k of Some e \<Rightarrow> entry_bytes k e | None \<Rightarrow> 0)"
  have d: "distinct (map fst (hs_kv s))" using assms by (simp add: hs_inv_def)
  have sum: "kv_sum (hs_kv s) = kv_sum (al_remove k (hs_kv s)) + rel"
    using kv_sum_remove [OF d, of k] by (simp add: rel_def)
  let ?e = "\<lparr>kv_value = v, kv_expires_at = expiry now ttl\<rparr>"
  have ins: "kv_sum (al_insert k ?e (hs_kv s)) = length k + length v + kv_sum (al_remove k (hs_kv s))"
    by (simp add: al_insert_def kv_sum_def entry_bytes_def)
  have held: "unat (hs_total_bytes s) - rel = kv_sum (al_remove k (hs_kv s))"
    using unat_total [OF assms] sum by simp
  show ?thesis
    using assms sum ins held
    by (auto simp: kv_set_def Let_def hs_inv_def account_bytes distinct_al_insert kv_set_verdict_def
        simp flip: rel_def) (auto simp: al_insert_def set_al_remove)
qed

lemma hs_inv_sweep: "hs_inv s \<Longrightarrow> hs_inv (fst (sweep now s))"
proof -
  assume inv: "hs_inv s"
  let ?dead = "filter (\<lambda>(k, e). is_expired (kv_expires_at e) now) (hs_kv s)"
  let ?keep = "filter (\<lambda>(k, e). \<not> is_expired (kv_expires_at e) now) (hs_kv s)"
  have keep: "?keep = filter (\<lambda>x. \<not> (case x of (k, e) \<Rightarrow> is_expired (kv_expires_at e) now)) (hs_kv s)"
    by (rule filter_cong) auto
  have sum: "kv_sum (hs_kv s) = kv_sum ?dead + kv_sum ?keep"
    unfolding keep by (rule kv_sum_filter)
  then show ?thesis
    using inv unfolding sweep_def Let_def
    by (auto simp: hs_inv_def account_bytes distinct_map_filter simp flip: kv_sum_def
        intro: order.trans [OF length_filter_le])
qed

lemma hs_inv_cursors:
  assumes "hs_inv s" and "distinct (map fst cs)" and "length cs \<le> MAX_CURSORS"
  shows "hs_inv (s\<lparr>hs_cursors := cs\<rparr>)"
  using assms by (simp add: hs_inv_def)

lemma hs_inv_remove_cursor: "hs_inv s \<Longrightarrow> hs_inv (s\<lparr>hs_cursors := al_remove c (hs_cursors s)\<rparr>)"
  by (rule hs_inv_cursors)
    (auto simp: hs_inv_def distinct_al_remove intro: order.trans [OF length_al_remove_le])

lemma hs_inv_bump: "hs_inv s \<Longrightarrow> map_of (hs_cursors s) c = Some cu \<Longrightarrow> hs_inv (bump_cursor s c cu)"
  unfolding bump_cursor_def
  using length_al_remove_Some [of "hs_cursors s" c cu]
  by (auto intro!: hs_inv_remove_cursor hs_inv_cursors simp: distinct_al_insert hs_inv_def al_insert_def)
    (auto simp: distinct_al_remove set_al_remove)

lemma hs_inv_insert_cursor:
  assumes "hs_inv s" and "length (hs_cursors s) < MAX_CURSORS"
  shows "hs_inv (s\<lparr>hs_cursors := al_insert c cu (hs_cursors s)\<rparr>)"
proof (rule hs_inv_cursors [OF assms(1)])
  show "distinct (map fst (al_insert c cu (hs_cursors s)))"
    using assms(1) by (simp add: hs_inv_def distinct_al_insert)
  show "length (al_insert c cu (hs_cursors s)) \<le> MAX_CURSORS"
    using assms(2) length_al_remove_le [of c "hs_cursors s"] by (simp add: al_insert_def)
qed

lemma hs_inv_scan_begin:
  assumes "hs_inv s"
  shows "hs_inv (fst (scan_begin t1 t2 t3 s p))"
proof -
  define s1 where "s1 = (if hs_stale_ops s \<ge> SWEEP_EVERY
     then fst (sweep t1 (s\<lparr>hs_stale_ops := hs_stale_ops s + 1\<rparr>\<lparr>hs_stale_ops := 0\<rparr>))
     else s\<lparr>hs_stale_ops := hs_stale_ops s + 1\<rparr>)"
  define s2 where "s2 = s1\<lparr>hs_next_cursor := hs_next_cursor s1 + 1\<rparr>"
  have 1: "hs_inv s1" using assms unfolding s1_def by (simp add: hs_inv_sweep hs_inv_frame)
  then have 2: "hs_inv s2" by (simp add: s2_def hs_inv_frame)
  show ?thesis
    using 1 2 hs_inv_insert_cursor [OF 2]
    unfolding scan_begin_def Let_def s1_def [symmetric] s2_def [symmetric]
    by (auto simp: not_le) (simp_all add: s2_def not_le)
qed

lemma hs_inv_record_error: "hs_inv s \<Longrightarrow> hs_inv (record_error kind s)"
  using sum_al_remove [of "hs_error_kinds s" snd kind]
  by (auto simp: hs_inv_def record_error_def Let_def distinct_al_insert split: option.splits)
    (auto simp: al_insert_def)

lemma hs_inv_step: "hs_inv s \<Longrightarrow> hs_inv (hs_step s e)"
  by (cases e) (auto simp: hs_inv_kv_get hs_inv_kv_set hs_inv_kv_del hs_inv_sweep hs_inv_scan_begin
      hs_inv_record_error scan_advance_def scan_next_def scan_end_def hs_inv_bump hs_inv_remove_cursor
      split: option.splits)

lemma hs_inv_new: "hs_inv (host_state_new n)"
  by (simp add: hs_inv_def host_state_new_def kv_sum_def)

interpretation host_state: machine "host_state_new n" hs_step hs_inv
  by unfold_locales (simp_all add: hs_inv_new hs_inv_step)

section \<open>Lemmas on what a guest sees\<close>

lemma kv_get_live: "snd (kv_get now s k) = live now s k"
  by (simp add: kv_get_def kv_get_with_def live_def split: option.splits)

lemma is_expired_mono: "is_expired e t \<Longrightarrow> t \<le> t' \<Longrightarrow> is_expired e t'"
  by (auto simp: is_expired_def)

lemma live_kv_get: "t \<le> t' \<Longrightarrow> live t' (fst (kv_get t s k)) = live t' s"
  by (auto simp: kv_get_def kv_get_with_def live_def fun_eq_iff dest: is_expired_mono split: option.splits)

lemma live_kv_set:
  "snd (kv_set now s k v ttl) \<Longrightarrow>
     live t (fst (kv_set now s k v ttl)) = (live t s)(k := (if is_expired (expiry now ttl) t then None else Some v))"
  by (auto simp: kv_set_def Let_def live_def fun_eq_iff split: if_splits)

lemma live_kv_set_refused: "\<not> snd (kv_set now s k v ttl) \<Longrightarrow> fst (kv_set now s k v ttl) = s"
  by (auto simp: kv_set_def Let_def split: if_splits)

lemma live_kv_del: "live t (fst (kv_del s k)) = (live t s)(k := None)"
  by (auto simp: kv_del_def live_def fun_eq_iff split: option.splits)

lemma map_of_filter_live:
  "distinct (map fst kv) \<Longrightarrow> map_of (filter (\<lambda>(k, e). P e) kv) k =
     (case map_of kv k of Some e \<Rightarrow> if P e then Some e else None | None \<Rightarrow> None)"
proof (induction kv)
  case (Cons x kv)
  then show ?case
    by (cases x) (auto simp: map_of_eq_None_iff split: option.splits)
qed simp

lemma live_sweep:
  assumes "distinct (map fst (hs_kv s))" and "t \<le> t'"
  shows "live t' (fst (sweep t s)) = live t' s"
  using map_of_filter_live [OF assms(1), of "\<lambda>e. \<not> is_expired (kv_expires_at e) t"] assms(2)
  by (auto simp: sweep_def Let_def live_def fun_eq_iff dest: is_expired_mono split: option.splits)

text \<open>All entries a cursor still has to give, and repeated \<open>scan_next\<close> until it gives none.\<close>

definition remaining :: "scan_cursor \<Rightarrow> (bytes \<times> bytes) list" where
  "remaining c = drop (cu_pos c) (cu_entries c)"

fun drain :: "nat \<Rightarrow> host_state \<Rightarrow> u32 \<Rightarrow> (bytes \<times> bytes) list \<times> host_state" where
  "drain 0 s c = ([], s)"
| "drain (Suc n) s c =
     (case scan_next s c of
        (s', None) \<Rightarrow> ([], s')
      | (s', Some x) \<Rightarrow> (let (xs, t) = drain n s' c in (x # xs, t)))"

lemma scan_next_remaining:
  assumes "map_of (hs_cursors s) c = Some cu"
  shows "scan_next s c =
     (case remaining cu of [] \<Rightarrow> (scan_end s c, None)
      | x # xs \<Rightarrow> (bump_cursor s c cu, Some x))"
  using assms
  by (auto simp: scan_next_def cursor_item_def remaining_def scan_end_def Cons_nth_drop_Suc [symmetric]
      split: list.splits)

lemma bump_cursor_lookup:
  "map_of (hs_cursors (bump_cursor s c cu)) c =
     (if length (remaining cu) \<le> 1 then None else Some (cu\<lparr>cu_pos := Suc (cu_pos cu)\<rparr>))"
  by (auto simp: bump_cursor_def remaining_def)

lemma remaining_bump: "remaining (cu\<lparr>cu_pos := Suc (cu_pos cu)\<rparr>) = tl (remaining cu)"
  by (simp add: remaining_def drop_Suc tl_drop)

lemma drain_all:
  "map_of (hs_cursors s) c = Some cu \<Longrightarrow> length (remaining cu) < n \<Longrightarrow>
     fst (drain n s c) = remaining cu \<and> map_of (hs_cursors (snd (drain n s c))) c = None"
proof (induction n arbitrary: s cu)
  case (Suc n)
  show ?case
  proof (cases "remaining cu")
    case Nil
    then show ?thesis using Suc.prems(1) by (simp add: scan_next_remaining scan_end_def)
  next
    case (Cons x xs)
    let ?s = "bump_cursor s c cu"
    have step: "scan_next s c = (?s, Some x)" using Suc.prems(1) Cons by (simp add: scan_next_remaining)
    show ?thesis
    proof (cases xs)
      case Nil
      then have "map_of (hs_cursors ?s) c = None" using Cons by (simp add: bump_cursor_lookup)
      then show ?thesis using step Cons Nil by (cases n) (simp_all add: scan_next_def)
    next
      case (Cons y ys)
      let ?cu = "cu\<lparr>cu_pos := Suc (cu_pos cu)\<rparr>"
      have "map_of (hs_cursors ?s) c = Some ?cu" "remaining ?cu = xs"
        using \<open>remaining cu = x # xs\<close> Cons by (simp_all add: bump_cursor_lookup remaining_bump)
      then have "fst (drain n ?s c) = xs \<and> map_of (hs_cursors (snd (drain n ?s c))) c = None"
        using Suc.IH [of ?s ?cu] Suc.prems(2) \<open>remaining cu = x # xs\<close> by simp
      then show ?thesis using step \<open>remaining cu = x # xs\<close> by (simp add: split_beta)
    qed
  qed
qed simp

lemma kv_scan_set:
  assumes "distinct (map fst (hs_kv s))"
  shows "set (kv_scan now s p) = {(k, v). starts_with k p \<and> live now s k = Some v}"
proof -
  have "(k, e) \<in> set (hs_kv s) \<longleftrightarrow> map_of (hs_kv s) k = Some e" for k e
    using assms by (simp add: map_of_eq_Some_iff)
  then show ?thesis
    by (auto simp: kv_scan_def live_def split: option.splits if_splits) (auto simp: image_iff)
qed

lemma kv_scan_sorted:
  assumes "distinct (map fst (hs_kv s))"
  shows "sorted_wrt (<) (map fst (kv_scan now s p))"
proof -
  have "distinct (map fst (filter (\<lambda>(k, e). starts_with k p \<and> \<not> is_expired (kv_expires_at e) now) (hs_kv s)))"
    using assms by (rule distinct_map_filter)
  then have "distinct (map fst (kv_scan now s p))"
    unfolding kv_scan_def by (simp add: distinct_map inj_on_def split_beta) force
  moreover have "sorted (map fst (kv_scan now s p))" by (simp add: kv_scan_def)
  ultimately show ?thesis by (simp add: strict_sorted_iff)
qed

text \<open>The state in which \<open>scan_begin\<close> takes its snapshot.\<close>

definition begin_state :: "u64 \<Rightarrow> host_state \<Rightarrow> host_state" where
  "begin_state t s = (if hs_stale_ops s \<ge> SWEEP_EVERY
     then fst (sweep t (s\<lparr>hs_stale_ops := 0\<rparr>)) else s\<lparr>hs_stale_ops := hs_stale_ops s + 1\<rparr>)"

lemma scan_begin_cases:
  "scan_begin t1 t2 t3 s p =
     (let s1 = begin_state t1 s; id = hs_next_cursor s1
      in if length (hs_cursors s1) \<ge> MAX_CURSORS then (s1, - 1)
         else if unat id \<ge> 2 ^ 31 then (s1\<lparr>hs_next_cursor := id + 1\<rparr>, - 1)
         else (s1\<lparr>hs_next_cursor := id + 1, hs_cursors := al_insert id
                 \<lparr>cu_entries = kv_scan t2 s1 p, cu_pos = 0, cu_created_at = t3\<rparr> (hs_cursors s1)\<rparr>, id))"
  by (simp add: scan_begin_def begin_state_def Let_def)

lemma live_begin_state:
  assumes "hs_inv s" and "t \<le> t'"
  shows "live t' (begin_state t s) = live t' s"
proof -
  have "distinct (map fst (hs_kv (s\<lparr>hs_stale_ops := 0\<rparr>)))" using assms(1) by (simp add: hs_inv_def)
  then have "live t' (fst (sweep t (s\<lparr>hs_stale_ops := 0\<rparr>))) = live t' (s\<lparr>hs_stale_ops := 0\<rparr>)"
    using assms(2) by (rule live_sweep)
  then show ?thesis by (simp add: begin_state_def live_def fun_eq_iff)
qed

lemma hs_inv_begin_state: "hs_inv s \<Longrightarrow> hs_inv (begin_state t s)"
  by (simp add: begin_state_def hs_inv_sweep hs_inv_frame)

lemma scan_begin_id:
  assumes "snd (scan_begin t1 t2 t3 s p) = c" and "c \<noteq> - 1"
  shows "map_of (hs_cursors (fst (scan_begin t1 t2 t3 s p))) c =
     Some \<lparr>cu_entries = kv_scan t2 (begin_state t1 s) p, cu_pos = 0, cu_created_at = t3\<rparr>"
  using assms by (auto simp: scan_begin_cases Let_def split: if_splits)

section \<open>Properties\<close>



text \<open>
  C12: the store refines a map with expiry. In a state satisfying the invariant, \<open>kv_get\<close> returns
  the live value and changes nothing any later reader sees; an accepted \<open>kv_set\<close> makes exactly its
  key read as the new value until the expiry, a refused one changes nothing, and it is accepted
  exactly when the value and the bytes then held fit the quotas; \<open>kv_del\<close> removes exactly its key;
  \<open>sweep\<close> changes nothing any later reader sees.
\<close>

theorem store_refines_map:
  assumes "hs_inv s" and "now \<le> t"
  shows "snd (kv_get now s k) = live now s k
     \<and> live t (fst (kv_get now s k)) = live t s
     \<and> live t (fst (kv_set now s k v ttl)) =
         (if snd (kv_set now s k v ttl)
          then (live t s)(k := (if is_expired (expiry now ttl) t then None else Some v)) else live t s)
     \<and> (snd (kv_set now s k v ttl) \<longleftrightarrow> length v \<le> KV_MAX_VALUE_BYTES
          \<and> kv_sum (al_remove k (hs_kv s)) + length k + length v \<le> KV_MAX_TOTAL_BYTES)
     \<and> live t (fst (kv_del s k)) = (live t s)(k := None)
     \<and> live t (fst (sweep now s)) = live t s"
proof -
  have d: "distinct (map fst (hs_kv s))" using assms(1) by (simp add: hs_inv_def)
  have "unat (hs_total_bytes s) - (case map_of (hs_kv s) k of Some e \<Rightarrow> entry_bytes k e | None \<Rightarrow> 0)
      = kv_sum (al_remove k (hs_kv s))"
    using unat_total [OF assms(1)] kv_sum_remove [OF d, of k] by simp
  then have acc: "snd (kv_set now s k v ttl) \<longleftrightarrow> length v \<le> KV_MAX_VALUE_BYTES
      \<and> kv_sum (al_remove k (hs_kv s)) + length k + length v \<le> KV_MAX_TOTAL_BYTES"
    by (simp add: kv_set_def kv_set_verdict_def Let_def add.assoc)
  have set: "live t (fst (kv_set now s k v ttl)) =
      (if snd (kv_set now s k v ttl)
       then (live t s)(k := (if is_expired (expiry now ttl) t then None else Some v)) else live t s)"
    by (cases "snd (kv_set now s k v ttl)") (simp_all add: live_kv_set live_kv_set_refused)
  show ?thesis
    using acc set kv_get_live [of now s k] live_kv_get [OF assms(2)] live_kv_del [of t s k]
      live_sweep [OF d assms(2)] by blast
qed

theorem store_refines_map_witness:
  "snd (kv_set 5 (host_state_new ''p'') ''k'' ''v'' 10)
   \<and> live 14 (fst (kv_set 5 (host_state_new ''p'') ''k'' ''v'' 10)) ''k'' = Some ''v''
   \<and> live 15 (fst (kv_set 5 (host_state_new ''p'') ''k'' ''v'' 10)) ''k'' = None"
proof -
  have t: "(5 :: u64) \<le> 14" "(5 :: u64) \<le> 15" by simp_all
  have a: "snd (kv_set 5 (host_state_new ''p'') ''k'' ''v'' 10)"
    using store_refines_map [OF hs_inv_new t(1), of "''p''" "''k''" "''v''" 10]
    by (simp add: host_state_new_def kv_sum_def KV_MAX_VALUE_BYTES_def KV_MAX_TOTAL_BYTES_def)
  have e: "expiry 5 10 = 15" by (simp add: expiry_def)
  show ?thesis
    using a store_refines_map [OF hs_inv_new t(1), of "''p''" "''k''" "''v''" 10]
      store_refines_map [OF hs_inv_new t(2), of "''p''" "''k''" "''v''" 10]
    by (simp add: e is_expired_def)
qed

text \<open>
  A scan yields its snapshot. A cursor handed out by \<open>scan_begin\<close>, read with \<open>scan_next\<close>
  until it gives nothing, yields exactly the entries that were live under the prefix, each once, in
  strictly increasing key order, and is gone afterwards.
\<close>

lemma scan_yields_snapshot:
  assumes "hs_inv s" and "t1 \<le> t2" and "scan_begin t1 t2 t3 s p = (s', c)" and "c \<noteq> - 1"
  shows "\<exists>xs. (\<forall>n > length xs. fst (drain n s' c) = xs \<and> \<not> scan_is_valid (snd (drain n s' c)) c)
     \<and> set xs = {(k, v). starts_with k p \<and> live t2 s k = Some v}
     \<and> sorted_wrt (<) (map fst xs)"
proof -
  let ?xs = "kv_scan t2 (begin_state t1 s) p"
  have d: "distinct (map fst (hs_kv (begin_state t1 s)))"
    using hs_inv_begin_state [OF assms(1)] by (simp add: hs_inv_def)
  have lookup: "map_of (hs_cursors s') c = Some \<lparr>cu_entries = ?xs, cu_pos = 0, cu_created_at = t3\<rparr>"
    using scan_begin_id [of t1 t2 t3 s p c] assms(3,4) by simp
  have drained: "fst (drain n s' c) = ?xs \<and> \<not> scan_is_valid (snd (drain n s' c)) c"
    if "n > length ?xs" for n
    using drain_all [OF lookup, of n] that by (simp add: remaining_def scan_is_valid_def)
  have "set ?xs = {(k, v). starts_with k p \<and> live t2 s k = Some v}"
    using kv_scan_set [OF d] live_begin_state [OF assms(1,2)] by simp
  with drained kv_scan_sorted [OF d] show ?thesis by blast
qed

lemma scan_yields_snapshot_run:
  "\<exists>s' xs. scan_begin 1 1 1 (host_state_new ''p'') ''k'' = (s', 0)
     \<and> set xs = {(k, v). starts_with k ''k'' \<and> live 1 (host_state_new ''p'') k = Some v}
     \<and> fst (drain (Suc (length xs)) s' 0) = xs"
proof -
  obtain s' where s': "scan_begin 1 1 1 (host_state_new ''p'') ''k'' = (s', 0)"
    by (simp add: scan_begin_def host_state_new_def Let_def SWEEP_EVERY_def MAX_CURSORS_def)
  have h: "(1 :: u64) \<le> 1" "(0 :: u32) \<noteq> - 1" by simp_all
  from scan_yields_snapshot [OF hs_inv_new h(1) s' h(2)] obtain xs where
    "\<forall>n > length xs. fst (drain n s' 0) = xs \<and> \<not> scan_is_valid (snd (drain n s' 0)) 0"
    "set xs = {(k, v). starts_with k ''k'' \<and> live 1 (host_state_new ''p'') k = Some v}" by blast
  with s' show ?thesis by blast
qed

text \<open>
  The epoch deadline rounds the timeout down. \<open>ticks_for\<close> gives at least one tick; for a
  timeout of at least one tick the ticks it gives span at most the timeout, and the remainder below
  one tick is cut off, so a timeout that is not a multiple of the tick is not covered.
\<close>

lemma ticks_round_down:
  "1 \<le> unat (ticks_for t) \<and> unat (ticks_for t) = max 1 (unat t div 10)
   \<and> (10 \<le> unat t \<longrightarrow> unat (ticks_for t) * 10 \<le> unat t \<and> unat t < (unat (ticks_for t) + 1) * 10)"
proof -
  have "unat (ticks_for t) = max 1 (unat t div 10)"
    by (simp add: ticks_for_def TICK_MS_def max_def word_le_nat_alt unat_div)
  then show ?thesis by (auto simp: max_def)
qed

end
