(* ===== verification/Guest.thy ===== *)
theory Guest
  imports Abi Phases HostState
begin

text \<open>
  What a plugin can do to a request: the data of one instance (\<open>crates/openrusty-wasm/src/instance.rs\<close>)
  and the host imports (\<open>linker.rs\<close>, \<open>linker_req.rs\<close>, \<open>linker_kv.rs\<close>, \<open>linker_rewrite.rs\<close>), one branch of
  \<open>host_call_step\<close> per import with its raw i32 arguments. A run of a guest is the sequence of imports
  it calls, interleaved with its own changes to its memory; the effect on the host is the fold of
  that sequence. Logging has no effect on the modelled state.
\<close>

section \<open>Instance data (instance.rs)\<close>

record peer_view =
  pv_name :: rstr
  pv_addr :: rstr
  pv_healthy :: bool

datatype header_edit = HdrSet rstr rstr | HdrDel rstr

datatype req_edit = SetUri rstr | SetQuery rstr | SetHeader rstr rstr | DelHeader rstr

text \<open>The shared plugin state is threaded beside the data; store limits are wasmtime's.\<close>

record host_data =
  hd_ctx :: req_ctx
  hd_peers :: "peer_view list"
  hd_settings :: "rstr \<rightharpoonup> rstr"
  hd_resp_edits :: "header_edit list"
  hd_req_edits :: "req_edit list"
  hd_resp_headers :: "header list"
  hd_resp_body :: "rstr option"
  hd_req_body :: rstr
  hd_body_chunk :: rstr
  hd_body_last :: bool

definition new_host_data :: "req_ctx \<Rightarrow> peer_view list \<Rightarrow> (rstr \<rightharpoonup> rstr) \<Rightarrow> host_data" where
  "new_host_data ctx peers settings = \<lparr>hd_ctx = ctx, hd_peers = peers, hd_settings = settings,
     hd_resp_edits = [], hd_req_edits = [], hd_resp_headers = [], hd_resp_body = None,
     hd_req_body = [], hd_body_chunk = [], hd_body_last = False\<rparr>"

section \<open>Payload encoders and checks\<close>

definition req_meta_payload :: "req_ctx \<Rightarrow> rstr \<Rightarrow> rstr \<Rightarrow> rstr" where
  "req_meta_payload ctx body key =
     (if key = ''method'' then rc_method ctx
      else if key = ''path'' then rc_path ctx
      else if key = ''query'' then rc_query ctx
      else if key = ''version'' then rc_version ctx
      else if key = ''client_ip'' then client_ip ctx
      else if key = ''upstream'' then (case rc_upstream ctx of Some u \<Rightarrow> u | None \<Rightarrow> [])
      else if key = ''body'' then body
      else if key = ''headers'' then encode_tlv (map (\<lambda>(n, v). n @ '': '' @ v) (rc_headers ctx))
      else case strip_prefix key ''header:'' of
             Some name \<Rightarrow> (case ctx_header ctx name of Some v \<Rightarrow> v | None \<Rightarrow> [])
           | None \<Rightarrow> [])"

definition peer_payload :: "peer_view \<Rightarrow> rstr" where
  "peer_payload p = encode_tlv [pv_name p, pv_addr p, if pv_healthy p then ''1'' else ''0'']"

definition MAX_PART_BYTES :: nat where "MAX_PART_BYTES = 8192"

definition RESP_BODY_MAX_BYTES :: nat where "RESP_BODY_MAX_BYTES = 1024 * 1024"

text \<open>
  \<open>char::is_control\<close> over a UTF-8 string: an ASCII control byte, or U+0080 to U+009F, whose encodings
  are C2 80 to C2 9F (C2 is never a continuation byte).
\<close>

fun has_control :: "rstr \<Rightarrow> bool" where
  "has_control [] = False"
| "has_control (c # cs) =
     (is_ascii_control c \<or> (of_char c = (0xC2 :: nat) \<and> byte_in 0x80 0x9F cs 0) \<or> has_control cs)"

definition valid_uri :: "rstr \<Rightarrow> bool" where
  "valid_uri value =
     (value \<noteq> [] \<and> starts_with value ''/'' \<and> length value \<le> MAX_PART_BYTES
      \<and> CHR ''?'' \<notin> set value \<and> CHR ''#'' \<notin> set value \<and> \<not> has_control value)"

definition valid_query :: "rstr \<Rightarrow> bool" where
  "valid_query value =
     (length value \<le> MAX_PART_BYTES \<and> \<not> starts_with value ''?'' \<and> \<not> has_control value)"

definition is_protected_header :: "rstr \<Rightarrow> bool" where
  "is_protected_header name = eq_ignore_ascii_case name ''content-length''"

definition del_header :: "header list \<Rightarrow> rstr \<Rightarrow> header list" where
  "del_header headers name = filter (\<lambda>(n, _). \<not> eq_ignore_ascii_case n name) headers"

definition set_header :: "header list \<Rightarrow> rstr \<Rightarrow> rstr \<Rightarrow> header list" where
  "set_header headers name value =
     filter (\<lambda>(n, _). \<not> eq_ignore_ascii_case n name) headers @ [(name, value)]"

text \<open>\<open>resp_header_set\<close>: replace the first live value of the name, or append the pair.\<close>

fun replace_first :: "header list \<Rightarrow> rstr \<Rightarrow> rstr \<Rightarrow> header list option" where
  "replace_first [] name val = None"
| "replace_first ((n, v) # hs) name val =
     (if eq_ignore_ascii_case n name then Some ((n, val) # hs)
      else map_option ((#) (n, v)) (replace_first hs name val))"

section \<open>Imports (linker.rs, linker_req.rs, linker_kv.rs, linker_rewrite.rs)\<close>

datatype host_call =
    HostLog i32 i32 i32 | HostNowMs
  | ReqMeta i32 i32 i32 i32 | ReqPeerCount | ReqPeerGet i32 i32 i32 | BalancerSetPeer i32
  | ReqSetUri i32 i32 | ReqSetQuery i32 i32 | ReqSetHeader i32 i32 i32 i32 | ReqDelHeader i32 i32
  | KvGet i32 i32 i32 i32 | KvSet i32 i32 i32 i32 int | KvDel i32 i32
  | KvScanBegin i32 i32 | KvScanNext i32 i32 i32 | KvScanEnd i32
  | RespHeaderGet i32 i32 i32 i32 | RespHeaderSet i32 i32 i32 i32 | RespHeaderDel i32 i32
  | RespBodySet i32 i32 | BodyChunk i32 i32 | BodyIsLast | CfgGet i32 i32 i32 i32

text \<open>The store of one instance while a guest runs: its memory, its data, the plugin's state.\<close>

record guest_world =
  gw_mem :: memory
  gw_data :: host_data
  gw_state :: host_state

definition reply :: "guest_world \<Rightarrow> i32 \<Rightarrow> i32 \<Rightarrow> rstr \<Rightarrow> guest_world \<times> i32" where
  "reply w out_ptr out_cap payload =
     (case write_out (gw_mem w) out_ptr out_cap payload of (m, r) \<Rightarrow> (w\<lparr>gw_mem := m\<rparr>, r))"

text \<open>
  One import call. \<open>now k\<close> is the k-th clock reading the call makes; the result is the i32 handed
  back to the guest (0 for the imports that return nothing or an i64).
\<close>

definition rewrite_uri :: "guest_world \<Rightarrow> rstr \<Rightarrow> guest_world \<times> i32" where
  "rewrite_uri w value =
     (if \<not> valid_uri value then (w, - 1)
      else let d = gw_data w in
           (w\<lparr>gw_data := d\<lparr>hd_ctx := (hd_ctx d)\<lparr>rc_path := value\<rparr>,
                          hd_req_edits := hd_req_edits d @ [SetUri value]\<rparr>\<rparr>, 0))"

definition rewrite_query :: "guest_world \<Rightarrow> rstr \<Rightarrow> guest_world \<times> i32" where
  "rewrite_query w value =
     (if \<not> valid_query value then (w, - 1)
      else let d = gw_data w in
           (w\<lparr>gw_data := d\<lparr>hd_ctx := (hd_ctx d)\<lparr>rc_query := value\<rparr>,
                          hd_req_edits := hd_req_edits d @ [SetQuery value]\<rparr>\<rparr>, 0))"

definition rewrite_header :: "guest_world \<Rightarrow> rstr \<Rightarrow> rstr \<Rightarrow> guest_world \<times> i32" where
  "rewrite_header w name val =
     (if is_protected_header name then (w, - 1)
      else let d = gw_data w in
           (w\<lparr>gw_data := d\<lparr>hd_ctx := (hd_ctx d)\<lparr>rc_headers := set_header (rc_headers (hd_ctx d)) name val\<rparr>,
                          hd_req_edits := hd_req_edits d @ [SetHeader name val]\<rparr>\<rparr>, 0))"

definition remove_header :: "guest_world \<Rightarrow> rstr \<Rightarrow> guest_world \<times> i32" where
  "remove_header w name =
     (if is_protected_header name then (w, 0)
      else let d = gw_data w in
           (w\<lparr>gw_data := d\<lparr>hd_ctx := (hd_ctx d)\<lparr>rc_headers := del_header (rc_headers (hd_ctx d)) name\<rparr>,
                          hd_req_edits := hd_req_edits d @ [DelHeader name]\<rparr>\<rparr>, 0))"

definition resp_header_set :: "guest_world \<Rightarrow> rstr \<Rightarrow> rstr \<Rightarrow> guest_world \<times> i32" where
  "resp_header_set w name val =
     (let d = gw_data w;
          live = (case replace_first (hd_resp_headers d) name val of
                    Some hs \<Rightarrow> hs | None \<Rightarrow> hd_resp_headers d @ [(name, val)])
      in (w\<lparr>gw_data := d\<lparr>hd_resp_headers := live, hd_resp_edits := hd_resp_edits d @ [HdrSet name val]\<rparr>\<rparr>, 0))"

definition resp_header_del :: "guest_world \<Rightarrow> rstr \<Rightarrow> guest_world \<times> i32" where
  "resp_header_del w name =
     (let d = gw_data w in
      (w\<lparr>gw_data := d\<lparr>hd_resp_headers := del_header (hd_resp_headers d) name,
                     hd_resp_edits := hd_resp_edits d @ [HdrDel name]\<rparr>\<rparr>, 0))"

definition balancer_set_peer :: "guest_world \<Rightarrow> i32 \<Rightarrow> guest_world \<times> i32" where
  "balancer_set_peer w idx =
     (let d = gw_data w in
      if 0 \<le> sint idx \<and> unat idx < length (hd_peers d)
      then (w\<lparr>gw_data := d\<lparr>hd_ctx := (hd_ctx d)\<lparr>rc_peer_index := Some idx\<rparr>\<rparr>\<rparr>, 0)
      else (w, - 1))"

definition kv_scan_next :: "guest_world \<Rightarrow> i32 \<Rightarrow> i32 \<Rightarrow> i32 \<Rightarrow> guest_world \<times> i32" where
  "kv_scan_next w cursor out_ptr out_cap =
     (if sint cursor < 0 \<or> \<not> scan_is_valid (gw_state w) cursor then (w, - 1)
      else case scan_peek (gw_state w) cursor of
             Some (k, v) \<Rightarrow>
               (case reply w out_ptr out_cap (encode_kv_pair k v) of
                  (w', r) \<Rightarrow>
                    (if 0 \<le> sint r then w'\<lparr>gw_state := scan_advance (gw_state w') cursor\<rparr> else w', r))
           | None \<Rightarrow> (w\<lparr>gw_state := fst (scan_next (gw_state w) cursor)\<rparr>, 0))"

fun host_call_step :: "(nat \<Rightarrow> u64) \<Rightarrow> guest_world \<Rightarrow> host_call \<Rightarrow> guest_world \<times> i32" where
  "host_call_step now w (HostLog level ptr len) = (w, 0)"
| "host_call_step now w HostNowMs = (w, 0)"
| "host_call_step now w (ReqMeta kp kl op oc) =
     (case read_guest_str (gw_mem w) kp kl of
        None \<Rightarrow> (w, 0)
      | Some key \<Rightarrow> reply w op oc (req_meta_payload (hd_ctx (gw_data w)) (hd_req_body (gw_data w)) key))"
| "host_call_step now w ReqPeerCount = (w, of_nat (length (hd_peers (gw_data w))))"
| "host_call_step now w (ReqPeerGet idx op oc) =
     (if 0 \<le> sint idx \<and> unat idx < length (hd_peers (gw_data w))
      then reply w op oc (peer_payload (hd_peers (gw_data w) ! unat idx)) else (w, - 2))"
| "host_call_step now w (BalancerSetPeer idx) = balancer_set_peer w idx"
| "host_call_step now w (ReqSetUri ptr len) =
     (case read_guest_str (gw_mem w) ptr len of None \<Rightarrow> (w, - 1) | Some value \<Rightarrow> rewrite_uri w value)"
| "host_call_step now w (ReqSetQuery ptr len) =
     (case read_guest_str (gw_mem w) ptr len of None \<Rightarrow> (w, - 1) | Some value \<Rightarrow> rewrite_query w value)"
| "host_call_step now w (ReqSetHeader np nl vp vl) =
     (case (read_guest_str (gw_mem w) np nl, read_guest_str (gw_mem w) vp vl) of
        (Some name, Some val) \<Rightarrow> rewrite_header w name val | _ \<Rightarrow> (w, - 1))"
| "host_call_step now w (ReqDelHeader np nl) =
     (case read_guest_str (gw_mem w) np nl of None \<Rightarrow> (w, - 1) | Some name \<Rightarrow> remove_header w name)"
| "host_call_step now w (KvGet kp kl op oc) =
     (case read_guest (gw_mem w) kp kl of
        None \<Rightarrow> (w, 0)
      | Some key \<Rightarrow>
          (case kv_get_with (now 0) (gw_state w) key (write_out (gw_mem w) op oc) of
             (st, Some (m, r)) \<Rightarrow> (w\<lparr>gw_mem := m, gw_state := st\<rparr>, r)
           | (st, None) \<Rightarrow> (w\<lparr>gw_state := st\<rparr>, 0)))"
| "host_call_step now w (KvSet kp kl vp vl ttl) =
     (case (read_guest (gw_mem w) kp kl, read_guest (gw_mem w) vp vl) of
        (Some key, Some val) \<Rightarrow>
          (case kv_set (now 0) (gw_state w) key val ttl of
             (st, ok) \<Rightarrow> (w\<lparr>gw_state := st\<rparr>, if ok then 0 else - 1))
      | _ \<Rightarrow> (w, - 1))"
| "host_call_step now w (KvDel kp kl) =
     (case read_guest (gw_mem w) kp kl of
        None \<Rightarrow> (w, 0)
      | Some key \<Rightarrow> (case kv_del (gw_state w) key of (st, b) \<Rightarrow> (w\<lparr>gw_state := st\<rparr>, if b then 1 else 0)))"
| "host_call_step now w (KvScanBegin ptr len) =
     (case read_guest (gw_mem w) ptr len of
        None \<Rightarrow> (w, - 1)
      | Some prefix \<Rightarrow>
          (case scan_begin (now 0) (now 1) (now 2) (gw_state w) prefix of (st, c) \<Rightarrow> (w\<lparr>gw_state := st\<rparr>, c)))"
| "host_call_step now w (KvScanNext cursor op oc) = kv_scan_next w cursor op oc"
| "host_call_step now w (KvScanEnd cursor) =
     ((if 0 \<le> sint cursor then w\<lparr>gw_state := scan_end (gw_state w) cursor\<rparr> else w), 0)"
| "host_call_step now w (RespHeaderGet np nl op oc) =
     (case read_guest_str (gw_mem w) np nl of
        None \<Rightarrow> (w, 0)
      | Some name \<Rightarrow>
          (case find_header (hd_resp_headers (gw_data w)) name of
             Some v \<Rightarrow> reply w op oc v | None \<Rightarrow> (w, 0)))"
| "host_call_step now w (RespHeaderSet np nl vp vl) =
     (case (read_guest_str (gw_mem w) np nl, read_guest_str (gw_mem w) vp vl) of
        (Some name, Some val) \<Rightarrow> resp_header_set w name val | _ \<Rightarrow> (w, - 1))"
| "host_call_step now w (RespHeaderDel np nl) =
     (case read_guest_str (gw_mem w) np nl of None \<Rightarrow> (w, - 1) | Some name \<Rightarrow> resp_header_del w name)"
| "host_call_step now w (RespBodySet ptr len) =
     (if sint len < 0 \<or> RESP_BODY_MAX_BYTES < unat len then (w, - 1)
      else case read_guest (gw_mem w) ptr len of
             None \<Rightarrow> (w, - 1)
           | Some b \<Rightarrow> (w\<lparr>gw_data := (gw_data w)\<lparr>hd_resp_body := Some b\<rparr>\<rparr>, len))"
| "host_call_step now w (BodyChunk op oc) = reply w op oc (hd_body_chunk (gw_data w))"
| "host_call_step now w BodyIsLast = (w, if hd_body_last (gw_data w) then 1 else 0)"
| "host_call_step now w (CfgGet kp kl op oc) =
     (case read_guest_str (gw_mem w) kp kl of
        None \<Rightarrow> (w, 0)
      | Some key \<Rightarrow> (case hd_settings (gw_data w) key of Some v \<Rightarrow> reply w op oc v | None \<Rightarrow> (w, 0)))"

text \<open>What a guest does between entering and leaving: import calls and changes of its own memory.\<close>

datatype guest_op = Call "nat \<Rightarrow> u64" host_call | Local memory

fun guest_step :: "guest_world \<Rightarrow> guest_op \<Rightarrow> guest_world" where
  "guest_step w (Call now c) = fst (host_call_step now w c)"
| "guest_step w (Local m) = w\<lparr>gw_mem := m\<rparr>"

definition guest_run :: "guest_world \<Rightarrow> guest_op list \<Rightarrow> guest_world" where
  "guest_run w ops = foldl guest_step w ops"

section \<open>What the imports cannot touch\<close>

text \<open>The facts of a request that no import writes.\<close>

definition frozen ::
  "req_ctx \<Rightarrow> rstr \<times> rstr \<times> socket_addr \<times> nat option \<times> rstr option \<times> u32 \<times> socket_addr list" where
  "frozen c = (rc_method c, rc_version c, rc_client_addr c, rc_route_index c, rc_upstream c,
     rc_attempts c, rc_tried c)"

definition content_length_values :: "header list \<Rightarrow> header list" where
  "content_length_values hs = filter (\<lambda>(n, _). is_protected_header n) hs"

text \<open>
  From one instance data to a later one: frozen facts and pushed data are the same, the pinned peer
  is the old one or an index into the peer list, path and query are the old ones or valid, the
  length headers are the old ones, a new body is within the limit.
\<close>

definition confined :: "host_data \<Rightarrow> host_data \<Rightarrow> bool" where
  "confined d d' \<longleftrightarrow>
     frozen (hd_ctx d') = frozen (hd_ctx d)
     \<and> hd_peers d' = hd_peers d \<and> hd_settings d' = hd_settings d \<and> hd_req_body d' = hd_req_body d
     \<and> hd_body_chunk d' = hd_body_chunk d \<and> hd_body_last d' = hd_body_last d
     \<and> (rc_peer_index (hd_ctx d') = rc_peer_index (hd_ctx d)
        \<or> (\<exists>i. rc_peer_index (hd_ctx d') = Some i \<and> unat i < length (hd_peers d)))
     \<and> (rc_path (hd_ctx d') = rc_path (hd_ctx d) \<or> valid_uri (rc_path (hd_ctx d')))
     \<and> (rc_query (hd_ctx d') = rc_query (hd_ctx d) \<or> valid_query (rc_query (hd_ctx d')))
     \<and> content_length_values (rc_headers (hd_ctx d')) = content_length_values (rc_headers (hd_ctx d))
     \<and> (hd_resp_body d' = hd_resp_body d
        \<or> (\<exists>b. hd_resp_body d' = Some b \<and> length b \<le> RESP_BODY_MAX_BYTES))"

lemma confined_refl [simp]: "confined d d"
  by (simp add: confined_def)

lemma confined_trans: "confined a b \<Longrightarrow> confined b c \<Longrightarrow> confined a c"
  unfolding confined_def by (elim conjE, intro conjI) (simp | metis)+

lemma protected_case: "is_protected_header n \<Longrightarrow> eq_ignore_ascii_case n name \<longleftrightarrow> is_protected_header name"
  by (auto simp: is_protected_header_def eq_ignore_ascii_case_def)

lemma content_length_del [simp]:
  "\<not> is_protected_header name \<Longrightarrow> content_length_values (del_header hs name) = content_length_values hs"
  using protected_case by (induction hs) (auto simp: content_length_values_def del_header_def)

lemma content_length_set [simp]:
  "\<not> is_protected_header name \<Longrightarrow> content_length_values (set_header hs name v) = content_length_values hs"
  using content_length_del [of name hs]
  by (simp add: set_header_def content_length_values_def del_header_def)

lemma reply_frame [simp]:
  "gw_data (fst (reply w p c x)) = gw_data w" "gw_state (fst (reply w p c x)) = gw_state w"
  by (simp_all add: reply_def split: prod.splits)

lemma read_guest_length: "read_guest m p l = Some b \<Longrightarrow> length b = unat l"
  by (auto simp: read_guest_def mem_read_def split: if_splits option.splits)

lemma kv_scan_next_data [simp]: "gw_data (fst (kv_scan_next w c p cap)) = gw_data w"
proof -
  have "gw_data w' = gw_data w" if "reply w p cap x = (w', r)" for x w' r
    using reply_frame(1) [of w p cap x] that by simp
  then show ?thesis by (auto simp: kv_scan_next_def split: option.splits prod.splits)
qed

lemma rewrite_confined:
  "confined (gw_data w) (gw_data (fst (rewrite_uri w v)))"
  "confined (gw_data w) (gw_data (fst (rewrite_query w v)))"
  "confined (gw_data w) (gw_data (fst (rewrite_header w n v)))"
  "confined (gw_data w) (gw_data (fst (remove_header w n)))"
  "confined (gw_data w) (gw_data (fst (resp_header_set w n v)))"
  "confined (gw_data w) (gw_data (fst (resp_header_del w n)))"
  "confined (gw_data w) (gw_data (fst (balancer_set_peer w i)))"
  by (simp_all add: confined_def frozen_def rewrite_uri_def rewrite_query_def rewrite_header_def
      remove_header_def resp_header_set_def resp_header_del_def balancer_set_peer_def Let_def)

lemma host_call_confined: "confined (gw_data w) (gw_data (fst (host_call_step now w c)))"
proof (cases c)
  case (RespBodySet ptr len)
  then show ?thesis
    by (auto simp: confined_def frozen_def dest: read_guest_length split: option.splits)
qed (auto simp: rewrite_confined split: option.splits prod.splits)

lemma rewrite_state [simp]:
  "gw_state (fst (rewrite_uri w v)) = gw_state w" "gw_state (fst (rewrite_query w v)) = gw_state w"
  "gw_state (fst (rewrite_header w n v)) = gw_state w" "gw_state (fst (remove_header w n)) = gw_state w"
  "gw_state (fst (resp_header_set w n v)) = gw_state w" "gw_state (fst (resp_header_del w n)) = gw_state w"
  "gw_state (fst (balancer_set_peer w i)) = gw_state w"
  by (simp_all add: rewrite_uri_def rewrite_query_def rewrite_header_def
      remove_header_def resp_header_set_def resp_header_del_def balancer_set_peer_def Let_def)

text \<open>Every import changes the plugin state by operations of the store, or not at all.\<close>

definition store_op :: "hs_op \<Rightarrow> bool" where
  "store_op e = (case e of RecordError _ \<Rightarrow> False | _ \<Rightarrow> True)"

definition store_reaches :: "host_state \<Rightarrow> host_state \<Rightarrow> bool" where
  "store_reaches s s' \<longleftrightarrow> (\<exists>ops. list_all store_op ops \<and> s' = foldl hs_step s ops)"

lemma single_op: "store_op e \<Longrightarrow> s' = hs_step s e \<Longrightarrow> store_reaches s s'"
  unfolding store_reaches_def by (rule exI [of _ "[e]"]) simp

lemma no_op: "s' = s \<Longrightarrow> store_reaches s s'"
  unfolding store_reaches_def by (rule exI [of _ "[]"]) simp

lemma store_op_simps [simp]:
  "store_op (HostState.KvGet n k)" "store_op (HostState.KvSet n k v t)" "store_op (HostState.KvDel k)"
  "store_op (ScanBegin a b c p)" "store_op (ScanAdvance u)" "store_op (ScanNext u)" "store_op (ScanEnd u)"
  by (simp_all add: store_op_def)

lemma hs_errors_store_op: "store_op e \<Longrightarrow> hs_errors (hs_step s e) = hs_errors s"
  by (cases e)
    (auto simp: store_op_def kv_get_def kv_get_with_def kv_set_def kv_del_def scan_begin_def sweep_def
      scan_advance_def scan_next_def bump_cursor_def scan_end_def Let_def split: option.splits prod.splits if_splits)

lemma store_reaches_errors: "store_reaches s s' \<Longrightarrow> hs_errors s' = hs_errors s"
proof -
  have "list_all store_op ops \<Longrightarrow> hs_errors (foldl hs_step s ops) = hs_errors s" for ops
    by (induction ops arbitrary: s) (auto simp: hs_errors_store_op)
  then show "store_reaches s s' \<Longrightarrow> hs_errors s' = hs_errors s" by (auto simp: store_reaches_def)
qed

lemma store_reaches_inv: "store_reaches s s' \<Longrightarrow> hs_inv s \<Longrightarrow> hs_inv s'"
  using host_state.run_inv by (auto simp: store_reaches_def)

lemma kv_get_with_state: "fst (kv_get_with now s k f) = fst (kv_get now s k)"
  by (simp add: kv_get_def kv_get_with_def split: option.splits)

lemma kv_scan_next_state:
  "store_reaches (gw_state w) (gw_state (fst (kv_scan_next w c p cap)))"
proof -
  have r: "gw_state w' = gw_state w" if "reply w p cap x = (w', r)" for x w' r
    using reply_frame(2) [of w p cap x] that by simp
  have "gw_state (fst (kv_scan_next w c p cap))
      \<in> {gw_state w, scan_advance (gw_state w) c, fst (scan_next (gw_state w) c)}"
    by (auto simp: kv_scan_next_def r split: option.splits prod.splits)
  then show ?thesis
    by (auto intro: no_op single_op [where e = "ScanAdvance c"] single_op [where e = "ScanNext c"])
qed

lemma host_call_state: "store_reaches (gw_state w) (gw_state (fst (host_call_step now w c)))"
proof (cases c)
  case (KvGet kp kl op oc)
  show ?thesis
  proof (cases "read_guest (gw_mem w) kp kl")
    case None
    then show ?thesis by (intro no_op) (simp add: KvGet)
  next
    case (Some key)
    then show ?thesis
      using kv_get_with_state [of "now 0" "gw_state w" key "write_out (gw_mem w) op oc"]
      by (intro single_op [where e = "HostState.KvGet (now 0) key"])
        (auto simp: KvGet split: prod.splits option.splits)
  qed
next
  case (KvSet kp kl vp vl ttl)
  show ?thesis
  proof (cases "read_guest (gw_mem w) kp kl = None \<or> read_guest (gw_mem w) vp vl = None")
    case True
    then show ?thesis by (intro no_op) (auto simp: KvSet split: option.splits)
  next
    case False
    then obtain key val where "read_guest (gw_mem w) kp kl = Some key" "read_guest (gw_mem w) vp vl = Some val"
      by auto
    then show ?thesis
      by (intro single_op [where e = "HostState.KvSet (now 0) key val ttl"]) (simp_all add: KvSet split: prod.splits)
  qed
next
  case (KvDel kp kl)
  show ?thesis
  proof (cases "read_guest (gw_mem w) kp kl")
    case None
    then show ?thesis by (intro no_op) (simp add: KvDel)
  next
    case (Some key)
    then show ?thesis by (intro single_op [where e = "HostState.KvDel key"]) (simp_all add: KvDel split: prod.splits)
  qed
next
  case (KvScanBegin ptr len)
  show ?thesis
  proof (cases "read_guest (gw_mem w) ptr len")
    case None
    then show ?thesis by (intro no_op) (simp add: KvScanBegin)
  next
    case (Some prefix)
    then show ?thesis
      by (intro single_op [where e = "ScanBegin (now 0) (now 1) (now 2) prefix"])
        (simp_all add: KvScanBegin split: prod.splits)
  qed
next
  case (KvScanNext cu p cap)
  then show ?thesis using kv_scan_next_state by simp
next
  case (KvScanEnd cu)
  show ?thesis
  proof (cases "0 \<le> sint cu")
    case True
    then show ?thesis by (intro single_op [where e = "ScanEnd cu"]) (simp_all add: KvScanEnd)
  next
    case False
    then show ?thesis by (intro no_op) (simp add: KvScanEnd)
  qed
qed (intro no_op, auto split: option.splits)+

lemma guest_step_confined: "confined (gw_data w) (gw_data (guest_step w e))"
  by (cases e) (simp_all add: host_call_confined)

lemma guest_step_inv: "hs_inv (gw_state w) \<Longrightarrow> hs_inv (gw_state (guest_step w e))"
proof (cases e)
  case (Call now c)
  assume "hs_inv (gw_state w)"
  then show ?thesis using store_reaches_inv [OF host_call_state [of w now c]] by (simp add: Call)
qed simp

lemma guest_run_confined: "confined (gw_data w) (gw_data (guest_run w ops))"
proof (induction ops arbitrary: w)
  case (Cons e ops)
  then show ?case
    using confined_trans [OF guest_step_confined [of w e]] by (auto simp: guest_run_def)
qed (simp add: guest_run_def)

lemma guest_run_inv: "hs_inv (gw_state w) \<Longrightarrow> hs_inv (gw_state (guest_run w ops))"
  by (induction ops arbitrary: w) (auto simp: guest_run_def guest_step_inv)

lemma guest_run_errors: "hs_errors (gw_state (guest_run w ops)) = hs_errors (gw_state w)"
proof (induction ops arbitrary: w)
  case (Cons e ops)
  have "hs_errors (gw_state (guest_step w e)) = hs_errors (gw_state w)"
    using store_reaches_errors [OF host_call_state] by (cases e) auto
  then show ?case using Cons.IH [of "guest_step w e"] by (simp add: guest_run_def)
qed (simp add: guest_run_def)

section \<open>Properties\<close>

text \<open>
  C20: guests are confined to what the ABI grants. Whatever sequence of imports a guest calls, with
  whatever pointers, lengths and memory contents: method, version, client address, route, upstream,
  attempt count and the list of tried peers are as before, and so are the peer list, the buffered
  body, the body chunk and every content-length header; a newly pinned peer is an index of the peer
  list; a new path is an absolute path without query, fragment or control characters, a new query
  has no leading question mark; a body it wrote is at most 1 MiB; and the plugin's store still
  satisfies its quotas.
\<close>

theorem guest_confined:
  assumes "hs_inv (gw_state w)"
  shows "let d = gw_data w; w' = guest_run w ops; d' = gw_data w' in
     hs_inv (gw_state w')
     \<and> frozen (hd_ctx d') = frozen (hd_ctx d) \<and> hd_peers d' = hd_peers d \<and> hd_req_body d' = hd_req_body d
     \<and> hd_body_chunk d' = hd_body_chunk d \<and> hd_body_last d' = hd_body_last d
     \<and> content_length_values (rc_headers (hd_ctx d')) = content_length_values (rc_headers (hd_ctx d))
     \<and> (rc_peer_index (hd_ctx d') = rc_peer_index (hd_ctx d)
        \<or> (\<exists>i. rc_peer_index (hd_ctx d') = Some i \<and> unat i < length (hd_peers d)))
     \<and> (rc_path (hd_ctx d') = rc_path (hd_ctx d) \<or> valid_uri (rc_path (hd_ctx d')))
     \<and> (rc_query (hd_ctx d') = rc_query (hd_ctx d) \<or> valid_query (rc_query (hd_ctx d')))
     \<and> (hd_resp_body d' = hd_resp_body d
        \<or> (\<exists>b. hd_resp_body d' = Some b \<and> length b \<le> RESP_BODY_MAX_BYTES))"
  using guest_run_confined [of w ops] guest_run_inv [OF assms, of ops]
  unfolding Let_def confined_def by blast

definition sample_world :: guest_world where
  "sample_world = \<lparr>gw_mem = Some ''/new'',
     gw_data = new_host_data req_ctx_empty [\<lparr>pv_name = ''p'', pv_addr = ''p'', pv_healthy = True\<rparr>] Map.empty,
     gw_state = host_state_new ''plug''\<rparr>"

theorem guest_confined_witness:
  "let d' = gw_data (guest_run sample_world [Call (\<lambda>_. 5) (BalancerSetPeer 0), Call (\<lambda>_. 6) (BalancerSetPeer 1)]) in
   rc_peer_index (hd_ctx d') = Some 0 \<and> frozen (hd_ctx d') = frozen req_ctx_empty"
  using guest_confined [of sample_world "[Call (\<lambda>_. 5) (BalancerSetPeer 0), Call (\<lambda>_. 6) (BalancerSetPeer 1)]"]
  by (simp add: Let_def hs_inv_new sample_world_def guest_run_def balancer_set_peer_def new_host_data_def)

end
