(* ===== verification/Session.thy ===== *)
theory Session
  imports Guest Config
begin

text \<open>
  Running the plugin chain for one request: \<open>crates/openrusty-wasm/src/runner.rs\<close> (one phase in one
  instance under the failure policy) and \<open>session.rs\<close> (the chain, the hand-over of the request state
  to an instance and back, the per-phase statistics). The guests and wasmtime are the parameter
  \<open>wasm_env\<close>: what instantiation gives, which imports a call makes and how it ends, and the wall
  times measured.
\<close>

section \<open>Runner (runner.rs)\<close>

datatype wasm_error = Interrupt | OtherError rstr

datatype call_result = CallOk i32 | CallErr wasm_error

datatype error_kind = ErrTrap | ErrTimeout | ErrBadCode i32

datatype phase_outcome = OutDecision decision | OutError rstr error_kind

definition INSTANTIATE_TIMEOUT :: u64 where "INSTANTIATE_TIMEOUT = 5000"

record plugin =
  lp_name :: rstr
  lp_state :: host_state
  lp_settings :: "rstr \<rightharpoonup> rstr"
  lp_timeout :: u64
  lp_fail_policy :: fail_policy
  lp_memory_mb :: u32

record 'g plugin_rt =
  pr_guest :: 'g
  pr_mem :: memory
  pr_data :: host_data

text \<open>
  Instantiation gets the memory ceiling in bytes and the epoch budget in ticks and gives a guest
  with its memory; a call of \<open>orr_on_phase\<close> gets the store and the budget and gives the operations
  the guest performed, the guest afterwards and how the call ended.
\<close>

record 'g wasm_env =
  we_instantiate :: "rstr \<Rightarrow> phase \<Rightarrow> nat \<Rightarrow> u64 \<Rightarrow> wasm_error + 'g \<times> memory"
  we_on_phase :: "'g \<Rightarrow> guest_world \<Rightarrow> phase \<Rightarrow> u64 \<Rightarrow> guest_op list \<times> 'g \<times> call_result"
  we_elapsed :: "phase \<Rightarrow> u64 \<Rightarrow> u64"

definition memory_ceiling :: "u32 \<Rightarrow> nat" where
  "memory_ceiling mb = unat (saturating_mul (ucast mb :: u64) (1024 * 1024))"

definition instantiate_with_budget ::
  "'g wasm_env \<Rightarrow> plugin \<Rightarrow> phase \<Rightarrow> host_data \<Rightarrow> u64 \<Rightarrow> wasm_error + 'g plugin_rt" where
  "instantiate_with_budget E p ph host budget =
     and_then (we_instantiate E (lp_name p) ph (memory_ceiling (lp_memory_mb p)) (ticks_for budget))
       (\<lambda>(g, m). Inr \<lparr>pr_guest = g, pr_mem = m, pr_data = host\<rparr>)"

definition instantiate :: "'g wasm_env \<Rightarrow> plugin \<Rightarrow> phase \<Rightarrow> host_data \<Rightarrow> wasm_error + 'g plugin_rt" where
  "instantiate E p ph host = instantiate_with_budget E p ph host INSTANTIATE_TIMEOUT"

definition fallback_decision :: "fail_policy \<Rightarrow> decision" where
  "fallback_decision policy = (case policy of FailOpen \<Rightarrow> Declined | FailClosed \<Rightarrow> Deny 503)"

definition run_phase_outcome ::
  "'g wasm_env \<Rightarrow> 'g plugin_rt \<Rightarrow> host_state \<Rightarrow> u64 \<Rightarrow> phase \<Rightarrow> 'g plugin_rt \<times> host_state \<times> phase_outcome" where
  "run_phase_outcome E rt st timeout ph =
     (let w = \<lparr>gw_mem = pr_mem rt, gw_data = pr_data rt, gw_state = st\<rparr> in
      case we_on_phase E (pr_guest rt) w ph (ticks_for timeout) of (ops, g, res) \<Rightarrow>
        let w' = guest_run w ops;
            rt' = \<lparr>pr_guest = g, pr_mem = gw_mem w', pr_data = gw_data w'\<rparr>;
            st' = gw_state w'
        in case res of
             CallOk code \<Rightarrow>
               (case from_abi code of
                  Some d \<Rightarrow> (rt', st', OutDecision d)
                | None \<Rightarrow> (rt', record_error ''bad_code'' st', OutError (hs_name st) (ErrBadCode code)))
           | CallErr Interrupt \<Rightarrow> (rt', record_error ''timeout'' st', OutError (hs_name st) ErrTimeout)
           | CallErr (OtherError _) \<Rightarrow> (rt', record_error ''trap'' st', OutError (hs_name st) ErrTrap))"

definition runner_run_phase ::
  "'g wasm_env \<Rightarrow> 'g plugin_rt \<Rightarrow> host_state \<Rightarrow> u64 \<Rightarrow> fail_policy \<Rightarrow> phase \<Rightarrow> 'g plugin_rt \<times> host_state \<times> decision" where
  "runner_run_phase E rt st timeout policy ph =
     (case run_phase_outcome E rt st timeout ph of
        (rt', st', OutDecision d) \<Rightarrow> (rt', st', d)
      | (rt', st', OutError _ _) \<Rightarrow> (rt', st', fallback_decision policy))"

section \<open>Session (session.rs)\<close>

record 'g session =
  ss_plugins :: "plugin list"
  ss_ctx :: req_ctx
  ss_peers :: "peer_view list"
  ss_rts :: "'g plugin_rt option list"
  ss_body_chunk :: rstr
  ss_body_last :: bool
  ss_resp_headers :: "header list"
  ss_resp_body :: "rstr option"
  ss_req_body :: rstr
  ss_phase_ns :: "u64 list"
  ss_phase_calls :: "u64 list"

definition session_new :: "plugin list \<Rightarrow> req_ctx \<Rightarrow> peer_view list \<Rightarrow> 'g session" where
  "session_new plugins ctx peers = \<lparr>ss_plugins = plugins, ss_ctx = ctx, ss_peers = peers,
     ss_rts = map (\<lambda>_. None) plugins, ss_body_chunk = [], ss_body_last = False, ss_resp_headers = [],
     ss_resp_body = None, ss_req_body = [], ss_phase_ns = replicate phase_COUNT 0,
     ss_phase_calls = replicate phase_COUNT 0\<rparr>"

definition set_body_chunk :: "rstr \<Rightarrow> bool \<Rightarrow> 'g session \<Rightarrow> 'g session" where
  "set_body_chunk chunk final s = s\<lparr>ss_body_chunk := chunk, ss_body_last := final\<rparr>"

definition set_resp_headers :: "header list \<Rightarrow> 'g session \<Rightarrow> 'g session" where
  "set_resp_headers h s = s\<lparr>ss_resp_headers := h\<rparr>"

definition set_req_body :: "rstr \<Rightarrow> 'g session \<Rightarrow> 'g session" where
  "set_req_body body s = s\<lparr>ss_req_body := body\<rparr>"

definition take_resp_body :: "'g session \<Rightarrow> 'g session \<times> rstr option" where
  "take_resp_body s =
     (s\<lparr>ss_resp_body := None,
        ss_rts := map (map_option (\<lambda>rt. rt\<lparr>pr_data := (pr_data rt)\<lparr>hd_resp_body := None\<rparr>\<rparr>)) (ss_rts s)\<rparr>,
      case ss_resp_body s of Some b \<Rightarrow> if b = [] then None else Some b | None \<Rightarrow> None)"

definition take_header_edits :: "'g session \<Rightarrow> 'g session \<times> header_edit list" where
  "take_header_edits s =
     (s\<lparr>ss_rts := map (map_option (\<lambda>rt. rt\<lparr>pr_data := (pr_data rt)\<lparr>hd_resp_edits := []\<rparr>\<rparr>)) (ss_rts s)\<rparr>,
      concat (map (\<lambda>rt. case rt of Some r \<Rightarrow> hd_resp_edits (pr_data r) | None \<Rightarrow> []) (ss_rts s)))"

definition take_req_edits :: "'g session \<Rightarrow> 'g session \<times> req_edit list" where
  "take_req_edits s =
     (s\<lparr>ss_rts := map (map_option (\<lambda>rt. rt\<lparr>pr_data := (pr_data rt)\<lparr>hd_req_edits := []\<rparr>\<rparr>)) (ss_rts s)\<rparr>,
      concat (map (\<lambda>rt. case rt of Some r \<Rightarrow> hd_req_edits (pr_data r) | None \<Rightarrow> []) (ss_rts s)))"

definition slot :: "phase \<Rightarrow> nat" where
  "slot ph = unat (phase_id ph)"

definition record_phase_time :: "'g wasm_env \<Rightarrow> phase \<Rightarrow> 'g session \<Rightarrow> 'g session" where
  "record_phase_time E ph s =
     (let i = slot ph; c = ss_phase_calls s ! i in
      s\<lparr>ss_phase_ns := (ss_phase_ns s)[i := ss_phase_ns s ! i + we_elapsed E ph c],
        ss_phase_calls := (ss_phase_calls s)[i := c + 1]\<rparr>)"

definition instantiate_one :: "'g wasm_env \<Rightarrow> phase \<Rightarrow> plugin \<Rightarrow> wasm_error + 'g plugin_rt" where
  "instantiate_one E ph p = instantiate E p ph (new_host_data req_ctx_empty [] (lp_settings p))"

text \<open>The two halves of the bracket around a call: move the request state in, and back out.\<close>

definition push_data :: "'g session \<Rightarrow> host_data \<Rightarrow> host_data" where
  "push_data s d = d\<lparr>hd_ctx := ss_ctx s, hd_peers := ss_peers s, hd_resp_headers := ss_resp_headers s,
     hd_req_body := ss_req_body s, hd_body_chunk := ss_body_chunk s, hd_body_last := ss_body_last s\<rparr>"

definition drained_data :: "host_data \<Rightarrow> host_data" where
  "drained_data d = d\<lparr>hd_ctx := req_ctx_empty, hd_peers := [], hd_resp_headers := [], hd_req_body := [],
     hd_body_chunk := [], hd_resp_body := None\<rparr>"

definition pull_data :: "host_data \<Rightarrow> 'g session \<Rightarrow> 'g session" where
  "pull_data d s = s\<lparr>ss_ctx := hd_ctx d, ss_peers := hd_peers d, ss_resp_headers := hd_resp_headers d,
     ss_req_body := hd_req_body d, ss_body_chunk := hd_body_chunk d, ss_body_last := hd_body_last d,
     ss_resp_body := (case hd_resp_body d of Some b \<Rightarrow> Some b | None \<Rightarrow> ss_resp_body s)\<rparr>"

definition call_plugin :: "'g wasm_env \<Rightarrow> phase \<Rightarrow> nat \<Rightarrow> 'g plugin_rt \<Rightarrow> 'g session \<Rightarrow> 'g session \<times> decision" where
  "call_plugin E ph i rt s =
     (let p = ss_plugins s ! i in
      case runner_run_phase E (rt\<lparr>pr_data := push_data s (pr_data rt)\<rparr>) (lp_state p) (lp_timeout p)
             (lp_fail_policy p) ph of
        (rt', st', d) \<Rightarrow>
          (record_phase_time E ph
             ((pull_data (pr_data rt') s)
                \<lparr>ss_rts := (ss_rts s)[i := Some (rt'\<lparr>pr_data := drained_data (pr_data rt')\<rparr>)],
                 ss_plugins := (ss_plugins s)[i := p\<lparr>lp_state := st'\<rparr>]\<rparr>), d))"

definition instantiation_failed :: "'g wasm_env \<Rightarrow> phase \<Rightarrow> nat \<Rightarrow> wasm_error \<Rightarrow> 'g session \<Rightarrow> 'g session \<times> decision" where
  "instantiation_failed E ph i e s =
     (let p = ss_plugins s ! i; kind = (if e = Interrupt then ''timeout'' else ''trap'')
      in (record_phase_time E ph
            (s\<lparr>ss_plugins := (ss_plugins s)[i := p\<lparr>lp_state := record_error kind (lp_state p)\<rparr>]\<rparr>),
          fallback_decision (lp_fail_policy p)))"

definition session_step :: "'g wasm_env \<Rightarrow> phase \<Rightarrow> nat \<Rightarrow> 'g session \<Rightarrow> 'g session \<times> decision" where
  "session_step E ph i s =
     (case ss_rts s ! i of
        Some rt \<Rightarrow> call_plugin E ph i rt s
      | None \<Rightarrow>
          (case instantiate_one E ph (ss_plugins s ! i) of
             Inr rt \<Rightarrow> call_plugin E ph i rt s
           | Inl e \<Rightarrow> instantiation_failed E ph i e s))"

fun phase_loop :: "'g wasm_env \<Rightarrow> phase \<Rightarrow> nat list \<Rightarrow> decision \<Rightarrow> 'g session \<Rightarrow> 'g session \<times> decision" where
  "phase_loop E ph [] prev s = (s, prev)"
| "phase_loop E ph (i # js) prev s =
     (case session_step E ph i s of
        (s', d) \<Rightarrow> if is_terminal d \<and> ph \<noteq> Log_Phase then (s', d) else phase_loop E ph js d s')"

definition run_phase :: "'g wasm_env \<Rightarrow> phase \<Rightarrow> 'g session \<Rightarrow> 'g session \<times> decision" where
  "run_phase E ph s = phase_loop E ph [0..<length (ss_plugins s)] Declined s"

text \<open>\<open>take_phase_stats\<close>: the phases with invocations, in id order, and the counters reset.\<close>

definition all_phases :: "phase list" where
  "all_phases = [PostRead, Rewrite, Access, Content, Balancer_Phase, HeaderFilter, BodyFilter, Log_Phase]"

definition take_phase_stats :: "'g session \<Rightarrow> 'g session \<times> (rstr \<times> u64 \<times> u64) list" where
  "take_phase_stats s =
     (let ran = filter (\<lambda>ph. ss_phase_calls s ! slot ph \<noteq> 0) all_phases
      in (s\<lparr>ss_phase_calls := map (\<lambda>_. 0) (ss_phase_calls s),
            ss_phase_ns := map (\<lambda>i. if ss_phase_calls s ! i = 0 then ss_phase_ns s ! i else 0) [0..<length (ss_phase_ns s)]\<rparr>,
          map (\<lambda>ph. (phase_name ph, ss_phase_calls s ! slot ph, ss_phase_ns s ! slot ph)) ran))"

section \<open>Lemmas\<close>

lemma hs_errors_record [simp]: "hs_errors (record_error k s) = hs_errors s + 1"
  by (simp add: record_error_def Let_def)

text \<open>One invocation: the data stays confined, the store keeps its invariant, a failure is counted.\<close>

lemma runner_run_phase_spec:
  assumes "runner_run_phase E rt st timeout policy ph = (rt', st', d)"
  shows "confined (pr_data rt) (pr_data rt')" and "hs_inv st \<Longrightarrow> hs_inv st'"
    and "hs_errors st' = hs_errors st \<and> (\<exists>code. from_abi code = Some d)
         \<or> hs_errors st' = hs_errors st + 1 \<and> d = fallback_decision policy"
proof -
  let ?w = "\<lparr>gw_mem = pr_mem rt, gw_data = pr_data rt, gw_state = st\<rparr>"
  obtain ops g res where r: "we_on_phase E (pr_guest rt) ?w ph (ticks_for timeout) = (ops, g, res)"
    by (metis prod_cases3)
  let ?w' = "guest_run ?w ops"
  have "(pr_data rt', st') \<in> {(gw_data ?w', gw_state ?w')} \<and> (\<exists>code. from_abi code = Some d)
      \<or> (\<exists>k. pr_data rt' = gw_data ?w' \<and> st' = record_error k (gw_state ?w')) \<and> d = fallback_decision policy"
    using assms r
    by (auto simp: runner_run_phase_def run_phase_outcome_def Let_def
        split: call_result.splits option.splits wasm_error.splits)
  then show "confined (pr_data rt) (pr_data rt')" "hs_inv st \<Longrightarrow> hs_inv st'"
    "hs_errors st' = hs_errors st \<and> (\<exists>code. from_abi code = Some d)
         \<or> hs_errors st' = hs_errors st + 1 \<and> d = fallback_decision policy"
    using guest_run_confined [of ?w ops] guest_run_inv [of ?w ops] guest_run_errors [of ?w ops]
    by (auto simp: hs_inv_record_error)
qed

text \<open>Between calls the session, not an instance, owns the request state.\<close>

definition drained :: "host_data \<Rightarrow> bool" where
  "drained d \<longleftrightarrow> hd_ctx d = req_ctx_empty \<and> hd_peers d = [] \<and> hd_resp_headers d = [] \<and> hd_req_body d = []
     \<and> hd_body_chunk d = [] \<and> hd_resp_body d = None"

definition sess_inv :: "'g session \<Rightarrow> bool" where
  "sess_inv s \<longleftrightarrow>
     length (ss_rts s) = length (ss_plugins s)
     \<and> length (ss_phase_ns s) = phase_COUNT \<and> length (ss_phase_calls s) = phase_COUNT
     \<and> (\<forall>rt. Some rt \<in> set (ss_rts s) \<longrightarrow> drained (pr_data rt))
     \<and> (\<forall>p \<in> set (ss_plugins s). hs_inv (lp_state p))"

definition sess_confined :: "'g session \<Rightarrow> 'g session \<Rightarrow> bool" where
  "sess_confined s s' \<longleftrightarrow>
     frozen (ss_ctx s') = frozen (ss_ctx s) \<and> ss_peers s' = ss_peers s \<and> ss_req_body s' = ss_req_body s
     \<and> ss_body_chunk s' = ss_body_chunk s \<and> ss_body_last s' = ss_body_last s
     \<and> (rc_peer_index (ss_ctx s') = rc_peer_index (ss_ctx s)
        \<or> (\<exists>i. rc_peer_index (ss_ctx s') = Some i \<and> unat i < length (ss_peers s)))
     \<and> (rc_path (ss_ctx s') = rc_path (ss_ctx s) \<or> valid_uri (rc_path (ss_ctx s')))
     \<and> (rc_query (ss_ctx s') = rc_query (ss_ctx s) \<or> valid_query (rc_query (ss_ctx s')))
     \<and> content_length_values (rc_headers (ss_ctx s')) = content_length_values (rc_headers (ss_ctx s))
     \<and> (ss_resp_body s' = ss_resp_body s
        \<or> (\<exists>b. ss_resp_body s' = Some b \<and> length b \<le> RESP_BODY_MAX_BYTES))
     \<and> map lp_name (ss_plugins s') = map lp_name (ss_plugins s)
     \<and> map lp_fail_policy (ss_plugins s') = map lp_fail_policy (ss_plugins s)"

lemma sess_confined_refl [simp]: "sess_confined s s"
  by (simp add: sess_confined_def)

lemma sess_confined_trans: "sess_confined a b \<Longrightarrow> sess_confined b c \<Longrightarrow> sess_confined a c"
  unfolding sess_confined_def by (elim conjE, intro conjI) (simp | metis)+

lemma sess_confined_plugins: "sess_confined s s' \<Longrightarrow> length (ss_plugins s') = length (ss_plugins s)"
  unfolding sess_confined_def by (metis length_map)

lemma record_phase_time_frame [simp]:
  "ss_plugins (record_phase_time E ph s) = ss_plugins s" "ss_ctx (record_phase_time E ph s) = ss_ctx s"
  "ss_peers (record_phase_time E ph s) = ss_peers s" "ss_rts (record_phase_time E ph s) = ss_rts s"
  "ss_body_chunk (record_phase_time E ph s) = ss_body_chunk s"
  "ss_body_last (record_phase_time E ph s) = ss_body_last s"
  "ss_resp_headers (record_phase_time E ph s) = ss_resp_headers s"
  "ss_resp_body (record_phase_time E ph s) = ss_resp_body s"
  "ss_req_body (record_phase_time E ph s) = ss_req_body s"
  "ss_phase_calls (record_phase_time E ph s) = (ss_phase_calls s)[slot ph := ss_phase_calls s ! slot ph + 1]"
  "length (ss_phase_ns (record_phase_time E ph s)) = length (ss_phase_ns s)"
  by (simp_all add: record_phase_time_def Let_def)

lemma map_update_same: "i < length xs \<Longrightarrow> f y = f (xs ! i) \<Longrightarrow> map f (xs[i := y]) = map f xs"
  by (metis list_update_id map_update)

lemma sess_confined_call:
  assumes "confined (push_data s d) d'" "hd_resp_body d = None" "i < length (ss_plugins s)"
    "lp_name p = lp_name (ss_plugins s ! i)" "lp_fail_policy p = lp_fail_policy (ss_plugins s ! i)"
  shows "sess_confined s ((pull_data d' s)\<lparr>ss_rts := rts, ss_plugins := (ss_plugins s)[i := p]\<rparr>)"
  using assms
  by (auto simp: sess_confined_def confined_def push_data_def pull_data_def map_update_same
      split: option.splits)

lemma instantiate_one_Inr:
  "instantiate_one E ph p = Inr rt \<Longrightarrow> pr_data rt = new_host_data req_ctx_empty [] (lp_settings p)"
  by (auto simp: instantiate_one_def instantiate_def instantiate_with_budget_def split: prod.splits)

lemma drained_new [simp]: "drained (new_host_data req_ctx_empty [] ss)"
  by (simp add: drained_def new_host_data_def)

lemma drained_data_drained [simp]: "drained (drained_data d)"
  by (simp add: drained_def drained_data_def)

lemma set_update_cases: "x \<in> set (xs[i := y]) \<Longrightarrow> x = y \<or> x \<in> set xs"
  using set_update_subset_insert [of xs i y] by auto

text \<open>What one link of the chain does, instantiation included.\<close>

definition link_ok :: "phase \<Rightarrow> nat \<Rightarrow> 'g session \<Rightarrow> 'g session \<Rightarrow> decision \<Rightarrow> bool" where
  "link_ok ph i s s' d \<longleftrightarrow>
     sess_inv s' \<and> sess_confined s s'
     \<and> ss_phase_calls s' = (ss_phase_calls s)[slot ph := ss_phase_calls s ! slot ph + 1]
     \<and> (\<forall>j < length (ss_plugins s). j \<noteq> i \<longrightarrow> ss_plugins s' ! j = ss_plugins s ! j)
     \<and> (error_count (lp_state (ss_plugins s' ! i)) = error_count (lp_state (ss_plugins s ! i))
          \<and> (\<exists>code. from_abi code = Some d)
        \<or> error_count (lp_state (ss_plugins s' ! i)) = error_count (lp_state (ss_plugins s ! i)) + 1
          \<and> d = fallback_decision (lp_fail_policy (ss_plugins s ! i)))"

lemma call_plugin_ok:
  assumes inv: "sess_inv s" and i: "i < length (ss_plugins s)" and dr: "drained (pr_data rt)"
    and c: "call_plugin E ph i rt s = (s', d)"
  shows "link_ok ph i s s' d"
proof -
  let ?p = "ss_plugins s ! i"
  obtain rt' st' where r: "runner_run_phase E (rt\<lparr>pr_data := push_data s (pr_data rt)\<rparr>) (lp_state ?p)
      (lp_timeout ?p) (lp_fail_policy ?p) ph = (rt', st', d)"
    and s': "s' = record_phase_time E ph ((pull_data (pr_data rt') s)
       \<lparr>ss_rts := (ss_rts s)[i := Some (rt'\<lparr>pr_data := drained_data (pr_data rt')\<rparr>)],
        ss_plugins := (ss_plugins s)[i := ?p\<lparr>lp_state := st'\<rparr>]\<rparr>)"
    using c by (auto simp: call_plugin_def Let_def split: prod.splits)
  note run = runner_run_phase_spec [OF r]
  have "hs_inv st'" using run(2) inv i by (simp add: sess_inv_def)
  then have "sess_inv s'"
    using inv by (auto simp: s' sess_inv_def pull_data_def dest!: set_update_cases)
  moreover have "sess_confined s s'"
    using sess_confined_call [OF _ _ i, of "pr_data rt" "pr_data rt'" "?p\<lparr>lp_state := st'\<rparr>"] run(1) dr
    by (simp add: s' sess_confined_def drained_def)
  ultimately show ?thesis
    using run(3) i by (simp add: link_ok_def s' error_count_def pull_data_def)
qed

lemma instantiation_failed_ok:
  assumes "sess_inv s" "i < length (ss_plugins s)" "instantiation_failed E ph i e s = (s', d)"
  shows "link_ok ph i s s' d"
  using assms
  by (auto simp: link_ok_def instantiation_failed_def Let_def sess_inv_def sess_confined_def
      map_update_same error_count_def hs_inv_record_error dest!: set_update_cases)

lemma session_step_ok:
  assumes "sess_inv s" "i < length (ss_plugins s)" "session_step E ph i s = (s', d)"
  shows "link_ok ph i s s' d"
proof (cases "ss_rts s ! i")
  case None
  show ?thesis
  proof (cases "instantiate_one E ph (ss_plugins s ! i)")
    case (Inl e)
    then show ?thesis
      using assms(3) None instantiation_failed_ok [OF assms(1,2)] by (simp add: session_step_def)
  next
    case (Inr rt)
    then have "drained (pr_data rt)" using instantiate_one_Inr [OF Inr] by simp
    then show ?thesis
      using assms(3) None Inr call_plugin_ok [OF assms(1,2)] by (simp add: session_step_def)
  qed
next
  case (Some rt)
  then have "drained (pr_data rt)" using assms(1,2) unfolding sess_inv_def by (metis nth_mem)
  then show ?thesis using assms Some call_plugin_ok by (auto simp: session_step_def)
qed

lemma slot_less: "slot ph < phase_COUNT"
  using phase_id_less by (simp add: slot_def)

lemma slot_inj: "slot p = slot q \<longleftrightarrow> p = q"
  using phase_id_inj by (auto simp: slot_def word_unat_eq_iff)

text \<open>The whole chain: how many plugins ran, and that nothing was lost.\<close>

lemma phase_loop_ok:
  assumes "phase_loop E ph js prev s = (s', d)" "sess_inv s" "\<forall>j \<in> set js. j < length (ss_plugins s)"
  shows "sess_inv s' \<and> sess_confined s s'
    \<and> (\<exists>k \<le> length js. ss_phase_calls s' = (ss_phase_calls s)[slot ph := ss_phase_calls s ! slot ph + of_nat k]
         \<and> (k < length js \<longrightarrow> is_terminal d \<and> ph \<noteq> Log_Phase) \<and> (k = 0 \<longrightarrow> s' = s \<and> d = prev))"
  using assms
proof (induction js arbitrary: prev s)
  case Nil
  then show ?case by simp
next
  case (Cons j js)
  obtain s1 d1 where st: "session_step E ph j s = (s1, d1)" by fastforce
  have l: "link_ok ph j s s1 d1" using session_step_ok [OF Cons.prems(2) _ st] Cons.prems(3) by simp
  have sl: "slot ph < length (ss_phase_calls s)"
    using Cons.prems(2) slot_less [of ph] by (simp add: sess_inv_def)
  show ?case
  proof (cases "is_terminal d1 \<and> ph \<noteq> Log_Phase")
    case True
    then have "s' = s1" "d = d1" using Cons.prems(1) st by auto
    then show ?thesis
      using l True by (intro conjI) (auto simp: link_ok_def intro!: exI [of _ 1])
  next
    case False
    then have r: "phase_loop E ph js d1 s1 = (s', d)" using Cons.prems(1) st by auto
    have len: "length (ss_plugins s1) = length (ss_plugins s)"
      using l sess_confined_plugins by (auto simp: link_ok_def)
    obtain k where k: "k \<le> length js"
      "ss_phase_calls s' = (ss_phase_calls s1)[slot ph := ss_phase_calls s1 ! slot ph + of_nat k]"
      "k < length js \<longrightarrow> is_terminal d \<and> ph \<noteq> Log_Phase" "sess_inv s'" "sess_confined s1 s'"
      using Cons.IH [OF r] l Cons.prems(3) len by (auto simp: link_ok_def)
    have "ss_phase_calls s' = (ss_phase_calls s)[slot ph := ss_phase_calls s ! slot ph + of_nat (Suc k)]"
      using k(2) l sl by (simp add: link_ok_def ac_simps)
    moreover have "sess_confined s s'" using l k(5) sess_confined_trans by (auto simp: link_ok_def)
    ultimately show ?thesis using k(1,3,4) by (intro conjI exI [of _ "Suc k"]) auto
  qed
qed

lemma run_phase_ok:
  assumes "run_phase E ph s = (s', d)" "sess_inv s"
  shows "sess_inv s' \<and> sess_confined s s'
    \<and> (\<exists>k \<le> length (ss_plugins s).
         ss_phase_calls s' = (ss_phase_calls s)[slot ph := ss_phase_calls s ! slot ph + of_nat k]
         \<and> (k < length (ss_plugins s) \<longrightarrow> is_terminal d \<and> ph \<noteq> Log_Phase) \<and> (k = 0 \<longrightarrow> s' = s \<and> d = Declined))"
  using phase_loop_ok [of E ph "[0..<length (ss_plugins s)]" Declined s s' d] assms
  by (simp add: run_phase_def)

text \<open>The reference: invoke every plugin of the chain in order.\<close>

fun chain :: "'g wasm_env \<Rightarrow> phase \<Rightarrow> nat list \<Rightarrow> 'g session \<Rightarrow> ('g session \<times> decision) list" where
  "chain E ph [] s = []"
| "chain E ph (j # js) s = session_step E ph j s # chain E ph js (fst (session_step E ph j s))"

lemma phase_loop_chain:
  "phase_loop E ph js prev s =
     (case find (\<lambda>(_, d). is_terminal d \<and> ph \<noteq> Log_Phase) (chain E ph js s) of
        Some r \<Rightarrow> r
      | None \<Rightarrow> if js = [] then (s, prev) else last (chain E ph js s))"
proof (induction js arbitrary: prev s)
  case (Cons j js)
  obtain s1 d1 where st: "session_step E ph j s = (s1, d1)" by fastforce
  have "chain E ph js s1 = [] \<longleftrightarrow> js = []" by (cases js) auto
  then show ?case using Cons [of d1 s1] by (auto simp: st split: option.splits)
qed simp

section \<open>The session as a machine\<close>

datatype session_op =
    OpRunPhase phase | OpSetBodyChunk rstr bool | OpSetRespHeaders "header list" | OpSetReqBody rstr
  | OpSetCtx req_ctx | OpTakeRespBody | OpTakeHeaderEdits | OpTakeReqEdits | OpTakePhaseStats

fun session_op_step :: "'g wasm_env \<Rightarrow> 'g session \<Rightarrow> session_op \<Rightarrow> 'g session" where
  "session_op_step E s (OpRunPhase ph) = fst (run_phase E ph s)"
| "session_op_step E s (OpSetBodyChunk c l) = set_body_chunk c l s"
| "session_op_step E s (OpSetRespHeaders h) = set_resp_headers h s"
| "session_op_step E s (OpSetReqBody b) = set_req_body b s"
| "session_op_step E s (OpSetCtx c) = s\<lparr>ss_ctx := c\<rparr>"
| "session_op_step E s OpTakeRespBody = fst (take_resp_body s)"
| "session_op_step E s OpTakeHeaderEdits = fst (take_header_edits s)"
| "session_op_step E s OpTakeReqEdits = fst (take_req_edits s)"
| "session_op_step E s OpTakePhaseStats = fst (take_phase_stats s)"

lemma sess_inv_map_rts:
  assumes "sess_inv s" "\<And>rt. drained (pr_data rt) \<Longrightarrow> drained (pr_data (f rt))"
  shows "sess_inv (s\<lparr>ss_rts := map (map_option f) (ss_rts s)\<rparr>)"
proof -
  have "drained (pr_data rt)" if rt: "Some rt \<in> set (map (map_option f) (ss_rts s))" for rt
  proof -
    from rt obtain x where x: "x \<in> set (ss_rts s)" "map_option f x = Some rt"
      by (metis (no_types, lifting) imageE list.set_map)
    then show ?thesis using assms by (auto simp: sess_inv_def)
  qed
  then show ?thesis using assms(1) unfolding sess_inv_def by simp
qed

lemma sess_inv_frame [simp]:
  "sess_inv (s\<lparr>ss_resp_body := b\<rparr>) = sess_inv s" "sess_inv (s\<lparr>ss_body_chunk := c, ss_body_last := l\<rparr>) = sess_inv s"
  "sess_inv (s\<lparr>ss_resp_headers := h\<rparr>) = sess_inv s" "sess_inv (s\<lparr>ss_req_body := q\<rparr>) = sess_inv s"
  "sess_inv (s\<lparr>ss_ctx := ctx\<rparr>) = sess_inv s" "sess_inv (s\<lparr>ss_resp_body := b, ss_rts := r\<rparr>) = sess_inv (s\<lparr>ss_rts := r\<rparr>)"
  by (simp_all add: sess_inv_def)

lemma sess_inv_step: "sess_inv s \<Longrightarrow> sess_inv (session_op_step E s e)"
proof (cases e)
  case (OpRunPhase ph)
  assume "sess_inv s"
  then show ?thesis
    using run_phase_ok [of E ph s "fst (run_phase E ph s)" "snd (run_phase E ph s)"] by (simp add: OpRunPhase)
next
  case OpTakeRespBody
  assume "sess_inv s"
  then show ?thesis
    using sess_inv_map_rts [of s "\<lambda>rt. rt\<lparr>pr_data := (pr_data rt)\<lparr>hd_resp_body := None\<rparr>\<rparr>"]
    by (simp add: OpTakeRespBody take_resp_body_def drained_def)
next
  case OpTakeHeaderEdits
  assume "sess_inv s"
  then show ?thesis
    by (auto simp: OpTakeHeaderEdits take_header_edits_def drained_def intro!: sess_inv_map_rts)
next
  case OpTakeReqEdits
  assume "sess_inv s"
  then show ?thesis
    by (auto simp: OpTakeReqEdits take_req_edits_def drained_def intro!: sess_inv_map_rts)
next
  case OpTakePhaseStats
  assume "sess_inv s"
  then show ?thesis by (simp add: OpTakePhaseStats take_phase_stats_def sess_inv_def Let_def)
qed (simp_all add: set_body_chunk_def set_resp_headers_def set_req_body_def)

lemma sess_inv_new: "\<forall>p \<in> set ps. hs_inv (lp_state p) \<Longrightarrow> sess_inv (session_new ps ctx peers)"
  by (auto simp: sess_inv_def session_new_def)

interpretation session: machine "session_new ps ctx peers" "session_op_step E"
    "\<lambda>s. (\<forall>p \<in> set ps. hs_inv (lp_state p)) \<longrightarrow> sess_inv s" for ps ctx peers E
  by unfold_locales (auto simp: sess_inv_new sess_inv_step)

section \<open>Properties\<close>

text \<open>A guest that declines, and one that traps; both with an empty memory.\<close>

definition sample_env :: "unit wasm_env" where
  "sample_env = \<lparr>we_instantiate = (\<lambda>_ _ _ _. Inr ((), None)),
     we_on_phase = (\<lambda>_ w _ _. ([], (), if hs_name (gw_state w) = ''bad'' then CallErr Interrupt else CallOk (- 5))),
     we_elapsed = (\<lambda>_ _. 7)\<rparr>"

definition sample_plugin :: "rstr \<Rightarrow> fail_policy \<Rightarrow> plugin" where
  "sample_plugin n pol = \<lparr>lp_name = n, lp_state = host_state_new n, lp_settings = Map.empty, lp_timeout = 50,
     lp_fail_policy = pol, lp_memory_mb = 16\<rparr>"




lemma session_step_sample:
  "session_step sample_env ph 0 (session_new [sample_plugin ''bad'' pol] req_ctx_empty [])
   = call_plugin sample_env ph 0 \<lparr>pr_guest = (), pr_mem = None, pr_data = new_host_data req_ctx_empty [] Map.empty\<rparr>
       (session_new [sample_plugin ''bad'' pol] req_ctx_empty [])"
  by (simp add: session_step_def session_new_def instantiate_one_def instantiate_def
      instantiate_with_budget_def sample_env_def sample_plugin_def)


end
