(* ===== verification/PeerPick.thy ===== *)
theory PeerPick
  imports Balancer Health Session Upstream
begin

text \<open>
  Peer selection (\<open>crates/openrusty-server/src/pipeline_peer.rs\<close>): the balancer phase, the
  re-validation of a pinned peer, and the configured balancer over the healthy peers the request
  has not tried. \<open>now k\<close> is the k-th clock reading; an index out of range is a panic.
\<close>

section \<open>Definitions\<close>

datatype pick = PickPeer nat | PickDeny u16 | PickNone

text \<open>\<open>state::UpstreamRt\<close>: the snapshot and the effective weights of the round-robin.\<close>

record ('cert, 'sk) upstream_rt =
  ur_up :: "('cert, 'sk) upstream"
  ur_swrr :: "int list"

abbreviation peers_of :: "('cert, 'sk) upstream_rt \<Rightarrow> peer list" where
  "peers_of u \<equiv> up_peers (ur_up u)"

definition untried_healthy :: "peer list \<Rightarrow> nat list \<Rightarrow> socket_addr list \<Rightarrow> nat list" where
  "untried_healthy peers healthy tried =
     filter (\<lambda>i. i < length peers \<and> pr_addr (peers ! i) \<notin> set tried) healthy"

definition pin_is_valid :: "('cert, 'sk) upstream_rt \<Rightarrow> nat \<Rightarrow> bool \<Rightarrow> socket_addr list \<Rightarrow> bool" where
  "pin_is_valid u idx healthy tried =
     (idx < length (peers_of u) \<and> healthy \<and> pr_addr (peers_of u ! idx) \<notin> set tried)"

definition resize :: "int list \<Rightarrow> nat \<Rightarrow> int list" where
  "resize xs n = take n xs @ replicate (n - length xs) 0"

definition write_back :: "int list \<Rightarrow> nat list \<Rightarrow> int list \<Rightarrow> int list" where
  "write_back cur healthy sub =
     foldl (\<lambda>c (j, i). c[i := sub ! j]) cur (List.enumerate 0 healthy)"

definition swrr_pick :: "peer list \<Rightarrow> int list \<Rightarrow> nat list \<Rightarrow> (nat option \<times> int list) rust" where
  "swrr_pick peers swrr healthy =
     (if healthy = [] then Return (None, swrr)
      else
        let cur = (if length swrr \<noteq> length peers then resize swrr (length peers) else swrr) in
        if \<not> list_all (\<lambda>i. i < length peers) healthy then Panic
        else
          rust_map (\<lambda>(k, sub). (Some (healthy ! k), write_back cur healthy sub))
            (swrr_next (map (\<lambda>i. pr_weight (peers ! i)) healthy) (map (\<lambda>i. cur ! i) healthy)))"

definition choose_peer ::
  "health_registry \<Rightarrow> ('cert, 'sk) upstream_rt \<Rightarrow> rstr \<Rightarrow> nat list \<Rightarrow> (nat option \<times> int list) rust" where
  "choose_peer h u client candidates =
     (case up_kind (ur_up u) of
        Swrr \<Rightarrow> swrr_pick (peers_of u) (ur_swrr u) candidates
      | IpHash \<Rightarrow> Return (ip_hash_pick client candidates, ur_swrr u)
      | LeastConn \<Rightarrow>
          rust_map (\<lambda>c. (c, ur_swrr u))
            (least_conn_pick (in_flights h (up_name (ur_up u)) (map pr_addr (peers_of u)))
               (map pr_weight (peers_of u)) candidates))"

definition default_pick ::
  "(nat \<Rightarrow> u64) \<Rightarrow> health_registry \<Rightarrow> ('cert, 'sk) upstream_rt \<Rightarrow> 'g session
   \<Rightarrow> (health_registry \<times> ('cert, 'sk) upstream_rt \<times> 'g session \<times> pick) rust" where
  "default_pick now h u s =
     (let name = up_name (ur_up u);
          healthy = healthy_indices h name (length (peers_of u)) (now 1);
          candidates = untried_healthy (peers_of u) healthy (rc_tried (ss_ctx s))
      in if candidates = [] then Return (h, u, s, PickNone)
         else rust_map (\<lambda>(chosen, swrr).
                case chosen of
                  Some i \<Rightarrow> (inc_in_flight h name (pr_addr (peers_of u ! i)), u\<lparr>ur_swrr := swrr\<rparr>, s, PickPeer i)
                | None \<Rightarrow> (h, u\<lparr>ur_swrr := swrr\<rparr>, s, PickNone))
              (choose_peer h u (client_ip (ss_ctx s)) candidates))"

definition pick_peer ::
  "'g wasm_env \<Rightarrow> (nat \<Rightarrow> u64) \<Rightarrow> health_registry \<Rightarrow> ('cert, 'sk) upstream_rt \<Rightarrow> 'g session
   \<Rightarrow> (health_registry \<times> ('cert, 'sk) upstream_rt \<times> 'g session \<times> pick) rust" where
  "pick_peer E now h u s =
     (case run_phase E Balancer_Phase s of
        (s1, Deny c) \<Rightarrow> Return (h, u, s1, PickDeny c)
      | (s1, _) \<Rightarrow>
          (case rc_peer_index (ss_ctx s1) of
             None \<Rightarrow> default_pick now h u s1
           | Some i \<Rightarrow>
               let idx = unat i; name = up_name (ur_up u) in
               if pin_is_valid u idx (is_healthy h name idx (now 0)) (rc_tried (ss_ctx s1))
               then Return (inc_in_flight h name (pr_addr (peers_of u ! idx)), u, s1, PickPeer idx)
               else default_pick now h u (s1\<lparr>ss_ctx := (ss_ctx s1)\<lparr>rc_peer_index := None\<rparr>\<rparr>)))"

definition release_peer :: "health_registry \<Rightarrow> ('cert, 'sk) upstream_rt \<Rightarrow> nat \<Rightarrow> health_registry" where
  "release_peer h u idx =
     (if idx < length (peers_of u) then dec_in_flight h (up_name (ur_up u)) (pr_addr (peers_of u ! idx)) else h)"

section \<open>Lemmas\<close>

lemma length_write_back [simp]: "length (write_back cur healthy sub) = length cur"
proof -
  have "length (foldl (\<lambda>c (j, i). c[i := sub ! j]) c xs) = length c" for c :: "int list" and xs
    by (induction xs arbitrary: c) auto
  then show ?thesis by (simp add: write_back_def)
qed

lemma length_resize [simp]: "length (resize xs n) = n"
  by (simp add: resize_def)

lemma swrr_pick_total:
  assumes "\<forall>i \<in> set cs. i < length peers" "cs \<noteq> []"
  shows "\<exists>i \<in> set cs. \<exists>swrr'. swrr_pick peers swrr cs = Return (Some i, swrr') \<and> length swrr' = length peers"
proof -
  let ?cur = "if length swrr \<noteq> length peers then resize swrr (length peers) else swrr"
  let ?ws = "map (\<lambda>i. pr_weight (peers ! i)) cs" and ?sub = "map (\<lambda>i. ?cur ! i) cs"
  obtain k sub' where n: "swrr_next ?ws ?sub = Return (k, sub')"
    using swrr_next_total [of ?ws ?sub] assms(2) by auto
  have "k < length cs" using swrr_next_Return(3) [OF n] by simp
  then have "cs ! k \<in> set cs" by simp
  moreover have "swrr_pick peers swrr cs = Return (Some (cs ! k), write_back ?cur cs sub')"
    using assms n by (simp add: swrr_pick_def Let_def list_all_iff)
  moreover have "length (write_back ?cur cs sub') = length peers" by simp
  ultimately show ?thesis by blast
qed

text \<open>The round-robin over a subset is a chooser too.\<close>

interpretation swrr: chooser "\<lambda>(peers, cur) cs. rust_map fst (swrr_pick peers cur cs)"
  "\<lambda>(peers, cur) cs. \<forall>i \<in> set cs. i < length peers"
proof (unfold_locales, goal_cases)
  case (1 c)
  show ?case by (simp add: swrr_pick_def split: prod.split)
next
  case (2 c cs)
  then show ?case using swrr_pick_total [of cs "fst c" "snd c"] by (auto split: prod.splits)
qed

definition weighted :: "('cert, 'sk) upstream_rt \<Rightarrow> bool" where
  "weighted u \<longleftrightarrow> (\<forall>p \<in> set (peers_of u). 0 < pr_weight p)"

lemma length_in_flights [simp]: "length (in_flights h n as) = length as"
  by (simp add: in_flights_def split: option.splits)

lemma choose_peer_total:
  assumes "weighted u" "\<forall>i \<in> set cs. i < length (peers_of u)" "cs \<noteq> []"
  shows "\<exists>i \<in> set cs. \<exists>swrr'. choose_peer h u client cs = Return (Some i, swrr')"
proof (cases "up_kind (ur_up u)")
  case Swrr
  then show ?thesis using swrr_pick_total [OF assms(2,3), of "ur_swrr u"] by (auto simp: choose_peer_def)
next
  case IpHash
  then show ?thesis
    using ip_hash.pick_total [of cs client] assms(3) by (auto simp: choose_peer_def)
next
  case LeastConn
  have "0 < pr_weight (peers_of u ! i)" if "i \<in> set cs" for i
    using that assms(1,2) nth_mem unfolding weighted_def by blast
  then have "indexed (in_flights h (up_name (ur_up u)) (map pr_addr (peers_of u))) (map pr_weight (peers_of u)) cs"
    using assms(2) by (auto simp: indexed_def unat_gt_0 word_gt_0)
  from least_conn_pick_spec [OF this assms(3)] show ?thesis by (auto simp: choose_peer_def LeastConn)
qed

abbreviation usable :: "health_registry \<Rightarrow> ('cert, 'sk) upstream_rt \<Rightarrow> socket_addr list \<Rightarrow> u64 \<Rightarrow> nat \<Rightarrow> bool" where
  "usable h u tried t i \<equiv>
     i < length (peers_of u) \<and> is_healthy h (up_name (ur_up u)) i t \<and> pr_addr (peers_of u ! i) \<notin> set tried"

lemma in_untried_healthy:
  "i \<in> set (untried_healthy (peers_of u) (healthy_indices h (up_name (ur_up u)) (length (peers_of u)) t) tried)
   \<longleftrightarrow> usable h u tried t i"
  by (auto simp: untried_healthy_def healthy_indices_is_healthy)

lemma default_pick_spec:
  assumes "weighted u"
  shows "(\<exists>i swrr'. usable h u (rc_tried (ss_ctx s)) (now 1) i
            \<and> default_pick now h u s =
                Return (inc_in_flight h (up_name (ur_up u)) (pr_addr (peers_of u ! i)), u\<lparr>ur_swrr := swrr'\<rparr>, s, PickPeer i))
       \<or> (\<forall>i. \<not> usable h u (rc_tried (ss_ctx s)) (now 1) i) \<and> default_pick now h u s = Return (h, u, s, PickNone)"
proof -
  let ?cs = "untried_healthy (peers_of u)
     (healthy_indices h (up_name (ur_up u)) (length (peers_of u)) (now 1)) (rc_tried (ss_ctx s))"
  have mem: "i \<in> set ?cs \<longleftrightarrow> usable h u (rc_tried (ss_ctx s)) (now 1) i" for i by (rule in_untried_healthy)
  show ?thesis
  proof (cases "?cs = []")
    case True
    then have "default_pick now h u s = Return (h, u, s, PickNone)" by (simp add: default_pick_def Let_def)
    moreover have "\<not> usable h u (rc_tried (ss_ctx s)) (now 1) i" for i using mem [of i] True by simp
    ultimately show ?thesis by blast
  next
    case False
    have "\<forall>i \<in> set ?cs. i < length (peers_of u)" using mem by blast
    from choose_peer_total [OF assms this False, of h "client_ip (ss_ctx s)"]
    obtain i swrr' where i: "i \<in> set ?cs"
      and c: "choose_peer h u (client_ip (ss_ctx s)) ?cs = Return (Some i, swrr')" by blast
    have "default_pick now h u s =
      Return (inc_in_flight h (up_name (ur_up u)) (pr_addr (peers_of u ! i)), u\<lparr>ur_swrr := swrr'\<rparr>, s, PickPeer i)"
      using False c by (simp add: default_pick_def Let_def)
    then show ?thesis using i mem [of i] by blast
  qed
qed

lemma pick_peer_cases:
  assumes "run_phase E Balancer_Phase s = (s1, d)"
  shows "(\<exists>k. d = Deny k)
    \<or> (\<forall>k. d \<noteq> Deny k) \<and> (\<exists>i. rc_peer_index (ss_ctx s1) = Some i
        \<and> pin_is_valid u (unat i) (is_healthy h (up_name (ur_up u)) (unat i) (now 0)) (rc_tried (ss_ctx s1)))
    \<or> pick_peer E now h u s = default_pick now h u s1
    \<or> pick_peer E now h u s = default_pick now h u (s1\<lparr>ss_ctx := (ss_ctx s1)\<lparr>rc_peer_index := None\<rparr>\<rparr>)"
proof (cases "rc_peer_index (ss_ctx s1)")
  case None
  then show ?thesis by (cases d) (simp_all add: pick_peer_def assms)
next
  case (Some i)
  then show ?thesis by (cases d) (auto simp: pick_peer_def assms Let_def)
qed

lemma pick_peer_total:
  assumes "weighted u" and "sess_inv s"
  shows "\<exists>h' u' s' p. pick_peer E now h u s = Return (h', u', s', p)
    \<and> sess_inv s' \<and> ur_up u' = ur_up u \<and> frozen (ss_ctx s') = frozen (ss_ctx s) \<and> ss_peers s' = ss_peers s
    \<and> (case p of
          PickPeer i \<Rightarrow>
            i < length (peers_of u) \<and> pr_addr (peers_of u ! i) \<notin> set (rc_tried (ss_ctx s))
            \<and> (\<exists>k < 2. is_healthy h (up_name (ur_up u)) i (now k))
            \<and> h' = inc_in_flight h (up_name (ur_up u)) (pr_addr (peers_of u ! i))
        | PickDeny c \<Rightarrow> snd (run_phase E Balancer_Phase s) = Deny c \<and> h' = h
        | PickNone \<Rightarrow> h' = h \<and> (\<forall>i < length (peers_of u).
            pr_addr (peers_of u ! i) \<in> set (rc_tried (ss_ctx s)) \<or> \<not> is_healthy h (up_name (ur_up u)) i (now 1)))"
proof -
  obtain s1 d where r: "run_phase E Balancer_Phase s = (s1, d)" by fastforce
  have inv: "sess_inv s1" and c: "sess_confined s s1" using run_phase_ok [OF r assms(2)] by auto
  have fr: "frozen (ss_ctx s1) = frozen (ss_ctx s)" "ss_peers s1 = ss_peers s"
    using c by (auto simp: sess_confined_def)
  then have tr: "rc_tried (ss_ctx s1) = rc_tried (ss_ctx s)" by (simp add: frozen_def)
  let ?s2 = "s1\<lparr>ss_ctx := (ss_ctx s1)\<lparr>rc_peer_index := None\<rparr>\<rparr>"
  have s2: "sess_inv ?s2" "frozen (ss_ctx ?s2) = frozen (ss_ctx s)" "rc_tried (ss_ctx ?s2) = rc_tried (ss_ctx s)"
    using inv fr tr by (simp_all add: frozen_def)
  consider (deny) k where "d = Deny k" | (pin) i where "\<forall>k. d \<noteq> Deny k" "rc_peer_index (ss_ctx s1) = Some i"
      "pin_is_valid u (unat i) (is_healthy h (up_name (ur_up u)) (unat i) (now 0)) (rc_tried (ss_ctx s1))"
    | (dflt) s3 where "pick_peer E now h u s = default_pick now h u s3" "s3 = s1 \<or> s3 = ?s2"
    using pick_peer_cases [OF r, of u h now] by blast
  then show ?thesis
  proof cases
    case deny
    then show ?thesis using r inv fr by (simp add: pick_peer_def)
  next
    case pin
    then have "pick_peer E now h u s =
        Return (inc_in_flight h (up_name (ur_up u)) (pr_addr (peers_of u ! unat i)), u, s1, PickPeer (unat i))"
      by (cases d) (simp_all add: pick_peer_def r Let_def)
    then show ?thesis
      using pin(3) inv fr tr by (auto simp: pin_is_valid_def intro: exI [of _ "0 :: nat"])
  next
    case dflt
    have s3: "sess_inv s3" "frozen (ss_ctx s3) = frozen (ss_ctx s)" "ss_peers s3 = ss_peers s"
      "rc_tried (ss_ctx s3) = rc_tried (ss_ctx s)"
      using dflt(2) inv fr tr s2 by auto
    from default_pick_spec [OF assms(1), where h = h and s = s3 and now = now] show ?thesis
      unfolding dflt(1) s3(4)
    proof (elim disjE exE conjE, goal_cases)
      case (1 i swrr')
      then show ?case using s3 by (auto intro: exI [of _ "1 :: nat"])
    next
      case 2
      then show ?case using s3 by auto
    qed
  qed
qed

section \<open>Properties\<close>

text \<open>
  C24: peer selection is sound and complete. With non-zero weights, whatever the plugins do,
  \<open>pick_peer\<close> never panics. A picked peer is in range, was healthy at a clock reading of this call
  and has not been tried by the request, and exactly its in-flight gauge goes up; \<open>None\<close> is returned
  only when no healthy untried peer exists; a denial is the balancer phase's. In every case the
  upstream snapshot and the request facts a plugin may not write are unchanged.
\<close>

theorem pick_peer_sound:
  assumes "weighted u" and "sess_inv s"
  shows "\<exists>h' u' s' p. pick_peer E now h u s = Return (h', u', s', p)
    \<and> sess_inv s' \<and> ur_up u' = ur_up u \<and> frozen (ss_ctx s') = frozen (ss_ctx s) \<and> ss_peers s' = ss_peers s
    \<and> (case p of
          PickPeer i \<Rightarrow>
            i < length (peers_of u) \<and> pr_addr (peers_of u ! i) \<notin> set (rc_tried (ss_ctx s))
            \<and> (\<exists>k < 2. is_healthy h (up_name (ur_up u)) i (now k))
            \<and> h' = inc_in_flight h (up_name (ur_up u)) (pr_addr (peers_of u ! i))
        | PickDeny c \<Rightarrow> snd (run_phase E Balancer_Phase s) = Deny c \<and> h' = h
        | PickNone \<Rightarrow> h' = h \<and> (\<forall>i < length (peers_of u).
            pr_addr (peers_of u ! i) \<in> set (rc_tried (ss_ctx s)) \<or> \<not> is_healthy h (up_name (ur_up u)) i (now 1)))"
  using pick_peer_total [OF assms, of E now h] .

definition sample_upstream :: "balancer_kind \<Rightarrow> (nat, nat) upstream_rt" where
  "sample_upstream k = \<lparr>ur_up = \<lparr>up_name = ''u'', up_kind = k, up_retries = 1, up_retry_on_timeout = False,
     up_connect_timeout = 5, up_pool_idle_timeout = 5,
     up_peers = [\<lparr>pr_addr = sample_addr 1, pr_weight = 1\<rparr>, \<lparr>pr_addr = sample_addr 2, pr_weight = 1\<rparr>],
     up_tls = None, up_health = health_config_default\<rparr>, ur_swrr = []\<rparr>"

theorem pick_peer_sound_witness:
  "let u = sample_upstream Swrr;
       s = session_new [] (req_ctx_empty\<lparr>rc_tried := [sample_addr 1]\<rparr>) [] :: unit session in
   weighted u \<and> sess_inv s \<and> (\<exists>h' u' s'. pick_peer sample_env (\<lambda>_. 0) health_new u s = Return (h', u', s', PickPeer 1))"
proof -
  let ?u = "sample_upstream Swrr"
  let ?s = "session_new [] (req_ctx_empty\<lparr>rc_tried := [sample_addr 1]\<rparr>) [] :: unit session"
  have w: "weighted ?u" by (simp add: weighted_def sample_upstream_def)
  have i: "sess_inv ?s" by (simp add: sess_inv_new)
  have run: "run_phase sample_env Balancer_Phase ?s = (?s, Declined)" by (simp add: run_phase_def session_new_def)
  have healthy: "is_healthy health_new n k t" for n k t
    by (simp add: is_healthy_def slot_lookup_def health_new_def)
  have tried: "rc_tried (ss_ctx ?s) = [sample_addr 1]" by (simp add: session_new_def)
  from pick_peer_sound [OF w i, of sample_env "\<lambda>_. 0" health_new] obtain h' u' s' p
    where p: "pick_peer sample_env (\<lambda>_. 0) health_new ?u ?s = Return (h', u', s', p)"
      and c: "case p of
          PickPeer i \<Rightarrow> i < length (peers_of ?u) \<and> pr_addr (peers_of ?u ! i) \<notin> set (rc_tried (ss_ctx ?s))
        | PickDeny c \<Rightarrow> snd (run_phase sample_env Balancer_Phase ?s) = Deny c
        | PickNone \<Rightarrow> \<forall>i < length (peers_of ?u). pr_addr (peers_of ?u ! i) \<in> set (rc_tried (ss_ctx ?s))
            \<or> \<not> is_healthy health_new (up_name (ur_up ?u)) i 0"
    by (fastforce split: pick.splits)
  have "p = PickPeer 1"
    using c unfolding run tried
    by (auto simp: sample_upstream_def healthy less_Suc_eq split: pick.splits) 
  then show ?thesis using p w i by (auto simp: Let_def)
qed

end
