(* ===== verification/Respond.thy ===== *)
theory Respond
  imports Session Forward
begin

text \<open>
  Locally produced responses: the helpers of \<open>crates/openrusty-server/src/pipeline/mod.rs\<close> and the
  short-circuit responses of \<open>resp_shortcut.rs\<close>. A response builder is an optional header map,
  \<open>None\<close> once a step of it failed.
\<close>

record 'm response =
  rs_status :: u16
  rs_headers :: 'm
  rs_body :: rstr

definition builder :: "('m, 'v) http_lib \<Rightarrow> u16 \<Rightarrow> 'm option" where
  "builder H status = (if hl_status_ok H status then Some (hl_empty H) else None)"

definition builder_header :: "('m, 'v) http_lib \<Rightarrow> rstr \<Rightarrow> rstr \<Rightarrow> 'm option \<Rightarrow> 'm option" where
  "builder_header H name value b =
     (case (b, hl_name H name, hl_value H value) of
        (Some m, Some n, Inr v) \<Rightarrow> Some (hl_append H m n v) | _ \<Rightarrow> None)"

definition empty_response :: "('m, 'v) http_lib \<Rightarrow> u16 \<Rightarrow> 'm response" where
  "empty_response H status =
     (case builder H status of
        Some m \<Rightarrow> \<lparr>rs_status = status, rs_headers = m, rs_body = []\<rparr>
      | None \<Rightarrow> \<lparr>rs_status = 200, rs_headers = hl_empty H, rs_body = []\<rparr>)"

definition text_response :: "('m, 'v) http_lib \<Rightarrow> u16 \<Rightarrow> rstr \<Rightarrow> 'm response" where
  "text_response H status msg =
     (case builder_header H ''content-type'' ''text/plain; charset=utf-8'' (builder H status) of
        Some m \<Rightarrow> \<lparr>rs_status = status, rs_headers = m, rs_body = msg\<rparr>
      | None \<Rightarrow> empty_response H 500)"

definition newline :: rstr where "newline = [byte 10]"

definition status_line :: "u16 \<Rightarrow> rstr" where
  "status_line status = dec_digits (unat status) @ newline"

section \<open>Short-circuit responses (resp_shortcut.rs)\<close>

definition carried_body :: "'g session \<Rightarrow> rstr option" where
  "carried_body s = (case ss_resp_body s of Some b \<Rightarrow> if b = [] then None else Some b | None \<Rightarrow> None)"

fun copy_plugin_headers :: "('m, 'v) http_lib \<Rightarrow> header list \<Rightarrow> 'm \<Rightarrow> 'm" where
  "copy_plugin_headers H [] m = m"
| "copy_plugin_headers H ((name, value) # hs) m =
     (if eq_ignore_ascii_case name ''content-length'' then copy_plugin_headers H hs m
      else case (hl_name H name, hl_value H value) of
             (Some n, Inr v) \<Rightarrow> copy_plugin_headers H hs (hl_append H m n v)
           | _ \<Rightarrow> copy_plugin_headers H hs m)"

definition with_plugin_headers :: "('m, 'v) http_lib \<Rightarrow> 'm option \<Rightarrow> 'g session \<Rightarrow> bool \<Rightarrow> 'm option" where
  "with_plugin_headers H b s default_content_type =
     (let has_content_type = list_ex (\<lambda>(n, _). eq_ignore_ascii_case n ''content-type'') (ss_resp_headers s);
          b = map_option (copy_plugin_headers H (ss_resp_headers s)) b
      in if default_content_type \<and> \<not> has_content_type
         then builder_header H ''content-type'' ''text/plain; charset=utf-8'' b else b)"

definition body_response :: "('m, 'v) http_lib \<Rightarrow> 'g session \<Rightarrow> u16 \<Rightarrow> rstr \<Rightarrow> 'm response" where
  "body_response H s status body =
     (case with_plugin_headers H (builder H status) s True of
        Some m \<Rightarrow> \<lparr>rs_status = status, rs_headers = m, rs_body = body\<rparr>
      | None \<Rightarrow> empty_response H 500)"

definition done_response :: "('m, 'v) http_lib \<Rightarrow> 'g session \<Rightarrow> 'm response" where
  "done_response H s =
     (case carried_body s of
        Some body \<Rightarrow> body_response H s 200 body
      | None \<Rightarrow>
          (case with_plugin_headers H (builder H 204) s False of
             Some m \<Rightarrow> \<lparr>rs_status = 204, rs_headers = m, rs_body = []\<rparr>
           | None \<Rightarrow> empty_response H 204))"

definition deny_response :: "('m, 'v) http_lib \<Rightarrow> 'g session \<Rightarrow> u16 \<Rightarrow> 'm response" where
  "deny_response H s status =
     body_response H s status (case carried_body s of Some b \<Rightarrow> b | None \<Rightarrow> status_line status)"

definition log_status :: "'g session \<Rightarrow> u16 \<Rightarrow> u16" where
  "log_status s fallback = (if carried_body s \<noteq> None then 200 else fallback)"

section \<open>Lemmas\<close>

lemma done_response_status:
  assumes "hl_status_ok H 200" "hl_status_ok H 204" "hl_name H ''content-type'' = Some ''content-type''"
    "hl_value H ''text/plain; charset=utf-8'' = Inr ct"
  shows "rs_status (done_response H s) = log_status s 204"
  using assms
  by (auto simp: done_response_def log_status_def body_response_def with_plugin_headers_def builder_def
      builder_header_def Let_def split: option.splits)

lemma deny_response_status:
  assumes "hl_status_ok H status" "hl_name H ''content-type'' = Some ''content-type''"
    "hl_value H ''text/plain; charset=utf-8'' = Inr ct"
  shows "rs_status (deny_response H s status) = status"
  using assms
  by (auto simp: deny_response_def body_response_def with_plugin_headers_def builder_def
      builder_header_def Let_def split: option.splits)

lemma text_response_status:
  assumes "hl_status_ok H status" "hl_name H ''content-type'' = Some ''content-type''"
    "hl_value H ''text/plain; charset=utf-8'' = Inr ct"
  shows "rs_status (text_response H status msg) = status \<and> rs_body (text_response H status msg) = msg"
  using assms by (simp add: text_response_def builder_def builder_header_def)

end
