(* ===== verification/BodyFilter.thy ===== *)
theory BodyFilter
  imports Session
begin

text \<open>
  The streaming response body (\<open>crates/openrusty-server/src/body_filter.rs\<close>): every data frame goes
  through the body-filter phase and is passed on unchanged, the log phase runs when the stream ends,
  fails or is dropped. What the upstream stream yields at each poll is an argument; the session
  mutex is never poisoned because running a phase does not panic.
\<close>

section \<open>Records of a request\<close>

datatype attempt_result = RESULT_SUCCESS | RESULT_CONNECT_FAIL | RESULT_TIMEOUT | RESULT_NO_PEER

text \<open>Metrics records and access-log lines, in the order they are written.\<close>

datatype event =
    EvAttempt rstr attempt_result
  | EvPhases "(rstr \<times> u64 \<times> u64) list"
  | EvFinished u16 u32
  | EvStreamFinished u16 rstr u64

definition phase_event :: "(rstr \<times> u64 \<times> u64) list \<Rightarrow> event list" where
  "phase_event stats = (if stats = [] then [] else [EvPhases stats])"

section \<open>FilteredBody\<close>

text \<open>\<open>fb_filtered\<close> lists the body-filter runs (chunk and last flag).\<close>

record 'g filtered_body =
  fb_open :: bool
  fb_session :: "'g session"
  fb_status :: u16
  fb_peer :: rstr
  fb_bytes :: u64
  fb_last_sent :: bool
  fb_log_done :: bool
  fb_metrics :: bool
  fb_events :: "event list"
  fb_filtered :: "(rstr \<times> bool) list"

definition filtered_body_new :: "'g session \<Rightarrow> u16 \<Rightarrow> rstr \<Rightarrow> bool \<Rightarrow> event list \<Rightarrow> 'g filtered_body" where
  "filtered_body_new s status peer metrics ev = \<lparr>fb_open = True, fb_session = s, fb_status = status,
     fb_peer = peer, fb_bytes = 0, fb_last_sent = False, fb_log_done = False, fb_metrics = metrics,
     fb_events = ev, fb_filtered = []\<rparr>"

definition run_filter :: "'g wasm_env \<Rightarrow> rstr \<Rightarrow> bool \<Rightarrow> 'g filtered_body \<Rightarrow> 'g filtered_body" where
  "run_filter W chunk final b =
     b\<lparr>fb_session := fst (run_phase W BodyFilter (set_body_chunk chunk final (fb_session b))),
       fb_filtered := fb_filtered b @ [(chunk, final)]\<rparr>"

definition run_log :: "'g wasm_env \<Rightarrow> 'g filtered_body \<Rightarrow> 'g filtered_body" where
  "run_log W b =
     (let s = fst (run_phase W Log_Phase (fb_session b));
          (s', stats) = (if fb_metrics b then take_phase_stats s else (s, []))
      in b\<lparr>fb_session := s',
           fb_events := fb_events b @ phase_event stats @ [EvStreamFinished (fb_status b) (fb_peer b) (fb_bytes b)]\<rparr>)"

text \<open>The two guarded steps shared by end, error and drop.\<close>

definition finalize :: "'g wasm_env \<Rightarrow> 'g filtered_body \<Rightarrow> 'g filtered_body" where
  "finalize W b =
     (let b1 = (if fb_last_sent b then b else run_filter W [] True (b\<lparr>fb_last_sent := True\<rparr>))
      in if fb_log_done b1 then b1 else run_log W (b1\<lparr>fb_log_done := True\<rparr>))"

text \<open>What the upstream stream yields; a frame carries data or trailers.\<close>

datatype inner_poll = InnerPending | InnerFrame "rstr option" | InnerError | InnerEnd

datatype poll_result = PollPending | PollFrame "rstr option" | PollError | PollEnd

fun poll_frame :: "'g wasm_env \<Rightarrow> 'g filtered_body \<Rightarrow> inner_poll \<Rightarrow> 'g filtered_body \<times> poll_result" where
  "poll_frame W b p =
     (if \<not> fb_open b then (b, PollEnd)
      else case p of
             InnerPending \<Rightarrow> (b, PollPending)
           | InnerFrame None \<Rightarrow> (b, PollFrame None)
           | InnerFrame (Some data) \<Rightarrow>
               (run_filter W data False (b\<lparr>fb_bytes := fb_bytes b + of_nat (length data)\<rparr>), PollFrame (Some data))
           | InnerError \<Rightarrow> (finalize W (b\<lparr>fb_open := False\<rparr>), PollError)
           | InnerEnd \<Rightarrow> (finalize W (b\<lparr>fb_open := False\<rparr>), PollEnd))"

declare poll_frame.simps [simp del]

definition drop_body :: "'g wasm_env \<Rightarrow> 'g filtered_body \<Rightarrow> 'g filtered_body" where
  "drop_body W b = finalize W b"

section \<open>Lemmas\<close>

fun polls :: "'g wasm_env \<Rightarrow> 'g filtered_body \<Rightarrow> inner_poll list \<Rightarrow> 'g filtered_body \<times> poll_result list" where
  "polls W b [] = (b, [])"
| "polls W b (p # ps) =
     (case poll_frame W b p of (b', r) \<Rightarrow> case polls W b' ps of (b'', rs) \<Rightarrow> (b'', r # rs))"

text \<open>The part of a poll sequence before the stream ended, and its data.\<close>

fun before_end :: "inner_poll list \<Rightarrow> inner_poll list" where
  "before_end [] = []"
| "before_end (p # ps) = (if p = InnerError \<or> p = InnerEnd then [] else p # before_end ps)"

fun frame_data :: "inner_poll list \<Rightarrow> rstr list" where
  "frame_data [] = []"
| "frame_data (InnerFrame (Some d) # ps) = d # frame_data ps"
| "frame_data (_ # ps) = frame_data ps"

definition log_lines :: "event list \<Rightarrow> event list" where
  "log_lines ev = filter (\<lambda>e. case e of EvFinished _ _ \<Rightarrow> True | EvStreamFinished _ _ _ \<Rightarrow> True | _ \<Rightarrow> False) ev"

lemma log_lines_simps [simp]:
  "log_lines [] = []" "log_lines (a @ b) = log_lines a @ log_lines b" "log_lines (phase_event st) = []"
  "log_lines [EvStreamFinished c p n] = [EvStreamFinished c p n]" "log_lines [EvFinished c k] = [EvFinished c k]"
  "log_lines [EvAttempt u r] = []"
  by (simp_all add: log_lines_def phase_event_def)

lemma run_filter_frame [simp]:
  "fb_open (run_filter W c l b) = fb_open b" "fb_last_sent (run_filter W c l b) = fb_last_sent b"
  "fb_log_done (run_filter W c l b) = fb_log_done b" "fb_events (run_filter W c l b) = fb_events b"
  "fb_bytes (run_filter W c l b) = fb_bytes b" "fb_status (run_filter W c l b) = fb_status b"
  "fb_peer (run_filter W c l b) = fb_peer b" "fb_filtered (run_filter W c l b) = fb_filtered b @ [(c, l)]"
  by (simp_all add: run_filter_def)

lemma run_log_frame [simp]:
  "fb_open (run_log W b) = fb_open b" "fb_last_sent (run_log W b) = fb_last_sent b"
  "fb_log_done (run_log W b) = fb_log_done b" "fb_filtered (run_log W b) = fb_filtered b"
  "fb_bytes (run_log W b) = fb_bytes b" "fb_status (run_log W b) = fb_status b" "fb_peer (run_log W b) = fb_peer b"
  "log_lines (fb_events (run_log W b))
     = log_lines (fb_events b) @ [EvStreamFinished (fb_status b) (fb_peer b) (fb_bytes b)]"
  by (simp_all add: run_log_def Let_def split: prod.splits)

text \<open>Two phases of a body: open with nothing finalised, or finalised.\<close>

definition body_fresh :: "'g filtered_body \<Rightarrow> bool" where
  "body_fresh b \<longleftrightarrow> fb_open b \<and> \<not> fb_last_sent b \<and> \<not> fb_log_done b"

definition body_done :: "'g filtered_body \<Rightarrow> bool" where
  "body_done b \<longleftrightarrow> \<not> fb_open b \<and> fb_last_sent b \<and> fb_log_done b"

lemma finalize_done [simp]: "fb_last_sent b \<Longrightarrow> fb_log_done b \<Longrightarrow> finalize W b = b"
  by (simp add: finalize_def)

lemma finalize_fresh:
  assumes "\<not> fb_last_sent b" "\<not> fb_log_done b"
  shows "fb_last_sent (finalize W b)" "fb_log_done (finalize W b)" "fb_open (finalize W b) = fb_open b"
    "fb_filtered (finalize W b) = fb_filtered b @ [([], True)]" "fb_bytes (finalize W b) = fb_bytes b"
    "log_lines (fb_events (finalize W b))
       = log_lines (fb_events b) @ [EvStreamFinished (fb_status b) (fb_peer b) (fb_bytes b)]"
  using assms by (simp_all add: finalize_def Let_def)

lemma polls_done:
  assumes "body_done b"
  shows "polls W b ps = (b, replicate (length ps) PollEnd)"
  using assms by (induction ps) (simp_all add: poll_frame.simps body_done_def)

lemma polls_spec:
  assumes "body_fresh b"
  shows "case polls W b ps of (b', rs) \<Rightarrow>
    let n = fb_bytes b + of_nat (sum_list (map length (frame_data (before_end ps))));
        f = fb_filtered b @ map (\<lambda>d. (d, False)) (frame_data (before_end ps))
    in if before_end ps = ps
       then body_fresh b' \<and> fb_filtered b' = f \<and> fb_bytes b' = n \<and> log_lines (fb_events b') = log_lines (fb_events b)
            \<and> fb_status b' = fb_status b \<and> fb_peer b' = fb_peer b
       else body_done b' \<and> fb_filtered b' = f @ [([], True)]
            \<and> log_lines (fb_events b') = log_lines (fb_events b) @ [EvStreamFinished (fb_status b) (fb_peer b) n]"
  using assms
proof (induction ps arbitrary: b)
  case (Cons p ps)
  have open_b: "fb_open b" using Cons.prems by (simp add: body_fresh_def)
  show ?case
  proof (cases "p = InnerError \<or> p = InnerEnd")
    case True
    let ?b = "finalize W (b\<lparr>fb_open := False\<rparr>)"
    have d: "body_done ?b" and f: "fb_filtered ?b = fb_filtered b @ [([], True)]"
      and e: "log_lines (fb_events ?b) = log_lines (fb_events b) @ [EvStreamFinished (fb_status b) (fb_peer b) (fb_bytes b)]"
      using finalize_fresh [of "b\<lparr>fb_open := False\<rparr>" W] Cons.prems by (auto simp: body_fresh_def body_done_def)
    show ?thesis using True open_b d f e by (auto simp: poll_frame.simps polls_done [OF d] Let_def)
  next
    case False
    define b1 where "b1 = fst (poll_frame W b p)"
    have fresh: "body_fresh b1" and b1: "fb_filtered b1 = fb_filtered b @ map (\<lambda>d. (d, False)) (frame_data [p])"
      "fb_bytes b1 = fb_bytes b + of_nat (sum_list (map length (frame_data [p])))"
      "fb_events b1 = fb_events b" "fb_status b1 = fb_status b" "fb_peer b1 = fb_peer b"
      using False Cons.prems unfolding b1_def
      by (cases p rule: inner_poll.exhaust; force simp: poll_frame.simps body_fresh_def split: option.splits)+
    have fd: "frame_data (p # qs) = frame_data [p] @ frame_data qs" for qs
      using False by (cases p rule: frame_data.cases [of "[p]", case_product inner_poll.exhaust]) auto
    have "polls W b (p # ps) = (fst (polls W b1 ps), snd (poll_frame W b p) # snd (polls W b1 ps))"
      by (simp add: b1_def split: prod.splits)
    then show ?thesis
      using Cons.IH [OF fresh] False b1 fd [of "before_end ps"]
      by (auto simp: Let_def add.assoc split: prod.splits if_splits)
  qed
qed simp

fun yielded :: "poll_result list \<Rightarrow> rstr list" where
  "yielded [] = []"
| "yielded (PollFrame (Some d) # rs) = d # yielded rs"
| "yielded (_ # rs) = yielded rs"

lemma yielded_replicate_end [simp]: "yielded (replicate n PollEnd) = []"
  by (induction n) auto

lemma polls_yield:
  "body_fresh b \<Longrightarrow> yielded (snd (polls W b ps)) = frame_data (before_end ps)"
proof (induction ps arbitrary: b)
  case (Cons p ps)
  show ?case
  proof (cases "p = InnerError \<or> p = InnerEnd")
    case True
    have "body_done (finalize W (b\<lparr>fb_open := False\<rparr>))"
      using finalize_fresh [of "b\<lparr>fb_open := False\<rparr>" W] Cons.prems by (auto simp: body_fresh_def body_done_def)
    then show ?thesis using True Cons.prems by (auto simp: poll_frame.simps polls_done body_fresh_def)
  next
    case False
    have "body_fresh (fst (poll_frame W b p))"
      using False Cons.prems by (cases p) (auto simp: poll_frame.simps body_fresh_def split: option.splits)
    from Cons.IH [OF this] show ?thesis
      using False Cons.prems by (cases p) (auto simp: poll_frame.simps body_fresh_def split: option.splits prod.splits)
  qed
qed simp

section \<open>Properties\<close>

text \<open>
  C25: a streamed response is logged exactly once. However the body is polled, and whether the
  stream ends, fails or is dropped in the middle: exactly one access-log line is written, with the
  bytes seen; the body filter saw every data frame in order and then one final empty call; the
  client got exactly those frames; and dropping the body again changes nothing.
\<close>

theorem body_logged_once:
  "let (b, rs) = polls W (filtered_body_new s status peer metrics ev) ps;
       d = drop_body W b; data = frame_data (before_end ps)
   in log_lines (fb_events d) = log_lines ev @ [EvStreamFinished status peer (of_nat (sum_list (map length data)))]
      \<and> fb_filtered d = map (\<lambda>x. (x, False)) data @ [([], True)]
      \<and> yielded rs = data
      \<and> drop_body W d = d"
proof -
  let ?b0 = "filtered_body_new s status peer metrics ev"
  have fresh: "body_fresh ?b0" by (simp add: body_fresh_def filtered_body_new_def)
  obtain b rs where p: "polls W ?b0 ps = (b, rs)" by fastforce
  have init: "fb_filtered ?b0 = []" "fb_bytes ?b0 = 0" "fb_events ?b0 = ev" "fb_status ?b0 = status" "fb_peer ?b0 = peer"
    by (simp_all add: filtered_body_new_def)
  have y: "yielded rs = frame_data (before_end ps)" using polls_yield [OF fresh, of W ps] p by simp
  show ?thesis
  proof (cases "before_end ps = ps")
    case True
    then show ?thesis
      using polls_spec [OF fresh, of ps W] p y finalize_fresh [of b W]
      by (simp add: init drop_body_def body_fresh_def Let_def)
  next
    case False
    then show ?thesis
      using polls_spec [OF fresh, of ps W] p y by (simp add: init drop_body_def body_done_def Let_def)
  qed
qed

end
