(* ===== verification/Pipeline.thy ===== *)
theory Pipeline
  imports Routing PeerPick Respond BodyFilter
begin

text \<open>
  The request lifecycle \<open>handle_request\<close> (\<open>crates/openrusty-server/src/pipeline/mod.rs\<close>): routing,
  plugin phases, the retry loop, the header filter and the hand-over to the streaming body. The
  environment \<open>hr_env\<close> holds the guests, the http crate, the network as each attempt finds it,
  whether the route timeout fires in an attempt, and the clock. What a request does to the world is
  kept in the loop state: health registry, client pool, upstream runtime, session, the records it
  writes (metrics and access log) and the attempts it put on the wire.
\<close>

section \<open>State\<close>

text \<open>A response of an upstream: status, headers, and the body stream.\<close>

record ('m, 'b) upstream_resp =
  us_status :: u16
  us_headers :: 'm
  us_body :: 'b

record ('g, 'm, 'v, 'cert, 'sk, 'b) hr_env =
  en_wasm :: "'g wasm_env"
  en_http :: "('m, 'v) http_lib"
  en_net :: "nat \<Rightarrow> ('m, 'cert, 'sk, ('m, 'b) upstream_resp) net"
  en_timeout :: "nat \<Rightarrow> bool"
  en_now :: "nat \<Rightarrow> nat \<Rightarrow> u64"

record ('g, 'cert, 'sk) lstate =
  ls_health :: health_registry
  ls_pool :: "('cert, 'sk) client_pool"
  ls_up :: "('cert, 'sk) upstream_rt"
  ls_session :: "'g session"
  ls_events :: "event list"
  ls_sent :: "(socket_addr \<times> failure_kind option) list"

definition MAX_BODY :: nat where "MAX_BODY = 16 * 1024 * 1024"

section \<open>Helpers\<close>

definition finish_log :: "'g wasm_env \<Rightarrow> u16 \<Rightarrow> 'g session \<times> event list \<Rightarrow> 'g session \<times> event list" where
  "finish_log W status = (\<lambda>(s, ev).
     let s1 = fst (run_phase W Log_Phase s); (s2, stats) = take_phase_stats s1
     in (s2, ev @ phase_event stats @ [EvFinished status (rc_attempts (ss_ctx s2))]))"

definition finish :: "('g, 'm, 'v, 'cert, 'sk, 'b) hr_env \<Rightarrow> u16 \<Rightarrow> ('g, 'cert, 'sk) lstate \<Rightarrow> ('g, 'cert, 'sk) lstate" where
  "finish E status l =
     (case finish_log (en_wasm E) status (ls_session l, ls_events l) of
        (s, ev) \<Rightarrow> l\<lparr>ls_session := s, ls_events := ev\<rparr>)"

definition may_retry_timeout :: "bool \<Rightarrow> u32 \<Rightarrow> u32 \<Rightarrow> bool" where
  "may_retry_timeout retry_on_timeout attempt attempts = (retry_on_timeout \<and> attempt + 1 < attempts)"

definition route_timeout :: "u64 \<Rightarrow> u64 option" where
  "route_timeout timeout_ms = (if timeout_ms > 0 then Some timeout_ms else None)"

definition make_req_ctx ::
  "rstr \<Rightarrow> rstr \<Rightarrow> rstr \<Rightarrow> rstr \<Rightarrow> socket_addr \<Rightarrow> header list \<Rightarrow> nat option \<times> rstr option \<Rightarrow> req_ctx" where
  "make_req_ctx method path query version client_addr headers routing =
     \<lparr>rc_method = method, rc_path = path, rc_query = query, rc_version = version,
      rc_client_addr = client_addr, rc_headers = headers, rc_route_index = fst routing,
      rc_upstream = snd routing, rc_peer_index = None, rc_attempts = 0, rc_tried = []\<rparr>"

section \<open>The retry loop\<close>

abbreviation on_ctx :: "(req_ctx \<Rightarrow> req_ctx) \<Rightarrow> ('g, 'cert, 'sk) lstate \<Rightarrow> ('g, 'cert, 'sk) lstate" where
  "on_ctx f l \<equiv> l\<lparr>ls_session := (ls_session l)\<lparr>ss_ctx := f (ss_ctx (ls_session l))\<rparr>\<rparr>"

abbreviation up_of :: "('g, 'cert, 'sk) lstate \<Rightarrow> ('cert, 'sk) upstream" where
  "up_of l \<equiv> ur_up (ls_up l)"

abbreviation note_attempt :: "attempt_result \<Rightarrow> ('g, 'cert, 'sk) lstate \<Rightarrow> ('g, 'cert, 'sk) lstate" where
  "note_attempt r l \<equiv> l\<lparr>ls_events := ls_events l @ [EvAttempt (up_name (up_of l)) r]\<rparr>"

datatype ('g, 'm, 'cert, 'sk, 'b) attempt_end =
    Again "('g, 'cert, 'sk) lstate"
  | Answered "('g, 'cert, 'sk) lstate" "('m, 'b) upstream_resp"
  | Returned "('g, 'cert, 'sk) lstate" "'m response"

text \<open>The three outcomes of an attempt that was sent to peer \<open>idx\<close>, as in the \<open>match outcome\<close>.\<close>

definition on_success ::
  "u64 \<Rightarrow> nat \<Rightarrow> ('m, 'b) upstream_resp \<Rightarrow> ('g, 'cert, 'sk) lstate \<Rightarrow> ('g, 'm, 'cert, 'sk, 'b) attempt_end" where
  "on_success now idx r l =
     Answered (note_attempt RESULT_SUCCESS
       (l\<lparr>ls_health := release_peer (record_success (ls_health l) (up_name (up_of l)) idx now) (ls_up l) idx\<rparr>)) r"

definition after_failure :: "u64 \<Rightarrow> nat \<Rightarrow> attempt_result \<Rightarrow> ('g, 'cert, 'sk) lstate \<Rightarrow> ('g, 'cert, 'sk) lstate" where
  "after_failure now idx result l =
     note_attempt result
       (l\<lparr>ls_health := release_peer
            (record_failure (ls_health l) (up_name (up_of l)) idx (up_health (up_of l)) now) (ls_up l) idx\<rparr>)"

definition error_text :: "forward_error \<Rightarrow> rstr" where
  "error_text e = (case e of FwdConnect m \<Rightarrow> ''connect error: '' @ m | FwdSend m \<Rightarrow> ''send error: '' @ m
     | FwdResponse m \<Rightarrow> ''response error: '' @ m)"

definition on_error ::
  "('g, 'm, 'v, 'cert, 'sk, 'b) hr_env \<Rightarrow> rstr \<Rightarrow> u64 \<Rightarrow> nat \<Rightarrow> socket_addr \<Rightarrow> forward_error
   \<Rightarrow> ('g, 'cert, 'sk) lstate \<Rightarrow> ('g, 'm, 'cert, 'sk, 'b) attempt_end" where
  "on_error E method now idx addr e l =
     (let l = after_failure now idx RESULT_CONNECT_FAIL l in
      if may_retry method (failure_kind_of e) then Again (on_ctx (\<lambda>c. mark_tried c addr) l)
      else Returned (finish E 502 l)
             (text_response (en_http E) 502 (''502 upstream error: '' @ error_text e @ newline)))"

definition on_timeout ::
  "('g, 'm, 'v, 'cert, 'sk, 'b) hr_env \<Rightarrow> rstr \<Rightarrow> u64 \<Rightarrow> nat \<Rightarrow> socket_addr \<Rightarrow> u32 \<Rightarrow> u32
   \<Rightarrow> ('g, 'cert, 'sk) lstate \<Rightarrow> ('g, 'm, 'cert, 'sk, 'b) attempt_end" where
  "on_timeout E method now idx addr attempt attempts l =
     (let l = after_failure now idx RESULT_TIMEOUT l in
      if may_retry method KTimeout \<and> may_retry_timeout (up_retry_on_timeout (up_of l)) attempt attempts
      then Again (on_ctx (\<lambda>c. mark_tried c addr) l)
      else Returned (finish E 502 l) (text_response (en_http E) 502 (''502 upstream timeout'' @ newline)))"

definition outcome_kind :: "bool \<Rightarrow> forward_error + 'r \<Rightarrow> failure_kind option" where
  "outcome_kind timed_out r =
     (if timed_out then Some KTimeout else case r of Inl e \<Rightarrow> Some (failure_kind_of e) | Inr _ \<Rightarrow> None)"

definition send_attempt ::
  "('g, 'm, 'v, 'cert, 'sk, 'b) hr_env \<Rightarrow> forward_request \<Rightarrow> u64 option \<Rightarrow> u32 \<Rightarrow> nat \<Rightarrow> nat
   \<Rightarrow> ('g, 'cert, 'sk) lstate \<Rightarrow> ('g, 'm, 'cert, 'sk, 'b) attempt_end rust" where
  "send_attempt E req timeout attempts a idx l =
     (let peer = up_peers (up_of l) ! idx;
          l = on_ctx (\<lambda>c. c\<lparr>rc_peer_index := Some (of_nat idx)\<rparr>) l;
          timed_out = (timeout \<noteq> None \<and> en_timeout E a)
      in rust_map (\<lambda>(pool, r).
           let l = l\<lparr>ls_pool := pool, ls_sent := ls_sent l @ [(pr_addr peer, outcome_kind timed_out r)]\<rparr> in
           if timed_out
           then on_timeout E (fr_method req) (en_now E a 2) idx (pr_addr peer) (of_nat a) attempts l
           else case r of
                  Inr resp \<Rightarrow> on_success (en_now E a 2) idx resp l
                | Inl e \<Rightarrow> on_error E (fr_method req) (en_now E a 2) idx (pr_addr peer) e l)
         (forward_peer (en_http E) (en_net E a) (ls_pool l) (up_of l) peer req))"

definition attempt_once ::
  "('g, 'm, 'v, 'cert, 'sk, 'b) hr_env \<Rightarrow> forward_request \<Rightarrow> u64 option \<Rightarrow> u32 \<Rightarrow> nat
   \<Rightarrow> ('g, 'cert, 'sk) lstate \<Rightarrow> ('g, 'm, 'cert, 'sk, 'b) attempt_end rust" where
  "attempt_once E req timeout attempts a l =
     (let l = on_ctx (\<lambda>c. c\<lparr>rc_attempts := of_nat a + 1, rc_peer_index := None\<rparr>) l in
      case pick_peer (en_wasm E) (en_now E a) (ls_health l) (ls_up l) (ls_session l) of
        Panic \<Rightarrow> Panic
      | Return (h, u, s, p) \<Rightarrow>
          let l = l\<lparr>ls_health := h, ls_up := u, ls_session := s\<rparr> in
          case p of
            PickDeny c \<Rightarrow> Return (Returned (finish E c l) (text_response (en_http E) c (status_line c)))
          | PickNone \<Rightarrow>
              Return (Returned (finish E 502 (note_attempt RESULT_NO_PEER l))
                (text_response (en_http E) 502 (''502 no healthy upstream'' @ newline)))
          | PickPeer idx \<Rightarrow> send_attempt E req timeout attempts a idx l)"

fun attempt_loop ::
  "('g, 'm, 'v, 'cert, 'sk, 'b) hr_env \<Rightarrow> forward_request \<Rightarrow> u64 option \<Rightarrow> u32 \<Rightarrow> nat list
   \<Rightarrow> ('g, 'cert, 'sk) lstate \<Rightarrow> ('g, 'm, 'cert, 'sk, 'b) attempt_end rust" where
  "attempt_loop E req timeout attempts [] l = Return (Again l)"
| "attempt_loop E req timeout attempts (a # as) l =
     (case attempt_once E req timeout attempts a l of
        Return (Again l') \<Rightarrow> attempt_loop E req timeout attempts as l'
      | r \<Rightarrow> r)"

text \<open>\<open>for attempt in 0..attempts\<close> with \<open>attempts = retries + 1\<close> in u32.\<close>

definition run_attempts ::
  "('g, 'm, 'v, 'cert, 'sk, 'b) hr_env \<Rightarrow> forward_request \<Rightarrow> u64 option
   \<Rightarrow> ('g, 'cert, 'sk) lstate \<Rightarrow> ('g, 'm, 'cert, 'sk, 'b) attempt_end rust" where
  "run_attempts E req timeout l =
     (let attempts = up_retries (up_of l) + 1
      in attempt_loop E req timeout attempts [0..<unat attempts] l)"

section \<open>The lifecycle\<close>

record 'v request =
  rq_method :: rstr
  rq_path :: rstr
  rq_query :: "rstr option"
  rq_http2 :: bool
  rq_headers :: "(rstr \<times> 'v) list"
  rq_authority :: "rstr option"
  rq_remote :: socket_addr
  rq_to_bytes :: "nat \<Rightarrow> rstr option"

text \<open>The pinned runtime, the plugin snapshot and the shared state a request starts from.\<close>

record ('cert, 'sk) app_state =
  as_routes :: "route_config list"
  as_upstreams :: "rstr \<rightharpoonup> ('cert, 'sk) upstream_rt"
  as_plugins :: "plugin list"
  as_log_on_no_route :: bool
  as_health :: health_registry
  as_pool :: "('cert, 'sk) client_pool"

text \<open>
  How a request ends: a local response; the hand-over to the WebSocket proxy; or a streamed
  response, whose body then runs the body filter and the log phase.
\<close>

datatype ('g, 'm, 'cert, 'sk, 'b) outcome =
    Local "'m response" "event list"
  | Replied "('g, 'cert, 'sk) lstate" "'m response"
  | Upgraded "('g, 'cert, 'sk) lstate" "u64 option"
  | Streaming "('g, 'cert, 'sk) lstate" u16 'm 'b "'g filtered_body"

fun visible_headers :: "('m, 'v) http_lib \<Rightarrow> (rstr \<times> 'v) list \<Rightarrow> header list" where
  "visible_headers H [] = []"
| "visible_headers H ((k, v) # hs) =
     (case hl_to_str H v of Some s \<Rightarrow> [(k, s)] | None \<Rightarrow> []) @ visible_headers H hs"

definition peer_views :: "health_registry \<Rightarrow> ('cert, 'sk) upstream_rt \<Rightarrow> u64 \<Rightarrow> peer_view list" where
  "peer_views h u now =
     map (\<lambda>(i, p). \<lparr>pv_name = addr_to_string (pr_addr p), pv_addr = addr_to_string (pr_addr p),
                    pv_healthy = is_healthy h (up_name (ur_up u)) i now\<rparr>)
       (List.enumerate 0 (up_peers (ur_up u)))"

text \<open>A phase before proxying: \<open>Some\<close> response when it short-circuits.\<close>

definition gate_phase ::
  "('g, 'm, 'v, 'cert, 'sk, 'b) hr_env \<Rightarrow> phase \<Rightarrow> ('g, 'cert, 'sk) lstate
   \<Rightarrow> ('g, 'cert, 'sk) lstate \<times> 'm response option" where
  "gate_phase E ph l =
     (case run_phase (en_wasm E) ph (ls_session l) of
        (s, Deny c) \<Rightarrow>
          let l = finish E c (l\<lparr>ls_session := s\<rparr>) in (l, Some (deny_response (en_http E) (ls_session l) c))
      | (s, Done) \<Rightarrow>
          let l = finish E (log_status s 204) (l\<lparr>ls_session := s\<rparr>)
          in (l, Some (done_response (en_http E) (ls_session l)))
      | (s, _) \<Rightarrow> (l\<lparr>ls_session := s\<rparr>, None))"

fun gate_phases ::
  "('g, 'm, 'v, 'cert, 'sk, 'b) hr_env \<Rightarrow> phase list \<Rightarrow> ('g, 'cert, 'sk) lstate
   \<Rightarrow> ('g, 'cert, 'sk) lstate \<times> 'm response option" where
  "gate_phases E [] l = (l, None)"
| "gate_phases E (ph # phs) l =
     (case gate_phase E ph l of (l', Some r) \<Rightarrow> (l', Some r) | (l', None) \<Rightarrow> gate_phases E phs l')"

definition seed_headers :: "('m, 'v) http_lib \<Rightarrow> 'm \<Rightarrow> header list" where
  "seed_headers H m =
     visible_headers H (filter (\<lambda>(k, _). \<not> starts_with k '':'' \<and> \<not> is_hop_by_hop k) (hl_iter H m))"

fun append_headers :: "('m, 'v) http_lib \<Rightarrow> header list \<Rightarrow> 'm \<Rightarrow> 'm" where
  "append_headers H [] m = m"
| "append_headers H ((name, value) # hs) m =
     (case (hl_name H name, hl_value H value) of
        (Some n, Inr v) \<Rightarrow> append_headers H hs (hl_append H m n v)
      | _ \<Rightarrow> append_headers H hs m)"

text \<open>
  Steps 11 and 12: the header filter phase and the response with the streaming body. A response that
  cannot be built drops the body, which finalises it.
\<close>

definition stream_response ::
  "('g, 'm, 'v, 'cert, 'sk, 'b) hr_env \<Rightarrow> ('m, 'b) upstream_resp \<Rightarrow> ('g, 'cert, 'sk) lstate
   \<Rightarrow> ('g, 'm, 'cert, 'sk, 'b) outcome rust" where
  "stream_response E resp l =
     (let H = en_http E; s0 = set_resp_headers (seed_headers H (us_headers resp)) (ls_session l) in
      case run_phase (en_wasm E) HeaderFilter s0 of
        (s, Deny c) \<Rightarrow>
          Return (Replied (finish E c (l\<lparr>ls_session := s\<rparr>)) (text_response H c (status_line c)))
      | (s, _) \<Rightarrow>
          let l = l\<lparr>ls_session := s\<rparr>;
              idx = (case rc_peer_index (ss_ctx s) of Some i \<Rightarrow> unat i | None \<Rightarrow> 0)
          in if length (up_peers (up_of l)) \<le> idx then Panic
             else
               let filtered = filtered_body_new s (us_status resp)
                     (addr_to_string (pr_addr (up_peers (up_of l) ! idx))) True (ls_events l)
               in if hl_status_ok H (us_status resp)
                  then Return (Streaming l (us_status resp)
                         (append_headers H (ss_resp_headers s) (hl_empty H)) (us_body resp) filtered)
                  else
                    let b = drop_body (en_wasm E) filtered
                    in Return (Replied (l\<lparr>ls_session := fb_session b, ls_events := fb_events b\<rparr>)
                         (text_response H 500 (''500 bad response'' @ newline))))"

definition path_and_query :: "req_ctx \<Rightarrow> rstr" where
  "path_and_query c = (if rc_query c = [] then rc_path c else rc_path c @ ''?'' @ rc_query c)"

text \<open>Steps 8 to 12: buffer the body, run the content phase, try the peers, stream the answer.\<close>

definition proxy_request ::
  "('g, 'm, 'v, 'cert, 'sk, 'b) hr_env \<Rightarrow> 'v request \<Rightarrow> u64 option \<Rightarrow> ('g, 'cert, 'sk) lstate
   \<Rightarrow> ('g, 'm, 'cert, 'sk, 'b) outcome rust" where
  "proxy_request E rq timeout l =
     (case rq_to_bytes rq MAX_BODY of
        None \<Rightarrow> Return (Replied (finish E 413 l) (text_response (en_http E) 413 (''413 payload too large'' @ newline)))
      | Some body \<Rightarrow>
          (case gate_phase E Content (l\<lparr>ls_session := set_req_body body (ls_session l)\<rparr>) of
             (l1, Some r) \<Rightarrow> Return (Replied l1 r)
           | (l1, None) \<Rightarrow>
               let ctx = ss_ctx (ls_session l1);
                   req = \<lparr>fr_method = rq_method rq, fr_path_and_query = path_and_query ctx,
                          fr_headers = rc_headers ctx, fr_body = body,
                          fr_client_ip = ip_to_string (ip (rq_remote rq))\<rparr>
               in case run_attempts E req timeout l1 of
                    Panic \<Rightarrow> Panic
                  | Return (Again l2) \<Rightarrow>
                      Return (Replied (finish E 502 l2)
                        (text_response (en_http E) 502 (''502 no upstream responded'' @ newline)))
                  | Return (Returned l2 r) \<Rightarrow> Return (Replied l2 r)
                  | Return (Answered l2 resp) \<Rightarrow> stream_response E resp l2))"

definition handle_request ::
  "('g, 'm, 'v, 'cert, 'sk, 'b) hr_env \<Rightarrow> u64 \<Rightarrow> ('cert, 'sk) app_state \<Rightarrow> 'v request
   \<Rightarrow> (('g, 'm, 'cert, 'sk, 'b) outcome \<times> rstr option) rust" where
  "handle_request E now st rq =
     (let H = en_http E;
          query = (case rq_query rq of Some q \<Rightarrow> q | None \<Rightarrow> []);
          version = (if rq_http2 rq then ''HTTP/2'' else ''HTTP/1.1'');
          headers = fold_h2_authority (visible_headers H (rq_headers rq)) (rq_authority rq);
          ctx = make_req_ctx (rq_method rq) (rq_path rq) query version (rq_remote rq) headers;
          no_route_log = (\<lambda>routing status.
            if as_log_on_no_route st
            then snd (finish_log (en_wasm E) status (session_new (as_plugins st) (ctx routing) [], [])) else [])
      in case match_route (as_routes st) (request_host headers) (rq_path rq) of
           None \<Rightarrow>
             Return (Local (text_response H 404 (''404 not found'' @ newline)) (no_route_log (None, None) 404), None)
         | Some route_idx \<Rightarrow>
             let route = as_routes st ! route_idx; label = rt_path_prefix route in
             case as_upstreams st (rt_upstream route) of
               None \<Rightarrow>
                 Return (Local (text_response H 502 (''502 unknown upstream'' @ newline))
                   (no_route_log (Some route_idx, Some (rt_upstream route)) 502), Some label)
             | Some u \<Rightarrow>
                 let s = session_new (as_plugins st) (ctx (Some route_idx, Some (up_name (ur_up u))))
                           (peer_views (as_health st) u now);
                     l = \<lparr>ls_health = as_health st, ls_pool = as_pool st, ls_up = u, ls_session = s,
                          ls_events = [], ls_sent = []\<rparr>;
                     timeout = route_timeout (rt_timeout_ms route)
                 in case gate_phases E [PostRead, Rewrite, Access] l of
                      (l1, Some r) \<Rightarrow> Return (Replied l1 r, Some label)
                    | (l1, None) \<Rightarrow>
                        if is_websocket_upgrade (rq_method rq) (rc_headers (ss_ctx (ls_session l1)))
                        then Return (Upgraded l1 timeout, Some label)
                        else rust_map (\<lambda>r. (r, Some label)) (proxy_request E rq timeout l1))"

section \<open>Invariants of the retry loop\<close>

text \<open>A failure after which another peer may be tried.\<close>

definition retry_ok :: "rstr \<Rightarrow> bool \<Rightarrow> failure_kind option \<Rightarrow> bool" where
  "retry_ok method rot k \<longleftrightarrow>
     (\<exists>f. k = Some f \<and> may_retry method f \<and> (f = KTimeout \<longrightarrow> rot))"

definition base :: "('g, 'cert, 'sk) lstate \<Rightarrow> ('g, 'cert, 'sk) lstate \<Rightarrow> bool" where
  "base l0 l \<longleftrightarrow>
     up_of l = up_of l0 \<and> health_inv (ls_health l) \<and> flight (ls_health l) = flight (ls_health l0)
     \<and> sess_inv (ls_session l) \<and> ss_peers (ls_session l) = ss_peers (ls_session l0)"

definition sends_ok :: "rstr \<Rightarrow> ('cert, 'sk) upstream \<Rightarrow> (socket_addr \<times> failure_kind option) list \<Rightarrow> bool" where
  "sends_ok m up sent \<longleftrightarrow>
     distinct (map fst sent) \<and> (\<forall>x \<in> set sent. fst x \<in> pr_addr ` set (up_peers up))
     \<and> (\<forall>x \<in> set (butlast sent). retry_ok m (up_retry_on_timeout up) (snd x))"

text \<open>Before an attempt: every address on the wire so far is marked as tried.\<close>

definition linv :: "rstr \<Rightarrow> ('g, 'cert, 'sk) lstate \<Rightarrow> ('g, 'cert, 'sk) lstate \<Rightarrow> bool" where
  "linv m l0 l \<longleftrightarrow>
     base l0 l \<and> rc_tried (ss_ctx (ls_session l)) = map fst (ls_sent l)
     \<and> sends_ok m (up_of l0) (ls_sent l)
     \<and> (\<forall>x \<in> set (ls_sent l). retry_ok m (up_retry_on_timeout (up_of l0)) (snd x))
     \<and> log_lines (ls_events l) = log_lines (ls_events l0)"

definition attempt_spec ::
  "rstr \<Rightarrow> ('g, 'cert, 'sk) lstate \<Rightarrow> nat \<Rightarrow> ('g, 'm, 'cert, 'sk, 'b) attempt_end \<Rightarrow> bool" where
  "attempt_spec m l0 n r \<longleftrightarrow>
     (case r of
        Again l \<Rightarrow> linv m l0 l \<and> length (ls_sent l) \<le> n
      | Answered l resp \<Rightarrow>
          base l0 l \<and> sends_ok m (up_of l0) (ls_sent l) \<and> length (ls_sent l) \<le> n
          \<and> (\<exists>front a. ls_sent l = front @ [(a, None)])
          \<and> log_lines (ls_events l) = log_lines (ls_events l0)
          \<and> (\<exists>i < length (up_peers (up_of l0)). rc_peer_index (ss_ctx (ls_session l)) = Some (of_nat i))
      | Returned l resp \<Rightarrow>
          base l0 l \<and> sends_ok m (up_of l0) (ls_sent l) \<and> length (ls_sent l) \<le> n
          \<and> (\<exists>c k. log_lines (ls_events l) = log_lines (ls_events l0) @ [EvFinished c k]))"

lemma finish_frame [simp]:
  "ls_health (finish E c l) = ls_health l" "ls_up (finish E c l) = ls_up l" "ls_sent (finish E c l) = ls_sent l"
  "ls_pool (finish E c l) = ls_pool l"
  by (simp_all add: finish_def split: prod.splits)

lemma finish_log_lines: "\<exists>k. log_lines (ls_events (finish E c l)) = log_lines (ls_events l) @ [EvFinished c k]"
  by (auto simp: finish_def finish_log_def Let_def split: prod.splits)

lemma take_phase_stats_frame [simp]:
  "ss_ctx (fst (take_phase_stats s)) = ss_ctx s" "ss_peers (fst (take_phase_stats s)) = ss_peers s"
  by (simp_all add: take_phase_stats_def Let_def)

lemma finish_session:
  assumes "sess_inv (ls_session l)"
  shows "sess_inv (ls_session (finish E c l)) \<and> ss_peers (ls_session (finish E c l)) = ss_peers (ls_session l)"
proof -
  let ?s1 = "fst (run_phase (en_wasm E) Log_Phase (ls_session l))"
  have s: "ls_session (finish E c l) = fst (take_phase_stats ?s1)"
    by (simp add: finish_def finish_log_def Let_def split: prod.splits)
  have "sess_inv ?s1 \<and> sess_confined (ls_session l) ?s1"
    using run_phase_ok [OF prod.collapse [symmetric] assms] by blast
  then show ?thesis
    using sess_inv_step [of ?s1 "en_wasm E" OpTakePhaseStats] by (simp add: s sess_confined_def)
qed

lemma base_finish: "base l0 l \<Longrightarrow> base l0 (finish E c l)"
  using finish_session by (auto simp: base_def)

lemma Returned_spec:
  assumes "base l0 l" "sends_ok m (up_of l0) (ls_sent l)" "length (ls_sent l) \<le> n"
    "log_lines (ls_events l) = log_lines (ls_events l0)"
  shows "attempt_spec m l0 n (Returned (finish E c l) r)"
  using assms base_finish [OF assms(1)] finish_log_lines [of E c l] by (auto simp: attempt_spec_def)

text \<open>The state after a peer was picked: its slot is taken, nothing else has happened.\<close>

definition picked :: "('g, 'cert, 'sk) lstate \<Rightarrow> nat \<Rightarrow> ('g, 'cert, 'sk) lstate \<Rightarrow> bool" where
  "picked l idx l1 \<longleftrightarrow>
     idx < length (up_peers (up_of l)) \<and> pr_addr (up_peers (up_of l) ! idx) \<notin> set (rc_tried (ss_ctx (ls_session l)))
     \<and> ls_health l1 = inc_in_flight (ls_health l) (up_name (up_of l)) (pr_addr (up_peers (up_of l) ! idx))
     \<and> up_of l1 = up_of l \<and> sess_inv (ls_session l1) \<and> ss_peers (ls_session l1) = ss_peers (ls_session l)
     \<and> rc_tried (ss_ctx (ls_session l1)) = rc_tried (ss_ctx (ls_session l))
     \<and> ls_sent l1 = ls_sent l \<and> ls_events l1 = ls_events l"

lemma released_flight:
  assumes "health_inv h" "idx < length (up_peers (ur_up u))"
    "h1 = inc_in_flight h (up_name (ur_up u)) (pr_addr (up_peers (ur_up u) ! idx))"
  shows "flight (release_peer (record_success h1 (up_name (ur_up u)) idx now) u idx) = flight h"
    and "flight (release_peer (record_failure h1 (up_name (ur_up u)) idx cfg now) u idx) = flight h"
    and "health_inv (release_peer (record_success h1 (up_name (ur_up u)) idx now) u idx)"
    and "health_inv (release_peer (record_failure h1 (up_name (ur_up u)) idx cfg now) u idx)"
  using assms flight_bracket [OF assms(1)] by (simp_all add: release_peer_def health_inv_ops fun_eq_iff)

lemma sends_ok_snoc:
  assumes "sends_ok m up sent" "\<forall>x \<in> set sent. retry_ok m (up_retry_on_timeout up) (snd x)"
    "a \<notin> set (map fst sent)" "a \<in> pr_addr ` set (up_peers up)"
  shows "sends_ok m up (sent @ [(a, k)])"
  using assms by (auto simp: sends_ok_def)

lemma on_success_spec:
  assumes "linv m l0 l" "picked l idx l1" "ls_sent l2 = ls_sent l @ [(pr_addr (up_peers (up_of l) ! idx), None)]"
    "ls_health l2 = ls_health l1" "ls_up l2 = ls_up l1" "ls_events l2 = ls_events l1"
    "sess_inv (ls_session l2)" "ss_peers (ls_session l2) = ss_peers (ls_session l1)"
    "rc_peer_index (ss_ctx (ls_session l2)) = Some (of_nat idx)"
  shows "attempt_spec m l0 (Suc (length (ls_sent l))) (on_success now idx r l2)"
proof -
  let ?a = "pr_addr (up_peers (up_of l) ! idx)"
  have h: "health_inv (ls_health l)" "idx < length (up_peers (up_of l2))" "up_of l2 = up_of l" "up_of l = up_of l0"
    using assms by (auto simp: linv_def base_def picked_def)
  have "sends_ok m (up_of l0) (ls_sent l @ [(?a, None)])"
    using assms(1,2) h by (intro sends_ok_snoc) (auto simp: linv_def picked_def)
  moreover have "ls_health l2 = inc_in_flight (ls_health l) (up_name (up_of l2)) (pr_addr (up_peers (up_of l2) ! idx))"
    using assms(2,4) h by (simp add: picked_def)
  note rel = released_flight(1,3) [OF h(1,2) this]
  ultimately show ?thesis
    using assms h rel [of now] by (auto simp: on_success_def attempt_spec_def base_def linv_def picked_def)
qed

text \<open>The state an attempt was sent from, with its entry on the wire.\<close>

definition sent_from ::
  "('g, 'cert, 'sk) lstate \<Rightarrow> nat \<Rightarrow> failure_kind option \<Rightarrow> ('g, 'cert, 'sk) lstate \<Rightarrow> bool" where
  "sent_from l idx k l2 \<longleftrightarrow>
     (\<exists>l1. picked l idx l1 \<and> ls_health l2 = ls_health l1 \<and> ls_up l2 = ls_up l1 \<and> ls_events l2 = ls_events l1
        \<and> sess_inv (ls_session l2) \<and> ss_peers (ls_session l2) = ss_peers (ls_session l1)
        \<and> rc_tried (ss_ctx (ls_session l2)) = rc_tried (ss_ctx (ls_session l1)))
     \<and> rc_peer_index (ss_ctx (ls_session l2)) = Some (of_nat idx)
     \<and> ls_sent l2 = ls_sent l @ [(pr_addr (up_peers (up_of l) ! idx), k)]"

lemma after_failure_frame [simp]:
  "ls_session (after_failure now idx res l) = ls_session l" "ls_up (after_failure now idx res l) = ls_up l"
  "ls_sent (after_failure now idx res l) = ls_sent l"
  "log_lines (ls_events (after_failure now idx res l)) = log_lines (ls_events l)"
  by (simp_all add: after_failure_def)

lemma after_failure_spec:
  assumes "linv m l0 l" "sent_from l idx k l2"
  shows "base l0 (after_failure now idx res l2)"
    and "sends_ok m (up_of l0) (ls_sent l2)" and "length (ls_sent l2) = Suc (length (ls_sent l))"
    and "log_lines (ls_events l2) = log_lines (ls_events l0)"
    and "rc_tried (ss_ctx (ls_session l2)) = map fst (ls_sent l)"
    and "pr_addr (up_peers (up_of l) ! idx) \<notin> set (map fst (ls_sent l))"
proof -
  let ?a = "pr_addr (up_peers (up_of l) ! idx)"
  obtain l1 where p: "picked l idx l1" and l1: "ls_health l2 = ls_health l1" "ls_up l2 = ls_up l1"
    "ls_events l2 = ls_events l1" "sess_inv (ls_session l2)" "ss_peers (ls_session l2) = ss_peers (ls_session l1)"
    "rc_tried (ss_ctx (ls_session l2)) = rc_tried (ss_ctx (ls_session l1))"
    and s: "ls_sent l2 = ls_sent l @ [(?a, k)]"
    using assms(2) by (auto simp: sent_from_def)
  have h: "health_inv (ls_health l)" "idx < length (up_peers (up_of l2))" "up_of l2 = up_of l" "up_of l = up_of l0"
    using assms(1) p l1 by (auto simp: linv_def base_def picked_def)
  show "?a \<notin> set (map fst (ls_sent l))" "rc_tried (ss_ctx (ls_session l2)) = map fst (ls_sent l)"
    using assms(1) p l1(6) by (auto simp: linv_def picked_def)
  then show "sends_ok m (up_of l0) (ls_sent l2)"
    unfolding s using assms(1) p h by (intro sends_ok_snoc) (auto simp: linv_def picked_def)
  have "ls_health l2 = inc_in_flight (ls_health l) (up_name (up_of l2)) (pr_addr (up_peers (up_of l2) ! idx))"
    using p l1(1) h by (simp add: picked_def)
  note rel = released_flight(2,4) [OF h(1,2) this]
  show "base l0 (after_failure now idx res l2)"
    using assms(1) p l1 h rel by (simp add: after_failure_def base_def linv_def picked_def)
  show "length (ls_sent l2) = Suc (length (ls_sent l))" by (simp add: s)
  show "log_lines (ls_events l2) = log_lines (ls_events l0)" using assms(1) p l1(3) by (simp add: linv_def picked_def)
qed

text \<open>Marking the address as tried re-establishes the loop invariant after a retryable failure.\<close>

lemma again_spec:
  assumes "linv m l0 l" "sent_from l idx k l2" "retry_ok m (up_retry_on_timeout (up_of l0)) k"
  shows "attempt_spec m l0 (Suc (length (ls_sent l)))
     (Again (on_ctx (\<lambda>c. mark_tried c (pr_addr (up_peers (up_of l) ! idx))) (after_failure now idx res l2)))"
proof -
  note s = after_failure_spec [OF assms(1,2)]
  have "ls_sent l2 = ls_sent l @ [(pr_addr (up_peers (up_of l) ! idx), k)]"
    using assms(2) by (simp add: sent_from_def)
  then show ?thesis
    using s assms(1,3) by (auto simp: attempt_spec_def linv_def base_def mark_tried_def)
qed

lemma failure_kind_not_timeout: "failure_kind_of e \<noteq> KTimeout"
  by (cases e) (simp_all add: failure_kind_of_def)

lemma on_error_spec:
  assumes "linv m l0 l" "sent_from l idx (Some (failure_kind_of e)) l2"
  shows "attempt_spec m l0 (Suc (length (ls_sent l)))
     (on_error E m now idx (pr_addr (up_peers (up_of l) ! idx)) e l2)"
proof (cases "may_retry m (failure_kind_of e)")
  case True
  then have "retry_ok m (up_retry_on_timeout (up_of l0)) (Some (failure_kind_of e))"
    using failure_kind_not_timeout by (simp add: retry_ok_def)
  from again_spec [OF assms this] show ?thesis using True by (simp add: on_error_def Let_def)
next
  case False
  then show ?thesis
    using after_failure_spec [OF assms] by (simp add: on_error_def Let_def Returned_spec)
qed

lemma on_timeout_spec:
  assumes "linv m l0 l" "sent_from l idx (Some KTimeout) l2"
  shows "attempt_spec m l0 (Suc (length (ls_sent l)))
     (on_timeout E m now idx (pr_addr (up_peers (up_of l) ! idx)) att atts l2)"
proof (cases "may_retry m KTimeout \<and> may_retry_timeout (up_retry_on_timeout (up_of l2)) att atts")
  case True
  have "up_of l2 = up_of l0"
    using after_failure_spec(1) [OF assms, of now RESULT_TIMEOUT] by (simp add: base_def)
  with True have "retry_ok m (up_retry_on_timeout (up_of l0)) (Some KTimeout)"
    by (simp add: retry_ok_def may_retry_timeout_def)
  from again_spec [OF assms this] show ?thesis using True by (simp add: on_timeout_def Let_def)
next
  case False
  then show ?thesis
    using after_failure_spec [OF assms] by (auto simp: on_timeout_def Let_def Returned_spec)
qed

lemma picked_sent_from:
  assumes "picked l idx l1"
  shows "sent_from l idx k
     ((on_ctx (\<lambda>c. c\<lparr>rc_peer_index := Some (of_nat idx)\<rparr>) l1)
        \<lparr>ls_pool := pool, ls_sent := ls_sent l1 @ [(pr_addr (up_peers (up_of l1) ! idx), k)]\<rparr>)"
  using assms by (auto simp: sent_from_def picked_def intro!: exI [of _ l1])

lemma send_attempt_spec:
  assumes "linv m l0 l" "picked l idx l1" "fr_method req = m"
    "send_attempt E req timeout attempts a idx l1 = Return r"
  shows "attempt_spec m l0 (Suc (length (ls_sent l))) r"
proof -
  let ?a = "pr_addr (up_peers (up_of l1) ! idx)"
  define to where "to = (timeout \<noteq> None \<and> en_timeout E a)"
  have up: "up_of l1 = up_of l" using assms(2) by (simp add: picked_def)
  obtain pool res where fp:
    "forward_peer (en_http E) (en_net E a) (ls_pool l1) (up_of l1) (up_peers (up_of l1) ! idx) req = Return (pool, res)"
    using assms(4) by (auto simp: send_attempt_def Let_def)
  let ?l2 = "(on_ctx (\<lambda>c. c\<lparr>rc_peer_index := Some (of_nat idx)\<rparr>) l1)
        \<lparr>ls_pool := pool, ls_sent := ls_sent l1 @ [(?a, outcome_kind to res)]\<rparr>"
  have "send_attempt E req timeout attempts a idx l1 = Return
     (if to then on_timeout E m (en_now E a 2) idx ?a (of_nat a) attempts ?l2
      else case res of
             Inr resp \<Rightarrow> on_success (en_now E a 2) idx resp ?l2
           | Inl e \<Rightarrow> on_error E m (en_now E a 2) idx ?a e ?l2)"
    unfolding send_attempt_def Let_def to_def [symmetric] using fp assms(3) by (cases res; cases to) simp_all
  then have r: "r = (if to then on_timeout E m (en_now E a 2) idx ?a (of_nat a) attempts ?l2
      else case res of
             Inr resp \<Rightarrow> on_success (en_now E a 2) idx resp ?l2
           | Inl e \<Rightarrow> on_error E m (en_now E a 2) idx ?a e ?l2)"
    unfolding assms(4) by (rule rust.inject [THEN iffD1])
  note sf = picked_sent_from [OF assms(2), where pool = pool]
  show ?thesis
  proof (cases to)
    case True
    then show ?thesis
      using on_timeout_spec [OF assms(1) sf] by (simp add: r Let_def outcome_kind_def up)
  next
    case False
    show ?thesis
    proof (cases res)
      case (Inl e)
      then show ?thesis
        using on_error_spec [OF assms(1) sf] False by (simp add: r Let_def outcome_kind_def up)
    next
      case (Inr resp)
      have "attempt_spec m l0 (Suc (length (ls_sent l)))
          (on_success (en_now E a 2) idx resp ((on_ctx (\<lambda>c. c\<lparr>rc_peer_index := Some (of_nat idx)\<rparr>) l1)
             \<lparr>ls_pool := pool, ls_sent := ls_sent l1 @ [(?a, None)]\<rparr>))"
        using assms(2) by (intro on_success_spec [OF assms(1,2)]) (simp_all add: picked_def up)
      then show ?thesis using False Inr by (simp add: r Let_def outcome_kind_def)
    qed
  qed
qed


lemma linv_on_ctx:
  assumes "linv m l0 l"
  shows "linv m l0 (on_ctx (\<lambda>c. c\<lparr>rc_attempts := n, rc_peer_index := None\<rparr>) l)"
  using assms by (simp add: linv_def base_def)

lemma attempt_once_spec:
  assumes "linv m l0 l" "weighted (ls_up l0)" "fr_method req = m"
    "attempt_once E req timeout attempts a l = Return r"
  shows "attempt_spec m l0 (Suc (length (ls_sent l))) r"
proof -
  define la where "la = on_ctx (\<lambda>c. c\<lparr>rc_attempts := of_nat a + 1, rc_peer_index := None\<rparr>) l"
  have la: "linv m l0 la" unfolding la_def by (rule linv_on_ctx [OF assms(1)])
  have sent: "ls_sent la = ls_sent l" by (simp add: la_def)
  have w: "weighted (ls_up la)" and inv: "sess_inv (ls_session la)"
    using la assms(2) by (simp_all add: linv_def base_def weighted_def)
  obtain h u s p where pk: "pick_peer (en_wasm E) (en_now E a) (ls_health la) (ls_up la) (ls_session la) = Return (h, u, s, p)"
    and s: "sess_inv s" "ur_up u = up_of la" "frozen (ss_ctx s) = frozen (ss_ctx (ls_session la))"
      "ss_peers s = ss_peers (ls_session la)"
    and p: "case p of
          PickPeer i \<Rightarrow> i < length (up_peers (up_of la))
            \<and> pr_addr (up_peers (up_of la) ! i) \<notin> set (rc_tried (ss_ctx (ls_session la)))
            \<and> h = inc_in_flight (ls_health la) (up_name (up_of la)) (pr_addr (up_peers (up_of la) ! i))
        | PickDeny c \<Rightarrow> h = ls_health la
        | PickNone \<Rightarrow> h = ls_health la"
    using pick_peer_total [OF w inv, of "en_wasm E" "en_now E a" "ls_health la"]
    by (fastforce split: pick.splits)
  let ?l = "la\<lparr>ls_health := h, ls_up := u, ls_session := s\<rparr>"
  note once = assms(4) [unfolded attempt_once_def Let_def, folded la_def, unfolded pk, simplified]
  show ?thesis
  proof (cases p)
    case (PickPeer i)
    have "rc_tried (ss_ctx s) = rc_tried (ss_ctx (ls_session la))" using s(3) by (simp add: frozen_def)
    then have "picked la i ?l" using p s PickPeer by (simp add: picked_def)
    from send_attempt_spec [OF la this assms(3)] show ?thesis using once PickPeer sent by simp
  next
    case (PickDeny c)
    then have "base l0 ?l" using la p s by (simp add: linv_def base_def)
    then show ?thesis
      using once PickDeny la by (auto simp: linv_def sent intro!: Returned_spec)
  next
    case PickNone
    then have "base l0 (note_attempt RESULT_NO_PEER ?l)" using la p s by (simp add: linv_def base_def)
    then show ?thesis
      using once PickNone la by (auto simp: linv_def sent intro!: Returned_spec)
  qed
qed

lemma attempt_spec_mono: "attempt_spec m l0 n r \<Longrightarrow> n \<le> k \<Longrightarrow> attempt_spec m l0 k r"
  by (cases r) (auto simp: attempt_spec_def)

lemma attempt_loop_spec:
  assumes "linv m l0 l" "weighted (ls_up l0)" "fr_method req = m"
    "attempt_loop E req timeout attempts as l = Return r"
  shows "attempt_spec m l0 (length (ls_sent l) + length as) r"
  using assms
proof (induction as arbitrary: l)
  case Nil
  then show ?case by (auto simp: attempt_spec_def)
next
  case (Cons a as)
  show ?case
  proof (cases "attempt_once E req timeout attempts a l")
    case (Return r1)
    note once = attempt_once_spec [OF Cons.prems(1-3) Return]
    show ?thesis
    proof (cases r1)
      case (Again l1)
      then have l1: "linv m l0 l1" "length (ls_sent l1) \<le> Suc (length (ls_sent l))"
        using once by (auto simp: attempt_spec_def)
      have "attempt_spec m l0 (length (ls_sent l1) + length as) r"
        using Cons.IH [OF l1(1) Cons.prems(2,3)] Cons.prems(4) Return Again by simp
      then show ?thesis by (rule attempt_spec_mono) (use l1(2) in simp)
    next
      case (Answered l1 resp)
      then have "r = r1" using Cons.prems(4) Return by simp
      then show ?thesis using once by (auto elim: attempt_spec_mono)
    next
      case (Returned l1 resp)
      then have "r = r1" using Cons.prems(4) Return by simp
      then show ?thesis using once by (auto elim: attempt_spec_mono)
    qed
  qed (use Cons.prems(4) in simp)
qed

section \<open>Invariants of the lifecycle\<close>

text \<open>Before the retry loop: nothing sent, nothing tried, nothing logged.\<close>

definition pre_loop :: "('g, 'cert, 'sk) lstate \<Rightarrow> ('g, 'cert, 'sk) lstate \<Rightarrow> bool" where
  "pre_loop l0 l \<longleftrightarrow>
     base l0 l \<and> ls_sent l = [] \<and> rc_tried (ss_ctx (ls_session l)) = []
     \<and> log_lines (ls_events l) = log_lines (ls_events l0)"

lemma pre_loop_linv: "pre_loop l0 l \<Longrightarrow> linv m l0 l"
  by (simp add: pre_loop_def linv_def sends_ok_def)

text \<open>A locally answered request: one access-log line more.\<close>

definition replied_spec :: "rstr \<Rightarrow> ('g, 'cert, 'sk) lstate \<Rightarrow> nat \<Rightarrow> ('g, 'cert, 'sk) lstate \<Rightarrow> bool" where
  "replied_spec m l0 n l \<longleftrightarrow>
     base l0 l \<and> sends_ok m (up_of l0) (ls_sent l) \<and> length (ls_sent l) \<le> n
     \<and> (\<exists>e. log_lines (ls_events l) = log_lines (ls_events l0) @ [e])"

lemma replied_finish:
  assumes "base l0 l" "sends_ok m (up_of l0) (ls_sent l)" "length (ls_sent l) \<le> n"
    "log_lines (ls_events l) = log_lines (ls_events l0)"
  shows "replied_spec m l0 n (finish E c l)"
  using assms base_finish [OF assms(1)] finish_log_lines [of E c l] by (auto simp: replied_spec_def)

lemma pre_loop_replied: "pre_loop l0 l \<Longrightarrow> replied_spec m l0 n (finish E c l)"
  by (rule replied_finish) (auto simp: pre_loop_def sends_ok_def)

lemma pre_loop_run_phase:
  assumes "pre_loop l0 l" "run_phase W ph (ls_session l) = (s, d)"
  shows "pre_loop l0 (l\<lparr>ls_session := s\<rparr>)"
  using assms run_phase_ok [OF assms(2)] by (auto simp: pre_loop_def base_def sess_confined_def frozen_def)

lemma gate_phase_spec:
  assumes "pre_loop l0 l" "gate_phase E ph l = (l', r)"
  shows "if r = None then pre_loop l0 l' else replied_spec m l0 n l'"
proof (cases "run_phase (en_wasm E) ph (ls_session l)")
  case (Pair s d)
  note p = pre_loop_run_phase [OF assms(1) Pair]
  show ?thesis
    using assms(2) p pre_loop_replied [OF p] Pair by (cases d) (auto simp: gate_phase_def Let_def)
qed

lemma gate_phases_spec:
  assumes "pre_loop l0 l" "gate_phases E phs l = (l', r)"
  shows "if r = None then pre_loop l0 l' else replied_spec m l0 n l'"
  using assms
proof (induction phs arbitrary: l)
  case (Cons ph phs)
  obtain l1 r1 where g: "gate_phase E ph l = (l1, r1)" by fastforce
  show ?case
  proof (cases r1)
    case None
    then show ?thesis using gate_phase_spec [OF Cons.prems(1) g] Cons g by simp
  next
    case (Some x)
    then show ?thesis using gate_phase_spec [OF Cons.prems(1) g, of m n] Cons.prems(2) g by auto
  qed
qed simp

text \<open>How a proxied request ends, relative to the state \<open>l0\<close> it started from.\<close>

definition outcome_spec ::
  "rstr \<Rightarrow> ('g, 'cert, 'sk) lstate \<Rightarrow> nat \<Rightarrow> ('g, 'm, 'cert, 'sk, 'b) outcome \<Rightarrow> bool" where
  "outcome_spec m l0 n out \<longleftrightarrow>
     (case out of
        Local r ev \<Rightarrow> False
      | Replied l r \<Rightarrow> replied_spec m l0 n l
      | Upgraded l t \<Rightarrow> pre_loop l0 l
      | Streaming l c hs b fb \<Rightarrow>
          base l0 l \<and> sends_ok m (up_of l0) (ls_sent l) \<and> length (ls_sent l) \<le> n
          \<and> (\<exists>front a. ls_sent l = front @ [(a, None)])
          \<and> log_lines (ls_events l) = log_lines (ls_events l0)
          \<and> body_fresh fb \<and> fb_session fb = ls_session l \<and> fb_events fb = ls_events l)"

lemma run_phase_session:
  assumes "sess_inv s"
  shows "sess_inv (fst (run_phase W ph s)) \<and> ss_peers (fst (run_phase W ph s)) = ss_peers s"
  using run_phase_ok [OF prod.collapse [symmetric] assms, of W ph] by (auto simp: sess_confined_def)

lemma run_log_session:
  assumes "sess_inv (fb_session b)"
  shows "sess_inv (fb_session (run_log W b)) \<and> ss_peers (fb_session (run_log W b)) = ss_peers (fb_session b)"
proof -
  let ?s = "fst (run_phase W Log_Phase (fb_session b))"
  have "sess_inv (fst (take_phase_stats ?s))"
    using sess_inv_step [of ?s W OpTakePhaseStats] run_phase_session [OF assms] by simp
  then show ?thesis
    using run_phase_session [OF assms, of W Log_Phase]
    by (cases "fb_metrics b") (auto simp: run_log_def Let_def case_prod_beta')
qed

lemma run_filter_session:
  assumes "sess_inv (fb_session b)"
  shows "sess_inv (fb_session (run_filter W c f b)) \<and> ss_peers (fb_session (run_filter W c f b)) = ss_peers (fb_session b)"
proof -
  have "sess_inv (set_body_chunk c f (fb_session b))"
    using sess_inv_step [OF assms, of W "OpSetBodyChunk c f"] by simp
  from run_phase_session [OF this, of W BodyFilter] show ?thesis
    by (simp add: run_filter_def set_body_chunk_def)
qed

lemma drop_fresh:
  assumes "body_fresh b"
  shows "log_lines (fb_events (drop_body W b)) =
      log_lines (fb_events b) @ [EvStreamFinished (fb_status b) (fb_peer b) (fb_bytes b)]"
    and "sess_inv (fb_session b) \<Longrightarrow>
      sess_inv (fb_session (drop_body W b)) \<and> ss_peers (fb_session (drop_body W b)) = ss_peers (fb_session b)"
  using assms run_filter_session [of "b\<lparr>fb_last_sent := True\<rparr>" W "[]" True]
    run_log_session [of "run_filter W [] True (b\<lparr>fb_last_sent := True\<rparr>)\<lparr>fb_log_done := True\<rparr>" W]
  by (simp_all add: drop_body_def finalize_def body_fresh_def Let_def)

lemma filtered_body_new_simps [simp]:
  "body_fresh (filtered_body_new s c p mt ev)" "fb_session (filtered_body_new s c p mt ev) = s"
  "fb_events (filtered_body_new s c p mt ev) = ev"
  by (simp_all add: filtered_body_new_def body_fresh_def)

definition answer_index :: "'g session \<Rightarrow> nat" where
  "answer_index s = (case rc_peer_index (ss_ctx s) of Some i \<Rightarrow> unat i | None \<Rightarrow> 0)"

text \<open>The peer named in the log line is a peer of the snapshot, whatever the header filter pinned.\<close>

lemma answer_index_bound:
  assumes "attempt_spec m l0 n (Answered l resp)" "run_phase W HeaderFilter (set_resp_headers hs (ls_session l)) = (s, d)"
    and "length (ss_peers (ls_session l0)) = length (up_peers (up_of l0))"
  shows "answer_index s < length (up_peers (up_of l))" and "base l0 (l\<lparr>ls_session := s\<rparr>)"
proof -
  let ?s0 = "set_resp_headers hs (ls_session l)"
  obtain i where b: "base l0 l" and i: "i < length (up_peers (up_of l))"
    and ix: "rc_peer_index (ss_ctx (ls_session l)) = Some (of_nat i)"
    using assms(1) by (auto simp: attempt_spec_def base_def)
  have "sess_inv ?s0" using sess_inv_step [of "ls_session l" W "OpSetRespHeaders hs"] b by (simp add: base_def)
  from run_phase_ok [OF assms(2) this] have s: "sess_inv s" "sess_confined ?s0 s" by auto
  have same: "ss_peers ?s0 = ss_peers (ls_session l)" "rc_peer_index (ss_ctx ?s0) = Some (of_nat i)"
    using ix by (simp_all add: set_resp_headers_def)
  show "base l0 (l\<lparr>ls_session := s\<rparr>)" using b s same by (simp add: base_def sess_confined_def)
  have "unat (of_nat i :: u32) \<le> i" by (simp add: unat_of_nat)
  then show "answer_index s < length (up_peers (up_of l))"
    using s(2) same i b assms(3) by (auto simp: answer_index_def sess_confined_def base_def)
qed

lemma stream_response_spec:
  assumes "attempt_spec m l0 n (Answered l resp)" "length (ss_peers (ls_session l0)) = length (up_peers (up_of l0))"
  shows "\<exists>out. stream_response E resp l = Return out \<and> outcome_spec m l0 n out"
proof -
  let ?hs = "seed_headers (en_http E) (us_headers resp)"
  obtain s d where r: "run_phase (en_wasm E) HeaderFilter (set_resp_headers ?hs (ls_session l)) = (s, d)" by fastforce
  let ?l = "l\<lparr>ls_session := s\<rparr>"
  note ix = answer_index_bound [OF assms(1) r assms(2)]
  have sp: "sends_ok m (up_of l0) (ls_sent l)" "length (ls_sent l) \<le> n" "\<exists>front a. ls_sent l = front @ [(a, None)]"
    "log_lines (ls_events l) = log_lines (ls_events l0)"
    using assms(1) by (auto simp: attempt_spec_def)
  show ?thesis
  proof (cases "\<exists>c. d = Deny c")
    case True
    then obtain c where "d = Deny c" ..
    then show ?thesis
      using r replied_finish [OF ix(2), of m n E c] sp by (simp add: stream_response_def Let_def outcome_spec_def)
  next
    case False
    define b where "b = filtered_body_new s (us_status resp)
      (addr_to_string (pr_addr (up_peers (up_of l) ! answer_index s))) True (ls_events l)"
    have "stream_response E resp l =
      (if hl_status_ok (en_http E) (us_status resp)
       then Return (Streaming ?l (us_status resp)
              (append_headers (en_http E) (ss_resp_headers s) (hl_empty (en_http E))) (us_body resp) b)
       else Return (Replied (?l\<lparr>ls_session := fb_session (drop_body (en_wasm E) b),
                              ls_events := fb_events (drop_body (en_wasm E) b)\<rparr>)
              (text_response (en_http E) 500 (''500 bad response'' @ newline))))"
      using False ix(1) r by (cases d) (simp_all add: stream_response_def Let_def b_def flip: answer_index_def)
    moreover have "body_fresh b" "fb_session b = s" "fb_events b = ls_events l" by (simp_all add: b_def)
    moreover from drop_fresh [OF this(1), of "en_wasm E"]
    have "replied_spec m l0 n (?l\<lparr>ls_session := fb_session (drop_body (en_wasm E) b),
            ls_events := fb_events (drop_body (en_wasm E) b)\<rparr>)"
      using ix(2) sp calculation(3,4) by (simp add: replied_spec_def base_def)
    ultimately show ?thesis using ix(2) sp by (simp add: outcome_spec_def)
  qed
qed

lemma set_req_body_pre: "pre_loop l0 l \<Longrightarrow> pre_loop l0 (l\<lparr>ls_session := set_req_body b (ls_session l)\<rparr>)"
  using sess_inv_step [of "ls_session l" _ "OpSetReqBody b"] by (simp add: pre_loop_def base_def set_req_body_def)

lemma length_attempts: "unat ((n :: u32) + 1) \<le> Suc (unat n)"
  by (metis Suc_eq_plus1 order_refl unat_1 unat_plus_if' add.commute diff_le_self)

lemma proxy_request_spec:
  assumes "pre_loop l0 l" "weighted (ls_up l0)" "length (ss_peers (ls_session l0)) = length (up_peers (up_of l0))"
    "proxy_request E rq timeout l = Return out"
  shows "outcome_spec (rq_method rq) l0 (Suc (unat (up_retries (up_of l0)))) out"
proof (cases "rq_to_bytes rq MAX_BODY")
  case None
  then show ?thesis using assms(4) pre_loop_replied [OF assms(1)] by (auto simp: proxy_request_def outcome_spec_def)
next
  case (Some body)
  let ?m = "rq_method rq" and ?n = "Suc (unat (up_retries (up_of l0)))"
  obtain l1 r where g: "gate_phase E Content (l\<lparr>ls_session := set_req_body body (ls_session l)\<rparr>) = (l1, r)" by fastforce
  note gs = gate_phase_spec [OF set_req_body_pre [OF assms(1)] g]
  show ?thesis
  proof (cases r)
    case None
    then have pre: "pre_loop l0 l1" using gs by simp
    define req where "req = \<lparr>fr_method = ?m, fr_path_and_query = path_and_query (ss_ctx (ls_session l1)),
      fr_headers = rc_headers (ss_ctx (ls_session l1)), fr_body = body,
      fr_client_ip = ip_to_string (ip (rq_remote rq))\<rparr>"
    note pr = assms(4) [unfolded proxy_request_def, simplified Some g None option.case prod.case Let_def, folded req_def]
    obtain x where x: "run_attempts E req timeout l1 = Return x" using pr by (cases "run_attempts E req timeout l1") auto
    have "up_of l1 = up_of l0" using pre by (simp add: pre_loop_def base_def)
    then have sp: "attempt_spec ?m l0 ?n x"
      using attempt_loop_spec [OF pre_loop_linv [OF pre] assms(2) _ x [unfolded run_attempts_def Let_def]]
        pre length_attempts [of "up_retries (up_of l0)"]
      by (auto simp: req_def pre_loop_def elim: attempt_spec_mono)
    show ?thesis
    proof (cases x)
      case (Again l2)
      then show ?thesis
        using pr x sp replied_finish [of l0 l2 ?m ?n E 502]
        by (auto simp: outcome_spec_def attempt_spec_def linv_def)
    next
      case (Answered l2 resp)
      then show ?thesis using pr x stream_response_spec [OF sp [unfolded Answered] assms(3), of E] by auto
    next
      case (Returned l2 r2)
      then show ?thesis using pr x sp by (auto simp: outcome_spec_def attempt_spec_def replied_spec_def)
    qed
  next
    case (Some r1)
    then show ?thesis using gs assms(4) g \<open>rq_to_bytes rq MAX_BODY = Some body\<close>
      by (auto simp: proxy_request_def outcome_spec_def)
  qed
qed

section \<open>The whole request\<close>

text \<open>What a request leaves behind: attempts on the wire, the health registry, and its records once
  the body, if one is streamed, was polled and dropped.\<close>

fun wire :: "('g, 'm, 'cert, 'sk, 'b) outcome \<Rightarrow> (socket_addr \<times> failure_kind option) list" where
  "wire (Local _ _) = []"
| "wire (Replied l _) = ls_sent l"
| "wire (Upgraded l t) = ls_sent l"
| "wire (Streaming l _ _ _ _) = ls_sent l"

fun health_after :: "health_registry \<Rightarrow> ('g, 'm, 'cert, 'sk, 'b) outcome \<Rightarrow> health_registry" where
  "health_after h (Local _ _) = h"
| "health_after h (Replied l _) = ls_health l"
| "health_after h (Upgraded l t) = ls_health l"
| "health_after h (Streaming l _ _ _ _) = ls_health l"

fun records_after :: "'g wasm_env \<Rightarrow> inner_poll list \<Rightarrow> ('g, 'm, 'cert, 'sk, 'b) outcome \<Rightarrow> event list" where
  "records_after W ps (Local _ ev) = ev"
| "records_after W ps (Replied l _) = ls_events l"
| "records_after W ps (Upgraded l t) = ls_events l"
| "records_after W ps (Streaming _ _ _ _ fb) = fb_events (drop_body W (fst (polls W fb ps)))"

text \<open>A configuration in use: weights are positive, the registry and the stores are well formed.\<close>

definition app_inv :: "('cert, 'sk) app_state \<Rightarrow> bool" where
  "app_inv st \<longleftrightarrow>
     health_inv (as_health st) \<and> (\<forall>n u. as_upstreams st n = Some u \<longrightarrow> weighted u)
     \<and> (\<forall>p \<in> set (as_plugins st). hs_inv (lp_state p))"

definition start_state ::
  "('cert, 'sk) app_state \<Rightarrow> u64 \<Rightarrow> req_ctx \<Rightarrow> ('cert, 'sk) upstream_rt \<Rightarrow> ('g, 'cert, 'sk) lstate" where
  "start_state st now ctx u = \<lparr>ls_health = as_health st, ls_pool = as_pool st, ls_up = u,
     ls_session = session_new (as_plugins st) ctx (peer_views (as_health st) u now), ls_events = [], ls_sent = []\<rparr>"

lemma start_state_pre:
  assumes "app_inv st" "as_upstreams st n = Some u" "rc_tried ctx = []"
  shows "pre_loop (start_state st now ctx u) (start_state st now ctx u)"
    and "length (ss_peers (ls_session (start_state st now ctx u))) = length (up_peers (ur_up u))"
  using assms sess_inv_new [of "as_plugins st"]
  by (auto simp: pre_loop_def base_def start_state_def app_inv_def session_new_def peer_views_def)

lemma start_state_simps [simp]:
  "ls_up (start_state st now ctx u) = u" "ls_health (start_state st now ctx u) = as_health st"
  "ls_events (start_state st now ctx u) = []" "ls_sent (start_state st now ctx u) = []"
  by (simp_all add: start_state_def)

definition request_ctx :: "('m, 'v) http_lib \<Rightarrow> 'v request \<Rightarrow> nat option \<times> rstr option \<Rightarrow> req_ctx" where
  "request_ctx H rq = make_req_ctx (rq_method rq) (rq_path rq)
     (case rq_query rq of Some q \<Rightarrow> q | None \<Rightarrow> []) (if rq_http2 rq then ''HTTP/2'' else ''HTTP/1.1'')
     (rq_remote rq) (fold_h2_authority (visible_headers H (rq_headers rq)) (rq_authority rq))"

definition request_route :: "('m, 'v) http_lib \<Rightarrow> ('cert, 'sk) app_state \<Rightarrow> 'v request \<Rightarrow> nat option" where
  "request_route H st rq = match_route (as_routes st)
     (request_host (fold_h2_authority (visible_headers H (rq_headers rq)) (rq_authority rq))) (rq_path rq)"

lemma request_ctx_untried [simp]: "rc_tried (request_ctx H rq r) = []"
  by (simp add: request_ctx_def make_req_ctx_def)

lemma handle_request_cases:
  assumes "handle_request E now st rq = Return (out, label)"
  obtains (local) r ev where "out = Local r ev"
      "log_lines ev = [] \<and> \<not> as_log_on_no_route st \<or> (\<exists>e. log_lines ev = [e]) \<and> as_log_on_no_route st"
    | (routed) i u l0 l1 r where "request_route (en_http E) st rq = Some i"
        "as_upstreams st (rt_upstream (as_routes st ! i)) = Some u"
        "l0 = start_state st now (request_ctx (en_http E) rq (Some i, Some (up_name (ur_up u)))) u"
        "gate_phases E [PostRead, Rewrite, Access] l0 = (l1, r)"
        "(\<exists>x. r = Some x \<and> out = Replied l1 x) \<or> r = None \<and> out = Upgraded l1 (route_timeout (rt_timeout_ms (as_routes st ! i)))
         \<or> r = None \<and> proxy_request E rq (route_timeout (rt_timeout_ms (as_routes st ! i))) l1 = Return out"
proof (cases "request_route (en_http E) st rq")
  case None
  then show ?thesis
    using assms unfolding request_route_def
    by (intro local) (auto simp: handle_request_def Let_def finish_log_def split: prod.splits)
next
  case (Some i)
  note rt = Some [unfolded request_route_def]
  show ?thesis
  proof (cases "as_upstreams st (rt_upstream (as_routes st ! i))")
    case None
    then show ?thesis
      using assms rt by (intro local) (auto simp: handle_request_def Let_def finish_log_def split: prod.splits)
  next
    case (Some u)
    define l0 :: "('a, 'c, 'd) lstate" where
      "l0 = start_state st now (request_ctx (en_http E) rq (Some i, Some (up_name (ur_up u)))) u"
    obtain l1 r where g: "gate_phases E [PostRead, Rewrite, Access] l0 = (l1, r)" by fastforce
    show ?thesis
    proof (rule routed [OF \<open>request_route (en_http E) st rq = Some i\<close> Some l0_def g])
      note h = assms [unfolded handle_request_def Let_def, simplified rt Some option.case,
          folded request_ctx_def start_state_def, folded l0_def, simplified g prod.case]
      show "(\<exists>x. r = Some x \<and> out = Replied l1 x) \<or> r = None \<and> out = Upgraded l1 (route_timeout (rt_timeout_ms (as_routes st ! i)))
         \<or> r = None \<and> proxy_request E rq (route_timeout (rt_timeout_ms (as_routes st ! i))) l1 = Return out"
        using h by (cases r) (auto split: if_splits)
    qed
  qed
qed

lemma handle_request_spec:
  assumes "handle_request E now st rq = Return (out, label)" "app_inv st"
  obtains (local) r ev where "out = Local r ev"
      "log_lines ev = [] \<and> \<not> as_log_on_no_route st \<or> (\<exists>e. log_lines ev = [e]) \<and> as_log_on_no_route st"
    | (routed) i u l0 where "request_route (en_http E) st rq = Some i"
        "as_upstreams st (rt_upstream (as_routes st ! i)) = Some u"
        "ls_up l0 = u" "ls_health l0 = as_health st" "ls_events l0 = []"
        "outcome_spec (rq_method rq) l0 (Suc (unat (up_retries (ur_up u)))) out"
  using assms(1)
proof (cases rule: handle_request_cases)
  case (local r ev)
  then show ?thesis by (rule that(1))
next
  case (routed i u l0 l1 r)
  have st: "pre_loop l0 l0" "length (ss_peers (ls_session l0)) = length (up_peers (ur_up u))"
    unfolding routed(3) by (rule start_state_pre [OF assms(2) routed(2)], simp)+
  note g = gate_phases_spec [OF st(1) routed(4)]
  have "up_of l0 = ur_up u" "weighted (ls_up l0)" using assms(2) routed(2) by (auto simp: routed(3) app_inv_def)
  moreover have "length (ss_peers (ls_session l0)) = length (up_peers (up_of l0))"
    using st(2) by (simp add: routed(3))
  ultimately have "outcome_spec (rq_method rq) l0 (Suc (unat (up_retries (ur_up u)))) out"
    using g routed(5) proxy_request_spec [of l0 l1 E rq _ out] by (auto simp: outcome_spec_def)
  then show ?thesis by (intro that(2) [OF routed(1,2)]) (simp_all add: routed(3))
qed

section \<open>Requests always return\<close>

text \<open>The TLS server name of an upstream with peers parses, so that building a client cannot panic.\<close>

definition names_ok :: "('g, 'm, 'v, 'cert, 'sk, 'b) hr_env \<Rightarrow> ('cert, 'sk) upstream \<Rightarrow> bool" where
  "names_ok E up \<longleftrightarrow>
     (\<forall>tls a. up_tls up = Some tls \<longrightarrow> up_peers up \<noteq> [] \<longrightarrow> nt_name_valid (en_net E a) (ut_server_name tls))"

lemma forward_peer_total:
  assumes "names_ok E up" "up_peers up \<noteq> []"
  shows "\<exists>x. forward_peer H (en_net E a) pool up peer req = Return x"
  using assms
  by (auto simp: forward_peer_def names_ok_def get_tls_def build_tls_client_def Let_def split: option.splits prod.splits)

lemma attempt_once_total:
  assumes "linv m l0 l" "weighted (ls_up l0)" "names_ok E (up_of l0)"
  shows "\<exists>r. attempt_once E req timeout attempts a l = Return r"
proof -
  define la where "la = on_ctx (\<lambda>c. c\<lparr>rc_attempts := of_nat a + 1, rc_peer_index := None\<rparr>) l"
  have la: "linv m l0 la" unfolding la_def by (rule linv_on_ctx [OF assms(1)])
  have w: "weighted (ls_up la)" and inv: "sess_inv (ls_session la)" and nm: "names_ok E (up_of la)"
    using la assms(2,3) by (simp_all add: linv_def base_def weighted_def)
  obtain h u s p where pk: "pick_peer (en_wasm E) (en_now E a) (ls_health la) (ls_up la) (ls_session la) = Return (h, u, s, p)"
    and u: "ur_up u = up_of la" and i: "\<forall>i. p = PickPeer i \<longrightarrow> i < length (up_peers (up_of la))"
    using pick_peer_total [OF w inv, of "en_wasm E" "en_now E a" "ls_health la"] by force
  have "\<exists>pool res. forward_peer (en_http E) (en_net E a) (ls_pool la) (ur_up u) peer req = Return (pool, res)"
    if "p = PickPeer i" for i peer
    using forward_peer_total [OF nm, of "en_http E" a "ls_pool la" peer req] i that unfolding u by fastforce
  then show ?thesis
    unfolding attempt_once_def Let_def la_def [symmetric] pk
    by (cases p) (simp_all add: send_attempt_def Let_def)
qed

lemma attempt_loop_total:
  assumes "linv m l0 l" "weighted (ls_up l0)" "names_ok E (up_of l0)" "fr_method req = m"
  shows "\<exists>r. attempt_loop E req timeout attempts as l = Return r"
  using assms
proof (induction as arbitrary: l)
  case (Cons a as)
  from attempt_once_total [OF Cons.prems(1-3)] obtain r where r: "attempt_once E req timeout attempts a l = Return r" ..
  have "attempt_spec m l0 (Suc (length (ls_sent l))) r"
    by (rule attempt_once_spec [OF Cons.prems(1,2,4) r])
  then show ?case using r Cons.IH Cons.prems by (cases r) (auto simp: attempt_spec_def)
qed simp

lemma proxy_request_total:
  assumes "pre_loop l0 l" "weighted (ls_up l0)" "names_ok E (up_of l0)"
    "length (ss_peers (ls_session l0)) = length (up_peers (up_of l0))"
  shows "\<exists>out. proxy_request E rq timeout l = Return out"
proof (cases "rq_to_bytes rq MAX_BODY")
  case None
  then show ?thesis by (simp add: proxy_request_def)
next
  case (Some body)
  obtain l1 r where g: "gate_phase E Content (l\<lparr>ls_session := set_req_body body (ls_session l)\<rparr>) = (l1, r)" by fastforce
  note gs = gate_phase_spec [OF set_req_body_pre [OF assms(1)] g]
  show ?thesis
  proof (cases r)
    case None
    then have pre: "pre_loop l0 l1" using gs by simp
    define req where "req = \<lparr>fr_method = rq_method rq, fr_path_and_query = path_and_query (ss_ctx (ls_session l1)),
      fr_headers = rc_headers (ss_ctx (ls_session l1)), fr_body = body,
      fr_client_ip = ip_to_string (ip (rq_remote rq))\<rparr>"
    have "\<exists>x. run_attempts E req timeout l1 = Return x"
      unfolding run_attempts_def Let_def by (rule attempt_loop_total [OF pre_loop_linv [OF pre] assms(2,3) refl])
    then obtain x where x: "run_attempts E req timeout l1 = Return x" ..
    then have "attempt_spec (fr_method req) l0 (length (ls_sent l1) + length [0..<unat (up_retries (up_of l1) + 1)]) x"
      unfolding run_attempts_def Let_def by (intro attempt_loop_spec [OF pre_loop_linv [OF pre] assms(2) refl])
    then have "\<exists>out. stream_response E resp l2 = Return out" if "x = Answered l2 resp" for l2 resp
      using stream_response_spec [OF _ assms(4), of "fr_method req" _ l2 resp E] that by blast
    with x show ?thesis
      by (cases x) (auto simp: proxy_request_def Some g None Let_def simp flip: req_def)
  next
    case (Some r1)
    then show ?thesis using g \<open>rq_to_bytes rq MAX_BODY = Some body\<close> by (simp add: proxy_request_def)
  qed
qed

lemma handle_request_total:
  assumes "app_inv st" and "\<forall>n u. as_upstreams st n = Some u \<longrightarrow> names_ok E (ur_up u)"
  shows "\<exists>out label. handle_request E now st rq = Return (out, label)"
proof (cases "request_route (en_http E) st rq")
  case None
  then show ?thesis by (simp add: handle_request_def Let_def request_route_def)
next
  case (Some i)
  note rt = Some [unfolded request_route_def]
  show ?thesis
  proof (cases "as_upstreams st (rt_upstream (as_routes st ! i))")
    case None
    then show ?thesis using rt by (simp add: handle_request_def Let_def)
  next
    case (Some u)
    define l0 :: "('c, 'a, 'b) lstate" where
      "l0 = start_state st now (request_ctx (en_http E) rq (Some i, Some (up_name (ur_up u)))) u"
    obtain l1 r where g: "gate_phases E [PostRead, Rewrite, Access] l0 = (l1, r)" by fastforce
    have l0: "pre_loop l0 l0" "length (ss_peers (ls_session l0)) = length (up_peers (ur_up u))"
      unfolding l0_def by (rule start_state_pre [OF assms(1) Some], simp)+
    have u: "ls_up l0 = u" "weighted (ls_up l0)" using assms(1) Some by (auto simp: l0_def app_inv_def)
    have "\<exists>out. proxy_request E rq t l1 = Return out" if "r = None" for t
      using gate_phases_spec [OF l0(1) g] that l0(2) assms(2) Some u by (intro proxy_request_total) auto
    then show ?thesis
      unfolding handle_request_def Let_def
      by (simp only: rt Some option.case request_ctx_def [symmetric] start_state_def [symmetric] l0_def [symmetric] g prod.case)
        (cases r; auto)
  qed
qed

section \<open>A concrete request\<close>

text \<open>One route to an upstream of two peers, and a network on which the first attempt cannot connect
  and later ones answer 200.\<close>

definition sample_app :: "(nat, nat) app_state" where
  "sample_app = \<lparr>as_routes = [sample_route ''/'' None False], as_upstreams = [''u'' \<mapsto> sample_upstream Swrr],
     as_plugins = [sample_plugin ''a'' FailOpen], as_log_on_no_route = True,
     as_health = register health_new ''u'' [sample_addr 1, sample_addr 2],
     as_pool = \<lparr>po_http = Map.empty, po_https = Map.empty\<rparr>\<rparr>"

definition sample_hr_env :: "(unit, header list, rstr, nat, nat, rstr) hr_env" where
  "sample_hr_env =
     (let refused = Inl \<lparr>ce_is_connect = True, ce_debug = [], ce_message = [], ce_sources = []\<rparr>
      in \<lparr>en_wasm = sample_env, en_http = sample_http_lib,
          en_net = (\<lambda>a. \<lparr>nt_http = (\<lambda>_ _. if a = 0 then refused
              else Inr \<lparr>us_status = 200, us_headers = [], us_body = ''hi''\<rparr>),
            nt_https = (\<lambda>_ _. refused), nt_name_valid = (\<lambda>_. True)\<rparr>),
          en_timeout = (\<lambda>_. False), en_now = (\<lambda>_ _. 5)\<rparr>)"

definition sample_rq :: "rstr request" where
  "sample_rq = \<lparr>rq_method = ''POST'', rq_path = ''/x'', rq_query = None, rq_http2 = False, rq_headers = [],
     rq_authority = None, rq_remote = sample_addr 9, rq_to_bytes = (\<lambda>_. Some [])\<rparr>"

lemma sample_app_inv: "app_inv sample_app"
  by (auto simp: app_inv_def sample_app_def weighted_def sample_upstream_def sample_plugin_def hs_inv_new
      health_inv_register [OF health.inv_init] split: if_splits)

lemma sample_names_ok: "\<forall>n u. as_upstreams sample_app n = Some u \<longrightarrow> names_ok sample_hr_env (ur_up u)"
  by (simp add: names_ok_def sample_hr_env_def Let_def)

lemma sample_runs: "\<exists>out label. handle_request sample_hr_env 5 sample_app sample_rq = Return (out, label)"
  by (rule handle_request_total [OF sample_app_inv sample_names_ok])

section \<open>Properties\<close>





text \<open>
  C28: one access-log line per request. Once its body was polled any number of times and dropped, a
  request has written exactly one log line; a request that no route or upstream serves writes one
  only with \<open>log_on_no_route\<close>, and one handed over to the WebSocket proxy none, since the session
  goes with it.
\<close>

theorem request_logged_once:
  assumes "handle_request E now st rq = Return (out, label)" and "app_inv st"
  shows "length (log_lines (records_after (en_wasm E) ps out)) =
    (case out of Local _ _ \<Rightarrow> if as_log_on_no_route st then 1 else 0 | Upgraded _ _ \<Rightarrow> 0 | _ \<Rightarrow> 1)"
  using assms
proof (cases rule: handle_request_spec)
  case (routed i u l0)
  show ?thesis
  proof (cases out)
    case (Streaming l c hs b fb)
    then have fb: "body_fresh fb" "log_lines (fb_events fb) = []"
      using routed(5,6) by (auto simp: outcome_spec_def)
    obtain b' rs where p: "polls (en_wasm E) fb ps = (b', rs)" by fastforce
    show ?thesis
      using polls_spec [OF fb(1), of ps "en_wasm E"] p fb(2) finalize_fresh [of b' "en_wasm E"] Streaming
      by (auto simp: Let_def body_fresh_def body_done_def drop_body_def split: if_splits)
  qed (use routed in \<open>auto simp: outcome_spec_def replied_spec_def pre_loop_def\<close>)
qed auto

theorem request_logged_once_witness:
  "app_inv sample_app \<and> (\<exists>out label. handle_request sample_hr_env 5 sample_app sample_rq = Return (out, label)
     \<and> length (log_lines (records_after sample_env [InnerFrame (Some ''hi''), InnerEnd] out)) =
         (case out of Local _ _ \<Rightarrow> 1 | Upgraded _ _ \<Rightarrow> 0 | _ \<Rightarrow> 1))"
proof -
  obtain out label where r: "handle_request sample_hr_env 5 sample_app sample_rq = Return (out, label)"
    using sample_runs by blast
  have "en_wasm sample_hr_env = sample_env" "as_log_on_no_route sample_app"
    by (simp_all add: sample_hr_env_def sample_app_def Let_def)
  with request_logged_once [OF r sample_app_inv, of "[InnerFrame (Some ''hi''), InnerEnd]"] r sample_app_inv
  show ?thesis by auto
qed



end
