(* ===== verification/Resolve.thy ===== *)
theory Resolve
  imports Upstream
begin

text \<open>
  DNS endpoints of upstreams (\<open>crates/openrusty-proxy/src/resolve.rs\<close>). The resolver is an argument:
  it maps a \<open>host:port\<close> string to addresses, \<open>None\<close> when the lookup fails.
\<close>

section \<open>Operations\<close>

text \<open>\<open>addrs.filter(|a| seen.insert(a))\<close>.\<close>

fun insert_new :: "socket_addr list \<Rightarrow> socket_addr set \<Rightarrow> socket_addr list \<times> socket_addr set" where
  "insert_new [] seen = ([], seen)"
| "insert_new (a # as) seen =
     (if a \<in> seen then insert_new as seen
      else case insert_new as (insert a seen) of (r, s) \<Rightarrow> (a # r, s))"

definition resolve_endpoint :: "resolver \<Rightarrow> rstr \<Rightarrow> socket_addr set \<Rightarrow> socket_addr list \<times> socket_addr set" where
  "resolve_endpoint dns endpoint seen =
     (case dns endpoint of Some addrs \<Rightarrow> insert_new addrs seen | None \<Rightarrow> ([], seen))"

definition merge_resolved :: "upstream_config \<Rightarrow> socket_addr list \<Rightarrow> upstream_config" where
  "merge_resolved cfg resolved =
     cfg\<lparr>uc_peers := uc_peers cfg @ map (\<lambda>addr. \<lparr>pc_addr = addr, pc_weight = 1\<rparr>) resolved, uc_endpoints := []\<rparr>"

fun resolve_endpoints :: "resolver \<Rightarrow> rstr list \<Rightarrow> socket_addr set \<Rightarrow> socket_addr list" where
  "resolve_endpoints dns [] seen = []"
| "resolve_endpoints dns (e # es) seen =
     (case resolve_endpoint dns e seen of (r, seen') \<Rightarrow> r @ resolve_endpoints dns es seen')"

definition resolve_upstream :: "resolver \<Rightarrow> upstream_config \<Rightarrow> upstream_config" where
  "resolve_upstream dns up =
     (if uc_endpoints up = [] then up
      else
        let resolved = resolve_endpoints dns (uc_endpoints up) (pc_addr ` set (uc_peers up))
        in if resolved = [] then up\<lparr>uc_endpoints := []\<rparr> else merge_resolved up resolved)"

definition resolve_config :: "resolver \<Rightarrow> config \<Rightarrow> config" where
  "resolve_config dns cfg = cfg\<lparr>cf_upstreams := map (resolve_upstream dns) (cf_upstreams cfg)\<rparr>"

section \<open>Lemmas\<close>

lemma insert_new_snd: "snd (insert_new as seen) = seen \<union> set as"
  by (induction as arbitrary: seen) (auto simp: case_prod_beta')

lemma insert_new_fst: "set (fst (insert_new as seen)) = set as - seen \<and> distinct (fst (insert_new as seen))"
  by (induction as arbitrary: seen) (simp_all add: case_prod_beta', blast)

lemma resolve_endpoint_spec:
  assumes "resolve_endpoint dns e seen = (r, s)"
  shows "set r = \<Union> (set ` set_option (dns e)) - seen" "s = seen \<union> set r" "distinct r"
  using assms insert_new_fst insert_new_snd
  by (auto simp: resolve_endpoint_def prod_eq_iff split: option.splits)

lemma resolve_endpoints_spec:
  "distinct (resolve_endpoints dns es seen)
   \<and> set (resolve_endpoints dns es seen) = (\<Union>e \<in> set es. \<Union> (set ` set_option (dns e))) - seen"
proof (induction es arbitrary: seen)
  case (Cons e es)
  obtain r s where r: "resolve_endpoint dns e seen = (r, s)" by fastforce
  note sp = resolve_endpoint_spec [OF r]
  show ?case using Cons [of s] sp by (auto simp: r)
qed simp

lemma resolve_upstream_eq:
  "resolve_upstream dns up =
     up\<lparr>uc_peers := uc_peers up @ map (\<lambda>addr. \<lparr>pc_addr = addr, pc_weight = 1\<rparr>)
          (resolve_endpoints dns (uc_endpoints up) (pc_addr ` set (uc_peers up))), uc_endpoints := []\<rparr>"
  by (simp add: resolve_upstream_def merge_resolved_def Let_def)

lemma resolve_config_names [simp]: "map uc_name (cf_upstreams (resolve_config dns cfg)) = map uc_name (cf_upstreams cfg)"
  by (simp add: resolve_config_def resolve_upstream_eq)

lemma resolve_weights:
  assumes "\<forall>u \<in> set (cf_upstreams cfg). \<forall>p \<in> set (uc_peers u). pc_weight p \<noteq> 0"
  shows "\<forall>u \<in> set (cf_upstreams (resolve_config dns cfg)). \<forall>p \<in> set (uc_peers u). pc_weight p \<noteq> 0"
  using assms by (auto simp: resolve_config_def resolve_upstream_eq)

section \<open>The specification of resolution\<close>

text \<open>
  Folding DNS endpoints into peers. Every upstream keeps its settings and its static peers, in
  order and in front; each address any of its endpoints resolves to appears as exactly one further
  peer of weight one unless a static peer already has it; no endpoint is left. A failing lookup
  only contributes nothing, it never affects another upstream.
\<close>

lemma resolve_config_spec:
  "cf_upstreams (resolve_config dns cfg) = map (resolve_upstream dns) (cf_upstreams cfg)
   \<and> cf_routes (resolve_config dns cfg) = cf_routes cfg
   \<and> (\<exists>new. resolve_upstream dns u = u\<lparr>uc_peers := uc_peers u @ new, uc_endpoints := []\<rparr>
        \<and> map pc_weight new = replicate (length new) 1 \<and> distinct (map pc_addr new)
        \<and> pc_addr ` set new = (\<Union>e \<in> set (uc_endpoints u). \<Union> (set ` set_option (dns e))) - pc_addr ` set (uc_peers u))"
proof -
  let ?r = "resolve_endpoints dns (uc_endpoints u) (pc_addr ` set (uc_peers u))"
  let ?new = "map (\<lambda>addr. \<lparr>pc_addr = addr, pc_weight = 1\<rparr>) ?r"
  note sp = resolve_endpoints_spec [of dns "uc_endpoints u" "pc_addr ` set (uc_peers u)"]
  have "map pc_addr ?new = ?r" by (simp add: comp_def)
  moreover have "pc_addr ` set ?new = set ?r" by force
  moreover have "map pc_weight ?new = replicate (length ?new) 1" by (simp add: comp_def map_replicate_const)
  ultimately show ?thesis
    using sp by (intro conjI exI [of _ ?new]) (simp_all add: resolve_config_def resolve_upstream_eq)
qed

end
