(* ===== verification/Registry.thy ===== *)
theory Registry
  imports Session Config
begin

text \<open>
  The plugin registry (\<open>crates/openrusty-wasm/src/registry.rs\<close>, \<open>registry_validate.rs\<close>): discovery,
  order, loading with state carried over by name, and the atomically published snapshot. The
  directory listing, the files and the answers of wasmtime are arguments. The snapshot cell holds
  an identity besides the snapshot, so that a compare-and-swap on the \<open>Arc\<close> pointer is expressible;
  what other writers publish while a reload builds is an argument too.
\<close>

section \<open>Snapshots\<close>

record loaded_plugin = plugin +
  lp_module :: rstr
  lp_has_dealloc :: bool

record plugin_snapshot =
  sn_generation :: u64
  sn_plugins :: "loaded_plugin list"

definition RELOAD_ATTEMPTS :: nat where "RELOAD_ATTEMPTS = 3"

datatype reload_error =
    RlIo rstr
  | RlCompile rstr rstr
  | RlAbi rstr rstr
  | RlConflict

text \<open>Linear-memory bytes of a pool slot, in 64-bit \<open>usize\<close>.\<close>

definition WASM_PAGE :: u64 where "WASM_PAGE = 64 * 1024"
definition MAX_SLOT :: u64 where "MAX_SLOT = 4 * 1024 * 1024 * 1024 - WASM_PAGE"

definition memory_slot_bytes :: "u32 \<Rightarrow> u64" where
  "memory_slot_bytes max_memory_mb =
     (let bytes = saturating_mul (ucast max_memory_mb) (1024 * 1024)
      in min ((bytes + WASM_PAGE - 1) div WASM_PAGE * WASM_PAGE) MAX_SLOT)"

section \<open>Discovery and order\<close>

text \<open>A directory entry: unreadable, or its extension, its stat (regular file or not) and its UTF-8 stem.\<close>

datatype dir_entry =
    EntryErr
  | Entry (en_extension: "rstr option") (en_is_file: "bool option") (en_stem: "rstr option")

fun discover_loop :: "dir_entry list \<Rightarrow> rstr list" where
  "discover_loop [] = []"
| "discover_loop (EntryErr # es) = discover_loop es"
| "discover_loop (Entry ext is_file stem # es) =
     (if ext \<noteq> Some ''wasm'' then discover_loop es
      else if is_file \<noteq> Some True then discover_loop es
      else (case stem of Some s \<Rightarrow> s # discover_loop es | None \<Rightarrow> discover_loop es))"

definition discover :: "rstr + dir_entry list \<Rightarrow> reload_error + rstr list" where
  "discover entries = and_then (map_err RlIo entries) (\<lambda>es. Inr (sort (discover_loop es)))"

fun push_missing :: "rstr list \<Rightarrow> rstr list \<Rightarrow> rstr list" where
  "push_missing out [] = out"
| "push_missing out (f # fs) = push_missing (if f \<in> set out then out else out @ [f]) fs"

definition order_plugins :: "rstr list \<Rightarrow> rstr list \<Rightarrow> rstr list" where
  "order_plugins files order = push_missing (filter (\<lambda>n. n \<in> set files) order) files"

section \<open>Loading\<close>

text \<open>What reading, compiling, validating and pre-linking a module answer; a module is its bytes.\<close>

record loader =
  ld_dir :: "rstr + dir_entry list"
  ld_read :: "rstr \<Rightarrow> rstr + rstr"
  ld_compile :: "rstr \<Rightarrow> rstr + unit"
  ld_validate :: "rstr \<Rightarrow> rstr + bool"
  ld_pre :: "rstr \<Rightarrow> rstr + unit"

definition prev_state :: "plugin_snapshot option \<Rightarrow> rstr \<Rightarrow> host_state option" where
  "prev_state prev name =
     (case prev of None \<Rightarrow> None
      | Some s \<Rightarrow> map_of (rev (map (\<lambda>p. (lp_name p, lp_state p)) (sn_plugins s))) name)"

definition plugin_settings :: "(rstr \<times> (rstr \<times> rstr) list) list \<Rightarrow> rstr \<Rightarrow> rstr \<rightharpoonup> rstr" where
  "plugin_settings settings name = (case map_of settings name of Some kvs \<Rightarrow> map_of kvs | None \<Rightarrow> Map.empty)"

definition load_plugin :: "loader \<Rightarrow> plugins_config \<Rightarrow> plugin_snapshot option \<Rightarrow> rstr \<Rightarrow> reload_error + loaded_plugin" where
  "load_plugin L cfg prev name =
     and_then (map_err RlIo (ld_read L name)) (\<lambda>bytes.
     and_then (map_err (RlCompile name) (ld_compile L bytes)) (\<lambda>_.
     and_then (map_err (RlAbi name) (ld_validate L bytes)) (\<lambda>has_dealloc.
     and_then (map_err (\<lambda>e. RlAbi name (''instantiate_pre: '' @ e)) (ld_pre L bytes)) (\<lambda>_.
       Inr \<lparr>lp_name = name,
            lp_state = (case prev_state prev name of Some s \<Rightarrow> s | None \<Rightarrow> host_state_new name),
            lp_settings = plugin_settings (pl_settings cfg) name, lp_timeout = pl_timeout_ms cfg,
            lp_fail_policy = pl_on_failure cfg, lp_memory_mb = pl_max_memory_mb cfg,
            lp_module = bytes, lp_has_dealloc = has_dealloc\<rparr>))))"

fun load_plugins ::
  "loader \<Rightarrow> plugins_config \<Rightarrow> rstr list \<Rightarrow> plugin_snapshot option \<Rightarrow> reload_error + loaded_plugin list" where
  "load_plugins L cfg [] prev = Inr []"
| "load_plugins L cfg (n # ns) prev =
     and_then (load_plugin L cfg prev n) (\<lambda>p.
     and_then (load_plugins L cfg ns prev) (\<lambda>ps. Inr (p # ps)))"

section \<open>Bootstrap and reload\<close>

record snapshot_cell =
  ce_ptr :: nat
  ce_snap :: plugin_snapshot

definition registry_bootstrap ::
  "rstr + unit \<Rightarrow> rstr + unit \<Rightarrow> loader \<Rightarrow> plugins_config \<Rightarrow> reload_error + snapshot_cell" where
  "registry_bootstrap engine linker L cfg =
     and_then (map_err (RlAbi ''engine'') engine) (\<lambda>_.
     and_then (map_err (RlAbi ''linker'') linker) (\<lambda>_.
     and_then
       (case discover (ld_dir L) of
          Inr names \<Rightarrow>
            if names \<noteq> [] then
              and_then (load_plugins L cfg (order_plugins names (pl_order cfg)) None)
                (\<lambda>ps. Inr \<lparr>sn_generation = 1, sn_plugins = ps\<rparr>)
            else Inr \<lparr>sn_generation = 0, sn_plugins = []\<rparr>
        | Inl _ \<Rightarrow> Inr \<lparr>sn_generation = 0, sn_plugins = []\<rparr>)
       (\<lambda>snap. Inr \<lparr>ce_ptr = 0, ce_snap = snap\<rparr>)))"

definition build_snapshot :: "loader \<Rightarrow> plugins_config \<Rightarrow> plugin_snapshot \<Rightarrow> reload_error + plugin_snapshot" where
  "build_snapshot L cfg current =
     and_then (discover (ld_dir L)) (\<lambda>names.
     and_then (load_plugins L cfg (order_plugins names (pl_order cfg)) (Some current)) (\<lambda>ps.
       Inr \<lparr>sn_generation = sn_generation current + 1, sn_plugins = ps\<rparr>))"

text \<open>
  One round per attempt: \<open>work\<close> is the loader of the round or the error of its blocking task, \<open>env\<close>
  what the cell holds when the round publishes.
\<close>

fun reload_loop ::
  "(nat \<Rightarrow> snapshot_cell \<Rightarrow> snapshot_cell) \<Rightarrow> (nat \<Rightarrow> rstr + loader) \<Rightarrow> plugins_config \<Rightarrow> nat list
   \<Rightarrow> snapshot_cell \<Rightarrow> snapshot_cell \<times> (reload_error + u64)" where
  "reload_loop env work cfg [] cell = (cell, Inl RlConflict)"
| "reload_loop env work cfg (i # is) cell =
     (let cell' = env i cell in
      case and_then (map_err RlIo (work i)) (\<lambda>L. build_snapshot L cfg (ce_snap cell)) of
        Inl e \<Rightarrow> (cell', Inl e)
      | Inr snap \<Rightarrow>
          if ce_ptr cell' = ce_ptr cell
          then (\<lparr>ce_ptr = Suc (ce_ptr cell'), ce_snap = snap\<rparr>, Inr (sn_generation snap))
          else reload_loop env work cfg is cell')"

definition registry_reload ::
  "(nat \<Rightarrow> snapshot_cell \<Rightarrow> snapshot_cell) \<Rightarrow> (nat \<Rightarrow> rstr + loader) \<Rightarrow> plugins_config
   \<Rightarrow> snapshot_cell \<Rightarrow> snapshot_cell \<times> (reload_error + u64)" where
  "registry_reload env work cfg cell = reload_loop env work cfg [0..<RELOAD_ATTEMPTS] cell"

definition registry_status :: "snapshot_cell \<Rightarrow> (rstr \<times> u64) list" where
  "registry_status cell = map (\<lambda>p. (lp_name p, error_count (lp_state p))) (sn_plugins (ce_snap cell))"

definition metric_view :: "snapshot_cell \<Rightarrow> (rstr \<times> (rstr \<times> u64) list \<times> nat) list" where
  "metric_view cell =
     map (\<lambda>p. (lp_name p, error_kinds (lp_state p), kv_len (lp_state p))) (sn_plugins (ce_snap cell))"

section \<open>Lemmas\<close>

lemma set_discover_loop:
  "n \<in> set (discover_loop es) \<longleftrightarrow> Entry (Some ''wasm'') (Some True) (Some n) \<in> set es"
  by (induction es rule: discover_loop.induct) (auto split: option.splits)

lemma push_missing_eq:
  "distinct fs \<Longrightarrow> push_missing out fs = out @ filter (\<lambda>f. f \<notin> set out) fs"
proof (induction out fs rule: push_missing.induct)
  case (2 out f fs)
  then have "filter (\<lambda>g. g \<notin> set (out @ [f])) fs = filter (\<lambda>g. g \<notin> set out) fs"
    by (intro filter_cong) auto
  with 2 show ?case by simp
qed simp

lemma order_plugins_eq:
  assumes "distinct files"
  shows "order_plugins files order =
    filter (\<lambda>n. n \<in> set files) order @ filter (\<lambda>f. f \<notin> set order) files"
proof -
  have "filter (\<lambda>f. f \<notin> set (filter (\<lambda>n. n \<in> set files) order)) files = filter (\<lambda>f. f \<notin> set order) files"
    by (rule filter_cong) auto
  then show ?thesis by (simp add: order_plugins_def push_missing_eq [OF assms])
qed

lemma load_plugins_Inr:
  assumes "load_plugins L cfg ns prev = Inr ps"
  shows "map lp_name ps = ns \<and> (\<forall>p \<in> set ps. load_plugin L cfg prev (lp_name p) = Inr p)"
  using assms
proof (induction ns arbitrary: ps)
  case (Cons n ns)
  then obtain p ps' where p: "load_plugin L cfg prev n = Inr p" "load_plugins L cfg ns prev = Inr ps'" "ps = p # ps'"
    by auto
  then have "lp_name p = n" by (auto simp: load_plugin_def)
  with Cons.IH [OF p(2)] p show ?case by auto
qed simp

lemma load_plugin_Inr:
  assumes "load_plugin L cfg prev n = Inr p"
  shows "lp_name p = n \<and> lp_state p = (case prev_state prev n of Some s \<Rightarrow> s | None \<Rightarrow> host_state_new n)
    \<and> lp_timeout p = pl_timeout_ms cfg \<and> lp_fail_policy p = pl_on_failure cfg \<and> lp_memory_mb p = pl_max_memory_mb cfg"
  using assms by (auto simp: load_plugin_def)

text \<open>The cell as other writers left it after \<open>k\<close> rounds.\<close>

definition others :: "(nat \<Rightarrow> snapshot_cell \<Rightarrow> snapshot_cell) \<Rightarrow> nat \<Rightarrow> nat \<Rightarrow> snapshot_cell \<Rightarrow> snapshot_cell" where
  "others env i k cell = fold env [i..<i + k] cell"

lemma others_simps [simp]:
  "others env i 0 cell = cell" "others env i (Suc k) cell = others env (Suc i) k (env i cell)"
  by (simp_all add: others_def upt_conv_Cons del: upt_Suc)

definition snapshot_of :: "loader \<Rightarrow> plugins_config \<Rightarrow> plugin_snapshot \<Rightarrow> plugin_snapshot \<Rightarrow> bool" where
  "snapshot_of L cfg cur new \<longleftrightarrow>
     sn_generation new = sn_generation cur + 1
     \<and> (\<exists>names. discover (ld_dir L) = Inr names \<and> map lp_name (sn_plugins new) = order_plugins names (pl_order cfg))
     \<and> (\<forall>p \<in> set (sn_plugins new).
          lp_state p = (case prev_state (Some cur) (lp_name p) of Some s \<Rightarrow> s | None \<Rightarrow> host_state_new (lp_name p))
          \<and> lp_timeout p = pl_timeout_ms cfg \<and> lp_fail_policy p = pl_on_failure cfg)"

lemma build_snapshot_Inr:
  assumes "build_snapshot L cfg cur = Inr new"
  shows "snapshot_of L cfg cur new"
  using assms load_plugins_Inr load_plugin_Inr
  by (fastforce simp: build_snapshot_def snapshot_of_def)

lemma reload_loop_spec:
  assumes "reload_loop env work cfg [i..<i + n] cell = (cell', r)"
  shows "case r of
      Inl e \<Rightarrow> \<exists>k \<le> n. cell' = others env i k cell
    | Inr g \<Rightarrow> \<exists>k < n. \<exists>L. let cur = others env i k cell in
        ce_ptr (env (i + k) cur) = ce_ptr cur \<and> work (i + k) = Inr L
        \<and> snapshot_of L cfg (ce_snap cur) (ce_snap cell') \<and> g = sn_generation (ce_snap cell')"
  using assms
proof (induction n arbitrary: i cell)
  case 0
  then show ?case by auto
next
  case (Suc n)
  have range: "[i..<i + Suc n] = i # [Suc i..<Suc i + n]" by (simp add: upt_conv_Cons del: upt_Suc)
  let ?b = "and_then (map_err RlIo (work i)) (\<lambda>L. build_snapshot L cfg (ce_snap cell))"
  show ?case
  proof (cases ?b)
    case (Inl e)
    then show ?thesis using Suc.prems unfolding range
      by (auto simp: Let_def intro!: exI [of _ 1])
  next
    case (Inr snap)
    then obtain L where L: "work i = Inr L" "build_snapshot L cfg (ce_snap cell) = Inr snap" by auto
    show ?thesis
    proof (cases "ce_ptr (env i cell) = ce_ptr cell")
      case True
      then have "cell' = \<lparr>ce_ptr = Suc (ce_ptr cell), ce_snap = snap\<rparr>" "r = Inr (sn_generation snap)"
        using Suc.prems L unfolding range by (auto simp: Let_def)
      then show ?thesis using True L build_snapshot_Inr [OF L(2)] by (auto intro!: exI [of _ 0])
    next
      case False
      then have "reload_loop env work cfg [Suc i..<Suc i + n] (env i cell) = (cell', r)"
        using Suc.prems L unfolding range by (auto simp: Let_def)
      from Suc.IH [OF this] show ?thesis
      proof (cases r)
        case (Inl e)
        with Suc.IH [OF \<open>reload_loop env work cfg [Suc i..<Suc i + n] (env i cell) = (cell', r)\<close>]
        obtain k where "k \<le> n" "cell' = others env (Suc i) k (env i cell)" by auto
        then show ?thesis using Inl by (auto intro!: exI [of _ "Suc k"])
      next
        case (Inr g)
        with Suc.IH [OF \<open>reload_loop env work cfg [Suc i..<Suc i + n] (env i cell) = (cell', r)\<close>]
        obtain k L where "k < n" "let cur = others env (Suc i) k (env i cell) in
          ce_ptr (env (Suc i + k) cur) = ce_ptr cur \<and> work (Suc i + k) = Inr L
          \<and> snapshot_of L cfg (ce_snap cur) (ce_snap cell') \<and> g = sn_generation (ce_snap cell')" by auto
        then show ?thesis using Inr by (auto intro!: exI [of _ "Suc k"])
      qed
    qed
  qed
qed

text \<open>Stores stay well formed across reloads.\<close>

definition cell_inv :: "snapshot_cell \<Rightarrow> bool" where
  "cell_inv cell \<longleftrightarrow> (\<forall>p \<in> set (sn_plugins (ce_snap cell)). hs_inv (lp_state p))"

lemma prev_state_inv: "prev_state (Some s) n = Some st \<Longrightarrow> \<exists>p \<in> set (sn_plugins s). st = lp_state p"
  by (auto simp: prev_state_def dest!: map_of_SomeD)

lemma snapshot_of_inv:
  assumes "snapshot_of L cfg (ce_snap cur) (ce_snap new)" "cell_inv cur"
  shows "cell_inv new"
  using assms prev_state_inv by (fastforce simp: snapshot_of_def cell_inv_def hs_inv_new split: option.splits)

lemma bootstrap_inv: "registry_bootstrap eng lnk L cfg = Inr cell \<Longrightarrow> cell_inv cell"
proof -
  assume b: "registry_bootstrap eng lnk L cfg = Inr cell"
  have fresh: "hs_inv (lp_state p)" if ps: "load_plugins L cfg ns None = Inr ps" and p: "p \<in> set ps" for ns ps p
  proof -
    have "load_plugin L cfg None (lp_name p) = Inr p" using load_plugins_Inr [OF ps] p by blast
    from load_plugin_Inr [OF this] have "lp_state p = host_state_new (lp_name p)" by (simp add: prev_state_def)
    then show ?thesis using hs_inv_new [of "lp_name p"] by metis
  qed
  show ?thesis
  proof (cases "\<exists>names. discover (ld_dir L) = Inr names \<and> names \<noteq> []")
    case True
    then obtain names where n: "discover (ld_dir L) = Inr names" "names \<noteq> []" by blast
    then obtain ps where "load_plugins L cfg (order_plugins names (pl_order cfg)) None = Inr ps" "sn_plugins (ce_snap cell) = ps"
      using b unfolding registry_bootstrap_def by auto
    then show ?thesis using fresh by (simp add: cell_inv_def)
  next
    case False
    then have "sn_plugins (ce_snap cell) = []"
      using b unfolding registry_bootstrap_def by (cases "discover (ld_dir L)") auto
    then show ?thesis by (simp add: cell_inv_def)
  qed
qed

text \<open>A pool slot is whole pages, covers the configured memory unless clamped, and stays below 4 GiB.\<close>

lemma memory_slot_bytes_bound: "memory_slot_bytes mb \<le> MAX_SLOT"
  by (simp add: memory_slot_bytes_def Let_def)

lemma order_plugins_set: "distinct files \<Longrightarrow> set (order_plugins files order) = set files"
  by (auto simp: order_plugins_eq)

lemma order_plugins_distinct: "distinct files \<Longrightarrow> distinct order \<Longrightarrow> distinct (order_plugins files order)"
  by (auto simp: order_plugins_eq)

section \<open>Properties\<close>

text \<open>
  C34: publishing a plugin snapshot. Whatever other writers publish meanwhile, a failing reload
  publishes nothing: the cell is what the others left. A successful one publishes at a moment when
  nobody else did since it read the current snapshot: the generation is one more than that
  snapshot's, the plugins are those discovered, the configured order first and the rest sorted, and
  every plugin that existed keeps its state (stored keys and error counts), a new one starts fresh.
\<close>

theorem reload_publishes:
  assumes "registry_reload env work cfg cell = (cell', r)" and "distinct (pl_order cfg)"
    and "\<forall>i L es. work i = Inr L \<and> ld_dir L = Inr es \<longrightarrow> distinct (discover_loop es)"
  shows "case r of
      Inl e \<Rightarrow> \<exists>k \<le> RELOAD_ATTEMPTS. cell' = others env 0 k cell
    | Inr g \<Rightarrow> \<exists>k L names. let cur = others env 0 k cell; ps = sn_plugins (ce_snap cell') in
        k < RELOAD_ATTEMPTS \<and> ce_ptr (env k cur) = ce_ptr cur \<and> work k = Inr L
        \<and> g = sn_generation (ce_snap cur) + 1 \<and> sn_generation (ce_snap cell') = g
        \<and> discover (ld_dir L) = Inr names \<and> sorted names
        \<and> map lp_name ps = filter (\<lambda>n. n \<in> set names) (pl_order cfg) @ filter (\<lambda>n. n \<notin> set (pl_order cfg)) names
        \<and> distinct (map lp_name ps)
        \<and> (\<forall>p \<in> set ps. lp_state p =
             (case prev_state (Some (ce_snap cur)) (lp_name p) of Some s \<Rightarrow> s | None \<Rightarrow> host_state_new (lp_name p)))"
proof (cases r)
  case (Inl e)
  then show ?thesis
    using reload_loop_spec [of env work cfg 0 RELOAD_ATTEMPTS cell cell' r] assms(1) by (simp add: registry_reload_def)
next
  case (Inr g)
  from reload_loop_spec [of env work cfg 0 RELOAD_ATTEMPTS cell cell' r] assms(1) Inr
  obtain k L where k: "k < RELOAD_ATTEMPTS" "ce_ptr (env k (others env 0 k cell)) = ce_ptr (others env 0 k cell)"
    "work k = Inr L" "snapshot_of L cfg (ce_snap (others env 0 k cell)) (ce_snap cell')" "g = sn_generation (ce_snap cell')"
    by (auto simp: registry_reload_def Let_def)
  then obtain names where n: "discover (ld_dir L) = Inr names"
    "map lp_name (sn_plugins (ce_snap cell')) = order_plugins names (pl_order cfg)"
    by (auto simp: snapshot_of_def)
  then have d: "distinct names" "sorted names" using assms(3) k(3) by (auto simp: discover_def)
  show ?thesis
    using k n d assms(2) order_plugins_distinct [OF d(1) assms(2)]
    by (auto simp: Inr Let_def snapshot_of_def order_plugins_eq intro!: exI [of _ k] exI [of _ L] exI [of _ names])
qed

definition sample_loader :: loader where
  "sample_loader = \<lparr>ld_dir = Inr [Entry (Some ''wasm'') (Some True) (Some ''b''), EntryErr, Entry (Some ''wasm'') (Some True) (Some ''a'')],
     ld_read = (\<lambda>_. Inr ''bytes''), ld_compile = (\<lambda>_. Inr ()), ld_validate = (\<lambda>_. Inr True), ld_pre = (\<lambda>_. Inr ())\<rparr>"

definition sample_plugins_config :: plugins_config where
  "sample_plugins_config = \<lparr>pl_dir = ''p'', pl_order = [''b''], pl_timeout_ms = 50, pl_max_memory_mb = 16,
     pl_on_failure = FailOpen, pl_settings = [], pl_instance_pool_size = 0, pl_log_on_no_route = True\<rparr>"

definition sample_cell :: snapshot_cell where
  "sample_cell = \<lparr>ce_ptr = 0, ce_snap = \<lparr>sn_generation = 4, sn_plugins = []\<rparr>\<rparr>"

theorem reload_publishes_witness:
  "\<exists>cell'. registry_reload (\<lambda>_ c. c) (\<lambda>_. Inr sample_loader) sample_plugins_config sample_cell = (cell', Inr 5)
     \<and> map lp_name (sn_plugins (ce_snap cell')) = [''b'', ''a'']"
proof -
  let ?r = "registry_reload (\<lambda>_ c. c) (\<lambda>_. Inr sample_loader) sample_plugins_config sample_cell"
  obtain cell' where r: "?r = (cell', Inr 5)"
    by (simp add: registry_reload_def RELOAD_ATTEMPTS_def upt_conv_Cons build_snapshot_def discover_def sample_loader_def
        sample_plugins_config_def sample_cell_def order_plugins_def load_plugin_def Let_def)
  have "distinct (discover_loop es)" if "ld_dir sample_loader = Inr es" for es
    using that by (auto simp: sample_loader_def)
  then have h: "\<forall>i L es. (Inr sample_loader :: rstr + loader) = Inr L \<and> ld_dir L = Inr es \<longrightarrow> distinct (discover_loop es)"
    by auto
  have d: "distinct (pl_order sample_plugins_config)" by (simp add: sample_plugins_config_def)
  have n: "discover (ld_dir sample_loader) = Inr [''a'', ''b'']" by (simp add: discover_def sample_loader_def)
  from reload_publishes [OF r d h] obtain L names where
    L: "(Inr sample_loader :: rstr + loader) = Inr L" "discover (ld_dir L) = Inr names" and
    m: "map lp_name (sn_plugins (ce_snap cell'))
       = filter (\<lambda>n. n \<in> set names) (pl_order sample_plugins_config) @ filter (\<lambda>n. n \<notin> set (pl_order sample_plugins_config)) names"
    unfolding Let_def sum.case by blast
  have "L = sample_loader" using L(1) by (rule sum.inject(2) [THEN iffD1, symmetric])
  then have "names = [''a'', ''b'']" using L(2) n by simp
  then have "map lp_name (sn_plugins (ce_snap cell')) = [''b'', ''a'']"
    unfolding m by (simp add: sample_plugins_config_def)
  with r show ?thesis by (intro exI conjI)
qed

end
