(* ===== verification/DynRoutes.thy ===== *)
theory DynRoutes
  imports Config HostState "HOL-Library.Product_Lexorder"
begin

text \<open>
  The binding table of the dynamic API (\<open>crates/openrusty-server/src/dynamic_routes.rs\<close>): exact and
  prefix bindings of method and path to a module, and the keys the configuration owns. The hash map
  of exact bindings is an association list with unique keys; every reader sorts or looks up.
\<close>

section \<open>State\<close>

definition MAX_BINDINGS :: nat where "MAX_BINDINGS = 4096"

type_synonym dyn_key = "rstr \<times> rstr"

record dyn_routes =
  dt_exact :: "(dyn_key \<times> rstr) list"
  dt_prefix :: "(dyn_key \<times> rstr) list"
  dt_config_keys :: "dyn_key list"

definition dyn_routes_new :: dyn_routes where
  "dyn_routes_new = \<lparr>dt_exact = [], dt_prefix = [], dt_config_keys = []\<rparr>"

definition dyn_len :: "dyn_routes \<Rightarrow> nat" where
  "dyn_len t = length (dt_exact t) + length (dt_prefix t)"

definition dyn_is_empty :: "dyn_routes \<Rightarrow> bool" where
  "dyn_is_empty t = (dt_exact t = [] \<and> dt_prefix t = [])"

definition base_key :: "rstr \<Rightarrow> rstr \<Rightarrow> dyn_key" where
  "base_key method path = (method, case strip_suffix path ''/*'' of Some b \<Rightarrow> b | None \<Rightarrow> path)"

section \<open>Operations\<close>

text \<open>\<open>/api/*\<close> owns \<open>/api\<close> and everything below it, not \<open>/apifoo\<close>.\<close>

definition owns :: "rstr \<Rightarrow> rstr \<Rightarrow> bool" where
  "owns p path = (case strip_prefix path p of Some rest \<Rightarrow> rest = [] \<or> starts_with rest ''/'' | None \<Rightarrow> False)"

definition dyn_lookup :: "dyn_routes \<Rightarrow> rstr \<Rightarrow> rstr \<Rightarrow> rstr option" where
  "dyn_lookup t method path =
     (let method = to_ascii_uppercase method in
      case map_of (dt_exact t) (method, path) of
        Some module \<Rightarrow> Some module
      | None \<Rightarrow> map_option snd (find (\<lambda>((m, p), _). m = method \<and> owns p path) (dt_prefix t)))"

datatype bind_error = BadMethod rstr | BadPath rstr | BadModule rstr | TableFull

definition key_size :: "dyn_key \<times> rstr \<Rightarrow> nat" where
  "key_size e = length (fst (fst e)) + length (snd (fst e))"

text \<open>The stable sort by descending key length.\<close>

definition sort_prefix :: "(dyn_key \<times> rstr) list \<Rightarrow> (dyn_key \<times> rstr) list" where
  "sort_prefix xs = sort_key (\<lambda>e. - int (key_size e)) xs"

definition bind_owned :: "dyn_routes \<Rightarrow> rstr \<Rightarrow> rstr \<Rightarrow> rstr \<Rightarrow> bool \<Rightarrow> bind_error + dyn_routes" where
  "bind_owned t method path module owned =
     (case normalize_method method of
        None \<Rightarrow> Inl (BadMethod method)
      | Some m \<Rightarrow>
          (case normalize_route_path path of
             None \<Rightarrow> Inl (BadPath path)
           | Some p \<Rightarrow>
               if \<not> valid_module_name module then Inl (BadModule module)
               else
                 let key = base_key m p;
                     replacing = (map_of (dt_exact t) key \<noteq> None \<or> list_ex (\<lambda>(k, _). k = key) (dt_prefix t))
                 in if \<not> replacing \<and> MAX_BINDINGS \<le> dyn_len t then Inl TableFull
                    else
                      let t1 =
                            (if ends_with p ''/*''
                             then t\<lparr>dt_exact := al_remove key (dt_exact t),
                                    dt_prefix := sort_prefix (al_remove key (dt_prefix t) @ [(key, module)])\<rparr>
                             else t\<lparr>dt_prefix := al_remove key (dt_prefix t),
                                    dt_exact := al_insert key module (dt_exact t)\<rparr>)
                      in Inr (if owned
                              then t1\<lparr>dt_config_keys := filter (\<lambda>k. k \<noteq> key) (dt_config_keys t1) @ [key]\<rparr>
                              else t1)))"

definition bind :: "dyn_routes \<Rightarrow> rstr \<Rightarrow> rstr \<Rightarrow> rstr \<Rightarrow> bind_error + dyn_routes" where
  "bind t method path module = bind_owned t method path module False"

definition unbind :: "dyn_routes \<Rightarrow> rstr \<Rightarrow> rstr \<Rightarrow> dyn_routes" where
  "unbind t method path =
     (case (normalize_method method, normalize_route_path path) of
        (Some m, Some p) \<Rightarrow>
          let key = base_key m p
          in t\<lparr>dt_exact := al_remove key (dt_exact t), dt_prefix := al_remove key (dt_prefix t),
               dt_config_keys := filter (\<lambda>k. k \<noteq> key) (dt_config_keys t)\<rparr>
      | _ \<Rightarrow> t)"

definition unbind_module :: "dyn_routes \<Rightarrow> rstr \<Rightarrow> dyn_routes \<times> nat" where
  "unbind_module t module =
     (let before = dyn_len t;
          exact = filter (\<lambda>(_, m). m \<noteq> module) (dt_exact t);
          prefix = filter (\<lambda>(_, m). m \<noteq> module) (dt_prefix t);
          next = t\<lparr>dt_exact := exact, dt_prefix := prefix,
                   dt_config_keys := filter (\<lambda>k. map_of exact k \<noteq> None \<or> list_ex (\<lambda>(pk, _). pk = k) prefix)
                     (dt_config_keys t)\<rparr>
      in (next, before - dyn_len next))"

fun drop_keys :: "dyn_key list \<Rightarrow> dyn_routes \<Rightarrow> dyn_routes" where
  "drop_keys [] t = t"
| "drop_keys (k # ks) t =
     drop_keys ks (t\<lparr>dt_exact := al_remove k (dt_exact t), dt_prefix := al_remove k (dt_prefix t)\<rparr>)"

fun overlay :: "dynamic_route list \<Rightarrow> dyn_routes \<Rightarrow> dyn_routes" where
  "overlay [] t = t"
| "overlay (r # rs) t =
     overlay rs (case bind_owned t (dr_method r) (dr_path r) (dr_module r) True of Inr t' \<Rightarrow> t' | Inl _ \<Rightarrow> t)"

definition reconcile :: "dyn_routes \<Rightarrow> dynamic_route list \<Rightarrow> dyn_routes" where
  "reconcile t cfg = overlay cfg (drop_keys (dt_config_keys t) (t\<lparr>dt_config_keys := []\<rparr>))"

text \<open>The listing: exact bindings by method and path, then the prefixes with their suffix.\<close>

definition route_key :: "dynamic_route \<Rightarrow> rstr \<times> rstr" where
  "route_key r = (dr_method r, dr_path r)"

definition dyn_entries :: "dyn_routes \<Rightarrow> dynamic_route list" where
  "dyn_entries t =
     sort_key route_key (map (\<lambda>((m, p), module). \<lparr>dr_method = m, dr_path = p, dr_module = module\<rparr>) (dt_exact t))
   @ sort_key route_key (map (\<lambda>((m, p), module). \<lparr>dr_method = m, dr_path = p @ ''/*'', dr_module = module\<rparr>) (dt_prefix t))"

section \<open>Abstraction and invariant\<close>

text \<open>The table as a map from keys to the shape of the binding (is it a prefix?) and its module.\<close>

definition bindings :: "dyn_routes \<Rightarrow> dyn_key \<rightharpoonup> bool \<times> rstr" where
  "bindings t k =
     (case map_of (dt_exact t) k of Some m \<Rightarrow> Some (False, m) | None \<Rightarrow> map_option (Pair True) (map_of (dt_prefix t) k))"

definition entry_ok :: "dyn_key \<times> rstr \<Rightarrow> bool" where
  "entry_ok e \<longleftrightarrow> to_ascii_uppercase (fst (fst e)) = fst (fst e) \<and> valid_module_name (snd e)"

definition table_inv :: "dyn_routes \<Rightarrow> bool" where
  "table_inv t \<longleftrightarrow>
     distinct (map fst (dt_exact t)) \<and> distinct (map fst (dt_prefix t))
     \<and> fst ` set (dt_exact t) \<inter> fst ` set (dt_prefix t) = {}
     \<and> sorted_wrt (\<lambda>a b. key_size b \<le> key_size a) (dt_prefix t)
     \<and> dyn_len t \<le> MAX_BINDINGS
     \<and> distinct (dt_config_keys t) \<and> set (dt_config_keys t) \<subseteq> dom (bindings t)
     \<and> (\<forall>e \<in> set (dt_exact t) \<union> set (dt_prefix t). entry_ok e)"

section \<open>Lemmas\<close>

lemma dom_bindings: "dom (bindings t) = fst ` set (dt_exact t) \<union> fst ` set (dt_prefix t)"
proof -
  have "dom (bindings t) = dom (map_of (dt_exact t)) \<union> dom (map_of (dt_prefix t))"
    by (auto simp: bindings_def dom_def split: option.splits)
  then show ?thesis by (simp add: dom_map_of_conv_image_fst)
qed

lemma bindings_config_keys [simp]: "bindings (t\<lparr>dt_config_keys := ks\<rparr>) = bindings t"
  by (auto simp: bindings_def fun_eq_iff split: option.splits)

lemma set_sort_prefix [simp]: "set (sort_prefix xs) = set xs"
  by (simp add: sort_prefix_def)

lemma length_sort_prefix [simp]: "length (sort_prefix xs) = length xs"
  by (simp add: sort_prefix_def)

lemma distinct_sort_prefix [simp]: "distinct (map fst (sort_prefix xs)) \<longleftrightarrow> distinct (map fst xs)"
proof -
  have "mset (map fst (sort_prefix xs)) = mset (map fst xs)"
    by (metis mset_map mset_sort sort_prefix_def)
  then show ?thesis by (metis distinct_count_atmost_1 mset_eq_setD)
qed

lemma sorted_sort_prefix: "sorted_wrt (\<lambda>a b. key_size b \<le> key_size a) (sort_prefix xs)"
proof -
  have "sorted (map (\<lambda>e. - int (key_size e)) (sort_prefix xs))" by (simp add: sort_prefix_def)
  then show ?thesis by (simp add: sorted_wrt_map)
qed

lemma map_of_sort_prefix:
  assumes "distinct (map fst xs)"
  shows "map_of (sort_prefix xs) = map_of xs"
  using assms by (subst map_of_inject_set) simp_all

lemma list_ex_key: "list_ex (\<lambda>(k, _). k = key) xs \<longleftrightarrow> key \<in> fst ` set xs"
  by (force simp: list_ex_iff)

text \<open>Adding a binding, with the table it gives when nothing is refused.\<close>

definition put_key :: "dyn_key \<Rightarrow> bool \<Rightarrow> rstr \<Rightarrow> dyn_routes \<Rightarrow> dyn_routes" where
  "put_key key pre module t =
     (if pre then t\<lparr>dt_exact := al_remove key (dt_exact t),
                    dt_prefix := sort_prefix (al_remove key (dt_prefix t) @ [(key, module)])\<rparr>
      else t\<lparr>dt_prefix := al_remove key (dt_prefix t), dt_exact := al_insert key module (dt_exact t)\<rparr>)"

lemma put_key_config_keys [simp]: "dt_config_keys (put_key key pre module t) = dt_config_keys t"
  by (simp add: put_key_def)

lemma distinct_snoc_key:
  "distinct (map fst xs) \<Longrightarrow> distinct (map fst (al_remove key xs @ [(key, m)]))"
  by (auto simp: distinct_al_remove set_al_remove)

lemma bindings_put_key:
  assumes "distinct (map fst (dt_prefix t))"
  shows "bindings (put_key key pre module t) = (bindings t)(key \<mapsto> (pre, module))"
  using distinct_snoc_key [OF assms, of key module]
  by (auto simp: bindings_def put_key_def map_of_sort_prefix fun_eq_iff map_add_def split: option.splits)

lemma length_al_remove:
  "distinct (map fst xs) \<Longrightarrow> length (al_remove k xs) = (if k \<in> fst ` set xs then length xs - 1 else length xs)"
  using length_al_remove_Some [of xs k] al_remove_id [of xs k]
  by (cases "map_of xs k") (force simp: map_of_eq_None_iff dest: map_of_SomeD)+

lemma dyn_len_put_key:
  assumes "distinct (map fst (dt_exact t))" "distinct (map fst (dt_prefix t))"
    "fst ` set (dt_exact t) \<inter> fst ` set (dt_prefix t) = {}"
  shows "dyn_len (put_key key pre module t) = (if key \<in> dom (bindings t) then dyn_len t else Suc (dyn_len t))"
proof -
  have "0 < length xs" if "key \<in> fst ` set xs" for xs :: "(dyn_key \<times> rstr) list" using that by (cases xs) auto
  then have "key \<in> fst ` set (dt_exact t) \<Longrightarrow> 0 < length (dt_exact t)"
    "key \<in> fst ` set (dt_prefix t) \<Longrightarrow> 0 < length (dt_prefix t)" by blast+
  then show ?thesis
    using assms by (auto simp: dyn_len_def put_key_def al_insert_def length_al_remove dom_bindings)
qed

lemma keys_al_remove: "fst ` set (al_remove k xs) = fst ` set xs - {k}"
  by (force simp: set_al_remove)

lemma table_inv_put_key:
  assumes "table_inv t" "key \<in> dom (bindings t) \<or> dyn_len t < MAX_BINDINGS" "entry_ok (key, module)"
  shows "table_inv (put_key key pre module t)"
proof -
  let ?t = "put_key key pre module t"
  have d: "distinct (map fst (dt_exact t))" "distinct (map fst (dt_prefix t))"
    "fst ` set (dt_exact t) \<inter> fst ` set (dt_prefix t) = {}"
    "sorted_wrt (\<lambda>a b. key_size b \<le> key_size a) (dt_prefix t)"
    using assms(1) by (auto simp: table_inv_def)
  have "sorted_wrt (\<lambda>a b. key_size b \<le> key_size a) (dt_prefix ?t)"
    using d(4) by (auto simp: put_key_def al_remove_def sorted_sort_prefix sorted_wrt_filter)
  moreover have "distinct (map fst (dt_exact ?t))" "distinct (map fst (dt_prefix ?t))"
    using d distinct_snoc_key [OF d(2)] by (simp_all add: put_key_def distinct_al_remove distinct_al_insert)
  moreover have "fst ` set (dt_exact ?t) \<inter> fst ` set (dt_prefix ?t) = {}"
    using d(3) by (auto simp: put_key_def keys_al_remove al_insert_def)
  moreover have "dyn_len ?t \<le> MAX_BINDINGS"
    using assms(1,2) dyn_len_put_key [OF d(1-3)] by (auto simp: table_inv_def)
  moreover have "set (dt_config_keys ?t) \<subseteq> dom (bindings ?t)" "distinct (dt_config_keys ?t)"
    using assms(1) by (auto simp: bindings_put_key [OF d(2)] table_inv_def)
  moreover have "set (dt_exact ?t) \<union> set (dt_prefix ?t) \<subseteq> insert (key, module) (set (dt_exact t) \<union> set (dt_prefix t))"
    by (auto simp: put_key_def set_al_remove al_insert_def)
  then have "\<forall>e \<in> set (dt_exact ?t) \<union> set (dt_prefix ?t). entry_ok e"
    using assms(1,3) by (auto simp: table_inv_def)
  ultimately show ?thesis by (simp add: table_inv_def)
qed

text \<open>Removing keys, of one binding or of all that a predicate rejects.\<close>

lemma table_inv_keep:
  assumes "table_inv t" "t' = t\<lparr>dt_exact := filter P (dt_exact t), dt_prefix := filter P (dt_prefix t), dt_config_keys := ks\<rparr>"
    "distinct ks" "set ks \<subseteq> fst ` set (filter P (dt_exact t)) \<union> fst ` set (filter P (dt_prefix t))"
  shows "table_inv t'"
proof -
  have "fst ` set (filter P xs) \<subseteq> fst ` set xs" for xs :: "(dyn_key \<times> rstr) list" by auto
  moreover have "length (filter P (dt_exact t)) + length (filter P (dt_prefix t)) \<le> dyn_len t"
    by (simp add: dyn_len_def add_mono)
  ultimately show ?thesis
    using assms by (auto simp: table_inv_def dom_bindings dyn_len_def distinct_map_filter sorted_wrt_filter)
qed

lemma bind_owned_Inr:
  assumes "bind_owned t method path module owned = Inr t'"
  obtains m where "normalize_method method = Some m" "normalize_route_path path = Some path" "valid_module_name module"
    "base_key m path \<in> dom (bindings t) \<or> dyn_len t < MAX_BINDINGS"
    "t' = (let t1 = put_key (base_key m path) (ends_with path ''/*'') module t in
           if owned then t1\<lparr>dt_config_keys := filter (\<lambda>k. k \<noteq> base_key m path) (dt_config_keys t) @ [base_key m path]\<rparr>
           else t1)"
proof -
  have path: "normalize_route_path path = Some p \<Longrightarrow> p = path" for p
    by (simp add: normalize_route_path_def split: if_splits)
  obtain m p where mp: "normalize_method method = Some m" "normalize_route_path path = Some p" "valid_module_name module"
    using assms by (auto simp: bind_owned_def split: option.splits if_splits)
  note p = path [OF mp(2)]
  let ?k = "base_key m path"
  have rep: "(map_of (dt_exact t) ?k \<noteq> None \<or> list_ex (\<lambda>(k, _). k = ?k) (dt_prefix t)) \<longleftrightarrow> ?k \<in> dom (bindings t)"
    by (simp add: dom_bindings list_ex_key flip: dom_map_of_conv_image_fst) (auto simp: dom_def)
  note b = assms [unfolded bind_owned_def, simplified mp p option.case Let_def rep]
  show ?thesis
    using mp b unfolding p
    by (intro that [of m]) (auto simp: Let_def put_key_def split: if_splits)
qed

lemma normalize_method_upper: "normalize_method method = Some m \<Longrightarrow> to_ascii_uppercase m = m"
  by (auto simp: normalize_method_def Let_def split: if_splits)

lemma bind_owned_ok:
  assumes "table_inv t" "bind_owned t method path module owned = Inr t'"
  obtains m where "normalize_method method = Some m" "normalize_route_path path = Some path" "valid_module_name module"
    "table_inv t'" "bindings t' = (bindings t)(base_key m path \<mapsto> (ends_with path ''/*'', module))"
    "set (dt_config_keys t') = (if owned then insert (base_key m path) else id) (set (dt_config_keys t))"
    "dyn_len t' \<le> Suc (dyn_len t)"
proof -
  from bind_owned_Inr [OF assms(2)] obtain m where m: "normalize_method method = Some m"
    "normalize_route_path path = Some path" "valid_module_name module"
    "base_key m path \<in> dom (bindings t) \<or> dyn_len t < MAX_BINDINGS"
    "t' = (let t1 = put_key (base_key m path) (ends_with path ''/*'') module t in
           if owned then t1\<lparr>dt_config_keys := filter (\<lambda>k. k \<noteq> base_key m path) (dt_config_keys t) @ [base_key m path]\<rparr>
           else t1)" by blast
  let ?t1 = "put_key (base_key m path) (ends_with path ''/*'') module t"
  have "entry_ok (base_key m path, module)"
    using m(1,3) normalize_method_upper by (simp add: entry_ok_def base_key_def)
  from table_inv_put_key [OF assms(1) m(4) this] have inv: "table_inv ?t1" .
  have b: "bindings ?t1 = (bindings t)(base_key m path \<mapsto> (ends_with path ''/*'', module))"
    using assms(1) by (intro bindings_put_key) (simp add: table_inv_def)
  have len: "dyn_len ?t1 \<le> Suc (dyn_len t)"
    using assms(1) dyn_len_put_key by (simp add: table_inv_def)
  show ?thesis
  proof (rule that [OF m(1-3)])
    show "table_inv t'"
      using inv m(5) b by (auto simp: Let_def table_inv_def dyn_len_def)
    show "bindings t' = (bindings t)(base_key m path \<mapsto> (ends_with path ''/*'', module))"
      using m(5) b by (simp add: Let_def)
    show "set (dt_config_keys t') = (if owned then insert (base_key m path) else id) (set (dt_config_keys t))"
      using m(5) by (auto simp: Let_def)
    show "dyn_len t' \<le> Suc (dyn_len t)" using m(5) len by (auto simp: Let_def dyn_len_def)
  qed
qed

lemma map_of_keep:
  assumes "distinct (map fst xs)"
  shows "map_of (filter P xs) k = (case map_of xs k of Some v \<Rightarrow> if P (k, v) then Some v else None | None \<Rightarrow> None)"
  using assms by (induction xs) (force simp: map_of_eq_None_iff split: option.splits)+

lemma bindings_keep:
  assumes "table_inv t"
  shows "bindings (t\<lparr>dt_exact := filter P (dt_exact t), dt_prefix := filter P (dt_prefix t), dt_config_keys := ks\<rparr>) k
    = (case bindings t k of Some (b, m) \<Rightarrow> if P (k, m) then Some (b, m) else None | None \<Rightarrow> None)"
proof -
  have d: "distinct (map fst (dt_exact t))" "distinct (map fst (dt_prefix t))"
    and "fst ` set (dt_exact t) \<inter> fst ` set (dt_prefix t) = {}"
    using assms by (auto simp: table_inv_def)
  then have "map_of (dt_exact t) k = None \<or> map_of (dt_prefix t) k = None"
    by (auto simp: map_of_eq_None_iff)
  then show ?thesis by (auto simp: bindings_def map_of_keep [OF d(1)] map_of_keep [OF d(2)] split: option.splits)
qed

lemma drop_keys_eq:
  "drop_keys ks t = t\<lparr>dt_exact := filter (\<lambda>e. fst e \<notin> set ks) (dt_exact t), dt_prefix := filter (\<lambda>e. fst e \<notin> set ks) (dt_prefix t)\<rparr>"
proof (induction ks arbitrary: t)
  case (Cons k ks)
  show ?case
    unfolding drop_keys.simps Cons by (simp add: al_remove_def case_prod_beta' conj_commute)
qed simp

text \<open>The keys and bindings a configuration asks for.\<close>

definition cfg_key :: "dynamic_route \<Rightarrow> dyn_key" where
  "cfg_key r = base_key (the (normalize_method (dr_method r))) (dr_path r)"

definition cfg_bindings :: "dynamic_route list \<Rightarrow> dyn_key \<rightharpoonup> bool \<times> rstr" where
  "cfg_bindings cfg = map_of (map (\<lambda>r. (cfg_key r, (ends_with (dr_path r) ''/*'', dr_module r))) cfg)"

definition cfg_ok :: "dynamic_route list \<Rightarrow> bool" where
  "cfg_ok cfg \<longleftrightarrow>
     (\<forall>r \<in> set cfg. normalize_method (dr_method r) \<noteq> None \<and> normalize_route_path (dr_path r) \<noteq> None
        \<and> valid_module_name (dr_module r))
     \<and> distinct (map cfg_key cfg)"

lemma bind_owned_total:
  assumes "normalize_method method = Some m" "normalize_route_path path \<noteq> None" "valid_module_name module"
    "dyn_len t < MAX_BINDINGS"
  shows "\<exists>t'. bind_owned t method path module owned = Inr t'"
  using assms by (auto simp: bind_owned_def Let_def)

lemma overlay_spec:
  assumes "table_inv t" "cfg_ok cfg" "dyn_len t + length cfg \<le> MAX_BINDINGS"
  shows "table_inv (overlay cfg t) \<and> bindings (overlay cfg t) = bindings t ++ cfg_bindings cfg
    \<and> set (dt_config_keys (overlay cfg t)) = set (dt_config_keys t) \<union> cfg_key ` set cfg"
  using assms
proof (induction cfg arbitrary: t)
  case Nil
  then show ?case by (simp add: cfg_bindings_def)
next
  case (Cons r cfg)
  obtain m where m: "normalize_method (dr_method r) = Some m" and ok: "normalize_route_path (dr_path r) \<noteq> None"
    "valid_module_name (dr_module r)" using Cons.prems(2) by (auto simp: cfg_ok_def)
  obtain t' where t': "bind_owned t (dr_method r) (dr_path r) (dr_module r) True = Inr t'"
    using bind_owned_total [OF m ok, of t True] Cons.prems(3) by auto
  from bind_owned_ok [OF Cons.prems(1) t'] m have inv: "table_inv t'"
    and b: "bindings t' = (bindings t)(cfg_key r \<mapsto> (ends_with (dr_path r) ''/*'', dr_module r))"
    and ck: "set (dt_config_keys t') = insert (cfg_key r) (set (dt_config_keys t))"
    and "dyn_len t' \<le> Suc (dyn_len t)"
    by (auto simp: cfg_key_def)
  then have "dyn_len t' + length cfg \<le> MAX_BINDINGS" using Cons.prems(3) by simp
  moreover have "cfg_ok cfg" "cfg_key r \<notin> cfg_key ` set cfg" using Cons.prems(2) by (auto simp: cfg_ok_def)
  moreover have "cfg_key r \<notin> dom (cfg_bindings cfg)"
    using calculation(3) by (auto simp: cfg_bindings_def dom_map_of_conv_image_fst image_image)
  ultimately show ?case
    using Cons.IH [OF inv] t' b ck
    by (auto simp: cfg_bindings_def map_add_def fun_eq_iff split: option.splits)
qed

lemma overlay_inv: "table_inv t \<Longrightarrow> table_inv (overlay cfg t)"
proof (induction cfg arbitrary: t)
  case (Cons r cfg)
  have "table_inv (case bind_owned t (dr_method r) (dr_path r) (dr_module r) True of Inr t' \<Rightarrow> t' | Inl _ \<Rightarrow> t)"
    using Cons.prems by (auto split: sum.split elim: bind_owned_ok)
  then show ?case using Cons.IH by simp
qed simp

lemma drop_config_spec:
  assumes "table_inv t"
  shows "table_inv (drop_keys (dt_config_keys t) (t\<lparr>dt_config_keys := []\<rparr>))"
    and "bindings (drop_keys (dt_config_keys t) (t\<lparr>dt_config_keys := []\<rparr>)) k
       = (if k \<in> set (dt_config_keys t) then None else bindings t k)"
    and "dyn_len (drop_keys (dt_config_keys t) (t\<lparr>dt_config_keys := []\<rparr>)) \<le> dyn_len t"
    and "dt_config_keys (drop_keys (dt_config_keys t) (t\<lparr>dt_config_keys := []\<rparr>)) = []"
proof -
  let ?P = "\<lambda>e :: dyn_key \<times> rstr. fst e \<notin> set (dt_config_keys t)"
  have eq: "drop_keys (dt_config_keys t) (t\<lparr>dt_config_keys := []\<rparr>) =
    t\<lparr>dt_exact := filter ?P (dt_exact t), dt_prefix := filter ?P (dt_prefix t), dt_config_keys := []\<rparr>"
    by (simp add: drop_keys_eq)
  show "table_inv (drop_keys (dt_config_keys t) (t\<lparr>dt_config_keys := []\<rparr>))"
    unfolding eq by (rule table_inv_keep [OF assms refl]) simp_all
  show "bindings (drop_keys (dt_config_keys t) (t\<lparr>dt_config_keys := []\<rparr>)) k
       = (if k \<in> set (dt_config_keys t) then None else bindings t k)"
    unfolding eq bindings_keep [OF assms] by (auto split: option.splits)
  show "dyn_len (drop_keys (dt_config_keys t) (t\<lparr>dt_config_keys := []\<rparr>)) \<le> dyn_len t"
    unfolding eq by (simp add: dyn_len_def add_mono)
  show "dt_config_keys (drop_keys (dt_config_keys t) (t\<lparr>dt_config_keys := []\<rparr>)) = []" by (simp add: eq)
qed

lemma reconcile_spec:
  assumes "table_inv t" "cfg_ok cfg" "dyn_len t + length cfg \<le> MAX_BINDINGS"
  shows "bindings (reconcile t cfg) = (\<lambda>k. if k \<in> set (dt_config_keys t) then None else bindings t k) ++ cfg_bindings cfg"
    and "set (dt_config_keys (reconcile t cfg)) = cfg_key ` set cfg"
proof -
  let ?t = "drop_keys (dt_config_keys t) (t\<lparr>dt_config_keys := []\<rparr>)"
  have b: "bindings ?t = (\<lambda>k. if k \<in> set (dt_config_keys t) then None else bindings t k)"
    by (rule ext) (rule drop_config_spec(2) [OF assms(1)])
  note o = overlay_spec [OF drop_config_spec(1) [OF assms(1)] assms(2)]
  show "bindings (reconcile t cfg) = (\<lambda>k. if k \<in> set (dt_config_keys t) then None else bindings t k) ++ cfg_bindings cfg"
    "set (dt_config_keys (reconcile t cfg)) = cfg_key ` set cfg"
    using o assms(3) drop_config_spec(3,4) [OF assms(1)] by (simp_all add: reconcile_def b)
qed

lemma unbind_eq:
  "unbind t method path =
    (case (normalize_method method, normalize_route_path path) of
       (Some m, Some p) \<Rightarrow>
         t\<lparr>dt_exact := filter (\<lambda>e. fst e \<noteq> base_key m p) (dt_exact t),
           dt_prefix := filter (\<lambda>e. fst e \<noteq> base_key m p) (dt_prefix t),
           dt_config_keys := filter (\<lambda>k. k \<noteq> base_key m p) (dt_config_keys t)\<rparr>
     | _ \<Rightarrow> t)"
  by (simp add: unbind_def al_remove_def case_prod_beta' Let_def split: option.split)

lemma table_inv_unbind: "table_inv t \<Longrightarrow> table_inv (unbind t method path)"
proof (cases "normalize_method method"; cases "normalize_route_path path")
  fix m p
  assume inv: "table_inv t" and mp: "normalize_method method = Some m" "normalize_route_path path = Some p"
  have "distinct (dt_config_keys t)" "set (dt_config_keys t) \<subseteq> fst ` set (dt_exact t) \<union> fst ` set (dt_prefix t)"
    using inv by (auto simp: table_inv_def dom_bindings)
  then have "table_inv (t\<lparr>dt_exact := filter (\<lambda>e. fst e \<noteq> base_key m p) (dt_exact t),
      dt_prefix := filter (\<lambda>e. fst e \<noteq> base_key m p) (dt_prefix t),
      dt_config_keys := filter (\<lambda>k. k \<noteq> base_key m p) (dt_config_keys t)\<rparr>)"
    by (intro table_inv_keep [OF inv refl]) force+
  then show ?thesis by (simp add: unbind_eq mp)
qed (simp_all add: unbind_def)

lemma table_inv_unbind_module: "table_inv t \<Longrightarrow> table_inv (fst (unbind_module t module))"
  unfolding unbind_module_def Let_def fst_conv
  by (rule table_inv_keep [where P = "\<lambda>(_, m). m \<noteq> module"])
    (auto simp: table_inv_def list_ex_key dom_map_of_conv_image_fst map_of_eq_None_iff)

lemma table_inv_reconcile: "table_inv t \<Longrightarrow> table_inv (reconcile t cfg)"
  by (simp add: reconcile_def overlay_inv drop_config_spec(1))

text \<open>The operations of the table as a state machine.\<close>

datatype dyn_op = OpBind rstr rstr rstr | OpUnbind rstr rstr | OpUnbindModule rstr | OpReconcile "dynamic_route list"

fun dyn_step :: "dyn_routes \<Rightarrow> dyn_op \<Rightarrow> dyn_routes" where
  "dyn_step t (OpBind m p module) = (case bind t m p module of Inr t' \<Rightarrow> t' | Inl _ \<Rightarrow> t)"
| "dyn_step t (OpUnbind m p) = unbind t m p"
| "dyn_step t (OpUnbindModule module) = fst (unbind_module t module)"
| "dyn_step t (OpReconcile cfg) = reconcile t cfg"

lemma table_inv_step: "table_inv t \<Longrightarrow> table_inv (dyn_step t e)"
  by (cases e) (auto simp: bind_def table_inv_unbind table_inv_unbind_module table_inv_reconcile
      split: sum.split elim: bind_owned_ok)

interpretation dyn_table: machine dyn_routes_new dyn_step table_inv
  by unfold_locales (simp_all add: table_inv_step, simp add: table_inv_def dyn_routes_new_def dyn_len_def)

text \<open>The longest prefix binding that owns a path is the first one found.\<close>

lemma owns_iff: "owns p path \<longleftrightarrow> path = p \<or> (\<exists>r. path = p @ ''/'' @ r)"
proof -
  have "starts_with rest ''/'' \<longleftrightarrow> (\<exists>r. rest = ''/'' @ r)" for rest by (simp add: starts_with_iff)
  then show ?thesis by (auto simp: owns_def strip_prefix_def starts_with_iff split: if_splits)
qed

lemma owns_same_length: "owns p path \<Longrightarrow> owns q path \<Longrightarrow> length p = length q \<Longrightarrow> p = q"
  by (auto simp: owns_iff append_eq_append_conv)

lemma find_sorted_first:
  assumes "sorted_wrt R xs" "find P xs = Some x" "y \<in> set xs" "P y" "y \<noteq> x"
  shows "R x y"
proof -
  obtain i where i: "i < length xs" "xs ! i = x" "\<forall>j < i. \<not> P (xs ! j)" using assms(2) by (auto simp: find_Some_iff)
  obtain j where j: "j < length xs" "xs ! j = y" using assms(3) by (auto simp: in_set_conv_nth)
  have "i < j" using i j assms(4,5) by (metis linorder_neqE_nat)
  then show ?thesis using sorted_wrt_nth_less [OF assms(1)] i j by auto
qed

lemma bindings_prefix:
  assumes "table_inv t"
  shows "bindings t k = Some (True, m) \<longleftrightarrow> (k, m) \<in> set (dt_prefix t)"
proof -
  have "distinct (map fst (dt_prefix t))" "fst ` set (dt_exact t) \<inter> fst ` set (dt_prefix t) = {}"
    using assms by (auto simp: table_inv_def)
  then show ?thesis
    by (auto simp: bindings_def map_of_eq_None_iff split: option.split dest!: map_of_SomeD intro!: map_of_is_SomeI)
      (metis IntI empty_iff fst_conv image_eqI)
qed

lemma bindings_exact: "bindings t k = Some (False, m) \<longleftrightarrow> map_of (dt_exact t) k = Some m"
  by (auto simp: bindings_def split: option.splits)

lemma prefix_find:
  assumes "table_inv t"
  shows "find (\<lambda>((m, p), _). m = M \<and> owns p path) (dt_prefix t) = Some ((M', p), module) \<longleftrightarrow>
    M' = M \<and> bindings t (M, p) = Some (True, module) \<and> owns p path
    \<and> (\<forall>q n. bindings t (M, q) = Some (True, n) \<and> owns q path \<longrightarrow> length q \<le> length p)"
    (is "find ?P ?xs = _ \<longleftrightarrow> _")
proof
  have sorted: "sorted_wrt (\<lambda>a b. key_size b \<le> key_size a) ?xs" using assms by (simp add: table_inv_def)
  note mem = bindings_prefix [OF assms]
  show "M' = M \<and> bindings t (M, p) = Some (True, module) \<and> owns p path
    \<and> (\<forall>q n. bindings t (M, q) = Some (True, n) \<and> owns q path \<longrightarrow> length q \<le> length p)"
    if f: "find ?P ?xs = Some ((M', p), module)"
  proof -
    have p: "M' = M" "owns p path" "((M, p), module) \<in> set ?xs"
      using f nth_mem by (fastforce simp: find_Some_iff)+
    have "length q \<le> length p" if "((M, q), n) \<in> set ?xs" "owns q path" for q n
      using find_sorted_first [OF sorted f that(1)] that(2) p(1) by (cases "((M, q), n) = ((M', p), module)") (auto simp: key_size_def)
    then show ?thesis using p by (auto simp: mem)
  qed
  show "find ?P ?xs = Some ((M', p), module)"
    if "M' = M \<and> bindings t (M, p) = Some (True, module) \<and> owns p path
      \<and> (\<forall>q n. bindings t (M, q) = Some (True, n) \<and> owns q path \<longrightarrow> length q \<le> length p)"
  proof -
    have p: "M' = M" "((M, p), module) \<in> set ?xs" "owns p path"
      and longest: "\<And>q n. ((M, q), n) \<in> set ?xs \<Longrightarrow> owns q path \<Longrightarrow> length q \<le> length p"
      using that by (auto simp: mem)
    have "find ?P ?xs \<noteq> None" using p by (auto simp: find_None_iff)
    then obtain e where e: "find ?P ?xs = Some e" by blast
    obtain q n where q: "e = ((M, q), n)" "owns q path" "((M, q), n) \<in> set ?xs"
      using e nth_mem by (cases e) (fastforce simp: find_Some_iff)
    have "length p \<le> length q"
      using find_sorted_first [OF sorted e p(2)] p(3) q(1) by (cases "((M, p), module) = e") (auto simp: key_size_def)
    then have "p = q" using longest [OF q(3,2)] owns_same_length [OF p(3) q(2)] by simp
    then have "n = module" using p(2) q(3) assms by (auto simp: table_inv_def dest: eq_key_imp_eq_value)
    then show ?thesis using e q \<open>p = q\<close> p(1) by simp
  qed
qed

lemma dynamic_cfg_ok: "ok_dynamic d \<Longrightarrow> cfg_ok (dy_routes d)"
proof -
  assume d: "ok_dynamic d"
  have "distinct (map cfg_key rs)"
    if "distinct (map (\<lambda>r. (normalize_method (dr_method r), base_path (dr_path r))) rs)"
      "\<forall>r \<in> set rs. normalize_method (dr_method r) \<noteq> None" for rs
    using that by (induction rs) (auto simp: cfg_key_def base_key_def base_path_def image_iff)
  then show ?thesis using d by (simp add: cfg_ok_def ok_dynamic_def)
qed

section \<open>Properties\<close>

text \<open>
  C32: longest-prefix dispatch. In every table reached from the empty one by binding, unbinding,
  removing a module and reconciling, keys are unique, one shape is bound per base path, the
  configuration owns bound keys only and there are at most 4096 bindings. \<open>lookup\<close> then answers
  exactly the module bound to the path itself, or else the module of the longest prefix binding of
  the method whose base owns the path; a sibling such as \<open>/apifoo\<close> of \<open>/api/*\<close> is never captured.
\<close>

theorem dyn_lookup_longest:
  "let t = foldl dyn_step dyn_routes_new ops; M = to_ascii_uppercase method in
   table_inv t
   \<and> (dyn_lookup t method path = Some module \<longleftrightarrow>
        bindings t (M, path) = Some (False, module)
        \<or> (\<nexists>n. bindings t (M, path) = Some (False, n))
          \<and> (\<exists>p. bindings t (M, p) = Some (True, module) \<and> owns p path
                \<and> (\<nexists>q n. bindings t (M, q) = Some (True, n) \<and> owns q path \<and> length p < length q)))"
proof -
  define t where "t = foldl dyn_step dyn_routes_new ops"
  let ?M = "to_ascii_uppercase method"
  have inv: "table_inv t" unfolding t_def by (rule dyn_table.reach_inv)
  have f: "(\<exists>p. find (\<lambda>((m, p), _). m = ?M \<and> owns p path) (dt_prefix t) = Some (p, module)) \<longleftrightarrow>
      (\<exists>p. bindings t (?M, p) = Some (True, module) \<and> owns p path
        \<and> (\<nexists>q n. bindings t (?M, q) = Some (True, n) \<and> owns q path \<and> length p < length q))"
    using prefix_find [OF inv, of ?M path] by (auto simp: not_less) blast+
  have "dyn_lookup t method path = Some module \<longleftrightarrow>
      map_of (dt_exact t) (?M, path) = Some module
      \<or> map_of (dt_exact t) (?M, path) = None
        \<and> (\<exists>p. find (\<lambda>((m, p), _). m = ?M \<and> owns p path) (dt_prefix t) = Some (p, module))"
    by (auto simp: dyn_lookup_def Let_def split: option.split)
  then show ?thesis
    unfolding Let_def t_def [symmetric] f bindings_exact using inv by auto
qed

text \<open>
  Reconciling with a new configuration. With room for its routes, a validated configuration is
  enforced verbatim: afterwards each of its keys has its binding, the keys the old configuration
  owned and the new one lacks are gone, every binding added at run time survives, and exactly the
  keys of the new configuration are owned by it.
\<close>

lemma reconcile_enforces:
  assumes "table_inv t" and "ok_dynamic d" and "dyn_len t + length (dy_routes d) \<le> MAX_BINDINGS"
  shows "bindings (reconcile t (dy_routes d)) k =
       (case cfg_bindings (dy_routes d) k of
          Some b \<Rightarrow> Some b
        | None \<Rightarrow> if k \<in> set (dt_config_keys t) then None else bindings t k)
     \<and> set (dt_config_keys (reconcile t (dy_routes d))) = cfg_key ` set (dy_routes d)
     \<and> table_inv (reconcile t (dy_routes d))"
  using reconcile_spec [OF assms(1) dynamic_cfg_ok [OF assms(2)] assms(3)] table_inv_reconcile [OF assms(1)]
  by (simp add: map_add_def)

definition sample_table :: dyn_routes where
  "sample_table = \<lparr>dt_exact = [((''GET'', ''/b''), ''y'')], dt_prefix = [((''GET'', ''/a''), ''x'')],
     dt_config_keys = [(''GET'', ''/b'')]\<rparr>"

definition sample_dynamic :: dynamic_config where
  "sample_dynamic = dynamic_config_default\<lparr>dy_dir := ''mods'',
     dy_routes := [\<lparr>dr_method = ''POST'', dr_path = ''/c'', dr_module = ''z''\<rparr>]\<rparr>"

lemma reconcile_enforces_run:
  "table_inv sample_table \<and> ok_dynamic sample_dynamic
   \<and> bindings (reconcile sample_table (dy_routes sample_dynamic)) (''GET'', ''/b'') = None
   \<and> bindings (reconcile sample_table (dy_routes sample_dynamic)) (''POST'', ''/c'') = Some (False, ''z'')
   \<and> bindings (reconcile sample_table (dy_routes sample_dynamic)) (''GET'', ''/a'') = Some (True, ''x'')"
proof -
  have valid: "valid_module_name ''x'' \<and> valid_module_name ''y'' \<and> valid_module_name ''z''" by code_simp
  have up: "to_ascii_uppercase ''GET'' = ''GET''" by code_simp
  have norm: "normalize_method ''POST'' = Some ''POST''" "normalize_route_path ''/c'' = Some ''/c''" by code_simp+
  have dir: "trim ''mods'' \<noteq> []" by code_simp
  have t: "table_inv sample_table"
    using valid up by (auto simp: table_inv_def sample_table_def dyn_len_def MAX_BINDINGS_def dom_bindings entry_ok_def)
  have d: "ok_dynamic sample_dynamic"
    using norm dir valid by (simp add: ok_dynamic_def sample_dynamic_def dynamic_config_default_def
        default_dynamic_timeout_ms_def default_dynamic_memory_mb_def default_dynamic_max_body_bytes_def)
  have len: "dyn_len sample_table + length (dy_routes sample_dynamic) \<le> MAX_BINDINGS"
    by (simp add: dyn_len_def sample_table_def sample_dynamic_def MAX_BINDINGS_def)
  have c: "cfg_bindings (dy_routes sample_dynamic) = [(''POST'', ''/c'') \<mapsto> (False, ''z'')]"
    using norm(1) by (simp add: cfg_bindings_def sample_dynamic_def cfg_key_def base_key_def strip_suffix_def ends_with_def)
  show ?thesis
    using reconcile_enforces [OF t d len] t d
    by (simp add: c) (simp add: sample_table_def bindings_def)
qed

end
