(* ===== verification/DynModules.thy ===== *)
theory DynModules
  imports Respond Registry DynRoutes
begin

text \<open>
  Dynamic modules: the stat-driven registry and its single-module pipeline
  (\<open>crates/openrusty-wasm/src/dynamic.rs\<close>), the execution API and the registration face
  (\<open>crates/openrusty-server/src/dynamic_api.rs\<close>, \<open>dynamic_admin.rs\<close>). The module directory is a map
  from names to the version and the bytes of a file; what compiling and validating bytes answers is
  an argument. A cached plugin shares its store with the table of states, so the model keeps the
  store in that table only and joins it in when a module runs.
\<close>

section \<open>The registry\<close>

definition MAX_NAME_LEN :: nat where "MAX_NAME_LEN = 128"

definition valid_name :: "rstr \<Rightarrow> bool" where
  "valid_name name =
     (if name = [] \<or> MAX_NAME_LEN < length name then False
      else is_ascii_alphanumeric (hd name)
        \<and> list_all (\<lambda>c. is_ascii_alphanumeric c \<or> c = CHR ''.'' \<or> c = CHR ''_'' \<or> c = CHR ''-'') (tl name))"

datatype resolve_fail = InvalidName | NotFound | BuildFail rstr

record dyn_outcome =
  do_status :: u16
  do_body :: "rstr option"
  do_headers :: "header list"
  do_error :: "rstr option"

type_synonym file_version = "u64 \<times> u32 \<times> u64"

record cached_module =
  cm_version :: file_version
  cm_module :: rstr
  cm_has_dealloc :: bool

record dyn_registry =
  dg_cfg :: dynamic_config
  dg_cache :: "rstr \<rightharpoonup> cached_module"
  dg_states :: "rstr \<rightharpoonup> host_state"
  dg_compiled :: nat

definition dyn_registry_new :: "dynamic_config \<Rightarrow> dyn_registry" where
  "dyn_registry_new cfg = \<lparr>dg_cfg = cfg, dg_cache = Map.empty, dg_states = Map.empty, dg_compiled = 0\<rparr>"

text \<open>A file of the directory as \<open>stat\<close> and \<open>read\<close> see it, by module name.\<close>

type_synonym mod_dir = "rstr \<rightharpoonup> file_version \<times> rstr"

text \<open>\<open>compile_file\<close>: read, compile, validate, pre-link; an absent file is a read error.\<close>

definition compile_bytes :: "loader \<Rightarrow> rstr \<Rightarrow> rstr + bool" where
  "compile_bytes L bytes =
     and_then (map_err (\<lambda>e. ''compile failed: '' @ e) (ld_compile L bytes)) (\<lambda>_.
     and_then (map_err (\<lambda>e. ''abi validation failed: '' @ e) (ld_validate L bytes)) (\<lambda>info.
     and_then (map_err (\<lambda>e. ''instantiate_pre failed: '' @ e) (ld_pre L bytes)) (\<lambda>_. Inr info)))"

definition validate_bytes :: "loader \<Rightarrow> rstr \<Rightarrow> rstr + unit" where
  "validate_bytes L bytes =
     and_then (map_err (\<lambda>e. ''compile failed: '' @ e) (ld_compile L bytes)) (\<lambda>_.
     and_then (map_err (\<lambda>e. ''abi validation failed: '' @ e) (ld_validate L bytes)) (\<lambda>_. Inr ()))"

definition module_plugin :: "dyn_registry \<Rightarrow> rstr \<Rightarrow> host_state \<Rightarrow> plugin" where
  "module_plugin g name st =
     \<lparr>lp_name = name, lp_state = st, lp_settings = plugin_settings (dy_settings (dg_cfg g)) name,
      lp_timeout = dy_timeout_ms (dg_cfg g), lp_fail_policy = dy_on_failure (dg_cfg g),
      lp_memory_mb = dy_max_memory_mb (dg_cfg g)\<rparr>"

text \<open>
  The compile step of \<open>resolve\<close>, under the per-name gate: \<open>dir\<close> is the directory at the read, \<open>task\<close>
  the error of the blocking task if it failed. Every attempt is counted, only a success is cached,
  and the store of a name is created once.
\<close>

definition dyn_compile ::
  "loader \<Rightarrow> mod_dir \<Rightarrow> rstr option \<Rightarrow> rstr \<Rightarrow> file_version \<Rightarrow> dyn_registry \<Rightarrow> dyn_registry \<times> (resolve_fail + cached_module)" where
  "dyn_compile L dir task name version g =
     (let built =
            (case task of Some e \<Rightarrow> Inl (''compiler task failed: '' @ e)
             | None \<Rightarrow>
                 (case dir name of
                    None \<Rightarrow> Inl ''read''
                  | Some (_, bytes) \<Rightarrow> and_then (compile_bytes L bytes) (\<lambda>info. Inr (bytes, info))));
          g1 = g\<lparr>dg_compiled := dg_compiled g + 1\<rparr>
      in case built of
           Inl e \<Rightarrow> (g1, Inl (BuildFail e))
         | Inr (bytes, info) \<Rightarrow>
             let st = (case dg_states g name of Some s \<Rightarrow> s | None \<Rightarrow> host_state_new name);
                 cm = \<lparr>cm_version = version, cm_module = bytes, cm_has_dealloc = info\<rparr>
             in (g1\<lparr>dg_states := (dg_states g)(name \<mapsto> st), dg_cache := (dg_cache g)(name \<mapsto> cm)\<rparr>, Inr cm))"

text \<open>\<open>resolve\<close>: \<open>dir\<close> is the directory at the stat, \<open>dir2\<close> at the read of a compile.\<close>

definition dyn_resolve ::
  "loader \<Rightarrow> mod_dir \<Rightarrow> mod_dir \<Rightarrow> rstr option \<Rightarrow> rstr \<Rightarrow> dyn_registry \<Rightarrow> dyn_registry \<times> (resolve_fail + cached_module)" where
  "dyn_resolve L dir dir2 task name g =
     (if \<not> valid_name name then (g, Inl InvalidName)
      else case dir name of
        None \<Rightarrow> (g\<lparr>dg_cache := (dg_cache g)(name := None)\<rparr>, Inl NotFound)
      | Some (version, _) \<Rightarrow>
          (case dg_cache g name of
             Some hit \<Rightarrow>
               if cm_version hit = version then (g, Inr hit) else dyn_compile L dir2 task name version g
           | None \<Rightarrow> dyn_compile L dir2 task name version g))"

section \<open>One invocation\<close>

text \<open>The pre-proxy phases of the synthesized pipeline: the status of the first terminal decision.\<close>

fun terminal_loop :: "'g wasm_env \<Rightarrow> phase list \<Rightarrow> 'g session \<Rightarrow> 'g session \<times> u16 option" where
  "terminal_loop W [] s = (s, None)"
| "terminal_loop W (ph # phs) s =
     (case run_phase W ph s of
        (s', Deny status) \<Rightarrow> (s', Some status)
      | (s', Done) \<Rightarrow> (s', Some (if carried_body s' \<noteq> None then 200 else 204))
      | (s', _) \<Rightarrow> terminal_loop W phs s')"

declare terminal_loop.simps(2) [simp del]

fun set_header :: "rstr \<Rightarrow> rstr \<Rightarrow> header list \<Rightarrow> header list" where
  "set_header name val [] = [(name, val)]"
| "set_header name val ((n, v) # hs) =
     (if eq_ignore_ascii_case n name then (n, val) # hs else (n, v) # set_header name val hs)"

fun apply_edit :: "header list \<Rightarrow> header_edit \<Rightarrow> header list" where
  "apply_edit hs (HdrSet name val) = set_header name val hs"
| "apply_edit hs (HdrDel name) = filter (\<lambda>(n, _). \<not> eq_ignore_ascii_case n name) hs"

definition final_headers :: "'g session \<Rightarrow> 'g session \<times> header list" where
  "final_headers s = (case take_header_edits s of (s', edits) \<Rightarrow> (s', foldl apply_edit (ss_resp_headers s) edits))"

definition dyn_failed :: "resolve_fail \<Rightarrow> dyn_outcome" where
  "dyn_failed f =
     (let (status, error) =
            (case f of
               InvalidName \<Rightarrow> (400, ''invalid dynamic module name'')
             | NotFound \<Rightarrow> (404, ''dynamic module not found'')
             | BuildFail detail \<Rightarrow> (500, detail))
      in \<lparr>do_status = status, do_body = None, do_headers = [], do_error = Some error\<rparr>)"

definition run_module :: "'g wasm_env \<Rightarrow> plugin \<Rightarrow> req_ctx \<Rightarrow> rstr \<Rightarrow> 'g session \<times> dyn_outcome" where
  "run_module W p ctx body =
     (let s0 = set_req_body body (session_new [p] ctx []);
          (s1, terminal) = terminal_loop W [PostRead, Rewrite, Access, Content] s0;
          (status, error) =
            (case terminal of Some st \<Rightarrow> (st, None) | None \<Rightarrow> (500, Some ''dynamic module produced no response''));
          s2 = set_resp_headers (ss_resp_headers s1) s1;
          s3 = fst (run_phase W HeaderFilter s2);
          s4 = fst (run_phase W Log_Phase s3);
          status = (if status = 204 \<and> carried_body s4 \<noteq> None then 200 else status);
          (s5, resp_body) = take_resp_body s4;
          (s6, headers) = final_headers s5
      in (s6, \<lparr>do_status = status, do_body = resp_body, do_headers = headers, do_error = error\<rparr>))"

definition dyn_invoke ::
  "'g wasm_env \<Rightarrow> loader \<Rightarrow> mod_dir \<Rightarrow> mod_dir \<Rightarrow> rstr option \<Rightarrow> rstr \<Rightarrow> req_ctx \<Rightarrow> rstr \<Rightarrow> dyn_registry
   \<Rightarrow> dyn_registry \<times> dyn_outcome" where
  "dyn_invoke W L dir dir2 task name ctx body g =
     (case dyn_resolve L dir dir2 task name g of
        (g1, Inl f) \<Rightarrow> (g1, dyn_failed f)
      | (g1, Inr cm) \<Rightarrow>
          let st = (case dg_states g1 name of Some s \<Rightarrow> s | None \<Rightarrow> host_state_new name);
              (s, outcome) = run_module W (module_plugin g1 name st) ctx body
          in (g1\<lparr>dg_states := (dg_states g1)(name \<mapsto> lp_state (ss_plugins s ! 0))\<rparr>, outcome))"

section \<open>The execution API\<close>

definition outcome_response :: "('m, 'v) http_lib \<Rightarrow> dyn_outcome \<Rightarrow> 'm response" where
  "outcome_response H out =
     (case (case do_body out of Some b \<Rightarrow> if b = [] then None else Some b | None \<Rightarrow> None) of
        None \<Rightarrow>
          if do_status out = 204 then empty_response H 204
          else text_response H (do_status out) (status_line (do_status out))
      | Some body \<Rightarrow>
          let has_content_type = list_ex (\<lambda>(n, _). eq_ignore_ascii_case n ''content-type'') (do_headers out);
              b = map_option (copy_plugin_headers H (do_headers out)) (builder H (do_status out));
              b = (if has_content_type then b
                   else builder_header H ''content-type'' ''text/plain; charset=utf-8'' b)
          in (case b of
                Some m \<Rightarrow> \<lparr>rs_status = do_status out, rs_headers = m, rs_body = body\<rparr>
              | None \<Rightarrow> text_response H 500 (''500 bad response'' @ newline)))"

definition route_hit :: "dyn_registry option \<Rightarrow> dyn_routes \<Rightarrow> rstr \<Rightarrow> rstr \<Rightarrow> rstr option" where
  "route_hit reg table method path = (case reg of None \<Rightarrow> None | Some _ \<Rightarrow> dyn_lookup table method path)"

text \<open>
  \<open>dispatch\<close>: the body under the configured cap, the invocation, one count of the outcome. The counts
  are the pairs of module and status recorded.
\<close>

definition dyn_dispatch ::
  "'g wasm_env \<Rightarrow> ('m, 'v) http_lib \<Rightarrow> loader \<Rightarrow> mod_dir \<Rightarrow> mod_dir \<Rightarrow> rstr option \<Rightarrow> rstr \<Rightarrow> req_ctx
   \<Rightarrow> (u64 \<Rightarrow> rstr option) \<Rightarrow> dyn_registry option
   \<Rightarrow> dyn_registry option \<times> 'm response \<times> (rstr \<times> u16) list" where
  "dyn_dispatch W H L dir dir2 task name ctx to_bytes reg =
     (case reg of
        None \<Rightarrow> (None, text_response H 404 (''404 not found'' @ newline), [])
      | Some g \<Rightarrow>
          (case to_bytes (dy_max_body_bytes (dg_cfg g)) of
             None \<Rightarrow> (Some g, text_response H 413 (''413 payload too large'' @ newline), [(name, 413)])
           | Some body \<Rightarrow>
               let (g', out) = dyn_invoke W L dir dir2 task name ctx body g
               in (Some g', outcome_response H out, [(name, do_status out)])))"

section \<open>Optimistic updates of a shared table\<close>

text \<open>
  An \<open>ArcSwap\<close> cell: the identity of the allocation it points to and its value. \<open>cas_loop\<close> reads it,
  computes a new value and publishes it if no other writer came in between; \<open>env\<close> is what the
  others leave in each round.
\<close>

record 'a cell =
  cl_ptr :: nat
  cl_val :: 'a

fun cas_loop ::
  "(nat \<Rightarrow> 'a cell \<Rightarrow> 'a cell) \<Rightarrow> ('a \<Rightarrow> 'e + 'a \<times> 'r) \<Rightarrow> nat list \<Rightarrow> 'a cell \<Rightarrow> 'a cell \<times> ('e + 'r) option" where
  "cas_loop env f [] c = (c, None)"
| "cas_loop env f (i # is) c =
     (case f (cl_val c) of
        Inl e \<Rightarrow> (env i c, Some (Inl e))
      | Inr (v, r) \<Rightarrow>
          let c' = env i c in
          if cl_ptr c' = cl_ptr c then (\<lparr>cl_ptr = Suc (cl_ptr c'), cl_val = v\<rparr>, Some (Inr r))
          else cas_loop env f is c')"

datatype route_error = BindErr bind_error | Contention

definition bind_dynamic_route ::
  "(nat \<Rightarrow> dyn_routes cell \<Rightarrow> dyn_routes cell) \<Rightarrow> rstr \<Rightarrow> rstr \<Rightarrow> rstr \<Rightarrow> dyn_routes cell
   \<Rightarrow> dyn_routes cell \<times> (route_error + unit)" where
  "bind_dynamic_route env method path module c =
     (case cas_loop env (\<lambda>t. and_then (bind t method path module) (\<lambda>t'. Inr (t', ()))) [0..<8] c of
        (c', Some (Inr _)) \<Rightarrow> (c', Inr ())
      | (c', Some (Inl e)) \<Rightarrow> (c', Inl (BindErr e))
      | (c', None) \<Rightarrow> (c', Inl Contention))"

definition unbind_dynamic_module ::
  "(nat \<Rightarrow> dyn_routes cell \<Rightarrow> dyn_routes cell) \<Rightarrow> rstr \<Rightarrow> dyn_routes cell \<Rightarrow> dyn_routes cell \<times> nat" where
  "unbind_dynamic_module env module c =
     (case cas_loop env (\<lambda>t. (Inr (unbind_module t module) :: unit + _)) [0..<8] c of
        (c', Some (Inr removed)) \<Rightarrow> (c', removed)
      | (c', _) \<Rightarrow> (c', 0))"

section \<open>The registration face\<close>

definition MAX_MODULE_BYTES :: nat where "MAX_MODULE_BYTES = 64 * 1024 * 1024"

datatype admin_reply =
    ReplyText u16 rstr
  | ReplyBindError route_error
  | ReplyStored rstr nat
  | ReplyBound rstr rstr rstr
  | ReplyRemoved rstr bool nat
  | ReplyListing rstr "rstr list" "dynamic_route list"

definition bound_response :: "rstr \<Rightarrow> rstr \<Rightarrow> rstr \<Rightarrow> admin_reply" where
  "bound_response name method path = ReplyBound name (to_ascii_uppercase (trim method)) path"

text \<open>Storing an artifact, with the answer of the file system: its error or the new file's version.\<close>

definition store_module :: "rstr + file_version \<Rightarrow> rstr \<Rightarrow> rstr \<Rightarrow> mod_dir \<Rightarrow> rstr + mod_dir" where
  "store_module io name bytes dir = and_then io (\<lambda>v. Inr (dir(name \<mapsto> (v, bytes))))"

definition finish_bind ::
  "(nat \<Rightarrow> dyn_routes cell \<Rightarrow> dyn_routes cell) \<Rightarrow> rstr \<Rightarrow> rstr \<Rightarrow> rstr \<Rightarrow> dyn_routes cell \<Rightarrow> dyn_routes cell \<times> admin_reply" where
  "finish_bind env name method path c =
     (case bind_dynamic_route env method path name c of
        (c', Inr ()) \<Rightarrow> (c', bound_response name method path)
      | (c', Inl e) \<Rightarrow> (c', ReplyBindError e))"

definition quoted :: "rstr \<Rightarrow> rstr" where "quoted s = [CHR 0x27] @ s @ [CHR 0x27]"

definition dyn_register ::
  "(nat \<Rightarrow> dyn_routes cell \<Rightarrow> dyn_routes cell) \<Rightarrow> loader \<Rightarrow> rstr option \<Rightarrow> rstr + file_version \<Rightarrow> dyn_registry option
   \<Rightarrow> rstr \<Rightarrow> rstr option \<Rightarrow> rstr option \<Rightarrow> (nat \<Rightarrow> rstr option) \<Rightarrow> mod_dir \<Rightarrow> dyn_routes cell
   \<Rightarrow> mod_dir \<times> dyn_routes cell \<times> admin_reply" where
  "dyn_register env L task io reg name method path to_bytes dir c =
     (case reg of
        None \<Rightarrow> (dir, c, ReplyText 404 (''404 not found'' @ newline))
      | Some g \<Rightarrow>
          if \<not> valid_name name then (dir, c, ReplyText 400 (''400 invalid dynamic module name'' @ newline))
          else if (method = None) \<noteq> (path = None)
          then (dir, c, ReplyText 400 (''400 bind needs both '' @ quoted ''method'' @ '' and '' @ quoted ''path'' @ '' query params'' @ newline))
          else case to_bytes MAX_MODULE_BYTES of
            None \<Rightarrow> (dir, c, ReplyText 413 (''413 payload too large'' @ newline))
          | Some body \<Rightarrow>
              if body = [] then
                (case (method, path) of
                   (Some m, Some p) \<Rightarrow>
                     if dir name = None then (dir, c, ReplyText 404 (''404 dynamic module not found'' @ newline))
                     else (dir, finish_bind env name m p c)
                 | _ \<Rightarrow> (dir, c, ReplyText 400 (''400 empty body: send the module bytes, or bind an existing module with ''
                       @ quoted ''method'' @ '' and '' @ quoted ''path'' @ newline)))
              else
                (case (case task of Some e \<Rightarrow> Inl (''validator task failed: '' @ e) | None \<Rightarrow> validate_bytes L body) of
                   Inl detail \<Rightarrow> (dir, c, ReplyText 400 (''400 '' @ detail @ newline))
                 | Inr _ \<Rightarrow>
                     (case store_module io name body dir of
                        Inl detail \<Rightarrow> (dir, c, ReplyText 500 (''500 '' @ detail @ newline))
                      | Inr dir' \<Rightarrow>
                          (case (method, path) of
                             (Some m, Some p) \<Rightarrow> (dir', finish_bind env name m p c)
                           | _ \<Rightarrow> (dir', c, ReplyStored name (length body))))))"

definition dyn_unregister ::
  "(nat \<Rightarrow> dyn_routes cell \<Rightarrow> dyn_routes cell) \<Rightarrow> rstr option \<Rightarrow> dyn_registry option \<Rightarrow> rstr \<Rightarrow> mod_dir \<Rightarrow> dyn_routes cell
   \<Rightarrow> mod_dir \<times> dyn_routes cell \<times> admin_reply" where
  "dyn_unregister env io reg name dir c =
     (case reg of
        None \<Rightarrow> (dir, c, ReplyText 404 (''404 not found'' @ newline))
      | Some g \<Rightarrow>
          if \<not> valid_name name then (dir, c, ReplyText 400 (''400 invalid dynamic module name'' @ newline))
          else case (dir name, io) of
            (Some _, Some e) \<Rightarrow> (dir, c, ReplyText 500 (''500 remove '' @ e @ newline))
          | (file, _) \<Rightarrow>
              let deleted = (file \<noteq> None); (c', unbound) = unbind_dynamic_module env name c
              in if \<not> deleted \<and> unbound = 0
                 then (dir, c', ReplyText 404 (''404 dynamic module not found'' @ newline))
                 else (dir(name := None), c', ReplyRemoved name deleted unbound))"

text \<open>The listing: file names of the directory (regular files with UTF-8 names), then the bindings.\<close>

definition dyn_list :: "dyn_registry option \<Rightarrow> (bool \<times> rstr option) list \<Rightarrow> dyn_routes \<Rightarrow> admin_reply" where
  "dyn_list reg entries table =
     (case reg of
        None \<Rightarrow> ReplyText 404 (''404 not found'' @ newline)
      | Some g \<Rightarrow>
          let names = List.map_filter snd (filter fst entries);
              stems = List.map_filter (\<lambda>f. strip_suffix f ''.wasm'') names
          in ReplyListing (dy_dir (dg_cfg g)) (sort (filter valid_name stems)) (dyn_entries table))"

section \<open>Lemmas on optimistic updates\<close>

locale cas_update =
  fixes f :: "'a \<Rightarrow> 'e + 'a \<times> 'r" and inv :: "'a \<Rightarrow> bool"
  assumes keeps: "inv v \<Longrightarrow> f v = Inr (v', r) \<Longrightarrow> inv v'"
begin

lemma cas_inv:
  assumes "inv (cl_val c)" "\<And>i c. inv (cl_val c) \<Longrightarrow> inv (cl_val (env i c))"
  shows "inv (cl_val (fst (cas_loop env f is c)))"
  using assms(1)
proof (induction "is" arbitrary: c)
  case (Cons i "is")
  then show ?case using assms(2) keeps
    by (auto simp: Let_def split: sum.split prod.split)
qed simp

text \<open>A published value was computed from the value it replaced: no update of another writer is lost.\<close>

lemma cas_no_lost_update:
  assumes "cas_loop env f is c = (c', Some (Inr r))"
  shows "\<exists>cur i. i \<in> set is \<and> cl_ptr (env i cur) = cl_ptr cur \<and> f (cl_val cur) = Inr (cl_val c', r)"
  using assms
proof (induction "is" arbitrary: c)
  case (Cons i "is")
  show ?case
  proof (cases "f (cl_val c)")
    case (Inl e)
    then show ?thesis using Cons.prems by simp
  next
    case (Inr vr)
    obtain v r' where vr: "vr = (v, r')" by fastforce
    show ?thesis
    proof (cases "cl_ptr (env i c) = cl_ptr c")
      case True
      then have "f (cl_val c) = Inr (cl_val c', r)" using Cons.prems Inr vr by (auto simp: Let_def)
      then show ?thesis using True by (intro exI [of _ c] exI [of _ i]) simp
    next
      case False
      then have "cas_loop env f is (env i c) = (c', Some (Inr r))" using Cons.prems Inr vr by (auto simp: Let_def)
      from Cons.IH [OF this] show ?thesis by auto
    qed
  qed
qed simp

end

interpretation bind_cas: cas_update "\<lambda>t. and_then (bind t m p md) (\<lambda>t'. Inr (t', ()))" table_inv for m p md
  by unfold_locales (auto simp: bind_def elim: bind_owned_ok)

interpretation unbind_cas: cas_update "\<lambda>t. (Inr (unbind_module t md) :: unit + _)" table_inv for md
proof
  show "table_inv v'" if "table_inv v" "Inr (unbind_module v md) = Inr (v', r)" for v v' r
    using table_inv_unbind_module [OF that(1), of md] that(2) by simp
qed

section \<open>Lemmas on the registry\<close>

text \<open>
  Versions identify contents: \<open>V name version\<close> is what the file of that version holds. The directory
  obeys this, and so does every cache entry.
\<close>

definition dir_ok :: "(rstr \<Rightarrow> file_version \<Rightarrow> rstr) \<Rightarrow> mod_dir \<Rightarrow> bool" where
  "dir_ok V dir \<longleftrightarrow> (\<forall>n v b. dir n = Some (v, b) \<longrightarrow> b = V n v)"

definition cm_ok :: "loader \<Rightarrow> (rstr \<Rightarrow> file_version \<Rightarrow> rstr) \<Rightarrow> rstr \<Rightarrow> cached_module \<Rightarrow> bool" where
  "cm_ok L V n cm \<longleftrightarrow> cm_module cm = V n (cm_version cm) \<and> compile_bytes L (cm_module cm) = Inr (cm_has_dealloc cm)"

definition dyn_inv :: "loader \<Rightarrow> (rstr \<Rightarrow> file_version \<Rightarrow> rstr) \<Rightarrow> dyn_registry \<Rightarrow> bool" where
  "dyn_inv L V g \<longleftrightarrow>
     (\<forall>n cm. dg_cache g n = Some cm \<longrightarrow> cm_ok L V n cm \<and> dg_states g n \<noteq> None)
     \<and> (\<forall>n st. dg_states g n = Some st \<longrightarrow> hs_inv st)"

text \<open>The reference: no cache, compile the current file on every request.\<close>

definition resolve_uncached :: "loader \<Rightarrow> mod_dir \<Rightarrow> rstr \<Rightarrow> resolve_fail + cached_module" where
  "resolve_uncached L dir name =
     (if \<not> valid_name name then Inl InvalidName
      else case dir name of
        None \<Rightarrow> Inl NotFound
      | Some (v, bytes) \<Rightarrow>
          map_err BuildFail (and_then (compile_bytes L bytes)
            (\<lambda>info. Inr \<lparr>cm_version = v, cm_module = bytes, cm_has_dealloc = info\<rparr>)))"

lemma dyn_compile_spec:
  assumes "dyn_inv L V g" "dir_ok V dir" "dir name = Some (v, b)"
  shows "dyn_inv L V (fst (dyn_compile L dir None name v g))"
    and "snd (dyn_compile L dir None name v g) =
      map_err BuildFail (and_then (compile_bytes L b) (\<lambda>info. Inr \<lparr>cm_version = v, cm_module = b, cm_has_dealloc = info\<rparr>))"
    and "dg_states g n = Some st \<Longrightarrow> dg_states (fst (dyn_compile L dir None name v g)) n = Some st"
    and "dg_cfg (fst (dyn_compile L dir None name v g)) = dg_cfg g"
proof -
  have b: "b = V name v" using assms(2,3) unfolding dir_ok_def by blast
  show "dyn_inv L V (fst (dyn_compile L dir None name v g))"
  proof (cases "compile_bytes L b")
    case (Inl e)
    then show ?thesis using assms(1,3) by (simp add: dyn_compile_def dyn_inv_def)
  next
    case (Inr info)
    then have "cm_ok L V name \<lparr>cm_version = v, cm_module = b, cm_has_dealloc = info\<rparr>" using b by (simp add: cm_ok_def)
    then show ?thesis
      using Inr assms(1,3) hs_inv_new [of name] by (auto simp: dyn_compile_def dyn_inv_def Let_def split: option.splits)
  qed
  show "snd (dyn_compile L dir None name v g) =
      map_err BuildFail (and_then (compile_bytes L b) (\<lambda>info. Inr \<lparr>cm_version = v, cm_module = b, cm_has_dealloc = info\<rparr>))"
    using assms(3) by (cases "compile_bytes L b") (simp_all add: dyn_compile_def Let_def)
qed (use assms(3) in \<open>auto simp: dyn_compile_def Let_def split: sum.splits option.splits\<close>)

lemma dyn_resolve_spec:
  assumes "dyn_inv L V g" "dir_ok V dir"
  shows "dyn_inv L V (fst (dyn_resolve L dir dir None name g))"
    and "snd (dyn_resolve L dir dir None name g) = resolve_uncached L dir name"
    and "dg_states g n = Some st \<Longrightarrow> dg_states (fst (dyn_resolve L dir dir None name g)) n = Some st"
    and "dg_cfg (fst (dyn_resolve L dir dir None name g)) = dg_cfg g"
proof -
  note c = dyn_compile_spec [OF assms]
  have hit: "resolve_uncached L dir name = Inr cm"
    if "valid_name name" "dir name = Some (cm_version cm, b)" "dg_cache g name = Some cm" for cm b
  proof -
    have "cm_ok L V name cm" "b = V name (cm_version cm)"
      using that assms unfolding dyn_inv_def dir_ok_def by blast+
    then have "b = cm_module cm" "compile_bytes L (cm_module cm) = Inr (cm_has_dealloc cm)" by (auto simp: cm_ok_def)
    then show ?thesis using that(1,2) by (simp add: resolve_uncached_def)
  qed
  show "dyn_inv L V (fst (dyn_resolve L dir dir None name g))"
    using assms(1) c(1) by (auto simp: dyn_resolve_def dyn_inv_def split: option.splits)
  show "snd (dyn_resolve L dir dir None name g) = resolve_uncached L dir name"
  proof (cases "valid_name name \<and> dir name \<noteq> None")
    case True
    then obtain v b where vb: "dir name = Some (v, b)" by auto
    show ?thesis
    proof (cases "\<exists>cm. dg_cache g name = Some cm \<and> cm_version cm = v")
      case hitc: True
      then obtain cm where cm: "dg_cache g name = Some cm" "cm_version cm = v" by blast
      then show ?thesis using True vb hit [of cm b] by (simp add: dyn_resolve_def)
    next
      case False
      then have "dyn_resolve L dir dir None name g = dyn_compile L dir None name v g"
        using True vb by (cases "dg_cache g name") (simp_all add: dyn_resolve_def)
      then show ?thesis using c(2) [OF vb] True vb by (simp add: resolve_uncached_def)
    qed
  next
    case False
    then show ?thesis by (cases "dir name") (simp_all add: dyn_resolve_def resolve_uncached_def)
  qed
  show "dg_states (fst (dyn_resolve L dir dir None name g)) n = Some st" if "dg_states g n = Some st"
    using that c(3) by (auto simp: dyn_resolve_def split: option.splits)
  show "dg_cfg (fst (dyn_resolve L dir dir None name g)) = dg_cfg g"
    using c(4) by (auto simp: dyn_resolve_def split: option.splits)
qed

lemma terminal_loop_inv:
  assumes "sess_inv s"
  shows "sess_inv (fst (terminal_loop W phs s)) \<and> length (ss_plugins (fst (terminal_loop W phs s))) = length (ss_plugins s)"
  using assms
proof (induction phs arbitrary: s)
  case (Cons ph phs)
  obtain s' d where r: "run_phase W ph s = (s', d)" by fastforce
  have "sess_inv s'" "map lp_name (ss_plugins s') = map lp_name (ss_plugins s)"
    using run_phase_ok [OF r Cons.prems] by (auto simp: sess_confined_def)
  moreover from this(2) have "length (ss_plugins s') = length (ss_plugins s)" by (rule map_eq_imp_length_eq)
  ultimately show ?case using Cons.IH [of s'] r by (cases d) (auto simp: terminal_loop.simps(2))
qed simp

lemma run_phase_inv:
  assumes "sess_inv s" "length (ss_plugins s) = n"
  shows "sess_inv (fst (run_phase W ph s))" and "length (ss_plugins (fst (run_phase W ph s))) = n"
proof -
  have ok: "sess_inv (fst (run_phase W ph s)) \<and> sess_confined s (fst (run_phase W ph s))"
    using run_phase_ok [OF prod.collapse [symmetric] assms(1)] by blast
  then show "sess_inv (fst (run_phase W ph s))" by blast
  have "map lp_name (ss_plugins (fst (run_phase W ph s))) = map lp_name (ss_plugins s)"
    using ok by (simp add: sess_confined_def)
  then show "length (ss_plugins (fst (run_phase W ph s))) = n" using assms(2) map_eq_imp_length_eq by metis
qed

lemma run_module_store:
  fixes W :: "'g wasm_env"
  assumes "hs_inv (lp_state p)"
  shows "hs_inv (lp_state (ss_plugins (fst (run_module W p ctx body)) ! 0))"
proof -
  let ?s0 = "set_req_body body (session_new [p] ctx []) :: 'g session"
  let ?s1 = "fst (terminal_loop W [PostRead, Rewrite, Access, Content] ?s0)"
  let ?s2 = "set_resp_headers (ss_resp_headers ?s1) ?s1"
  let ?s3 = "fst (run_phase W HeaderFilter ?s2)"
  let ?s4 = "fst (run_phase W Log_Phase ?s3)"
  have "sess_inv (session_new [p] ctx [] :: 'g session)" using assms by (simp add: sess_inv_new)
  from sess_inv_step [OF this, of W "OpSetReqBody body"] have s0: "sess_inv ?s0" by simp
  have "length (ss_plugins ?s0) = 1" by (simp add: set_req_body_def session_new_def)
  with terminal_loop_inv [OF s0] have s1: "sess_inv ?s1" "length (ss_plugins ?s1) = 1" by auto
  from sess_inv_step [OF s1(1), of W "OpSetRespHeaders (ss_resp_headers ?s1)"]
  have s2: "sess_inv ?s2" "length (ss_plugins ?s2) = 1" using s1(2) by (simp_all add: set_resp_headers_def)
  note s4 = run_phase_inv [OF run_phase_inv [OF s2, of W HeaderFilter], of W Log_Phase]
  have "ss_plugins (fst (run_module W p ctx body)) = ss_plugins ?s4"
    by (simp add: run_module_def Let_def final_headers_def take_header_edits_def take_resp_body_def split: prod.splits)
  moreover have "ss_plugins ?s4 ! 0 \<in> set (ss_plugins ?s4)" using s4(2) by (intro nth_mem) simp
  ultimately show ?thesis using s4(1) by (auto simp: sess_inv_def)
qed

lemma dyn_invoke_inv:
  assumes "dyn_inv L V g" "dir_ok V dir"
  shows "dyn_inv L V (fst (dyn_invoke W L dir dir None name ctx body g))"
proof -
  obtain g1 r where r: "dyn_resolve L dir dir None name g = (g1, r)" by fastforce
  have g1: "dyn_inv L V g1" using dyn_resolve_spec(1) [OF assms, of name] r by simp
  let ?st = "case dg_states g1 name of Some s \<Rightarrow> s | None \<Rightarrow> host_state_new name"
  have "hs_inv ?st" using g1 by (auto simp: dyn_inv_def hs_inv_new split: option.split)
  then have "hs_inv (lp_state (module_plugin g1 name ?st))" by (simp add: module_plugin_def)
  from run_module_store [OF this, of W ctx body] show ?thesis
    using g1 r by (auto simp: dyn_invoke_def Let_def dyn_inv_def split: sum.splits prod.splits)
qed

type_synonym dyn_request = "mod_dir \<times> rstr \<times> req_ctx \<times> rstr"

definition invoke_step :: "'g wasm_env \<Rightarrow> loader \<Rightarrow> dyn_registry \<Rightarrow> dyn_request \<Rightarrow> dyn_registry" where
  "invoke_step W L g r = (case r of (dir, name, ctx, body) \<Rightarrow> fst (dyn_invoke W L dir dir None name ctx body g))"

lemma invoke_history_inv:
  assumes "\<forall>r \<in> set rs. dir_ok V (fst r)" "dyn_inv L V g"
  shows "dyn_inv L V (foldl (invoke_step W L) g rs)"
  using assms
proof (induction rs arbitrary: g)
  case (Cons r rs)
  obtain dir name ctx body where r: "r = (dir, name, ctx, body)" by (cases r)
  have "dyn_inv L V (invoke_step W L g r)"
    using dyn_invoke_inv [OF Cons.prems(2), of dir] Cons.prems(1) by (simp add: invoke_step_def r)
  then show ?case using Cons by simp
qed simp

lemma headers_dropped:
  assumes "do_body out = None \<or> do_body out = Some []"
  shows "outcome_response H (out\<lparr>do_headers := hs\<rparr>) = outcome_response H out"
  using assms by (auto simp: outcome_response_def)

section \<open>Properties\<close>



end
