(* ===== verification/Runtime.thy ===== *)
theory Runtime
  imports Pipeline Resolve DynModules
begin

text \<open>
  The gateway state and its reloads (\<open>crates/openrusty-server/src/state.rs\<close>, \<open>reload.rs\<close>,
  \<open>active_probe.rs\<close>): building the runtime from a configuration, publishing it, and the probe task.
  Arguments: the resolver, rustls, the plugin files, the validity of TLS server names, the content
  of the configuration file. Reloads run under one gate, so no other writer publishes plugins
  meanwhile.
\<close>

section \<open>State\<close>

record ('cert, 'sk) runtime_snapshot =
  rn_generation :: u64
  rn_routes :: "route_config list"
  rn_upstreams :: "(rstr \<times> ('cert, 'sk) upstream_rt) list"

definition empty_runtime :: "('cert, 'sk) runtime_snapshot" where
  "empty_runtime = \<lparr>rn_generation = 0, rn_routes = [], rn_upstreams = []\<rparr>"

record ('cert, 'sk) server =
  sr_registry :: snapshot_cell
  sr_health :: health_registry
  sr_pool :: "('cert, 'sk) client_pool"
  sr_runtime :: "('cert, 'sk) runtime_snapshot"
  sr_admin_token :: "rstr option"
  sr_static_config :: config
  sr_tls_resolver :: bool
  sr_dynamic_routes :: "dyn_routes cell"
  sr_dynamic :: "dyn_registry option"
  sr_probe_task :: "u64 option"
  sr_reload_gate :: bool

text \<open>What the code outside the gateway answers.\<close>

record ('cert, 'key, 'sk) outside =
  ou_dns :: resolver
  ou_tls :: "('cert, 'key, 'sk) tls_lib"
  ou_name_valid :: "rstr \<Rightarrow> bool"
  ou_loader :: "rstr + loader"
  ou_engine :: "rstr + unit"
  ou_linker :: "rstr + unit"

section \<open>Building the runtime\<close>

fun build_tls_plans ::
  "('cert, 'key, 'sk) tls_lib \<Rightarrow> upstream_config list \<Rightarrow> (rstr \<times> tls_error) + (rstr \<rightharpoonup> ('cert, 'sk) upstream_tls)" where
  "build_tls_plans T [] = Inr Map.empty"
| "build_tls_plans T (uc # ucs) =
     (case uc_tls uc of
        None \<Rightarrow> build_tls_plans T ucs
      | Some tc \<Rightarrow>
          and_then (map_err (Pair (uc_name uc)) (build_tls T tc)) (\<lambda>tls.
          and_then (build_tls_plans T ucs) (\<lambda>plans.
            Inr (if plans (uc_name uc) = None then plans(uc_name uc \<mapsto> tls) else plans))))"

text \<open>\<open>log_health_advisories\<close>: the upstreams it warns about.\<close>

definition health_advisories :: "config \<Rightarrow> (rstr \<times> u32) list" where
  "health_advisories cfg =
     map (\<lambda>u. (uc_name u, hc_max_fails (uc_health u)))
       (filter (\<lambda>u. starts_with (uc_name u) ''ing-'' \<and> 0 < hc_max_fails (uc_health u)) (cf_upstreams cfg))"

text \<open>The pooled client of each peer is created ahead of the first request.\<close>

fun warm_peers ::
  "(rstr \<Rightarrow> bool) \<Rightarrow> ('cert, 'sk) upstream \<Rightarrow> peer list \<Rightarrow> ('cert, 'sk) client_pool \<Rightarrow> pool_key list
   \<Rightarrow> (('cert, 'sk) client_pool \<times> pool_key list) rust" where
  "warm_peers valid up [] pool keys = Return (pool, keys)"
| "warm_peers valid up (p # ps) pool keys =
     (case up_tls up of
        Some tls \<Rightarrow>
          (case get_tls valid pool (pr_addr p) tls (up_connect_timeout up) (up_pool_idle_timeout up) of
             Panic \<Rightarrow> Panic
           | Return (pool', _) \<Rightarrow> warm_peers valid up ps pool' (keys @ [PoolHttps (pr_addr p) (ut_key tls)]))
      | None \<Rightarrow>
          warm_peers valid up ps (fst (get pool (pr_addr p) (up_connect_timeout up) (up_pool_idle_timeout up)))
            (keys @ [PoolHttp (pr_addr p)]))"

record ('cert, 'sk) build_state =
  bs_health :: health_registry
  bs_pool :: "('cert, 'sk) client_pool"
  bs_keys :: "pool_key list"
  bs_upstreams :: "(rstr \<times> ('cert, 'sk) upstream_rt) list"

definition apply_upstream ::
  "(rstr \<Rightarrow> bool) \<Rightarrow> (rstr \<rightharpoonup> ('cert, 'sk) upstream_tls) \<Rightarrow> upstream_config \<Rightarrow> ('cert, 'sk) build_state
   \<Rightarrow> ('cert, 'sk) build_state rust" where
  "apply_upstream valid plans uc b =
     (let up = upstream_from_config uc (plans (uc_name uc));
          h = register (bs_health b) (up_name up) (map pr_addr (up_peers up))
      in rust_map (\<lambda>(pool, keys).
           \<lparr>bs_health = h, bs_pool = pool, bs_keys = keys,
            bs_upstreams = al_insert (up_name up) \<lparr>ur_up = up, ur_swrr = replicate (length (up_peers up)) 0\<rparr> (bs_upstreams b)\<rparr>)
         (warm_peers valid up (up_peers up) (bs_pool b) (bs_keys b)))"

fun apply_upstreams ::
  "(rstr \<Rightarrow> bool) \<Rightarrow> (rstr \<rightharpoonup> ('cert, 'sk) upstream_tls) \<Rightarrow> upstream_config list \<Rightarrow> ('cert, 'sk) build_state
   \<Rightarrow> ('cert, 'sk) build_state rust" where
  "apply_upstreams valid plans [] b = Return b"
| "apply_upstreams valid plans (uc # ucs) b =
     (case apply_upstream valid plans uc b of Panic \<Rightarrow> Panic | Return b' \<Rightarrow> apply_upstreams valid plans ucs b')"

definition apply_runtime ::
  "(rstr \<Rightarrow> bool) \<Rightarrow> config \<Rightarrow> u64 \<Rightarrow> (rstr \<rightharpoonup> ('cert, 'sk) upstream_tls) \<Rightarrow> ('cert, 'sk) server \<Rightarrow> ('cert, 'sk) server rust" where
  "apply_runtime valid cfg generation plans st =
     rust_map (\<lambda>b. st\<lparr>sr_health := bs_health b, sr_pool := evict_except (bs_pool b) (bs_keys b),
          sr_runtime := \<lparr>rn_generation = generation, rn_routes = cf_routes cfg, rn_upstreams = bs_upstreams b\<rparr>\<rparr>)
       (apply_upstreams valid plans (cf_upstreams cfg)
          \<lparr>bs_health = sr_health st, bs_pool = sr_pool st, bs_keys = [], bs_upstreams = []\<rparr>)"

definition apply_dynamic :: "config \<Rightarrow> ('cert, 'sk) server \<Rightarrow> ('cert, 'sk) server" where
  "apply_dynamic cfg st =
     (let changed =
            (case (sr_dynamic st, cf_dynamic cfg) of
               (Some prev, Some next) \<Rightarrow> dg_cfg prev \<noteq> next
             | (None, None) \<Rightarrow> False
             | _ \<Rightarrow> True)
      in if \<not> changed then st else st\<lparr>sr_dynamic := map_option dyn_registry_new (cf_dynamic cfg)\<rparr>)"

definition apply_dynamic_routes :: "config \<Rightarrow> ('cert, 'sk) server \<Rightarrow> ('cert, 'sk) server" where
  "apply_dynamic_routes cfg st =
     (let cur = sr_dynamic_routes st;
          next = (case cf_dynamic cfg of None \<Rightarrow> dyn_routes_new | Some d \<Rightarrow> reconcile (cl_val cur) (dy_routes d))
      in st\<lparr>sr_dynamic_routes := \<lparr>cl_ptr = Suc (cl_ptr cur), cl_val = next\<rparr>\<rparr>)"

section \<open>The probe task\<close>

text \<open>\<open>spawn\<close>: the old task is aborted; a new one runs at the smallest configured interval.\<close>

fun min_interval :: "('cert, 'sk) upstream_rt list \<Rightarrow> u64 option \<Rightarrow> u64 option" where
  "min_interval [] acc = acc"
| "min_interval (u # us) acc =
     min_interval us
       (case hc_active (up_health (ur_up u)) of
          None \<Rightarrow> acc
        | Some a \<Rightarrow> Some (case acc of Some m \<Rightarrow> min m (ac_interval_ms a) | None \<Rightarrow> ac_interval_ms a))"

definition spawn_probes :: "('cert, 'sk) server \<Rightarrow> ('cert, 'sk) server" where
  "spawn_probes st = st\<lparr>sr_probe_task := min_interval (map snd (rn_upstreams (sr_runtime st))) None\<rparr>"

text \<open>
  One probe: a GET of the configured path through the pooled client; only a 2xx answer within the
  timeout is a success. The verdict goes to the registry.
\<close>

definition probe_request :: "active_health_config \<Rightarrow> forward_request" where
  "probe_request a = \<lparr>fr_method = ''GET'', fr_path_and_query = ac_path a, fr_headers = [], fr_body = [],
     fr_client_ip = ''127.0.0.1''\<rparr>"

definition probe_ok :: "bool \<Rightarrow> forward_error + ('m, 'b) upstream_resp \<Rightarrow> bool" where
  "probe_ok timed_out r = (\<not> timed_out \<and> (case r of Inr resp \<Rightarrow> 200 \<le> us_status resp \<and> us_status resp < 300 | Inl _ \<Rightarrow> False))"

definition probe_peer ::
  "('m, 'v) http_lib \<Rightarrow> ('m, 'cert, 'sk, ('m, 'b) upstream_resp) net \<Rightarrow> bool \<Rightarrow> ('cert, 'sk) upstream \<Rightarrow> nat \<Rightarrow> peer
   \<Rightarrow> active_health_config \<Rightarrow> health_registry \<times> ('cert, 'sk) client_pool
   \<Rightarrow> ((health_registry \<times> ('cert, 'sk) client_pool) \<times> bool) rust" where
  "probe_peer H N timed_out up idx peer a hp =
     rust_map (\<lambda>(pool, r).
         case record_probe (fst hp) (up_name up) idx (addr_to_string (pr_addr peer)) (probe_ok timed_out r)
                (ac_unhealthy_threshold a) (ac_healthy_threshold a) of
           (h, healthy) \<Rightarrow> ((h, pool), healthy))
       (forward_peer H N (snd hp) up peer (probe_request a))"

definition transition :: "bool option \<Rightarrow> bool \<Rightarrow> bool option" where
  "transition prev new = (case prev of Some p \<Rightarrow> if p \<noteq> new then Some new else None | None \<Rightarrow> None)"

text \<open>
  One sweep. The probes run concurrently; \<open>order\<close> lists the jobs by the time they complete. The
  verdicts are then compared with the previous ones in job order.
\<close>

definition probe_jobs ::
  "('cert, 'sk) runtime_snapshot \<Rightarrow> (('cert, 'sk) upstream \<times> nat \<times> peer \<times> active_health_config) list" where
  "probe_jobs rt =
     concat (map (\<lambda>(_, u).
       case hc_active (up_health (ur_up u)) of
         None \<Rightarrow> []
       | Some a \<Rightarrow> map (\<lambda>(i, p). (ur_up u, i, p, a)) (List.enumerate 0 (up_peers (ur_up u)))) (rn_upstreams rt))"

fun probe_all ::
  "('m, 'v) http_lib \<Rightarrow> (nat \<Rightarrow> ('m, 'cert, 'sk, ('m, 'b) upstream_resp) net) \<Rightarrow> (nat \<Rightarrow> bool)
   \<Rightarrow> (('cert, 'sk) upstream \<times> nat \<times> peer \<times> active_health_config) list \<Rightarrow> nat list
   \<Rightarrow> health_registry \<times> ('cert, 'sk) client_pool \<Rightarrow> (nat \<rightharpoonup> bool)
   \<Rightarrow> ((health_registry \<times> ('cert, 'sk) client_pool) \<times> (nat \<rightharpoonup> bool)) rust" where
  "probe_all H N late jobs [] hp res = Return (hp, res)"
| "probe_all H N late jobs (j # js) hp res =
     (case jobs ! j of (up, idx, peer, a) \<Rightarrow>
        (case probe_peer H (N j) (late j) up idx peer a hp of
           Panic \<Rightarrow> Panic
         | Return (hp', healthy) \<Rightarrow> probe_all H N late jobs js hp' (res(j \<mapsto> healthy))))"

fun log_transitions ::
  "((rstr \<times> rstr) \<times> bool) list \<Rightarrow> (rstr \<times> rstr \<rightharpoonup> bool)
   \<Rightarrow> (rstr \<times> rstr \<rightharpoonup> bool) \<times> ((rstr \<times> rstr) \<times> bool) list" where
  "log_transitions [] prev = (prev, [])"
| "log_transitions ((key, healthy) # rs) prev =
     (case log_transitions rs (prev(key \<mapsto> healthy)) of (prev', lines) \<Rightarrow>
        (prev', (case transition (prev key) healthy of Some v \<Rightarrow> (key, v) # lines | None \<Rightarrow> lines)))"

definition probe_tick ::
  "('m, 'v) http_lib \<Rightarrow> (nat \<Rightarrow> ('m, 'cert, 'sk, ('m, 'b) upstream_resp) net) \<Rightarrow> (nat \<Rightarrow> bool) \<Rightarrow> nat list
   \<Rightarrow> ('cert, 'sk) server \<Rightarrow> (rstr \<times> rstr \<rightharpoonup> bool)
   \<Rightarrow> (('cert, 'sk) server \<times> (rstr \<times> rstr \<rightharpoonup> bool) \<times> ((rstr \<times> rstr) \<times> bool) list) rust" where
  "probe_tick H N late order st prev =
     (let jobs = probe_jobs (sr_runtime st) in
      rust_map (\<lambda>((h, pool), res).
          (st\<lparr>sr_health := h, sr_pool := pool\<rparr>,
           log_transitions (map (\<lambda>(j, up, idx, peer, a). ((up_name up, addr_to_string (pr_addr peer)), the (res j)))
             (List.enumerate 0 jobs)) prev))
        (probe_all H N late jobs order (sr_health st, sr_pool st) Map.empty))"

section \<open>Boot and reload\<close>

definition uses_tls :: "listener_config \<Rightarrow> bool" where
  "uses_tls l = (li_tls l \<and> li_role l \<noteq> Outbound)"

definition server_from_config ::
  "('cert, 'key, 'sk) outside \<Rightarrow> config \<Rightarrow> (reload_error + ('cert, 'sk) server) rust" where
  "server_from_config Q cfg =
     (case build_tls_plans (ou_tls Q) (cf_upstreams cfg) of
        Inl (name, e) \<Rightarrow> Return (Inl (RlIo name))
      | Inr plans \<Rightarrow>
          (case and_then (map_err RlIo (ou_loader Q))
                  (\<lambda>L. registry_bootstrap (ou_engine Q) (ou_linker Q) L (cf_plugins cfg)) of
             Inl e \<Rightarrow> Return (Inl e)
           | Inr cell \<Rightarrow>
               let st = \<lparr>sr_registry = cell, sr_health = health_new, sr_pool = new_pool, sr_runtime = empty_runtime,
                     sr_admin_token = effective_token (cf_admin cfg), sr_static_config = cfg,
                     sr_tls_resolver = list_ex uses_tls (effective_listeners cfg),
                     sr_dynamic_routes = \<lparr>cl_ptr = 0, cl_val = reconcile dyn_routes_new
                        (case cf_dynamic cfg of Some d \<Rightarrow> dy_routes d | None \<Rightarrow> [])\<rparr>,
                     sr_dynamic = map_option dyn_registry_new (cf_dynamic cfg), sr_probe_task = None,
                     sr_reload_gate = False\<rparr>
               in rust_map Inr
                    (apply_runtime (ou_name_valid Q) cfg (sn_generation (ce_snap cell)) plans st)))"

datatype fail_reason =
    FailTask rstr
  | FailConfig config_error
  | FailFile rstr
  | FailTls rstr tls_error
  | FailPlugins reload_error

datatype srv_reload_error = InFlight | Failed fail_reason

definition publish ::
  "('cert, 'key, 'sk) outside \<Rightarrow> config \<Rightarrow> ('cert, 'sk) server \<Rightarrow> (('cert, 'sk) server \<times> (srv_reload_error + u64)) rust" where
  "publish Q cfg st =
     (let cfg = resolve_config (ou_dns Q) cfg in
      case build_tls_plans (ou_tls Q) (cf_upstreams cfg) of
        Inl (name, e) \<Rightarrow> Return (st, Inl (Failed (FailTls name e)))
      | Inr plans \<Rightarrow>
          (case registry_reload (\<lambda>_ c. c) (\<lambda>_. ou_loader Q) (cf_plugins cfg) (sr_registry st) of
             (cell, Inl e) \<Rightarrow> Return (st\<lparr>sr_registry := cell\<rparr>, Inl (Failed (FailPlugins e)))
           | (cell, Inr generation) \<Rightarrow>
               rust_map (\<lambda>st'. (spawn_probes (apply_dynamic_routes cfg (apply_dynamic cfg st')), Inr generation))
                 (apply_runtime (ou_name_valid Q) cfg generation plans (st\<lparr>sr_registry := cell\<rparr>))))"

text \<open>The configuration file as the blocking task read it: the task's error, a read or parse error, or the parsed file.\<close>

datatype config_file = TaskFailed rstr | Unreadable rstr | Parsed config

record reload_report =
  rp_generation :: u64
  rp_plugins :: "rstr list"

definition reload ::
  "('cert, 'key, 'sk) outside \<Rightarrow> config_file \<Rightarrow> rstr option \<Rightarrow> ('cert, 'sk) server
   \<Rightarrow> (('cert, 'sk) server \<times> (srv_reload_error + reload_report)) rust" where
  "reload Q file env st =
     (if sr_reload_gate st then Return (st, Inl InFlight)
      else case file of
        TaskFailed e \<Rightarrow> Return (st, Inl (Failed (FailTask e)))
      | Unreadable e \<Rightarrow> Return (st, Inl (Failed (FailFile e)))
      | Parsed parsed \<Rightarrow>
          (case load_config (ou_dns Q) env parsed of
             Inl e \<Rightarrow> Return (st, Inl (Failed (FailConfig e)))
           | Inr cfg \<Rightarrow>
               rust_map (\<lambda>(st', r).
                   case r of
                     Inl e \<Rightarrow> (st', Inl e)
                   | Inr generation \<Rightarrow>
                       (st'\<lparr>sr_admin_token := effective_token (cf_admin cfg)\<rparr>,
                        Inr \<lparr>rp_generation = generation, rp_plugins = map lp_name (sn_plugins (ce_snap (sr_registry st')))\<rparr>))
                 (publish Q cfg st)))"

definition apply_config ::
  "('cert, 'key, 'sk) outside \<Rightarrow> config \<Rightarrow> ('cert, 'sk) server \<Rightarrow> (('cert, 'sk) server \<times> (srv_reload_error + u64)) rust" where
  "apply_config Q cfg st =
     (if sr_reload_gate st then Return (st, Inl InFlight) else publish Q cfg st)"

section \<open>Lemmas on building\<close>

fun pool_has :: "('cert, 'sk) client_pool \<Rightarrow> pool_key \<Rightarrow> bool" where
  "pool_has p (PoolHttp a) = (po_http p a \<noteq> None)"
| "pool_has p (PoolHttps a k) = (po_https p (a, k) \<noteq> None)"

definition key_of :: "('cert, 'sk) upstream \<Rightarrow> peer \<Rightarrow> pool_key" where
  "key_of up p = (case up_tls up of Some tls \<Rightarrow> PoolHttps (pr_addr p) (ut_key tls) | None \<Rightarrow> PoolHttp (pr_addr p))"

definition tls_built :: "('cert, 'key, 'sk) tls_lib \<Rightarrow> ('cert, 'sk) upstream \<Rightarrow> bool" where
  "tls_built T up \<longleftrightarrow> (\<forall>tls. up_tls up = Some tls \<longrightarrow> (\<exists>cfg. build_tls T cfg = Inr tls))"

lemma pool_has_get: "pool_has (fst (get pool a ct it)) k \<longleftrightarrow> pool_has pool k \<or> k = PoolHttp a"
  by (cases k) (auto simp: get_def Let_def split: option.splits)

lemma pool_has_get_tls:
  "get_tls valid pool a tls ct it = Return (pool', c) \<Longrightarrow>
   pool_has pool' k \<longleftrightarrow> pool_has pool k \<or> k = PoolHttps a (ut_key tls)"
  by (cases k) (auto simp: get_tls_def Let_def split: option.splits)

lemma pool_inv_get: "pool_inv pool \<Longrightarrow> pool_inv (fst (get pool a ct it))"
  by (auto simp: get_def pool_inv_def Let_def split: option.splits)

lemma warm_peers_spec:
  assumes "warm_peers valid up ps pool keys = Return (pool', keys')"
  shows "keys' = keys @ map (key_of up) ps
    \<and> (\<forall>k. pool_has pool' k \<longleftrightarrow> pool_has pool k \<or> k \<in> key_of up ` set ps)
    \<and> (tls_built T up \<longrightarrow> pool_inv pool \<longrightarrow> pool_inv pool')"
  using assms
proof (induction ps arbitrary: pool keys)
  case (Cons p ps)
  show ?case
  proof (cases "up_tls up")
    case None
    then have k: "key_of up p = PoolHttp (pr_addr p)" by (simp add: key_of_def)
    from Cons.prems None have "warm_peers valid up ps (fst (get pool (pr_addr p) (up_connect_timeout up) (up_pool_idle_timeout up)))
        (keys @ [PoolHttp (pr_addr p)]) = Return (pool', keys')" by simp
    from Cons.IH [OF this] show ?thesis by (auto simp: k pool_has_get intro: pool_inv_get)
  next
    case (Some tls)
    then have k: "key_of up p = PoolHttps (pr_addr p) (ut_key tls)" by (simp add: key_of_def)
    obtain pool1 c where g: "get_tls valid pool (pr_addr p) tls (up_connect_timeout up) (up_pool_idle_timeout up) = Return (pool1, c)"
      using Cons.prems Some by (auto split: rust.splits)
    then have w: "warm_peers valid up ps pool1 (keys @ [PoolHttps (pr_addr p) (ut_key tls)]) = Return (pool', keys')"
      using Cons.prems Some by simp
    have "pool_inv pool1" if "tls_built T up" "pool_inv pool"
      using that pool_inv_get_tls [OF that(2) _ g] Some by (auto simp: tls_built_def)
    then show ?thesis using Cons.IH [OF w] by (auto simp: k pool_has_get_tls [OF g])
  qed
qed simp

text \<open>The runtime of one upstream section.\<close>

definition rt_of :: "(rstr \<rightharpoonup> ('cert, 'sk) upstream_tls) \<Rightarrow> upstream_config \<Rightarrow> ('cert, 'sk) upstream_rt" where
  "rt_of plans uc = (let up = upstream_from_config uc (plans (uc_name uc))
     in \<lparr>ur_up = up, ur_swrr = replicate (length (up_peers up)) 0\<rparr>)"

definition section_keys :: "(rstr \<rightharpoonup> ('cert, 'sk) upstream_tls) \<Rightarrow> upstream_config \<Rightarrow> pool_key list" where
  "section_keys plans uc = map (key_of (ur_up (rt_of plans uc))) (up_peers (ur_up (rt_of plans uc)))"

definition section_entries ::
  "(rstr \<rightharpoonup> ('cert, 'sk) upstream_tls) \<Rightarrow> upstream_config list \<Rightarrow> (rstr \<times> ('cert, 'sk) upstream_rt) list" where
  "section_entries plans ucs = map (\<lambda>uc. (uc_name uc, rt_of plans uc)) ucs"

text \<open>The registry's slots list the peers of every upstream in its order.\<close>

definition aligned :: "health_registry \<Rightarrow> (rstr \<rightharpoonup> ('cert, 'sk) upstream_rt) \<Rightarrow> bool" where
  "aligned h ups \<longleftrightarrow> (\<forall>n u. ups n = Some u \<longrightarrow>
     (\<exists>slots. hr_upstreams h n = Some slots \<and> sl_addrs slots = map pr_addr (up_peers (ur_up u))))"

lemma up_name_rt_of [simp]: "up_name (ur_up (rt_of plans uc)) = uc_name uc"
  by (simp add: rt_of_def Let_def upstream_from_config_def)

lemma apply_upstream_spec:
  assumes "apply_upstream valid plans uc b = Return b'"
  shows "bs_keys b' = bs_keys b @ section_keys plans uc"
    and "pool_has (bs_pool b') k \<longleftrightarrow> pool_has (bs_pool b) k \<or> k \<in> set (section_keys plans uc)"
    and "tls_built T (ur_up (rt_of plans uc)) \<Longrightarrow> pool_inv (bs_pool b) \<Longrightarrow> pool_inv (bs_pool b')"
    and "map_of (bs_upstreams b') = (map_of (bs_upstreams b))(uc_name uc \<mapsto> rt_of plans uc)"
    and "distinct (map fst (bs_upstreams b)) \<Longrightarrow> distinct (map fst (bs_upstreams b'))"
    and "health_inv (bs_health b) \<Longrightarrow> health_inv (bs_health b')"
    and "aligned (bs_health b) (map_of (bs_upstreams b)) \<Longrightarrow> aligned (bs_health b') (map_of (bs_upstreams b'))"
proof -
  define up where "up = upstream_from_config uc (plans (uc_name uc))"
  have up: "ur_up (rt_of plans uc) = up" "up_name up = uc_name uc"
    "\<lparr>ur_up = up, ur_swrr = replicate (length (up_peers up)) 0\<rparr> = rt_of plans uc"
    by (simp_all add: up_def rt_of_def Let_def upstream_from_config_def)
  obtain pool keys where w: "warm_peers valid up (up_peers up) (bs_pool b) (bs_keys b) = Return (pool, keys)"
    and b': "b' = \<lparr>bs_health = register (bs_health b) (uc_name uc) (map pr_addr (up_peers up)), bs_pool = pool,
      bs_keys = keys, bs_upstreams = al_insert (uc_name uc) (rt_of plans uc) (bs_upstreams b)\<rparr>"
    using assms unfolding apply_upstream_def Let_def up_def [symmetric] up(2,3)
    by (cases "warm_peers valid up (up_peers up) (bs_pool b) (bs_keys b)") auto
  note ws = warm_peers_spec [OF w, of T]
  show "bs_keys b' = bs_keys b @ section_keys plans uc" using ws by (simp add: b' section_keys_def up)
  show "pool_has (bs_pool b') k \<longleftrightarrow> pool_has (bs_pool b) k \<or> k \<in> set (section_keys plans uc)"
    using ws by (simp add: b' section_keys_def up)
  show "pool_inv (bs_pool b')" if "tls_built T (ur_up (rt_of plans uc))" "pool_inv (bs_pool b)"
    using ws that by (simp add: b' up)
  show "map_of (bs_upstreams b') = (map_of (bs_upstreams b))(uc_name uc \<mapsto> rt_of plans uc)" by (simp add: b')
  show "distinct (map fst (bs_upstreams b'))" if "distinct (map fst (bs_upstreams b))"
    using that by (simp add: b' distinct_al_insert)
  show "health_inv (bs_health b')" if "health_inv (bs_health b)" using that by (simp add: b' health_inv_register)
  show "aligned (bs_health b') (map_of (bs_upstreams b'))" if "aligned (bs_health b) (map_of (bs_upstreams b))"
    using that by (auto simp: b' aligned_def register_slots up)
qed

lemma apply_upstreams_spec:
  assumes "apply_upstreams valid plans ucs b = Return b'"
  shows "bs_keys b' = bs_keys b @ concat (map (section_keys plans) ucs)
    \<and> (\<forall>k. pool_has (bs_pool b') k \<longleftrightarrow> pool_has (bs_pool b) k \<or> k \<in> set (concat (map (section_keys plans) ucs)))
    \<and> ((\<forall>uc \<in> set ucs. tls_built T (ur_up (rt_of plans uc))) \<longrightarrow> pool_inv (bs_pool b) \<longrightarrow> pool_inv (bs_pool b'))
    \<and> map_of (bs_upstreams b') = map_of (bs_upstreams b) ++ map_of (rev (section_entries plans ucs))
    \<and> (distinct (map fst (bs_upstreams b)) \<longrightarrow> distinct (map fst (bs_upstreams b')))
    \<and> (health_inv (bs_health b) \<longrightarrow> health_inv (bs_health b'))
    \<and> (aligned (bs_health b) (map_of (bs_upstreams b)) \<longrightarrow> aligned (bs_health b') (map_of (bs_upstreams b')))"
  using assms
proof (induction ucs arbitrary: b)
  case Nil
  then show ?case by (simp add: section_entries_def)
next
  case (Cons uc ucs)
  obtain b1 where b1: "apply_upstream valid plans uc b = Return b1" and r: "apply_upstreams valid plans ucs b1 = Return b'"
    using Cons.prems by (auto split: rust.splits)
  note s = apply_upstream_spec [OF b1]
  have m: "map_of (rev (section_entries plans (uc # ucs)))
      = [uc_name uc \<mapsto> rt_of plans uc] ++ map_of (rev (section_entries plans ucs))"
    by (simp add: section_entries_def map_of_append)
  have "map_of (bs_upstreams b') = map_of (bs_upstreams b) ++ map_of (rev (section_entries plans (uc # ucs)))"
    using Cons.IH [OF r] unfolding m s(4) by (simp only: map_add_assoc map_add_upd map_add_empty)
  then show ?case using Cons.IH [OF r] s(3) [of T] s(5,6,7) by (intro conjI; (blast | simp add: s(1,2)))
qed

lemma build_tls_plans_Inr:
  assumes "build_tls_plans T ucs = Inr plans" "distinct (map uc_name ucs)"
  shows "(\<forall>uc \<in> set ucs. case uc_tls uc of
             None \<Rightarrow> plans (uc_name uc) = None
           | Some tc \<Rightarrow> \<exists>tls. build_tls T tc = Inr tls \<and> plans (uc_name uc) = Some tls)
    \<and> dom plans \<subseteq> uc_name ` set ucs"
  using assms
proof (induction ucs arbitrary: plans)
  case (Cons uc ucs)
  show ?case
  proof (cases "uc_tls uc")
    case None
    with Cons.prems have "build_tls_plans T ucs = Inr plans" by simp
    note ih = Cons.IH [OF this]
    have "plans (uc_name uc) = None" using ih Cons.prems(2) by (auto simp: dom_def)
    then show ?thesis using ih Cons.prems(2) None by auto
  next
    case (Some tc)
    with Cons.prems obtain tls rest where r: "build_tls T tc = Inr tls" "build_tls_plans T ucs = Inr rest"
      "plans = (if rest (uc_name uc) = None then rest(uc_name uc \<mapsto> tls) else rest)"
      by (cases "build_tls T tc") auto
    note ih = Cons.IH [OF r(2)]
    have n: "rest (uc_name uc) = None" using ih Cons.prems(2) by (auto simp: dom_def)
    have "case uc_tls x of None \<Rightarrow> plans (uc_name x) = None
           | Some tc \<Rightarrow> \<exists>tls. build_tls T tc = Inr tls \<and> plans (uc_name x) = Some tls" if "x \<in> set ucs" for x
    proof -
      have "uc_name x \<noteq> uc_name uc" using imageI [OF that, of uc_name] Cons.prems(2) by auto
      then have p: "plans (uc_name x) = rest (uc_name x)" by (simp add: r(3) n)
      show ?thesis unfolding p using ih Cons.prems(2) that by simp
    qed
    moreover have "dom plans \<subseteq> uc_name ` set (uc # ucs)" using ih Cons.prems(2) by (simp add: r(3) n subset_insertI2)
    ultimately show ?thesis using Some by (simp add: r(1,3) n del: dom_fun_upd fun_upd_apply) simp
  qed
qed simp

lemma plans_built:
  assumes "build_tls_plans T ucs = Inr plans" "distinct (map uc_name ucs)" "uc \<in> set ucs"
  shows "tls_built T (ur_up (rt_of plans uc))"
proof -
  have "\<forall>tls. plans (uc_name uc) = Some tls \<longrightarrow> (\<exists>cfg. build_tls T cfg = Inr tls)"
    using build_tls_plans_Inr [OF assms(1,2)] assms(3) by (auto split: option.splits dest!: bspec)
  then show ?thesis by (simp add: tls_built_def rt_of_def Let_def upstream_from_config_def)
qed

lemma map_of_rev_distinct: "distinct (map fst xs) \<Longrightarrow> map_of (rev xs) = map_of xs"
  by (subst map_of_inject_set) (simp_all add: rev_map [symmetric])

lemma pool_has_evict: "pool_has (evict_except p keep) k \<longleftrightarrow> k \<in> set keep \<and> pool_has p k"
  by (cases k) (simp_all add: evict_except_http evict_except_https)

lemma pool_inv_evict: "pool_inv p \<Longrightarrow> pool_inv (evict_except p keep)"
  by (auto simp: pool_inv_def evict_except_https)

lemma apply_runtime_spec:
  assumes "apply_runtime valid cfg g plans st = Return st'" "distinct (map uc_name (cf_upstreams cfg))"
    "build_tls_plans T (cf_upstreams cfg) = Inr plans"
  shows "\<exists>ups. sr_runtime st' = \<lparr>rn_generation = g, rn_routes = cf_routes cfg, rn_upstreams = ups\<rparr>
      \<and> map_of ups = map_of (section_entries plans (cf_upstreams cfg)) \<and> distinct (map fst ups)
      \<and> aligned (sr_health st') (map_of ups)"
    and "pool_has (sr_pool st') k \<longleftrightarrow> (\<exists>uc \<in> set (cf_upstreams cfg). k \<in> set (section_keys plans uc))"
    and "health_inv (sr_health st) \<Longrightarrow> health_inv (sr_health st')"
    and "pool_inv (sr_pool st) \<Longrightarrow> pool_inv (sr_pool st')"
    and "\<exists>h p r. st' = st\<lparr>sr_health := h, sr_pool := p, sr_runtime := r\<rparr>"
proof -
  let ?b = "\<lparr>bs_health = sr_health st, bs_pool = sr_pool st, bs_keys = [], bs_upstreams = []\<rparr>"
  obtain b' where b': "apply_upstreams valid plans (cf_upstreams cfg) ?b = Return b'"
    and st': "st' = st\<lparr>sr_health := bs_health b', sr_pool := evict_except (bs_pool b') (bs_keys b'),
      sr_runtime := \<lparr>rn_generation = g, rn_routes = cf_routes cfg, rn_upstreams = bs_upstreams b'\<rparr>\<rparr>"
    using assms(1) unfolding apply_runtime_def by (cases "apply_upstreams valid plans (cf_upstreams cfg) ?b") auto
  note s = apply_upstreams_spec [OF b', of T]
  have d: "distinct (map fst (section_entries plans (cf_upstreams cfg)))"
    using assms(2) by (simp add: section_entries_def comp_def)
  have "map_of (bs_upstreams b') = map_of (section_entries plans (cf_upstreams cfg))"
    using s map_of_rev_distinct [OF d] by simp
  moreover have "aligned (bs_health b') (map_of (bs_upstreams b'))" using s by (simp add: aligned_def)
  ultimately show "\<exists>ups. sr_runtime st' = \<lparr>rn_generation = g, rn_routes = cf_routes cfg, rn_upstreams = ups\<rparr>
      \<and> map_of ups = map_of (section_entries plans (cf_upstreams cfg)) \<and> distinct (map fst ups)
      \<and> aligned (sr_health st') (map_of ups)" using s by (simp add: st')
  show "pool_has (sr_pool st') k \<longleftrightarrow> (\<exists>uc \<in> set (cf_upstreams cfg). k \<in> set (section_keys plans uc))"
    using s by (auto simp: st' pool_has_evict)
  show "health_inv (sr_health st')" if "health_inv (sr_health st)" using s that by (simp add: st')
  show "pool_inv (sr_pool st')" if "pool_inv (sr_pool st)"
    using s that plans_built [OF assms(3,2)] by (simp add: st' pool_inv_evict)
  show "\<exists>h p r. st' = st\<lparr>sr_health := h, sr_pool := p, sr_runtime := r\<rparr>" using st' by blast
qed

section \<open>The invariant of the server\<close>

text \<open>
  The routes of the published runtime lead to upstreams it has, all weights are positive and the
  health registry knows its peers.
\<close>

definition runtime_inv :: "('cert, 'sk) server \<Rightarrow> bool" where
  "runtime_inv st \<longleftrightarrow>
     distinct (map fst (rn_upstreams (sr_runtime st)))
     \<and> (\<forall>(n, u) \<in> set (rn_upstreams (sr_runtime st)). up_name (ur_up u) = n \<and> weighted u)
     \<and> (\<forall>r \<in> set (rn_routes (sr_runtime st)). rt_upstream r \<in> fst ` set (rn_upstreams (sr_runtime st)))
     \<and> aligned (sr_health st) (map_of (rn_upstreams (sr_runtime st)))"

definition server_inv :: "('cert, 'sk) server \<Rightarrow> bool" where
  "server_inv st \<longleftrightarrow>
     runtime_inv st \<and> health_inv (sr_health st) \<and> pool_inv (sr_pool st) \<and> cell_inv (sr_registry st)
     \<and> table_inv (cl_val (sr_dynamic_routes st))"

lemma table_inv_new: "table_inv dyn_routes_new"
  using dyn_table.inv_init by simp

lemma ok_config_upstreams:
  assumes "ok_config dns cfg"
  shows "distinct (map uc_name (cf_upstreams cfg))"
    and "\<forall>u \<in> set (cf_upstreams cfg). \<forall>p \<in> set (uc_peers u). pc_weight p \<noteq> 0"
    and "\<forall>r \<in> set (cf_routes cfg). rt_upstream r \<in> uc_name ` set (cf_upstreams cfg)"
  using assms by (auto simp: ok_config_def ok_upstream_def ok_route_def)

lemma weighted_rt_of: "\<forall>p \<in> set (uc_peers uc). pc_weight p \<noteq> 0 \<Longrightarrow> weighted (rt_of plans uc)"
  by (auto simp: weighted_def rt_of_def Let_def upstream_from_config_def word_neq_0_conv)

text \<open>What a configuration has to satisfy for the runtime built from it to be well formed.\<close>

definition buildable :: "config \<Rightarrow> bool" where
  "buildable cfg \<longleftrightarrow> distinct (map uc_name (cf_upstreams cfg))
     \<and> (\<forall>u \<in> set (cf_upstreams cfg). \<forall>p \<in> set (uc_peers u). pc_weight p \<noteq> 0)
     \<and> (\<forall>r \<in> set (cf_routes cfg). rt_upstream r \<in> uc_name ` set (cf_upstreams cfg))"

lemma buildable_ok: "ok_config dns cfg \<Longrightarrow> buildable cfg"
  using ok_config_upstreams [of dns cfg] by (simp add: buildable_def)

lemma buildable_resolve: "buildable cfg \<Longrightarrow> buildable (resolve_config dns cfg)"
proof -
  assume b: "buildable cfg"
  have "uc_name ` set (cf_upstreams (resolve_config dns cfg)) = uc_name ` set (cf_upstreams cfg)"
    by (metis resolve_config_names set_map)
  then show ?thesis using b resolve_weights [of cfg dns] by (simp add: buildable_def) (simp add: resolve_config_def)
qed

lemma apply_runtime_inv:
  assumes "apply_runtime valid cfg g plans st = Return st'" "buildable cfg"
    "build_tls_plans T (cf_upstreams cfg) = Inr plans"
    "health_inv (sr_health st)" "pool_inv (sr_pool st)"
  shows "runtime_inv st' \<and> health_inv (sr_health st') \<and> pool_inv (sr_pool st')"
proof -
  have d: "distinct (map uc_name (cf_upstreams cfg))" using assms(2) by (simp add: buildable_def)
  note s = apply_runtime_spec [OF assms(1) d assms(3)]
  from s(1) obtain ups where rt: "sr_runtime st' = \<lparr>rn_generation = g, rn_routes = cf_routes cfg, rn_upstreams = ups\<rparr>"
    and ups: "map_of ups = map_of (section_entries plans (cf_upstreams cfg))" "distinct (map fst ups)"
    and al: "aligned (sr_health st') (map_of ups)" by blast
  have "distinct (map fst (section_entries plans (cf_upstreams cfg)))" using d by (simp add: section_entries_def comp_def)
  then have set: "set ups = set (section_entries plans (cf_upstreams cfg))" using ups map_of_inject_set by blast
  have "\<forall>(n, u) \<in> set ups. up_name (ur_up u) = n \<and> weighted u"
    using assms(2) weighted_rt_of by (auto simp: set section_entries_def buildable_def)
  moreover have "fst ` set ups = uc_name ` set (cf_upstreams cfg)" by (force simp: set section_entries_def)
  ultimately have "runtime_inv st'" using assms(2) ups(2) al by (simp add: runtime_inv_def rt buildable_def)
  then show ?thesis using s(3,4) assms(4,5) by blast
qed

lemma boot_inv:
  fixes st :: "('cert, 'sk) server"
  assumes "server_from_config Q cfg = Return (Inr st)" "buildable cfg"
  shows "server_inv st"
proof -
  obtain plans where plans: "build_tls_plans (ou_tls Q) (cf_upstreams cfg) = Inr plans"
    using assms(1) by (auto simp: server_from_config_def split: sum.splits)
  obtain L cell where cell: "registry_bootstrap (ou_engine Q) (ou_linker Q) L (cf_plugins cfg) = Inr cell"
    and boot: "and_then (map_err RlIo (ou_loader Q))
         (\<lambda>L. registry_bootstrap (ou_engine Q) (ou_linker Q) L (cf_plugins cfg)) = Inr cell"
    using assms(1) plans by (auto simp: server_from_config_def simp del: and_then_Inr split: sum.splits)
       (auto split: sum.splits)
  define st0 :: "('cert, 'sk) server" where "st0 = \<lparr>sr_registry = cell, sr_health = health_new, sr_pool = new_pool, sr_runtime = empty_runtime,
                     sr_admin_token = effective_token (cf_admin cfg), sr_static_config = cfg,
                     sr_tls_resolver = list_ex uses_tls (effective_listeners cfg),
                     sr_dynamic_routes = \<lparr>cl_ptr = 0, cl_val = reconcile dyn_routes_new
                        (case cf_dynamic cfg of Some d \<Rightarrow> dy_routes d | None \<Rightarrow> [])\<rparr>,
                     sr_dynamic = map_option dyn_registry_new (cf_dynamic cfg), sr_probe_task = None,
                     sr_reload_gate = False\<rparr>"
  have a: "apply_runtime (ou_name_valid Q) cfg (sn_generation (ce_snap cell)) plans st0 = Return st"
    using assms(1) by (cases "apply_runtime (ou_name_valid Q) cfg (sn_generation (ce_snap cell)) plans st0")
      (simp_all add: server_from_config_def plans boot Let_def st0_def)
  have "health_inv (sr_health st0)" "pool_inv (sr_pool st0)"
    using health.inv_init by (simp_all add: st0_def pool_inv_def new_pool_def)
  then have "runtime_inv st \<and> health_inv (sr_health st) \<and> pool_inv (sr_pool st)"
    using apply_runtime_inv [OF a assms(2) plans] by (simp add: st0_def)
  moreover have "sr_registry st = cell" "sr_dynamic_routes st = sr_dynamic_routes st0"
    using apply_runtime_spec(5) [OF a _ plans] assms(2) by (auto simp: buildable_def st0_def)
  ultimately show ?thesis
    using bootstrap_inv [OF cell] table_inv_reconcile [OF table_inv_new] by (simp add: server_inv_def st0_def)
qed

section \<open>Lemmas on reloads\<close>

lemma others_id [simp]: "others (\<lambda>_ c. c) i k cell = cell"
  by (induction k arbitrary: i) auto

lemma registry_reload_alone:
  assumes "registry_reload (\<lambda>_ c. c) (\<lambda>_. work) cfg cell = (cell', r)"
  shows "case r of Inl e \<Rightarrow> cell' = cell
    | Inr g \<Rightarrow> g = sn_generation (ce_snap cell) + 1 \<and> sn_generation (ce_snap cell') = g
        \<and> (\<exists>L. work = Inr L \<and> snapshot_of L cfg (ce_snap cell) (ce_snap cell'))"
  using reload_loop_spec [of "\<lambda>_ c. c" "\<lambda>_. work" cfg 0 RELOAD_ATTEMPTS cell cell' r] assms
  by (auto simp: registry_reload_def Let_def snapshot_of_def split: sum.splits)

text \<open>The server runs the runtime of a configuration whose endpoints have been resolved.\<close>

definition runs :: "('cert, 'key, 'sk) tls_lib \<Rightarrow> config \<Rightarrow> ('cert, 'sk) server \<Rightarrow> bool" where
  "runs T cfg st \<longleftrightarrow> rn_routes (sr_runtime st) = cf_routes cfg
     \<and> (\<exists>plans. build_tls_plans T (cf_upstreams cfg) = Inr plans
          \<and> map_of (rn_upstreams (sr_runtime st)) = map_of (section_entries plans (cf_upstreams cfg))
          \<and> (\<forall>k. pool_has (sr_pool st) k \<longleftrightarrow> (\<exists>uc \<in> set (cf_upstreams cfg). k \<in> set (section_keys plans uc))))"

lemma apply_dynamic_frame:
  "\<exists>d. apply_dynamic cfg st = st\<lparr>sr_dynamic := d\<rparr>"
  by (auto simp: apply_dynamic_def Let_def intro: exI [of _ "sr_dynamic st"])

lemma publish_cases:
  assumes "publish Q cfg st = Return (st', r)"
  obtains (err) e where "st' = st" "r = Inl (Failed e)"
    | (ok) plans cell g L st1 d where
      "build_tls_plans (ou_tls Q) (cf_upstreams (resolve_config (ou_dns Q) cfg)) = Inr plans"
      "apply_runtime (ou_name_valid Q) (resolve_config (ou_dns Q) cfg) g plans (st\<lparr>sr_registry := cell\<rparr>) = Return st1"
      "g = sn_generation (ce_snap (sr_registry st)) + 1" "sn_generation (ce_snap cell) = g"
      "snapshot_of L (cf_plugins cfg) (ce_snap (sr_registry st)) (ce_snap cell)"
      "st' = spawn_probes (apply_dynamic_routes (resolve_config (ou_dns Q) cfg) (st1\<lparr>sr_dynamic := d\<rparr>))" "r = Inr g"
proof -
  let ?cfg = "resolve_config (ou_dns Q) cfg"
  obtain cell rr where rl: "registry_reload (\<lambda>_ c. c) (\<lambda>_. ou_loader Q) (cf_plugins ?cfg) (sr_registry st) = (cell, rr)"
    by fastforce
  note ra = registry_reload_alone [OF rl]
  show thesis
  proof (cases "build_tls_plans (ou_tls Q) (cf_upstreams ?cfg)")
    case (Inl x)
    then show ?thesis using assms err by (cases x) (auto simp: publish_def Let_def)
  next
    case (Inr plans)
    show ?thesis
    proof (cases rr)
      case (Inl e)
      then show ?thesis using assms err Inr ra by (auto simp: publish_def Let_def rl)
    next
      case g: (Inr g)
      then obtain st1 where st1: "apply_runtime (ou_name_valid Q) ?cfg g plans (st\<lparr>sr_registry := cell\<rparr>) = Return st1"
        "st' = spawn_probes (apply_dynamic_routes ?cfg (apply_dynamic ?cfg st1))" "r = Inr g"
        using assms Inr rl by (cases "apply_runtime (ou_name_valid Q) ?cfg g plans (st\<lparr>sr_registry := cell\<rparr>)")
          (auto simp: publish_def Let_def)
      obtain d where "apply_dynamic ?cfg st1 = st1\<lparr>sr_dynamic := d\<rparr>" using apply_dynamic_frame by blast
      then show ?thesis using ok [OF Inr st1(1)] ra g st1(2,3) by (auto simp: resolve_config_def)
    qed
  qed
qed

lemma publish_spec:
  assumes "publish Q cfg st = Return (st', Inr g)" "buildable cfg"
  shows "runs (ou_tls Q) (resolve_config (ou_dns Q) cfg) st'
    \<and> g = sn_generation (ce_snap (sr_registry st)) + 1
    \<and> rn_generation (sr_runtime st') = g \<and> sn_generation (ce_snap (sr_registry st')) = g
    \<and> sr_admin_token st' = sr_admin_token st \<and> sr_static_config st' = sr_static_config st
    \<and> (server_inv st \<longrightarrow> server_inv st')"
  using assms(1)
proof (cases rule: publish_cases)
  case (ok plans cell g' L st1 d)
  let ?cfg = "resolve_config (ou_dns Q) cfg"
  have b: "buildable ?cfg" using assms(2) by (rule buildable_resolve)
  then have dn: "distinct (map uc_name (cf_upstreams ?cfg))" by (simp add: buildable_def)
  note s = apply_runtime_spec [OF ok(2) dn ok(1)]
  from s(5) obtain h p rt where st1: "st1 = st\<lparr>sr_registry := cell, sr_health := h, sr_pool := p, sr_runtime := rt\<rparr>" by auto
  from s(1) have "runs (ou_tls Q) ?cfg st1" using s(2) ok(1) by (auto simp: runs_def)
  then have "runs (ou_tls Q) ?cfg st'"
    by (simp add: ok(6) runs_def spawn_probes_def apply_dynamic_routes_def Let_def)
  moreover have "server_inv st'" if inv: "server_inv st"
  proof -
    have "runtime_inv st1 \<and> health_inv (sr_health st1) \<and> pool_inv (sr_pool st1)"
      using apply_runtime_inv [OF ok(2) b ok(1)] inv by (simp add: server_inv_def)
    moreover have "cell_inv cell" using snapshot_of_inv [OF ok(5)] inv by (simp add: server_inv_def)
    moreover have "table_inv (cl_val (sr_dynamic_routes st'))"
      using inv table_inv_reconcile table_inv_new
      by (auto simp: ok(6) spawn_probes_def apply_dynamic_routes_def Let_def server_inv_def st1 split: option.split)
    ultimately show ?thesis
      by (simp add: server_inv_def runtime_inv_def ok(6) spawn_probes_def apply_dynamic_routes_def Let_def st1)
  qed
  ultimately show ?thesis using s(1) ok(3,4,7) by (auto simp: ok(6) spawn_probes_def apply_dynamic_routes_def Let_def st1)
qed simp

lemma load_config_buildable: "load_config dns env parsed = Inr cfg \<Longrightarrow> buildable cfg"
  by (auto simp: load_config_def Let_def validate_None buildable_ok split: option.splits)

text \<open>With parseable server names no reload can panic.\<close>

lemma get_tls_total: "valid (ut_server_name tls) \<Longrightarrow> \<exists>x. get_tls valid pool a tls ct it = Return x"
  by (auto simp: get_tls_def build_tls_client_def Let_def split: option.splits)

lemma warm_peers_total:
  assumes "\<And>tls. up_tls up = Some tls \<Longrightarrow> valid (ut_server_name tls)"
  shows "\<exists>r. warm_peers valid up ps pool keys = Return r"
proof (induction ps arbitrary: pool keys)
  case (Cons p ps)
  show ?case
  proof (cases "up_tls up")
    case (Some tls)
    then show ?thesis
      using get_tls_total [of valid tls pool "pr_addr p" "up_connect_timeout up" "up_pool_idle_timeout up"] assms [OF Some] Cons
      by auto
  qed (use Cons in simp)
qed simp

lemma apply_upstreams_total:
  assumes "\<And>n tls. plans n = Some tls \<Longrightarrow> valid (ut_server_name tls)"
  shows "\<exists>b'. apply_upstreams valid plans ucs b = Return b'"
proof (induction ucs arbitrary: b)
  case (Cons uc ucs)
  define up where "up = upstream_from_config uc (plans (uc_name uc))"
  have "valid (ut_server_name tls)" if "up_tls up = Some tls" for tls
    using that assms by (auto simp: up_def upstream_from_config_def)
  then obtain r where "warm_peers valid up (up_peers up) (bs_pool b) (bs_keys b) = Return r"
    using warm_peers_total by blast
  then have "\<exists>b1. apply_upstream valid plans uc b = Return b1"
    by (simp add: apply_upstream_def Let_def up_def)
  then show ?case using Cons by auto
qed simp

lemma build_tls_name: "build_tls T tc = Inr tls \<Longrightarrow> ut_server_name tls = tl_server_name tc"
  by (auto simp: build_tls_Inr)

lemma publish_total:
  assumes "\<And>uc tc. uc \<in> set (cf_upstreams cfg) \<Longrightarrow> uc_tls uc = Some tc \<Longrightarrow> ou_name_valid Q (tl_server_name tc)"
    and "distinct (map uc_name (cf_upstreams cfg))"
  shows "\<exists>x. publish Q cfg st = Return x"
proof -
  let ?cfg = "resolve_config (ou_dns Q) cfg"
  have "ou_name_valid Q (ut_server_name tls)"
    if p: "build_tls_plans (ou_tls Q) (cf_upstreams ?cfg) = Inr plans" and n: "plans n = Some tls" for plans n tls
  proof -
    have sp: "\<forall>uc \<in> set (cf_upstreams ?cfg). case uc_tls uc of
          None \<Rightarrow> plans (uc_name uc) = None
        | Some tc \<Rightarrow> \<exists>tls. build_tls (ou_tls Q) tc = Inr tls \<and> plans (uc_name uc) = Some tls"
      "dom plans \<subseteq> uc_name ` set (cf_upstreams ?cfg)"
      using build_tls_plans_Inr [OF p] assms(2) by simp_all
    then obtain uc where "uc \<in> set (cf_upstreams ?cfg)" "n = uc_name uc" using n by blast
    then obtain tc where tc: "uc_tls uc = Some tc" "build_tls (ou_tls Q) tc = Inr tls" "uc \<in> set (cf_upstreams ?cfg)"
      using sp(1) n by (fastforce split: option.splits)
    then obtain uc0 where "uc0 \<in> set (cf_upstreams cfg)" "uc_tls uc0 = Some tc"
      by (auto simp: resolve_config_def resolve_upstream_eq)
    then show ?thesis using assms(1) build_tls_name [OF tc(2)] by simp
  qed
  then have "\<exists>x. apply_runtime (ou_name_valid Q) ?cfg g plans s = Return x"
    if "build_tls_plans (ou_tls Q) (cf_upstreams ?cfg) = Inr plans" for plans g s
    using apply_upstreams_total [of plans "ou_name_valid Q" "cf_upstreams ?cfg"
        "\<lparr>bs_health = sr_health s, bs_pool = sr_pool s, bs_keys = [], bs_upstreams = []\<rparr>"] that
    by (auto simp: apply_runtime_def)
  then have run: "\<And>plans g s. build_tls_plans (ou_tls Q) (cf_upstreams ?cfg) = Inr plans \<Longrightarrow>
      \<exists>x. apply_runtime (ou_name_valid Q) ?cfg g plans s = Return x" .
  obtain cell rr where rl: "registry_reload (\<lambda>_ c. c) (\<lambda>_. ou_loader Q) (cf_plugins ?cfg) (sr_registry st) = (cell, rr)"
    by fastforce
  show ?thesis
  proof (cases "build_tls_plans (ou_tls Q) (cf_upstreams ?cfg)")
    case (Inl x)
    then show ?thesis by (cases x) (simp add: publish_def Let_def)
  next
    case (Inr plans)
    then show ?thesis using run [OF Inr] by (cases rr) (auto simp: publish_def Let_def rl)
  qed
qed

definition sample_config :: config where
  "sample_config = \<lparr>
     cf_server = \<lparr>sv_listen = sample_addr 9, sv_log_level = ''info'', sv_log_file = None, sv_http1_only = False,
       sv_listeners = [], sv_shutdown_grace_ms = 5000\<rparr>,
     cf_admin = \<lparr>ad_token = Some ''s3cret''\<rparr>, cf_plugins = sample_plugins_config, cf_dynamic = None,
     cf_upstreams = [\<lparr>uc_name = ''u'', uc_balancer = Swrr, uc_retries = 1, uc_retry_on_timeout = False,
       uc_connect_timeout_ms = 2000, uc_pool_idle_timeout_ms = 60000,
       uc_peers = [\<lparr>pc_addr = sample_addr 1, pc_weight = 2\<rparr>], uc_endpoints = [''svc:80''], uc_tls = None,
       uc_health = health_config_default\<rparr>],
     cf_routes = [\<lparr>rt_path_prefix = ''/'', rt_host = None, rt_exact = False, rt_upstream = ''u'', rt_timeout_ms = 1000\<rparr>],
     cf_ingress = ingress_config_default, cf_egress = \<lparr>eg_mode = EgressDirect, eg_gateway = []\<rparr>\<rparr>"

definition sample_outside :: "(nat, nat, nat) outside" where
  "sample_outside = \<lparr>ou_dns = (\<lambda>_. Some [sample_addr 2]), ou_tls = sample_tls_lib, ou_name_valid = (\<lambda>_. True),
     ou_loader = Inr sample_loader, ou_engine = Inr (), ou_linker = Inr ()\<rparr>"

definition sample_server :: "(nat, nat) server" where
  "sample_server = \<lparr>sr_registry = sample_cell, sr_health = health_new, sr_pool = new_pool, sr_runtime = empty_runtime,
     sr_admin_token = None, sr_static_config = sample_config, sr_tls_resolver = False,
     sr_dynamic_routes = \<lparr>cl_ptr = 0, cl_val = dyn_routes_new\<rparr>, sr_dynamic = None, sr_probe_task = None,
     sr_reload_gate = False\<rparr>"

lemma sample_trims: "trim ''openrusty'' = ''openrusty''" "trim ''svc:80'' = ''svc:80''" "trim ''s3cret'' = ''s3cret''"
  by (rule trim_solid, simp add: graphic_solid graphic_def)+

lemma sample_config_ok: "ok_config dns sample_config"
  by (simp add: sample_trims ok_config_def sample_config_def sample_plugins_config_def ingress_config_default_def default_ingress_class_def
      ok_upstream_def ok_route_def health_config_default_def)

section \<open>Properties\<close>

text \<open>
  C36: reloads are atomic. While another reload holds the gate a second one is refused; a task, file,
  validation, TLS or plugin error is reported; in all these cases the server is left exactly as
  it was. A reload that succeeds read a file that validates, and the server then runs that
  configuration with its endpoints resolved: its routes, one upstream per section with the TLS
  material built from that section, clients for exactly its peers; plugins and runtime both carry
  the next generation, and the admin token is the one of the file.
\<close>

theorem reload_atomic:
  assumes "reload Q input env st = Return (st', r)"
  shows "case r of
      Inl InFlight \<Rightarrow> sr_reload_gate st \<and> st' = st
    | Inl (Failed e) \<Rightarrow> \<not> sr_reload_gate st \<and> st' = st
    | Inr report \<Rightarrow> \<not> sr_reload_gate st \<and>
        (\<exists>parsed cfg. input = Parsed parsed \<and> load_config (ou_dns Q) env parsed = Inr cfg
          \<and> runs (ou_tls Q) (resolve_config (ou_dns Q) cfg) st'
          \<and> rp_generation report = sn_generation (ce_snap (sr_registry st)) + 1
          \<and> rn_generation (sr_runtime st') = rp_generation report
          \<and> sn_generation (ce_snap (sr_registry st')) = rp_generation report
          \<and> rp_plugins report = map lp_name (sn_plugins (ce_snap (sr_registry st')))
          \<and> sr_admin_token st' = effective_token (cf_admin cfg))"
proof (cases "sr_reload_gate st")
  case True
  then show ?thesis using assms by (auto simp: reload_def)
next
  case gate: False
  show ?thesis
  proof (cases "\<exists>parsed cfg. input = Parsed parsed \<and> load_config (ou_dns Q) env parsed = Inr cfg")
    case False
    then show ?thesis using assms gate by (cases input) (auto simp: reload_def split: sum.splits)
  next
    case True
    then obtain parsed cfg where f: "input = Parsed parsed" "load_config (ou_dns Q) env parsed = Inr cfg" by blast
    obtain st1 r1 where p: "publish Q cfg st = Return (st1, r1)"
      using assms gate f by (cases "publish Q cfg st") (auto simp: reload_def)
    show ?thesis
    proof (cases r1)
      case (Inl e)
      with p have "st1 = st \<and> (\<exists>x. e = Failed x)" by (cases rule: publish_cases) auto
      then show ?thesis using assms gate f p Inl by (auto simp: reload_def)
    next
      case (Inr g)
      then show ?thesis
        using assms gate f p publish_spec [OF p [unfolded Inr] load_config_buildable [OF f(2)]]
        by (auto simp: reload_def runs_def)
    qed
  qed
qed

lemma sample_load: "load_config dns None sample_config = Inr sample_config"
proof -
  have "validate dns sample_config = None" using sample_config_ok by (simp add: validate_None)
  moreover have "sample_config\<lparr>cf_dynamic := apply_dynamic_dir_env None (cf_dynamic sample_config)\<rparr> = sample_config"
    by (simp add: apply_dynamic_dir_env_def sample_config_def)
  ultimately show ?thesis by (simp add: load_config_def)
qed

lemma sample_reload:
  "\<exists>cell. registry_reload (\<lambda>_ c. c) (\<lambda>_. Inr sample_loader) sample_plugins_config sample_cell = (cell, Inr 5)"
  by (simp add: registry_reload_def RELOAD_ATTEMPTS_def upt_conv_Cons build_snapshot_def discover_def sample_loader_def
        sample_plugins_config_def sample_cell_def order_plugins_def load_plugin_def Let_def)

theorem reload_atomic_witness:
  "\<exists>st' report. reload sample_outside (Parsed sample_config) None sample_server = Return (st', Inr report)
     \<and> rp_generation report = 5 \<and> sr_admin_token st' = Some ''s3cret''
     \<and> pool_has (sr_pool st') (PoolHttp (sample_addr 2))"
proof -
  obtain st1 r1 where p: "publish sample_outside sample_config sample_server = Return (st1, r1)"
    using publish_total [of sample_config sample_outside sample_server] by (auto simp: sample_config_def)
  obtain g where "r1 = Inr g"
    using p sample_reload
    by (auto simp: publish_def Let_def sample_outside_def sample_config_def resolve_config_def resolve_upstream_eq
       sample_server_def)
  then obtain st' report where r: "reload sample_outside (Parsed sample_config) None sample_server = Return (st', Inr report)"
    using p by (auto simp: reload_def sample_load sample_server_def)
  have token: "effective_token \<lparr>ad_token = Some ''s3cret''\<rparr> = Some ''s3cret''"
    by (simp add: effective_token_def sample_trims)
  have "runs sample_tls_lib (resolve_config (\<lambda>_. Some [sample_addr 2]) sample_config) st'"
    using reload_atomic [OF r] by (auto simp: sample_load sample_outside_def)
  moreover have "rp_generation report = 5" "sr_admin_token st' = Some ''s3cret''"
    using reload_atomic [OF r] token
    by (auto simp: sample_load sample_server_def sample_cell_def) (simp add: sample_config_def)
  moreover from calculation(1) have "pool_has (sr_pool st') (PoolHttp (sample_addr 2))"
    by (auto simp: runs_def sample_config_def resolve_config_def resolve_upstream_eq section_keys_def key_of_def rt_of_def
        Let_def upstream_from_config_def resolve_endpoint_def simp del: pool_has.simps)
  ultimately show ?thesis using r by blast
qed

end
