(* ===== verification/SortedMap.thy ===== *)
theory SortedMap
  imports HostState "HOL-Library.Product_Lexorder"
begin

text \<open>
  Keyed tables: the contract of a map with insertion and removal as a locale, what filling such a
  table from a list of items gives, and its two implementations: the unordered association list of
  \<open>HashMap\<close> (\<open>al_insert\<close>, \<open>al_remove\<close>) and the list sorted by key of \<open>BTreeMap\<close>, which is
  determined by its content.
\<close>

section \<open>The contract\<close>

locale table =
  fixes empty :: "'t" and get :: "'t \<Rightarrow> 'k \<Rightarrow> 'v option" and put :: "'k \<Rightarrow> 'v \<Rightarrow> 't \<Rightarrow> 't"
    and del :: "'k \<Rightarrow> 't \<Rightarrow> 't" and inv :: "'t \<Rightarrow> bool"
  assumes inv_empty: "inv empty" and get_empty: "get empty = Map.empty"
    and inv_put: "inv t \<Longrightarrow> inv (put k v t)" and get_put: "inv t \<Longrightarrow> get (put k v t) = (get t)(k \<mapsto> v)"
    and inv_del: "inv t \<Longrightarrow> inv (del k t)" and get_del: "inv t \<Longrightarrow> get (del k t) = (get t)(k := None)"
begin

lemma inv_fold_put: "inv t \<Longrightarrow> inv (fold (\<lambda>x. put (key x) (val x)) xs t)"
  by (induction xs arbitrary: t) (simp_all add: inv_put)

lemma get_fold_put:
  "inv t \<Longrightarrow> get (fold (\<lambda>x. put (key x) (val x)) xs t) = get t ++ map_of (rev (map (\<lambda>x. (key x, val x)) xs))"
proof (induction xs arbitrary: t)
  case (Cons x xs)
  then have "get (fold (\<lambda>x. put (key x) (val x)) (x # xs) t)
      = (get t)(key x \<mapsto> val x) ++ map_of (rev (map (\<lambda>x. (key x, val x)) xs))"
    using Cons.IH [OF inv_put [OF Cons.prems]] by (simp only: fold_simps get_put [OF Cons.prems])
  also have "\<dots> = get t ++ ([key x \<mapsto> val x] ++ map_of (rev (map (\<lambda>x. (key x, val x)) xs)))"
    by (simp only: map_add_assoc map_add_upd map_add_empty)
  finally show ?case by (simp add: map_of_append)
qed simp

lemma dom_fold_put:
  "inv t \<Longrightarrow> dom (get (fold (\<lambda>x. put (key x) (val x)) xs t)) = dom (get t) \<union> key ` set xs"
  by (simp add: get_fold_put dom_map_of_conv_image_fst image_image) auto

end

section \<open>Sorted lists\<close>

fun bt_insert :: "'k::linorder \<Rightarrow> 'v \<Rightarrow> ('k \<times> 'v) list \<Rightarrow> ('k \<times> 'v) list" where
  "bt_insert k v [] = [(k, v)]"
| "bt_insert k v ((k', v') # xs) =
     (if k < k' then (k, v) # (k', v') # xs
      else if k = k' then (k, v) # xs
      else (k', v') # bt_insert k v xs)"

definition bt_inv :: "('k::linorder \<times> 'v) list \<Rightarrow> bool" where
  "bt_inv xs \<longleftrightarrow> sorted_wrt (<) (map fst xs)"

lemma map_of_bt_insert [simp]: "map_of (bt_insert k v xs) = (map_of xs)(k \<mapsto> v)"
  by (induction k v xs rule: bt_insert.induct) (auto simp: fun_eq_iff)

lemma fst_set_bt_insert: "fst ` set (bt_insert k v xs) = insert k (fst ` set xs)"
  by (induction k v xs rule: bt_insert.induct) auto

lemma bt_inv_insert: "bt_inv xs \<Longrightarrow> bt_inv (bt_insert k v xs)"
proof (induction k v xs rule: bt_insert.induct)
  case (2 k v k' v' xs)
  show ?case
  proof (cases "k' < k")
    case True
    then have "\<forall>y \<in> fst ` set (bt_insert k v xs). k' < y" using 2(2) by (auto simp: fst_set_bt_insert bt_inv_def)
    moreover have "bt_inv (bt_insert k v xs)" using 2 True by (simp add: bt_inv_def)
    ultimately show ?thesis using True by (auto simp: bt_inv_def)
  qed (use 2(2) in \<open>auto simp: bt_inv_def\<close>)
qed (simp add: bt_inv_def)

lemma bt_inv_remove: "bt_inv xs \<Longrightarrow> bt_inv (al_remove k xs)"
  by (auto simp: bt_inv_def al_remove_def sorted_wrt_map intro: sorted_wrt_filter)

lemma bt_inv_distinct: "bt_inv xs \<Longrightarrow> distinct (map fst xs)"
  by (simp add: bt_inv_def strict_sorted_iff)

lemma bt_inv_ext:
  assumes "bt_inv xs" "bt_inv ys" "map_of xs = map_of ys"
  shows "xs = ys"
proof -
  have "set xs = set ys" using assms bt_inv_distinct map_of_inject_set by blast
  moreover have "map fst xs = map fst ys"
    using assms(1,2) arg_cong [OF assms(3), of dom]
    by (intro strict_sorted_equal) (simp_all add: bt_inv_def dom_map_of_conv_image_fst)
  ultimately show ?thesis
    by (metis assms(1) bt_inv_distinct distinct_map inj_on_Un_image_eq_iff map_inj_on sup.idem)
qed

interpretation bt: table "[]" map_of bt_insert al_remove "bt_inv :: ('k::linorder \<times> 'v) list \<Rightarrow> bool"
  by unfold_locales (simp_all add: bt_inv_insert bt_inv_remove, simp_all add: bt_inv_def)

interpretation al: table "[]" map_of al_insert al_remove "\<lambda>xs :: ('k \<times> 'v) list. distinct (map fst xs)"
  by unfold_locales (auto simp: distinct_al_insert distinct_al_remove)

end
