(* ===== verification/K8sWatch.thy ===== *)
theory K8sWatch
  imports Abi SortedMap
begin

text \<open>
  The Kubernetes watch (\<open>crates/openrusty-k8s/src/model/mod.rs\<close>, \<open>snapshot.rs\<close>, \<open>watch.rs\<close>): object
  metadata, snapshots as tables sorted by namespace and name, the fold of watch events, the framing
  of the event stream into lines, and the list-watch loop as a state machine. The object type is a
  parameter with its metadata, as is the JSON parser; the API server, the timers and the clock are
  the events that drive the loop.
\<close>

section \<open>Objects and snapshots\<close>

record object_meta =
  om_name :: rstr
  om_namespace :: rstr
  om_resource_version :: rstr
  om_annotations :: "(rstr \<times> rstr) list"

datatype event_type = Added | Modified | Deleted | Bookmark | ErrorEvent

record 'a watch_event =
  we_event_type :: event_type
  we_object :: 'a

record 'a snapshot =
  sp_items :: "((rstr \<times> rstr) \<times> 'a) list"
  sp_resource_version :: rstr

definition snapshot_new :: "'a snapshot" where
  "snapshot_new = \<lparr>sp_items = [], sp_resource_version = []\<rparr>"

definition snapshot_get :: "'a snapshot \<Rightarrow> rstr \<Rightarrow> rstr \<Rightarrow> 'a option" where
  "snapshot_get s ns name = map_of (sp_items s) (ns, name)"

definition object_key :: "('a \<Rightarrow> object_meta) \<Rightarrow> 'a \<Rightarrow> rstr \<times> rstr" where
  "object_key meta x = (om_namespace (meta x), om_name (meta x))"

definition advance :: "('a \<Rightarrow> object_meta) \<Rightarrow> 'a watch_event \<Rightarrow> 'a snapshot \<Rightarrow> 'a snapshot" where
  "advance meta ev s =
     (let rv = om_resource_version (meta (we_object ev))
      in if rv = [] then s else s\<lparr>sp_resource_version := rv\<rparr>)"

definition apply_event :: "('a \<Rightarrow> object_meta) \<Rightarrow> 'a snapshot \<Rightarrow> 'a watch_event \<Rightarrow> 'a snapshot" where
  "apply_event meta s ev =
     (let key = object_key meta (we_object ev) in
      case we_event_type ev of
        Added \<Rightarrow> (advance meta ev s)\<lparr>sp_items := bt_insert key (we_object ev) (sp_items s)\<rparr>
      | Modified \<Rightarrow> (advance meta ev s)\<lparr>sp_items := bt_insert key (we_object ev) (sp_items s)\<rparr>
      | Deleted \<Rightarrow> (advance meta ev s)\<lparr>sp_items := al_remove key (sp_items s)\<rparr>
      | Bookmark \<Rightarrow> advance meta ev s
      | ErrorEvent \<Rightarrow> s)"

definition replace_from_list :: "('a \<Rightarrow> object_meta) \<Rightarrow> 'a list \<Rightarrow> rstr \<Rightarrow> 'a snapshot" where
  "replace_from_list meta items rv =
     \<lparr>sp_items = fold (\<lambda>x. bt_insert (object_key meta x) x) items [], sp_resource_version = rv\<rparr>"

section \<open>The stream of lines\<close>

text \<open>\<open>std::str::from_utf8\<close> succeeds when every unit is well formed.\<close>

function utf8_valid :: "rstr \<Rightarrow> bool" where
  "utf8_valid s = (if s = [] then True else case utf8_unit s of (k, ok) \<Rightarrow> ok \<and> utf8_valid (drop k s))"
  by pat_completeness auto
termination
  apply (relation "measure length")
   apply simp
  subgoal for s k ok
    using utf8_unit_pos [of s] by (auto dest: sym)
  done

declare utf8_valid.simps [simp del]

fun trim_cr :: "rstr \<Rightarrow> rstr" where
  "trim_cr [] = []"
| "trim_cr (c # cs) = (if trim_cr cs = [] \<and> c = byte 13 then [] else c # trim_cr cs)"

lemma split_once_shorter: "split_once c xs = Some (a, b) \<Longrightarrow> length b < length xs"
  by (induction c xs arbitrary: a rule: split_once.induct) (auto split: if_splits)

text \<open>Complete lines are taken off the front of the buffer; the rest stays. \<open>None\<close> is bad UTF-8.\<close>

function take_lines :: "rstr \<Rightarrow> (rstr list \<times> rstr) option" where
  "take_lines buf =
     (case split_once (byte 10) buf of
        None \<Rightarrow> Some ([], buf)
      | Some (raw, rest) \<Rightarrow>
          if \<not> utf8_valid raw then None
          else map_option (\<lambda>(lines, rest'). (trim_cr raw # lines, rest')) (take_lines rest))"
  by pat_completeness auto

termination
  by (relation "measure length") (auto dest: split_once_shorter)

declare take_lines.simps [simp del]

section \<open>The loop\<close>

text \<open>Durations in milliseconds.\<close>

definition BACKOFF_BASE :: nat where "BACKOFF_BASE = 100"
definition BACKOFF_CAP :: nat where "BACKOFF_CAP = 30000"
definition DEFAULT_DEBOUNCE :: nat where "DEFAULT_DEBOUNCE = 200"
definition DEFAULT_RESYNC :: nat where "DEFAULT_RESYNC = 30000"

definition grow_backoff :: "nat \<Rightarrow> nat" where
  "grow_backoff d = min (d * 2) BACKOFF_CAP"

record watch_stats =
  ws_generation :: u64
  ws_lists :: u64
  ws_reconnects :: u64
  ws_last_success :: "nat option"
  ws_last_rv :: rstr

definition watch_stats_default :: watch_stats where
  "watch_stats_default = \<lparr>ws_generation = 0, ws_lists = 0, ws_reconnects = 0, ws_last_success = None, ws_last_rv = []\<rparr>"

text \<open>
  The states of the loop: waiting for the list, opening the watch, streaming. \<open>wl_out\<close> records the
  calls of \<open>on_snapshot\<close>; a timer is armed or not.
\<close>

datatype watch_phase = Listing | Opening | Streaming

record 'a watch_state =
  wl_phase :: watch_phase
  wl_backoff :: nat
  wl_stats :: watch_stats
  wl_snap :: "'a snapshot"
  wl_restart_rv :: "rstr option"
  wl_dirty :: bool
  wl_deadline :: bool
  wl_resync :: bool
  wl_buf :: rstr
  wl_out :: "('a snapshot \<times> watch_stats) list"

definition watch_init :: "'a watch_state" where
  "watch_init = \<lparr>wl_phase = Listing, wl_backoff = BACKOFF_BASE, wl_stats = watch_stats_default, wl_snap = snapshot_new,
     wl_restart_rv = None, wl_dirty = False, wl_deadline = False, wl_resync = False, wl_buf = [], wl_out = []\<rparr>"

text \<open>What the loop waits for: the parsed list, the opened watch, a frame, a timer.\<close>

datatype 'a watch_input =
    ListReply "('a list \<times> rstr) option" nat
  | OpenReply bool
  | FrameData "rstr option"
  | FrameError
  | FrameEnd
  | DebounceFires
  | ResyncFires

definition reconnect :: "'a watch_state \<Rightarrow> 'a watch_state" where
  "reconnect s = s\<lparr>wl_phase := Listing, wl_stats := (wl_stats s)\<lparr>ws_reconnects := ws_reconnects (wl_stats s) + 1\<rparr>,
     wl_backoff := grow_backoff (wl_backoff s)\<rparr>"

definition listed :: "('a \<Rightarrow> object_meta) \<Rightarrow> bool \<Rightarrow> 'a list \<Rightarrow> rstr \<Rightarrow> nat \<Rightarrow> 'a watch_state \<Rightarrow> 'a watch_state" where
  "listed meta resync items rv now s = s\<lparr>wl_phase := Opening, wl_backoff := BACKOFF_BASE,
     wl_stats := (wl_stats s)\<lparr>ws_lists := ws_lists (wl_stats s) + 1, ws_last_success := Some now, ws_last_rv := rv\<rparr>,
     wl_snap := replace_from_list meta items rv, wl_restart_rv := None,
     wl_dirty := (case wl_restart_rv s of None \<Rightarrow> True | Some r \<Rightarrow> rv \<noteq> r),
     wl_deadline := True, wl_resync := resync, wl_buf := []\<rparr>"

definition apply_line ::
  "('a \<Rightarrow> object_meta) \<Rightarrow> (rstr \<Rightarrow> 'a watch_event option) \<Rightarrow> rstr \<Rightarrow> 'a watch_state \<Rightarrow> 'a watch_state option" where
  "apply_line meta parse line s =
     (case parse (trim line) of
        None \<Rightarrow> None
      | Some ev \<Rightarrow>
          if we_event_type ev = ErrorEvent then None
          else
            let s = s\<lparr>wl_snap := apply_event meta (wl_snap s) ev\<rparr>
            in Some (if we_event_type ev \<noteq> Bookmark then s\<lparr>wl_dirty := True, wl_deadline := True\<rparr> else s))"

fun apply_lines ::
  "('a \<Rightarrow> object_meta) \<Rightarrow> (rstr \<Rightarrow> 'a watch_event option) \<Rightarrow> rstr list \<Rightarrow> 'a watch_state \<Rightarrow> 'a watch_state \<times> bool" where
  "apply_lines meta parse [] s = (s, True)"
| "apply_lines meta parse (line # lines) s =
     (case apply_line meta parse line s of None \<Rightarrow> (s, False) | Some s' \<Rightarrow> apply_lines meta parse lines s')"

definition on_frame ::
  "('a \<Rightarrow> object_meta) \<Rightarrow> (rstr \<Rightarrow> 'a watch_event option) \<Rightarrow> rstr option \<Rightarrow> 'a watch_state \<Rightarrow> 'a watch_state" where
  "on_frame meta parse data s =
     (case take_lines (wl_buf s @ (case data of Some d \<Rightarrow> d | None \<Rightarrow> [])) of
        None \<Rightarrow> reconnect s
      | Some (lines, rest) \<Rightarrow>
          (case apply_lines meta parse lines (s\<lparr>wl_buf := rest\<rparr>) of (s', ok) \<Rightarrow> if ok then s' else reconnect s'))"

definition hand_over :: "'a watch_state \<Rightarrow> 'a watch_state" where
  "hand_over s =
     (let s' = (if wl_dirty s
                then let stats = (wl_stats s)\<lparr>ws_generation := ws_generation (wl_stats s) + 1,
                                     ws_last_rv := sp_resource_version (wl_snap s)\<rparr>
                     in s\<lparr>wl_stats := stats, wl_out := wl_out s @ [(wl_snap s, stats)], wl_dirty := False\<rparr>
                else s)
      in s'\<lparr>wl_deadline := False\<rparr>)"

text \<open>One turn; \<open>None\<close> when the loop does not wait for this input. A 410 is handled as any other bad status.\<close>

fun watch_step ::
  "('a \<Rightarrow> object_meta) \<Rightarrow> (rstr \<Rightarrow> 'a watch_event option) \<Rightarrow> bool \<Rightarrow> 'a watch_state \<Rightarrow> 'a watch_input \<Rightarrow> 'a watch_state option" where
  "watch_step meta parse resync s (ListReply r now) =
     (if wl_phase s \<noteq> Listing then None
      else Some (case r of
          None \<Rightarrow> s\<lparr>wl_backoff := grow_backoff (wl_backoff s)\<rparr>
        | Some (items, rv) \<Rightarrow> listed meta resync items rv now s))"
| "watch_step meta parse resync s (OpenReply ok) =
     (if wl_phase s \<noteq> Opening then None else Some (if ok then s\<lparr>wl_phase := Streaming\<rparr> else reconnect s))"
| "watch_step meta parse resync s (FrameData data) =
     (if wl_phase s \<noteq> Streaming then None else Some (on_frame meta parse data s))"
| "watch_step meta parse resync s FrameError = (if wl_phase s \<noteq> Streaming then None else Some (reconnect s))"
| "watch_step meta parse resync s FrameEnd = (if wl_phase s \<noteq> Streaming then None else Some (reconnect s))"
| "watch_step meta parse resync s DebounceFires =
     (if wl_phase s \<noteq> Streaming \<or> \<not> wl_deadline s then None else Some (hand_over s))"
| "watch_step meta parse resync s ResyncFires =
     (if wl_phase s \<noteq> Streaming \<or> \<not> wl_resync s then None
      else Some (s\<lparr>wl_restart_rv := Some (sp_resource_version (wl_snap s)), wl_phase := Listing\<rparr>))"

section \<open>Reachable states\<close>

text \<open>
  What the loop relies on: a list at the resource version it left shows the objects it had. The
  second condition is not the server's: a resync does not strike while a change waits for its
  debounce window.
\<close>

definition same_rv_same_items :: "('a \<Rightarrow> object_meta) \<Rightarrow> 'a watch_state \<Rightarrow> 'a watch_input \<Rightarrow> bool" where
  "same_rv_same_items meta s i =
     (case i of
        ListReply (Some (items, rv)) now \<Rightarrow>
          wl_restart_rv s = Some rv \<longrightarrow> sp_items (replace_from_list meta items rv) = sp_items (wl_snap s)
      | _ \<Rightarrow> True)"

definition quiet_resync :: "'a watch_state \<Rightarrow> 'a watch_input \<Rightarrow> bool" where
  "quiet_resync s i = (i = ResyncFires \<longrightarrow> \<not> wl_dirty s)"

inductive watch_reach ::
  "('a \<Rightarrow> object_meta) \<Rightarrow> (rstr \<Rightarrow> 'a watch_event option) \<Rightarrow> bool \<Rightarrow> 'a watch_state \<Rightarrow> bool"
  for meta parse resync where
  start: "watch_reach meta parse resync watch_init"
| turn: "watch_reach meta parse resync s \<Longrightarrow> watch_step meta parse resync s i = Some s' \<Longrightarrow>
    same_rv_same_items meta s i \<Longrightarrow> quiet_resync s i \<Longrightarrow> watch_reach meta parse resync s'"

definition handed :: "'a watch_state \<Rightarrow> bool" where
  "handed s \<longleftrightarrow> wl_out s \<noteq> [] \<and> sp_items (fst (last (wl_out s))) = sp_items (wl_snap s)"

definition history_ok :: "('a snapshot \<times> watch_stats) list \<Rightarrow> u64 \<Rightarrow> bool" where
  "history_ok out g \<longleftrightarrow> (\<forall>(p, st) \<in> set out. bt_inv (sp_items p))
     \<and> map (ws_generation \<circ> snd) out = map of_nat [1..<Suc (length out)] \<and> g = of_nat (length out)"

definition watch_inv :: "'a watch_state \<Rightarrow> bool" where
  "watch_inv s \<longleftrightarrow>
     bt_inv (sp_items (wl_snap s)) \<and> history_ok (wl_out s) (ws_generation (wl_stats s))
     \<and> BACKOFF_BASE \<le> wl_backoff s \<and> wl_backoff s \<le> BACKOFF_CAP
     \<and> (wl_phase s \<noteq> Listing \<longrightarrow> wl_restart_rv s = None)
     \<and> (wl_phase s \<noteq> Listing \<longrightarrow> wl_dirty s \<longrightarrow> wl_deadline s)
     \<and> (wl_phase s \<noteq> Listing \<longrightarrow> \<not> wl_dirty s \<longrightarrow> handed s)
     \<and> (wl_restart_rv s \<noteq> None \<longrightarrow> handed s)"

section \<open>Lemmas\<close>

lemma sp_items_advance [simp]: "sp_items (advance meta ev s) = sp_items s"
  by (simp add: advance_def Let_def)

lemma apply_event_items:
  "sp_items (apply_event meta s ev) =
     (if we_event_type ev \<in> {Added, Modified} then bt_insert (object_key meta (we_object ev)) (we_object ev) (sp_items s)
      else if we_event_type ev = Deleted then al_remove (object_key meta (we_object ev)) (sp_items s)
      else sp_items s)"
  by (cases "we_event_type ev") (simp_all add: apply_event_def Let_def)

lemma apply_event_inv: "bt_inv (sp_items s) \<Longrightarrow> bt_inv (sp_items (apply_event meta s ev))"
  by (simp add: apply_event_items bt_inv_insert bt_inv_remove)

lemma replace_inv: "bt_inv (sp_items (replace_from_list meta items rv))"
  by (simp add: replace_from_list_def bt.inv_fold_put bt.inv_empty)

lemma history_ok_snoc:
  "history_ok out g \<Longrightarrow> bt_inv (sp_items p) \<Longrightarrow> ws_generation st = g + 1 \<Longrightarrow> history_ok (out @ [(p, st)]) (g + 1)"
  by (auto simp: history_ok_def)

lemma history_ok_Nil: "history_ok [] 0"
  by (simp add: history_ok_def)

lemma grow_backoff_bounds:
  "BACKOFF_BASE \<le> d \<Longrightarrow> d \<le> BACKOFF_CAP \<Longrightarrow> BACKOFF_BASE \<le> grow_backoff d \<and> grow_backoff d \<le> BACKOFF_CAP"
  by (auto simp: grow_backoff_def BACKOFF_BASE_def BACKOFF_CAP_def)

lemma watch_inv_apply_line:
  assumes "watch_inv s" "wl_phase s = Streaming" "apply_line meta parse line s = Some s'"
  shows "watch_inv s' \<and> wl_phase s' = Streaming"
proof -
  obtain ev where ev: "parse (trim line) = Some ev" "we_event_type ev \<noteq> ErrorEvent"
    and s': "s' = (if we_event_type ev \<noteq> Bookmark
        then s\<lparr>wl_snap := apply_event meta (wl_snap s) ev, wl_dirty := True, wl_deadline := True\<rparr>
        else s\<lparr>wl_snap := apply_event meta (wl_snap s) ev\<rparr>)"
    using assms(3) by (auto simp: apply_line_def Let_def split: option.splits if_splits)
  have "bt_inv (sp_items (apply_event meta (wl_snap s) ev))" using assms(1) by (simp add: apply_event_inv watch_inv_def)
  then show ?thesis
    using assms(1,2) by (cases "we_event_type ev = Bookmark") (simp_all add: s' watch_inv_def handed_def apply_event_items)
qed

lemma watch_inv_apply_lines:
  "watch_inv s \<Longrightarrow> wl_phase s = Streaming \<Longrightarrow> apply_lines meta parse lines s = (s', ok)
     \<Longrightarrow> watch_inv s' \<and> wl_phase s' = Streaming"
proof (induction lines arbitrary: s)
  case (Cons line lines)
  then show ?case
    by (cases "apply_line meta parse line s") (auto dest: watch_inv_apply_line)
qed simp

lemma watch_inv_reconnect: "watch_inv s \<Longrightarrow> wl_restart_rv s = None \<Longrightarrow> watch_inv (reconnect s)"
  using grow_backoff_bounds [of "wl_backoff s"] by (simp add: watch_inv_def reconnect_def handed_def)

lemma watch_inv_on_frame:
  assumes "watch_inv s" "wl_phase s = Streaming"
  shows "watch_inv (on_frame meta parse data s)"
proof -
  have "watch_inv (s\<lparr>wl_buf := b\<rparr>)" for b using assms(1) by (simp add: watch_inv_def handed_def)
  moreover have "wl_restart_rv t = None" if "watch_inv t" "wl_phase t = Streaming" for t :: "'a watch_state"
    using that by (simp add: watch_inv_def)
  ultimately have fin: "watch_inv (if ok then t else reconnect t)"
    if "apply_lines meta parse lines (s\<lparr>wl_buf := b\<rparr>) = (t, ok)" for lines b t ok
    using watch_inv_apply_lines [OF _ _ that] watch_inv_reconnect [of t] assms(2) by simp
  have rc: "watch_inv (reconnect s)" using assms by (intro watch_inv_reconnect) (simp_all add: watch_inv_def)
  show ?thesis
  proof (cases "take_lines (wl_buf s @ (case data of Some d \<Rightarrow> d | None \<Rightarrow> []))")
    case None
    then show ?thesis using rc by (simp add: on_frame_def)
  next
    case (Some p)
    then show ?thesis using fin by (cases p) (simp add: on_frame_def split: prod.split)
  qed
qed

lemma watch_inv_hand_over:
  assumes "watch_inv s" "wl_phase s = Streaming"
  shows "watch_inv (hand_over s)"
proof (cases "wl_dirty s")
  case True
  then show ?thesis using assms by (simp add: watch_inv_def hand_over_def Let_def handed_def history_ok_snoc)
next
  case False
  then show ?thesis using assms by (simp add: watch_inv_def hand_over_def Let_def handed_def)
qed

lemma watch_inv_listed:
  assumes "watch_inv s" "same_rv_same_items meta s (ListReply (Some (items, rv)) now)"
  shows "watch_inv (listed meta resync items rv now s)"
proof (cases "wl_restart_rv s")
  case None
  then show ?thesis
    using assms by (simp add: watch_inv_def listed_def replace_inv BACKOFF_BASE_def BACKOFF_CAP_def)
next
  case (Some r)
  then show ?thesis
    using assms
    by (cases "r = rv") (simp_all add: watch_inv_def listed_def replace_inv handed_def same_rv_same_items_def BACKOFF_BASE_def BACKOFF_CAP_def)
qed

lemma watch_inv_step:
  assumes "watch_inv s" "watch_step meta parse resync s i = Some s'" "same_rv_same_items meta s i" "quiet_resync s i"
  shows "watch_inv s'"
proof (cases i)
  case (ListReply r now)
  show ?thesis
  proof (cases r)
    case None
    then show ?thesis using ListReply assms(1,2) grow_backoff_bounds [of "wl_backoff s"]
      by (auto simp: watch_inv_def handed_def split: if_splits)
  next
    case (Some p)
    then show ?thesis using ListReply assms watch_inv_listed [of s meta] by (cases p) (auto split: if_splits)
  qed
next
  case (OpenReply ok)
  then have "wl_phase s = Opening" "s' = (if ok then s\<lparr>wl_phase := Streaming\<rparr> else reconnect s)"
    using assms(2) by (auto split: if_splits)
  moreover have "wl_restart_rv s = None" using assms(1) calculation(1) by (simp add: watch_inv_def)
  moreover have "watch_inv (s\<lparr>wl_phase := Streaming\<rparr>)" using assms(1) calculation(1) by (simp add: watch_inv_def handed_def)
  ultimately show ?thesis using watch_inv_reconnect [OF assms(1)] by simp
next
  case (FrameData data)
  then show ?thesis using assms watch_inv_on_frame by (auto split: if_splits)
next
  case FrameError
  then show ?thesis using assms watch_inv_reconnect [of s] by (auto split: if_splits simp: watch_inv_def)
next
  case FrameEnd
  then show ?thesis using assms watch_inv_reconnect [of s] by (auto split: if_splits simp: watch_inv_def)
next
  case DebounceFires
  then show ?thesis using assms watch_inv_hand_over by (auto split: if_splits)
next
  case ResyncFires
  then show ?thesis using assms by (auto split: if_splits simp: watch_inv_def handed_def quiet_resync_def)
qed

lemma watch_reach_inv: "watch_reach meta parse resync s \<Longrightarrow> watch_inv s"
proof (induction rule: watch_reach.induct)
  case start
  then show ?case by (simp add: watch_inv_def watch_init_def snapshot_new_def bt_inv_def BACKOFF_BASE_def BACKOFF_CAP_def
      watch_stats_default_def history_ok_Nil)
next
  case (turn s i s')
  then show ?case using watch_inv_step by blast
qed

text \<open>How the stream is cut into frames does not matter.\<close>

lemma split_once_append: "split_once c xs = Some (a, b) \<Longrightarrow> split_once c (xs @ ys) = Some (a, b @ ys)"
  by (induction c xs arbitrary: a rule: split_once.induct) (auto split: if_splits)

lemma take_lines_append:
  "take_lines a = Some (ls, r) \<Longrightarrow>
   take_lines (a @ b) = map_option (\<lambda>(ls', r'). (ls @ ls', r')) (take_lines (r @ b))"
proof (induction a arbitrary: ls rule: take_lines.induct)
  case (1 a)
  show ?case
  proof (cases "split_once (byte 10) a")
    case None
    then have "ls = []" "r = a" using "1.prems" by (simp_all add: take_lines.simps [of a])
    then show ?thesis by (simp add: option.map_ident)
  next
    case (Some p)
    then obtain raw rest where sp: "split_once (byte 10) a = Some (raw, rest)" by (cases p) simp
    then have v: "utf8_valid raw" using "1.prems" by (auto simp: take_lines.simps [of a] split: if_splits)
    obtain ls1 where ls1: "take_lines rest = Some (ls1, r)" "ls = trim_cr raw # ls1"
      using "1.prems" sp v by (auto simp: take_lines.simps [of a])
    have "take_lines (rest @ b) = map_option (\<lambda>(ls', r'). (ls1 @ ls', r')) (take_lines (r @ b))"
      using "1.IH" [OF sp refl _ ls1(1)] v by simp
    then show ?thesis
      using split_once_append [OF sp, of b] v
      by (simp add: take_lines.simps [of "a @ b"] ls1(2) option.map_comp comp_def split_def)
  qed
qed

section \<open>Properties\<close>

fun watch_run ::
  "('a \<Rightarrow> object_meta) \<Rightarrow> (rstr \<Rightarrow> 'a watch_event option) \<Rightarrow> bool \<Rightarrow> 'a watch_state \<Rightarrow> 'a watch_input list \<Rightarrow> 'a watch_state option" where
  "watch_run meta parse resync s [] = Some s"
| "watch_run meta parse resync s (i # is) =
     (if same_rv_same_items meta s i
      then case watch_step meta parse resync s i of None \<Rightarrow> None | Some s' \<Rightarrow> watch_run meta parse resync s' is
      else None)"

lemma watch_run_reach:
  "watch_run meta parse resync u is = Some t \<Longrightarrow> watch_reach meta parse resync u \<Longrightarrow> ResyncFires \<notin> set is
     \<Longrightarrow> watch_reach meta parse resync t"
proof (induction "is" arbitrary: u)
  case (Cons i "is")
  then obtain v where v: "same_rv_same_items meta u i" "watch_step meta parse resync u i = Some v"
    "watch_run meta parse resync v is = Some t" by (auto split: if_splits option.splits)
  have "quiet_resync u i" using Cons.prems(3) by (auto simp: quiet_resync_def)
  then have "watch_reach meta parse resync v" using watch_reach.turn [OF Cons.prems(2) v(2,1)] by blast
  then show ?case using Cons.IH [OF v(3)] Cons.prems(3) by simp
qed simp

text \<open>
  C39: no change is forgotten. In every state the watch loop reaches, provided a resync never strikes
  inside a debounce window: a change not yet handed over has its timer armed; otherwise the
  snapshot handed over last has exactly the objects of the current one. Hand-overs are numbered
  one, two, three, their snapshots are sorted and have one object per name, and the backoff stays
  between its base and its cap.
\<close>

theorem watch_hands_over:
  assumes "watch_reach meta parse resync s"
  shows "(wl_phase s \<noteq> Listing \<longrightarrow>
      (if wl_dirty s then wl_deadline s
       else wl_out s \<noteq> [] \<and> sp_items (fst (last (wl_out s))) = sp_items (wl_snap s)))
    \<and> map (ws_generation \<circ> snd) (wl_out s) = map of_nat [1..<Suc (length (wl_out s))]
    \<and> (\<forall>(p, st) \<in> set (wl_out s). sorted_wrt (<) (map fst (sp_items p)))
    \<and> BACKOFF_BASE \<le> wl_backoff s \<and> wl_backoff s \<le> BACKOFF_CAP"
  using watch_reach_inv [OF assms] by (simp add: watch_inv_def history_ok_def handed_def bt_inv_def)

definition sample_meta :: "nat \<Rightarrow> object_meta" where
  "sample_meta n = \<lparr>om_name = replicate n CHR ''n'', om_namespace = ''d'', om_resource_version = replicate n CHR ''1'',
     om_annotations = []\<rparr>"

definition sample_parse :: "rstr \<Rightarrow> nat watch_event option" where
  "sample_parse s = (if s = ''A'' then Some \<lparr>we_event_type = Added, we_object = 3\<rparr> else None)"

lemma sample_line: "take_lines [CHR ''A'', byte 10] = Some ([''A''], [])"
  by code_simp

lemma sample_trim: "trim ''A'' = ''A''"
  by (rule trim_solid) (simp add: graphic_solid graphic_def)

lemma sample_run:
  obtains s where "watch_reach sample_meta sample_parse True s" "wl_phase s = Streaming" "wl_resync s" "wl_dirty s"
    "wl_snap s = apply_event sample_meta (replace_from_list sample_meta [1] ''1'') \<lparr>we_event_type = Added, we_object = 3\<rparr>"
    "map fst (wl_out s) = [replace_from_list sample_meta [1] ''1'']"
proof -
  let ?is = "[ListReply (Some ([1], ''1'')) 5, OpenReply True, DebounceFires, FrameData (Some [CHR ''A'', byte 10])]"
  let ?ev = "\<lparr>we_event_type = Added, we_object = 3\<rparr> :: nat watch_event"
  define u where "u = hand_over ((listed sample_meta True [1] ''1'' 5 watch_init)\<lparr>wl_phase := Streaming\<rparr>)"
  have u: "wl_phase u = Streaming" "wl_resync u" "wl_buf u = []" "wl_snap u = replace_from_list sample_meta [1] ''1''"
    "map fst (wl_out u) = [replace_from_list sample_meta [1] ''1'']"
    by (simp_all add: u_def hand_over_def listed_def watch_init_def Let_def)
  define s where "s = u\<lparr>wl_buf := [], wl_snap := apply_event sample_meta (wl_snap u) ?ev, wl_dirty := True, wl_deadline := True\<rparr>"
  have f: "on_frame sample_meta sample_parse (Some [CHR ''A'', byte 10]) u = s"
    by (simp add: s_def on_frame_def u sample_line apply_line_def sample_parse_def sample_trim Let_def)
  have s: "watch_run sample_meta sample_parse True watch_init ?is = Some s"
  proof -
    let ?step = "watch_step sample_meta sample_parse True" and ?l = "listed sample_meta True [1] ''1'' 5 watch_init"
    have st: "?step watch_init (ListReply (Some ([1], ''1'')) 5) = Some ?l"
      "?step ?l (OpenReply True) = Some (?l\<lparr>wl_phase := Streaming\<rparr>)"
      "?step (?l\<lparr>wl_phase := Streaming\<rparr>) DebounceFires = Some u"
      "?step u (FrameData (Some [CHR ''A'', byte 10])) = Some s"
      unfolding u_def [symmetric] by (simp add: watch_init_def, simp add: listed_def, simp add: listed_def u_def, simp add: u(1) f)
    have "wl_restart_rv (watch_init :: nat watch_state) = None" by (simp add: watch_init_def)
    then show ?thesis by (simp add: st same_rv_same_items_def del: watch_step.simps One_nat_def)
  qed
  have ph: "wl_phase s = Streaming" "wl_resync s" "wl_dirty s"
      "wl_snap s = apply_event sample_meta (replace_from_list sample_meta [1] ''1'') ?ev"
      "map fst (wl_out s) = [replace_from_list sample_meta [1] ''1'']"
    using u by (simp_all add: s_def)
  have "watch_reach sample_meta sample_parse True s" by (rule watch_run_reach [OF s start]) simp
  then show thesis by (rule that) (rule ph)+
qed

theorem watch_hands_over_witness:
  "\<exists>s. watch_reach sample_meta sample_parse True s \<and> wl_phase s = Streaming \<and> wl_dirty s \<and> wl_deadline s"
proof -
  obtain s where s: "watch_reach sample_meta sample_parse True s" "wl_phase s = Streaming" "wl_dirty s"
    using sample_run by blast
  from watch_hands_over [OF s(1)] show ?thesis using s by auto
qed

text \<open>
  The condition of the previous property is needed. When the resync timer fires, whatever change is
  still waiting for its debounce window is dropped if the cluster does not move on: the loop lists
  again at the version it left, takes the unchanged version as nothing missed, and comes to rest
  with the change in its snapshot, no timer armed and no hand-over made.
\<close>

lemma resync_drops_change:
  assumes "wl_phase s = Streaming" "wl_resync s"
    and "sp_items (replace_from_list meta items (sp_resource_version (wl_snap s))) = sp_items (wl_snap s)"
  shows "\<exists>s'. watch_run meta parse resync s
      [ResyncFires, ListReply (Some (items, sp_resource_version (wl_snap s))) now, OpenReply True, DebounceFires] = Some s'
    \<and> wl_phase s' = Streaming \<and> \<not> wl_dirty s' \<and> \<not> wl_deadline s'
    \<and> wl_out s' = wl_out s \<and> sp_items (wl_snap s') = sp_items (wl_snap s)"
  using assms by (simp add: same_rv_same_items_def listed_def hand_over_def)

lemma resync_drops_change_run:
  "\<exists>s (s' :: nat watch_state). watch_reach sample_meta sample_parse True s \<and> wl_dirty s \<and> wl_out s' = wl_out s \<and> \<not> wl_dirty s'
     \<and> snapshot_get (wl_snap s') ''d'' ''nnn'' = Some 3 \<and> snapshot_get (fst (last (wl_out s'))) ''d'' ''nnn'' = None"
proof -
  obtain s where r: "watch_reach sample_meta sample_parse True s" and ph: "wl_phase s = Streaming" "wl_resync s" "wl_dirty s"
    and items: "wl_snap s = apply_event sample_meta (replace_from_list sample_meta [1] ''1'') \<lparr>we_event_type = Added, we_object = 3\<rparr>"
    and o: "map fst (wl_out s) = [replace_from_list sample_meta [1] ''1'']" using sample_run by blast
  have out: "fst (last (wl_out s)) = replace_from_list sample_meta [1] ''1''"
    using o by (cases "wl_out s") auto
  have same: "sp_items (replace_from_list sample_meta [1, 3] (sp_resource_version (wl_snap s))) = sp_items (wl_snap s)"
    by (simp add: items replace_from_list_def apply_event_items)
  obtain s' :: "nat watch_state" where s': "wl_out s' = wl_out s" "\<not> wl_dirty s'" "sp_items (wl_snap s') = sp_items (wl_snap s)"
    using resync_drops_change [OF ph(1,2) same, of sample_parse True 6] by blast
  have "snapshot_get (wl_snap s') ''d'' ''nnn'' = Some 3"
    by (simp add: snapshot_get_def s'(3) items apply_event_items object_key_def sample_meta_def numeral_3_eq_3)
  moreover have "snapshot_get (fst (last (wl_out s'))) ''d'' ''nnn'' = None"
    by (simp add: snapshot_get_def s'(1) out replace_from_list_def object_key_def sample_meta_def)
  ultimately show ?thesis using r ph(3) s' by blast
qed

end
