(* ===== verification/Numerals.thy ===== *)
theory Numerals
  imports Prelude
begin

text \<open>
  Decimal numerals as Rust's \<open>FromStr\<close> of the unsigned integers reads them, against the \<open>Display\<close> of the
  prelude, and lists of them joined by a separator.
\<close>

definition digits_value :: "rstr \<Rightarrow> nat" where
  "digits_value s = foldl (\<lambda>a c. 10 * a + (of_char c - 48)) 0 s"

text \<open>An optional plus sign, at least one digit, nothing else, and a value of the width.\<close>

definition parse_uint :: "nat \<Rightarrow> rstr \<Rightarrow> nat option" where
  "parse_uint width s =
     (let ds = (case s of c # cs \<Rightarrow> if c = CHR ''+'' then cs else s | [] \<Rightarrow> [])
      in if ds = [] \<or> \<not> list_all is_ascii_digit ds \<or> 2 ^ width \<le> digits_value ds then None else Some (digits_value ds))"

lemma dec_digits_not_Nil [simp]: "dec_digits n \<noteq> []"
  by (subst dec_digits.simps) simp

lemma of_char_digit: "d < 10 \<Longrightarrow> (of_char (char_of (48 + d :: nat)) :: nat) = 48 + d"
  by simp

lemma dec_digits_ascii: "list_all is_ascii_digit (dec_digits n)"
proof (induction n rule: dec_digits.induct)
  case (1 n)
  then show ?case
    by (cases "n < 10") (auto simp: dec_digits.simps [of n] is_ascii_digit_def)
qed

lemma digits_value_dec [simp]: "digits_value (dec_digits n) = n"
proof (induction n rule: dec_digits.induct)
  case (1 n)
  show ?case
  proof (cases "n < 10")
    case True
    then show ?thesis by (simp add: dec_digits.simps [of n] digits_value_def)
  next
    case False
    then show ?thesis using 1 [OF False] by (simp add: dec_digits.simps [of n] digits_value_def)
  qed
qed

lemma dec_digits_inj: "dec_digits m = dec_digits n \<Longrightarrow> m = n"
  by (metis digits_value_dec)

lemma not_digit_not_in: "\<not> is_ascii_digit c \<Longrightarrow> c \<notin> set (dec_digits n)"
  using dec_digits_ascii [of n] by (auto simp: list_all_iff)

lemma parse_uint_dec:
  assumes "n < 2 ^ width"
  shows "parse_uint width (dec_digits n) = Some n"
proof -
  have "CHR ''+'' \<notin> set (dec_digits n)" by (rule not_digit_not_in) (simp add: is_ascii_digit_def)
  then have "(case dec_digits n of c # cs \<Rightarrow> if c = CHR ''+'' then cs else dec_digits n | [] \<Rightarrow> []) = dec_digits n"
    by (cases "dec_digits n") auto
  then show ?thesis using assms dec_digits_ascii by (simp add: parse_uint_def Let_def)
qed

lemma trim_dec [simp]: "trim (dec_digits n) = dec_digits n"
proof (rule trim_solid)
  show "list_all solid (dec_digits n)"
    using dec_digits_ascii [of n]
    by (auto simp: list_all_iff is_ascii_digit_def intro!: graphic_solid simp: graphic_def)
qed

lemma split_on_free: "c \<notin> set x \<Longrightarrow> split_on c x = [x]"
  by (induction x) auto

lemma split_on_append: "c \<notin> set x \<Longrightarrow> split_on c (x @ c # y) = x # split_on c y"
  by (induction x) auto

lemma split_on_join: "xs \<noteq> [] \<Longrightarrow> \<forall>x \<in> set xs. c \<notin> set x \<Longrightarrow> split_on c (join [c] xs) = xs"
  by (induction "[c]" xs rule: join.induct) (auto simp: split_on_free split_on_append)

lemma split_once_free: "c \<notin> set x \<Longrightarrow> split_once c x = None"
  by (induction x) auto

end
