(* ===== verification/K8sRender.thy ===== *)
theory K8sRender
  imports K8sWatch Config Numerals
begin

text \<open>
  Rendering of cluster snapshots (\<open>crates/openrusty-k8s/src/model/\<close>, \<open>render/\<close>) and the composition with the
  static configuration (\<open>crates/openrusty-server/src/ingress/mod.rs\<close>): routes and upstreams of the
  Ingress objects of one class, TLS material per host, the merge with its conflict policy, and the
  configuration that is applied. Base64 decoding is a parameter.
\<close>

section \<open>Objects\<close>

record service_backend_port =
  bp_name :: "rstr option"
  bp_number :: "u32 option"

record ingress_service_backend =
  sb_name :: rstr
  sb_port :: "service_backend_port option"

record ingress_backend =
  ib_service :: "ingress_service_backend option"

datatype path_type = ImplementationSpecific | PrefixType | ExactType

record http_ingress_path =
  hp_path :: rstr
  hp_path_type :: path_type
  hp_backend :: ingress_backend

record ingress_rule =
  ir_host :: "rstr option"
  ir_http :: "http_ingress_path list option"

record ingress_tls =
  it_hosts :: "rstr list"
  it_secret_name :: "rstr option"

record ingress_spec =
  is_ingress_class_name :: "rstr option"
  is_default_backend :: "ingress_backend option"
  is_tls :: "ingress_tls list"
  is_rules :: "ingress_rule list"

record ingress =
  in_metadata :: object_meta
  in_spec :: ingress_spec

record secret =
  se_metadata :: object_meta
  se_type :: "rstr option"
  se_data :: "(rstr \<times> rstr) list"

definition TLS_TYPE :: rstr where "TLS_TYPE = ''kubernetes.io/tls''"

datatype render_error =
    BadPath rstr rstr
  | ServiceMissing rstr
  | BackendPortMissing rstr rstr rstr
  | NamedPort rstr rstr rstr rstr
  | SecretMissing rstr rstr rstr
  | SecretNotTls rstr rstr rstr rstr
  | SecretPem rstr rstr rstr rstr rstr
  | TlsHostConflict rstr rstr rstr

text \<open>A loop over \<open>xs\<close> that stops at the first error and appends what each round yields.\<close>

fun collect :: "('a \<Rightarrow> 'e + 'b list) \<Rightarrow> 'a list \<Rightarrow> 'e + 'b list" where
  "collect f [] = Inr []"
| "collect f (x # xs) = and_then (f x) (\<lambda>ys. and_then (collect f xs) (\<lambda>zs. Inr (ys @ zs)))"

section \<open>Routes and upstreams\<close>

definition normalize_host :: "rstr \<Rightarrow> rstr" where
  "normalize_host host = to_ascii_lowercase (trim host)"

definition upstream_name :: "rstr \<Rightarrow> rstr \<Rightarrow> u32 \<Rightarrow> rstr" where
  "upstream_name ns svc p = ''ing-'' @ ns @ ''-'' @ svc @ ''-'' @ dec_digits (unat p)"

definition endpoint :: "rstr \<Rightarrow> rstr \<Rightarrow> u32 \<Rightarrow> rstr" where
  "endpoint ns svc p = svc @ ''.'' @ ns @ ''.svc.cluster.local:'' @ dec_digits (unat p)"

type_synonym target = "rstr \<times> rstr \<times> u32"

definition backend_target :: "rstr \<Rightarrow> rstr \<Rightarrow> ingress_backend \<Rightarrow> render_error + target" where
  "backend_target owner ns b =
     (case ib_service b of
        None \<Rightarrow> Inl (ServiceMissing owner)
      | Some service \<Rightarrow>
          (case sb_port service of
             None \<Rightarrow> Inl (BackendPortMissing owner ns (sb_name service))
           | Some p \<Rightarrow>
               (case bp_number p of
                  Some number \<Rightarrow> Inr (ns, sb_name service, number)
                | None \<Rightarrow> Inl (NamedPort owner ns (sb_name service) (case bp_name p of Some n \<Rightarrow> n | None \<Rightarrow> [])))))"

definition owner_label :: "rstr \<times> rstr \<Rightarrow> rstr" where
  "owner_label key = ''ingress '' @ fst key @ ''/'' @ snd key"

definition owned :: "ingress snapshot \<Rightarrow> rstr \<Rightarrow> (rstr \<times> ingress) list" where
  "owned snap class =
     map (\<lambda>(key, ing). (owner_label key, ing))
       (filter (\<lambda>(_, ing). is_ingress_class_name (in_spec ing) = Some class) (sp_items snap))"

definition make_route :: "rstr \<Rightarrow> rstr option \<Rightarrow> bool \<Rightarrow> target \<Rightarrow> route_config" where
  "make_route path host exact t = (case t of (ns, svc, p) \<Rightarrow>
     \<lparr>rt_path_prefix = path, rt_host = host, rt_exact = exact, rt_upstream = upstream_name ns svc p, rt_timeout_ms = 0\<rparr>)"

definition path_routes :: "rstr \<Rightarrow> rstr \<Rightarrow> rstr option \<Rightarrow> http_ingress_path \<Rightarrow> render_error + route_config list" where
  "path_routes owner ns host p =
     (if \<not> starts_with (hp_path p) ''/'' then Inl (BadPath owner (hp_path p))
      else and_then (backend_target owner ns (hp_backend p)) (\<lambda>t.
        Inr [make_route (hp_path p) host (hp_path_type p = ExactType) t]))"

definition rule_routes :: "rstr \<Rightarrow> rstr \<Rightarrow> ingress_rule \<Rightarrow> render_error + route_config list" where
  "rule_routes owner ns rule =
     (case ir_http rule of
        None \<Rightarrow> Inr []
      | Some paths \<Rightarrow> collect (path_routes owner ns (map_option normalize_host (ir_host rule))) paths)"

definition ingress_routes :: "rstr \<times> ingress \<Rightarrow> render_error + route_config list" where
  "ingress_routes oi = (case oi of (owner, ing) \<Rightarrow>
     let ns = om_namespace (in_metadata ing) in
     and_then (case is_default_backend (in_spec ing) of
         None \<Rightarrow> Inr []
       | Some b \<Rightarrow> and_then (backend_target owner ns b) (\<lambda>t. Inr [make_route ''/'' None False t]))
       (\<lambda>ds. and_then (collect (rule_routes owner ns) (is_rules (in_spec ing))) (\<lambda>rs. Inr (ds @ rs))))"

definition render_routes :: "ingress snapshot \<Rightarrow> rstr \<Rightarrow> render_error + route_config list" where
  "render_routes snap class = collect ingress_routes (owned snap class)"

definition rule_targets :: "rstr \<Rightarrow> rstr \<Rightarrow> ingress_rule \<Rightarrow> render_error + target list" where
  "rule_targets owner ns rule =
     (case ir_http rule of
        None \<Rightarrow> Inr []
      | Some paths \<Rightarrow> collect (\<lambda>p. and_then (backend_target owner ns (hp_backend p)) (\<lambda>t. Inr [t])) paths)"

definition ingress_targets :: "rstr \<times> ingress \<Rightarrow> render_error + target list" where
  "ingress_targets oi = (case oi of (owner, ing) \<Rightarrow>
     let ns = om_namespace (in_metadata ing) in
     and_then (case is_default_backend (in_spec ing) of
         None \<Rightarrow> Inr []
       | Some b \<Rightarrow> and_then (backend_target owner ns b) (\<lambda>t. Inr [t]))
       (\<lambda>ds. and_then (collect (rule_targets owner ns) (is_rules (in_spec ing))) (\<lambda>rs. Inr (ds @ rs))))"

definition build_upstream :: "target \<Rightarrow> upstream_config" where
  "build_upstream t = (case t of (ns, svc, p) \<Rightarrow>
     \<lparr>uc_name = upstream_name ns svc p, uc_balancer = Swrr, uc_retries = 0, uc_retry_on_timeout = False,
      uc_connect_timeout_ms = 2000, uc_pool_idle_timeout_ms = 60000, uc_peers = [], uc_endpoints = [endpoint ns svc p],
      uc_tls = None, uc_health = health_config_default\<lparr>hc_max_fails := 0\<rparr>\<rparr>)"

text \<open>The \<open>BTreeSet\<close> of targets is the table with empty values.\<close>

definition render_upstreams :: "ingress snapshot \<Rightarrow> rstr \<Rightarrow> render_error + upstream_config list" where
  "render_upstreams snap class =
     and_then (collect ingress_targets (owned snap class)) (\<lambda>ts.
       Inr (map (\<lambda>(t, _). build_upstream t) (fold (\<lambda>t. bt_insert t ()) ts [])))"

section \<open>TLS material\<close>

record tls_pair =
  tp_cert_pem :: rstr
  tp_key_pem :: rstr

text \<open>\<open>b64\<close> is the standard base64 decoder: the error text or the bytes.\<close>

definition decode_field :: "(rstr \<Rightarrow> rstr + rstr) \<Rightarrow> secret \<Rightarrow> rstr \<Rightarrow> rstr + rstr option" where
  "decode_field b64 s field =
     (case map_of (se_data s) field of
        None \<Rightarrow> Inr None
      | Some v \<Rightarrow> and_then (map_err (\<lambda>e. ''bad base64: '' @ e) (b64 v)) (\<lambda>bs.
          if utf8_valid bs then Inr (Some bs) else Inl ''decoded bytes are not UTF-8''))"

definition required_field :: "(rstr \<Rightarrow> rstr + rstr) \<Rightarrow> (rstr \<Rightarrow> rstr \<Rightarrow> render_error) \<Rightarrow> secret \<Rightarrow> rstr \<Rightarrow> render_error + rstr" where
  "required_field b64 fail s field =
     and_then (map_err (fail field) (decode_field b64 s field)) (\<lambda>v.
       case v of Some pem \<Rightarrow> Inr pem | None \<Rightarrow> Inl (fail field ''missing data key''))"

definition decode_tls_secret :: "(rstr \<Rightarrow> rstr + rstr) \<Rightarrow> rstr \<Rightarrow> secret \<Rightarrow> render_error + tls_pair" where
  "decode_tls_secret b64 owner s =
     (let ns = om_namespace (se_metadata s); name = om_name (se_metadata s); fail = SecretPem owner ns name in
      if se_type s \<noteq> Some TLS_TYPE then Inl (SecretNotTls owner ns name (case se_type s of Some t \<Rightarrow> t | None \<Rightarrow> []))
      else and_then (required_field b64 fail s ''tls.crt'') (\<lambda>cert.
           and_then (required_field b64 fail s ''tls.key'') (\<lambda>key.
             if trim cert = [] then Inl (fail ''tls.crt'' ''PEM is empty'')
             else if trim key = [] then Inl (fail ''tls.key'' ''PEM is empty'')
             else Inr \<lparr>tp_cert_pem = cert, tp_key_pem = key\<rparr>)))"

type_synonym tls_table = "(rstr \<times> tls_pair) list \<times> (rstr \<times> rstr) list"

fun tls_hosts :: "rstr \<Rightarrow> tls_pair \<Rightarrow> rstr list \<Rightarrow> tls_table \<Rightarrow> render_error + tls_table" where
  "tls_hosts claim pair [] t = Inr t"
| "tls_hosts claim pair (host # hosts) (out, claims) =
     (let key = normalize_host host in
      if key = [] then tls_hosts claim pair hosts (out, claims)
      else case map_of out key of
          Some existing \<Rightarrow>
            if existing \<noteq> pair
            then Inl (TlsHostConflict key (case map_of claims key of Some c \<Rightarrow> c | None \<Rightarrow> []) claim)
            else tls_hosts claim pair hosts (bt_insert key pair out, claims)
        | None \<Rightarrow> tls_hosts claim pair hosts (bt_insert key pair out, bt_insert key claim claims))"

fun tls_sections ::
  "(rstr \<Rightarrow> rstr + rstr) \<Rightarrow> secret snapshot \<Rightarrow> rstr \<Rightarrow> rstr \<Rightarrow> ingress_tls list \<Rightarrow> tls_table \<Rightarrow> render_error + tls_table" where
  "tls_sections b64 secrets owner ns [] t = Inr t"
| "tls_sections b64 secrets owner ns (tls # rest) t =
     (case it_secret_name tls of
        None \<Rightarrow> tls_sections b64 secrets owner ns rest t
      | Some sn \<Rightarrow>
          (case snapshot_get secrets ns sn of
             None \<Rightarrow> Inl (SecretMissing owner ns sn)
           | Some s \<Rightarrow>
               and_then (decode_tls_secret b64 owner s) (\<lambda>pair.
               and_then (tls_hosts (owner @ '' (secret '' @ ns @ ''/'' @ sn @ '')'') pair (it_hosts tls) t) (\<lambda>t'.
                 tls_sections b64 secrets owner ns rest t'))))"

fun tls_ingresses ::
  "(rstr \<Rightarrow> rstr + rstr) \<Rightarrow> secret snapshot \<Rightarrow> rstr \<Rightarrow> ((rstr \<times> rstr) \<times> ingress) list \<Rightarrow> tls_table \<Rightarrow> render_error + tls_table" where
  "tls_ingresses b64 secrets class [] t = Inr t"
| "tls_ingresses b64 secrets class ((key, ing) # rest) t =
     (if is_ingress_class_name (in_spec ing) \<noteq> Some class then tls_ingresses b64 secrets class rest t
      else and_then (tls_sections b64 secrets (owner_label key) (fst key) (is_tls (in_spec ing)) t) (\<lambda>t'.
        tls_ingresses b64 secrets class rest t'))"

definition render_tls ::
  "(rstr \<Rightarrow> rstr + rstr) \<Rightarrow> ingress snapshot \<Rightarrow> secret snapshot \<Rightarrow> rstr \<Rightarrow> render_error + (rstr \<times> tls_pair) list" where
  "render_tls b64 ings secrets class = and_then (tls_ingresses b64 secrets class (sp_items ings) ([], [])) (\<lambda>t. Inr (fst t))"

section \<open>Merging with the static configuration\<close>

record route_key =
  rk_host :: "rstr option"
  rk_path_prefix :: rstr
  rk_exact :: bool

definition route_key_of :: "route_config \<Rightarrow> route_key" where
  "route_key_of r = \<lparr>rk_host = map_option normalize_host (rt_host r), rk_path_prefix = rt_path_prefix r, rk_exact = rt_exact r\<rparr>"

record conflict =
  co_key :: route_key
  co_a :: rstr
  co_b :: rstr

fun check_routes :: "rstr \<Rightarrow> nat \<Rightarrow> route_config list \<Rightarrow> (route_key \<rightharpoonup> rstr) \<Rightarrow> conflict + (route_key \<rightharpoonup> rstr)" where
  "check_routes label i [] seen = Inr seen"
| "check_routes label i (r # rs) seen =
     (let key = route_key_of r; here = label @ ''['' @ dec_digits i @ '']'' in
      case seen key of
        Some there \<Rightarrow> Inl \<lparr>co_key = key, co_a = there, co_b = here\<rparr>
      | None \<Rightarrow> check_routes label (Suc i) rs (seen(key \<mapsto> here)))"

definition merge_routes :: "route_config list \<Rightarrow> route_config list \<Rightarrow> conflict + route_config list" where
  "merge_routes static_routes rendered =
     and_then (check_routes ''static'' 0 static_routes Map.empty) (\<lambda>seen.
     and_then (check_routes ''rendered'' 0 rendered seen) (\<lambda>_.
       Inr (static_routes @ rendered)))"

definition build_ingress_config :: "config \<Rightarrow> route_config list \<Rightarrow> upstream_config list \<Rightarrow> config" where
  "build_ingress_config base routes rendered =
     (let taken = uc_name ` set (cf_upstreams base)
      in base\<lparr>cf_routes := routes,
              cf_upstreams := cf_upstreams base @ filter (\<lambda>u. uc_name u \<notin> taken) rendered\<rparr>)"

section \<open>Watch paths and slots\<close>

definition INGRESS_API :: rstr where "INGRESS_API = ''/apis/networking.k8s.io/v1''"
definition SECRET_API :: rstr where "SECRET_API = ''/api/v1''"
definition TLS_SECRET_SELECTOR :: rstr where "TLS_SECRET_SELECTOR = ''fieldSelector=type%3Dkubernetes.io%2Ftls''"

definition resource_paths :: "rstr \<Rightarrow> rstr \<Rightarrow> rstr \<Rightarrow> rstr list \<Rightarrow> rstr list" where
  "resource_paths api resource query namespaces =
     (let tail = (if query = [] then resource else resource @ ''?'' @ query)
      in if namespaces = [] then [api @ ''/'' @ tail]
         else map (\<lambda>ns. api @ ''/namespaces/'' @ ns @ ''/'' @ tail) namespaces)"

definition ingress_paths :: "rstr list \<Rightarrow> rstr list" where
  "ingress_paths namespaces = resource_paths INGRESS_API ''ingresses'' [] namespaces"

definition secret_paths :: "rstr list \<Rightarrow> rstr list" where
  "secret_paths namespaces = resource_paths SECRET_API ''secrets'' TLS_SECRET_SELECTOR namespaces"

definition watch_path :: "rstr \<Rightarrow> rstr \<Rightarrow> rstr" where
  "watch_path path rv =
     (let sep = (if CHR ''?'' \<in> set path then ''&'' else ''?'')
      in path @ sep @ ''watch=1&allowWatchBookmarks=true'' @ (if rv = [] then [] else ''&resourceVersion='' @ rv))"

definition fold_slot ::
  "('a \<Rightarrow> object_meta) \<Rightarrow> 'a snapshot option list \<Rightarrow> nat \<Rightarrow> 'a snapshot \<Rightarrow> ('a snapshot option list \<times> 'a snapshot) rust" where
  "fold_slot meta slots index incoming =
     (if index < length slots
      then let slots' = slots[index := Some incoming];
               items = concat (map (\<lambda>s. map snd (sp_items s)) (List.map_filter id slots'))
           in Return (slots', replace_from_list meta items (sp_resource_version incoming))
      else Panic)"

section \<open>Certificates by server name\<close>

text \<open>
  \<open>DynamicCertResolver\<close>: the published table, replaced as a whole, and the fallback certificate. \<open>certify\<close> builds a signing
  key from PEM text (rustls).
\<close>

record 'ck cert_resolver =
  cr_map :: "(rstr \<times> 'ck) list"
  cr_fallback :: "'ck option"

definition resolver_new :: "'ck cert_resolver" where
  "resolver_new = \<lparr>cr_map = [], cr_fallback = None\<rparr>"

definition resolver_lookup :: "'ck cert_resolver \<Rightarrow> rstr option \<Rightarrow> 'ck option" where
  "resolver_lookup r name =
     (case (case name of Some n \<Rightarrow> map_of (cr_map r) (to_ascii_lowercase n) | None \<Rightarrow> None) of
        Some k \<Rightarrow> Some k
      | None \<Rightarrow> cr_fallback r)"

definition seed_fallback :: "(rstr \<Rightarrow> rstr \<Rightarrow> rstr + 'ck) \<Rightarrow> 'ck cert_resolver \<Rightarrow> tls_pair \<Rightarrow> rstr + 'ck cert_resolver" where
  "seed_fallback certify r pair =
     and_then (certify (tp_cert_pem pair) (tp_key_pem pair)) (\<lambda>k. Inr (r\<lparr>cr_fallback := Some k\<rparr>))"

fun certify_pairs :: "(rstr \<Rightarrow> rstr \<Rightarrow> rstr + 'ck) \<Rightarrow> (rstr \<times> tls_pair) list \<Rightarrow> (rstr \<times> 'ck) list \<Rightarrow> (rstr \<times> 'ck) list" where
  "certify_pairs certify [] next = next"
| "certify_pairs certify ((host, pair) # pairs) next =
     certify_pairs certify pairs
       (case certify (tp_cert_pem pair) (tp_key_pem pair) of
          Inr k \<Rightarrow> bt_insert (to_ascii_lowercase host) k next
        | Inl _ \<Rightarrow> next)"

definition update_from_tls_pairs ::
  "(rstr \<Rightarrow> rstr \<Rightarrow> rstr + 'ck) \<Rightarrow> 'ck cert_resolver \<Rightarrow> (rstr \<times> tls_pair) list \<Rightarrow> 'ck cert_resolver \<times> nat" where
  "update_from_tls_pairs certify r pairs =
     (let next = certify_pairs certify pairs [] in (r\<lparr>cr_map := next\<rparr>, length next))"

section \<open>Lemmas\<close>

lemma collect_spec:
  assumes "collect f xs = Inr ys" and "\<And>x zs. f x = Inr zs \<Longrightarrow> set zs = g x \<and> P x"
  shows "set ys = (\<Union>x \<in> set xs. g x) \<and> (\<forall>x \<in> set xs. P x)"
  using assms by (induction xs arbitrary: ys) auto

lemma dash_not_digit: "CHR ''-'' \<notin> set (dec_digits n)"
  by (rule not_digit_not_in) (simp add: is_ascii_digit_def)

lemma cut_first: "x \<notin> set a \<Longrightarrow> x \<notin> set b \<Longrightarrow> a @ x # c = b @ x # d \<Longrightarrow> a = b \<and> c = d"
  by (induction a arbitrary: b) (case_tac b; auto)+

lemma cut_last: "x \<notin> set c \<Longrightarrow> x \<notin> set d \<Longrightarrow> a @ x # c = b @ x # d \<Longrightarrow> a = b \<and> c = d"
proof -
  assume "x \<notin> set c" "x \<notin> set d" "a @ x # c = b @ x # d"
  moreover from arg_cong [OF this(3), of rev] have "rev c @ x # rev a = rev d @ x # rev b" by simp
  ultimately show ?thesis using cut_first [of x "rev c" "rev d" "rev a" "rev b"] by simp
qed

lemma upstream_name_inj:
  assumes "upstream_name ns svc p = upstream_name ns' svc' p'" "CHR ''-'' \<notin> set ns" "CHR ''-'' \<notin> set ns'"
  shows "ns = ns' \<and> svc = svc' \<and> p = p'"
proof -
  have "ns @ CHR ''-'' # (svc @ CHR ''-'' # dec_digits (unat p)) = ns' @ CHR ''-'' # (svc' @ CHR ''-'' # dec_digits (unat p'))"
    using assms(1) by (simp add: upstream_name_def)
  then have ns: "ns = ns'" and r: "svc @ CHR ''-'' # dec_digits (unat p) = svc' @ CHR ''-'' # dec_digits (unat p')"
    using cut_first [OF assms(2,3)] by blast+
  then show ?thesis using cut_last [OF dash_not_digit dash_not_digit r] dec_digits_inj by (auto simp: word_unat_eq_iff)
qed

text \<open>What the Ingress objects of a class declare: path, host, match class, namespace and backend.\<close>

definition declared_by :: "ingress \<Rightarrow> (rstr \<times> rstr option \<times> bool \<times> rstr \<times> ingress_backend) set" where
  "declared_by ing =
     (\<lambda>b. (''/'', None, False, om_namespace (in_metadata ing), b)) ` set_option (is_default_backend (in_spec ing))
     \<union> (\<Union>rule \<in> set (is_rules (in_spec ing)). \<Union>ps \<in> set_option (ir_http rule).
         (\<lambda>p. (hp_path p, map_option normalize_host (ir_host rule), hp_path_type p = ExactType,
               om_namespace (in_metadata ing), hp_backend p)) ` set ps)"

definition declared :: "ingress snapshot \<Rightarrow> rstr \<Rightarrow> (rstr \<times> rstr option \<times> bool \<times> rstr \<times> ingress_backend) set" where
  "declared snap class = (\<Union>(_, ing) \<in> set (sp_items snap). if is_ingress_class_name (in_spec ing) = Some class then declared_by ing else {})"

definition target_of :: "rstr \<Rightarrow> ingress_backend \<Rightarrow> target option" where
  "target_of ns b = (case backend_target [] ns b of Inr t \<Rightarrow> Some t | Inl _ \<Rightarrow> None)"

lemma backend_target_Inr [simp]: "backend_target owner ns b = Inr t \<longleftrightarrow> target_of ns b = Some t"
  by (auto simp: target_of_def backend_target_def split: option.splits)

lemma declared_owned: "declared snap class = (\<Union>(_, ing) \<in> set (owned snap class). declared_by ing)"
  by (force simp: declared_def owned_def split: if_splits)

definition declared_route :: "rstr \<times> rstr option \<times> bool \<times> rstr \<times> ingress_backend \<Rightarrow> route_config" where
  "declared_route d = (case d of (path, host, exact, ns, b) \<Rightarrow> make_route path host exact (the (target_of ns b)))"

definition declared_target :: "rstr \<times> rstr option \<times> bool \<times> rstr \<times> ingress_backend \<Rightarrow> target option" where
  "declared_target d = (case d of (path, host, exact, ns, b) \<Rightarrow> target_of ns b)"

text \<open>One path of a rule, and the declarations of a whole rule and object.\<close>

definition path_decl :: "rstr \<Rightarrow> ingress_rule \<Rightarrow> http_ingress_path \<Rightarrow> rstr \<times> rstr option \<times> bool \<times> rstr \<times> ingress_backend" where
  "path_decl ns rule p = (hp_path p, map_option normalize_host (ir_host rule), hp_path_type p = ExactType, ns, hp_backend p)"

definition rule_decls :: "rstr \<Rightarrow> ingress_rule \<Rightarrow> (rstr \<times> rstr option \<times> bool \<times> rstr \<times> ingress_backend) set" where
  "rule_decls ns rule = (\<Union>ps \<in> set_option (ir_http rule). path_decl ns rule ` set ps)"

definition default_decls :: "ingress \<Rightarrow> (rstr \<times> rstr option \<times> bool \<times> rstr \<times> ingress_backend) set" where
  "default_decls ing =
     (\<lambda>b. (''/'', None, False, om_namespace (in_metadata ing), b)) ` set_option (is_default_backend (in_spec ing))"

definition sound_decl :: "rstr \<times> rstr option \<times> bool \<times> rstr \<times> ingress_backend \<Rightarrow> bool" where
  "sound_decl d = (case d of (path, host, exact, ns, b) \<Rightarrow> starts_with path ''/'' \<and> target_of ns b \<noteq> None)"

lemma declared_by_parts:
  "declared_by ing = default_decls ing \<union> (\<Union>rule \<in> set (is_rules (in_spec ing)). rule_decls (om_namespace (in_metadata ing)) rule)"
  by (simp add: declared_by_def default_decls_def rule_decls_def path_decl_def)

lemma rule_routes_spec:
  assumes "rule_routes owner ns rule = Inr rs"
  shows "set rs = declared_route ` rule_decls ns rule \<and> (\<forall>d \<in> rule_decls ns rule. sound_decl d)"
proof (cases "ir_http rule")
  case None
  then show ?thesis using assms by (simp add: rule_routes_def rule_decls_def)
next
  case (Some ps)
  have "collect (path_routes owner ns (map_option normalize_host (ir_host rule))) ps = Inr rs"
    using assms Some by (simp add: rule_routes_def)
  then have "set rs = (\<Union>p \<in> set ps. {declared_route (path_decl ns rule p)}) \<and> (\<forall>p \<in> set ps. sound_decl (path_decl ns rule p))"
    by (rule collect_spec) (auto simp: path_routes_def declared_route_def path_decl_def sound_decl_def split: if_splits)
  then show ?thesis using Some by (auto simp: rule_decls_def)
qed

lemma ingress_routes_spec:
  assumes "ingress_routes (owner, ing) = Inr rs"
  shows "set rs = declared_route ` declared_by ing \<and> (\<forall>d \<in> declared_by ing. sound_decl d)"
proof -
  let ?ns = "om_namespace (in_metadata ing)"
  obtain ds rr where ds: "(case is_default_backend (in_spec ing) of None \<Rightarrow> Inr []
       | Some b \<Rightarrow> and_then (backend_target owner ?ns b) (\<lambda>t. Inr [make_route ''/'' None False t])) = Inr ds"
    and rr: "collect (rule_routes owner ?ns) (is_rules (in_spec ing)) = Inr rr" and rs: "rs = ds @ rr"
    using assms by (auto simp: ingress_routes_def Let_def simp del: backend_target_Inr)
  have d: "set ds = declared_route ` default_decls ing \<and> (\<forall>d \<in> default_decls ing. sound_decl d)"
    using ds by (cases "is_default_backend (in_spec ing)") (auto simp: default_decls_def declared_route_def sound_decl_def)
  have r: "set rr = (\<Union>rule \<in> set (is_rules (in_spec ing)). declared_route ` rule_decls ?ns rule)
      \<and> (\<forall>rule \<in> set (is_rules (in_spec ing)). \<forall>d \<in> rule_decls ?ns rule. sound_decl d)"
    using rr by (rule collect_spec) (rule rule_routes_spec)
  show ?thesis using d r by (simp add: rs declared_by_parts image_Un image_UN ball_Un)
qed

lemma rule_targets_spec:
  assumes "rule_targets owner ns rule = Inr ts"
  shows "set ts = (\<Union>d \<in> rule_decls ns rule. set_option (declared_target d)) \<and> (\<forall>d \<in> rule_decls ns rule. declared_target d \<noteq> None)"
proof (cases "ir_http rule")
  case None
  then show ?thesis using assms by (simp add: rule_targets_def rule_decls_def)
next
  case (Some ps)
  have "collect (\<lambda>p. and_then (backend_target owner ns (hp_backend p)) (\<lambda>t. Inr [t])) ps = Inr ts"
    using assms Some by (simp add: rule_targets_def)
  then have "set ts = (\<Union>p \<in> set ps. set_option (declared_target (path_decl ns rule p)))
      \<and> (\<forall>p \<in> set ps. declared_target (path_decl ns rule p) \<noteq> None)"
    by (rule collect_spec) (auto simp: declared_target_def path_decl_def)
  then show ?thesis using Some by (simp add: rule_decls_def)
qed

lemma ingress_targets_spec:
  assumes "ingress_targets (owner, ing) = Inr ts"
  shows "set ts = (\<Union>d \<in> declared_by ing. set_option (declared_target d)) \<and> True"
proof -
  let ?ns = "om_namespace (in_metadata ing)"
  obtain ds rr where ds: "(case is_default_backend (in_spec ing) of None \<Rightarrow> Inr []
       | Some b \<Rightarrow> and_then (backend_target owner ?ns b) (\<lambda>t. Inr [t])) = Inr ds"
    and rr: "collect (rule_targets owner ?ns) (is_rules (in_spec ing)) = Inr rr" and ts: "ts = ds @ rr"
    using assms by (auto simp: ingress_targets_def Let_def simp del: backend_target_Inr)
  have d: "set ds = (\<Union>d \<in> default_decls ing. set_option (declared_target d))"
    using ds by (cases "is_default_backend (in_spec ing)") (auto simp: default_decls_def declared_target_def)
  have r: "set rr = (\<Union>rule \<in> set (is_rules (in_spec ing)). \<Union>d \<in> rule_decls ?ns rule. set_option (declared_target d))
      \<and> (\<forall>rule \<in> set (is_rules (in_spec ing)). \<forall>d \<in> rule_decls ?ns rule. declared_target d \<noteq> None)"
    using rr by (rule collect_spec) (rule rule_targets_spec)
  show ?thesis using d r by (simp add: ts declared_by_parts)
qed

lemma render_routes_spec:
  assumes "render_routes snap class = Inr rs"
  shows "set rs = declared_route ` declared snap class \<and> (\<forall>d \<in> declared snap class. sound_decl d)"
proof -
  have "set rs = (\<Union>oi \<in> set (owned snap class). declared_route ` declared_by (snd oi))
      \<and> (\<forall>oi \<in> set (owned snap class). \<forall>d \<in> declared_by (snd oi). sound_decl d)"
    using assms unfolding render_routes_def by (rule collect_spec) (metis ingress_routes_spec prod.collapse)
  then show ?thesis by (simp add: declared_owned split_def image_UN)
qed

lemma render_upstreams_spec:
  assumes "render_upstreams snap class = Inr us"
  shows "\<exists>ts. us = map build_upstream ts \<and> sorted_wrt (<) ts
    \<and> set ts = (\<Union>d \<in> declared snap class. set_option (declared_target d))"
proof -
  obtain xs where xs: "collect ingress_targets (owned snap class) = Inr xs"
    and us: "us = map (\<lambda>(t, _). build_upstream t) (fold (\<lambda>t. bt_insert t ()) xs [])"
    using assms by (auto simp: render_upstreams_def)
  have "set xs = (\<Union>oi \<in> set (owned snap class). \<Union>d \<in> declared_by (snd oi). set_option (declared_target d))
      \<and> (\<forall>oi \<in> set (owned snap class). True)"
    using xs by (rule collect_spec) (metis ingress_targets_spec prod.collapse)
  then have s: "set xs = (\<Union>d \<in> declared snap class. set_option (declared_target d))"
    by (simp add: declared_owned split_def)
  let ?t = "fold (\<lambda>t. bt_insert t ()) xs ([] :: (target \<times> unit) list)"
  have "bt_inv ?t" using bt.inv_fold_put [OF bt.inv_empty, of id "\<lambda>_. ()" xs] by simp
  moreover have "set (map fst ?t) = set xs"
    using bt.dom_fold_put [OF bt.inv_empty, of id "\<lambda>_. ()" xs] by (simp add: dom_map_of_conv_image_fst)
  ultimately show ?thesis
    using s by (intro exI [of _ "map fst ?t"]) (simp add: us bt_inv_def split_def)
qed

lemma check_routes_Inr:
  "check_routes label i rs seen = Inr seen' \<Longrightarrow>
     distinct (map route_key_of rs) \<and> route_key_of ` set rs \<inter> dom seen = {} \<and> dom seen' = dom seen \<union> route_key_of ` set rs"
proof (induction rs arbitrary: i seen)
  case (Cons r rs)
  then have n: "seen (route_key_of r) = None" by (auto simp: Let_def split: option.splits)
  then have "check_routes label (Suc i) rs (seen(route_key_of r \<mapsto> label @ ''['' @ dec_digits i @ '']'')) = Inr seen'"
    using Cons.prems by (simp add: Let_def)
  from Cons.IH [OF this] show ?case using n by (auto simp: dom_def)
qed simp

lemma merge_routes_Inr:
  "merge_routes st rs = Inr out \<Longrightarrow> out = st @ rs \<and> distinct (map route_key_of out)"
  using check_routes_Inr [of "''static''" 0 st Map.empty] check_routes_Inr [of "''rendered''" 0 rs]
  by (fastforce simp: merge_routes_def)

text \<open>Who may serve a host: the pairs of the sections that name it.\<close>

definition host_keys :: "rstr list \<Rightarrow> rstr set" where
  "host_keys hosts = {k. k \<noteq> [] \<and> k \<in> normalize_host ` set hosts}"

definition section_claims ::
  "(rstr \<Rightarrow> rstr + rstr) \<Rightarrow> secret snapshot \<Rightarrow> rstr \<Rightarrow> rstr \<Rightarrow> ingress_tls \<Rightarrow> (rstr \<times> tls_pair) set" where
  "section_claims b64 secrets owner ns tls =
     (\<Union>sn \<in> set_option (it_secret_name tls). \<Union>s \<in> set_option (snapshot_get secrets ns sn).
        {(k, pair). decode_tls_secret b64 owner s = Inr pair \<and> k \<in> host_keys (it_hosts tls)})"

definition tls_claims ::
  "(rstr \<Rightarrow> rstr + rstr) \<Rightarrow> secret snapshot \<Rightarrow> rstr \<Rightarrow> (rstr \<times> rstr) \<times> ingress \<Rightarrow> (rstr \<times> tls_pair) set" where
  "tls_claims b64 secrets class ki =
     (if is_ingress_class_name (in_spec (snd ki)) = Some class
      then \<Union>tls \<in> set (is_tls (in_spec (snd ki))). section_claims b64 secrets (owner_label (fst ki)) (fst (fst ki)) tls
      else {})"

lemma Map_graph_upd_same: "m k = None \<or> m k = Some v \<Longrightarrow> Map.graph (m(k \<mapsto> v)) = insert (k, v) (Map.graph m)"
  by (auto simp: Map.graph_def split: if_splits)

lemma tls_hosts_graph:
  "tls_hosts claim pair hosts (out, cl) = Inr (out', cl') \<Longrightarrow>
     Map.graph (map_of out') = Map.graph (map_of out) \<union> (\<lambda>k. (k, pair)) ` host_keys hosts"
proof (induction hosts arbitrary: out cl)
  case Nil
  then show ?case by (simp add: host_keys_def)
next
  case (Cons h hosts)
  let ?k = "normalize_host h"
  have hk: "host_keys (h # hosts) = (if ?k = [] then host_keys hosts else insert ?k (host_keys hosts))"
    by (auto simp: host_keys_def)
  show ?case
  proof (cases "?k = []")
    case True
    then show ?thesis using Cons by (simp add: hk Let_def)
  next
    case False
    then obtain cl1 where ok: "map_of out ?k = None \<or> map_of out ?k = Some pair"
      and r: "tls_hosts claim pair hosts (bt_insert ?k pair out, cl1) = Inr (out', cl')"
      using Cons.prems by (auto simp: Let_def split: option.splits if_splits)
    have "Map.graph (map_of out') = Map.graph ((map_of out)(?k \<mapsto> pair)) \<union> (\<lambda>k. (k, pair)) ` host_keys hosts"
      using Cons.IH [OF r] unfolding map_of_bt_insert .
    then show ?thesis unfolding Map_graph_upd_same [of "map_of out" ?k pair, OF ok] hk using False by simp
  qed
qed

lemma tls_sections_graph:
  "tls_sections b64 secrets owner ns ts (out, cl) = Inr (out', cl') \<Longrightarrow>
     Map.graph (map_of out') = Map.graph (map_of out) \<union> (\<Union>tls \<in> set ts. section_claims b64 secrets owner ns tls)"
proof (induction ts arbitrary: out cl)
  case (Cons t ts)
  show ?case
  proof (cases "it_secret_name t")
    case None
    then show ?thesis using Cons by (simp add: section_claims_def)
  next
    case (Some sn)
    then obtain s pair out1 cl1 where s: "snapshot_get secrets ns sn = Some s" "decode_tls_secret b64 owner s = Inr pair"
      and h: "tls_hosts (owner @ '' (secret '' @ ns @ ''/'' @ sn @ '')'') pair (it_hosts t) (out, cl) = Inr (out1, cl1)"
      and r: "tls_sections b64 secrets owner ns ts (out1, cl1) = Inr (out', cl')"
      using Cons.prems by (auto split: option.splits)
    have "section_claims b64 secrets owner ns t = (\<lambda>k. (k, pair)) ` host_keys (it_hosts t)"
      using Some s by (auto simp: section_claims_def)
    then show ?thesis using Cons.IH [OF r] tls_hosts_graph [OF h] by (simp add: Un_assoc)
  qed
qed simp

lemma tls_ingresses_graph:
  "tls_ingresses b64 secrets class kis (out, cl) = Inr (out', cl') \<Longrightarrow>
     Map.graph (map_of out') = Map.graph (map_of out) \<union> (\<Union>ki \<in> set kis. tls_claims b64 secrets class ki)"
proof (induction kis arbitrary: out cl)
  case (Cons ki kis)
  obtain key ing where ki: "ki = (key, ing)" by (cases ki)
  show ?case
  proof (cases "is_ingress_class_name (in_spec ing) = Some class")
    case True
    then obtain out1 cl1 where t: "tls_sections b64 secrets (owner_label key) (fst key) (is_tls (in_spec ing)) (out, cl) = Inr (out1, cl1)"
      and r: "tls_ingresses b64 secrets class kis (out1, cl1) = Inr (out', cl')"
      using Cons.prems by (auto simp: ki)
    then show ?thesis using Cons.IH [OF r] tls_sections_graph [OF t] True by (simp add: ki tls_claims_def Un_assoc)
  next
    case False
    then show ?thesis using Cons by (simp add: ki tls_claims_def)
  qed
qed simp

lemma render_tls_spec:
  assumes "render_tls b64 ings secrets class = Inr tls"
  shows "map_of tls h = Some pair \<longleftrightarrow> (\<exists>ki \<in> set (sp_items ings). (h, pair) \<in> tls_claims b64 secrets class ki)"
proof -
  obtain cl where "tls_ingresses b64 secrets class (sp_items ings) ([], []) = Inr (tls, cl)"
    using assms by (auto simp: render_tls_def)
  from tls_ingresses_graph [OF this] have "Map.graph (map_of tls) = (\<Union>ki \<in> set (sp_items ings). tls_claims b64 secrets class ki)"
    by simp
  then show ?thesis by (auto simp: Map.graph_def)
qed

section \<open>Properties\<close>

text \<open>
  C38: what an accepted render contains. The rendered routes are exactly the declared ones of the
  Ingress class, one per default backend and path, all with absolute paths and backed by a rendered
  upstream; upstreams come once per backend in sorted order. The merge puts the static routes first
  and no two routes share a key. A host is served by a certificate exactly when a TLS section of
  the class names it with a secret of its namespace that decodes to that certificate. As long as no
  namespace contains a dash, the upstream a route names dials the declared service; in general the
  names of different backends can coincide.
\<close>

theorem render_spec:
  assumes "render_routes snap class = Inr rs" and "render_upstreams snap class = Inr us"
    and "render_tls b64 snap secrets class = Inr tls" and "merge_routes static_routes rs = Inr routes"
  shows "routes = static_routes @ rs \<and> distinct (map route_key_of routes)
    \<and> set rs = declared_route ` declared snap class
    \<and> (\<forall>(path, host, exact, ns, b) \<in> declared snap class. starts_with path ''/'' \<and>
         (\<exists>t. target_of ns b = Some t \<and> build_upstream t \<in> set us \<and>
            ((\<forall>(_, _, _, ns', _) \<in> declared snap class. CHR ''-'' \<notin> set ns') \<longrightarrow>
             (\<forall>u \<in> set us. uc_name u = rt_upstream (make_route path host exact t) \<longrightarrow> u = build_upstream t))))
    \<and> (\<exists>ts. us = map build_upstream ts \<and> sorted_wrt (<) ts)
    \<and> (\<forall>h pair. map_of tls h = Some pair \<longleftrightarrow> (\<exists>ki \<in> set (sp_items snap). (h, pair) \<in> tls_claims b64 secrets class ki))
    \<and> upstream_name ''a-b'' ''c'' 80 = upstream_name ''a'' ''b-c'' 80"
proof -
  note r = render_routes_spec [OF assms(1)]
  obtain ts where us: "us = map build_upstream ts" and srt: "sorted_wrt (<) ts"
    and ts: "set ts = (\<Union>d \<in> declared snap class. set_option (declared_target d))"
    using render_upstreams_spec [OF assms(2)] by blast
  have tns: "fst t = ns" if "target_of ns b = Some t" for ns b t
    using that by (auto simp: target_of_def backend_target_def split: option.splits)
  have decl: "starts_with path ''/'' \<and> (\<exists>t. target_of ns b = Some t \<and> build_upstream t \<in> set us \<and>
      ((\<forall>(_, _, _, ns', _) \<in> declared snap class. CHR ''-'' \<notin> set ns') \<longrightarrow>
       (\<forall>u \<in> set us. uc_name u = rt_upstream (make_route path host exact t) \<longrightarrow> u = build_upstream t)))"
    if d: "(path, host, exact, ns, b) \<in> declared snap class" for path host exact ns b
  proof -
    obtain t where p: "starts_with path ''/''" and t: "target_of ns b = Some t"
      using r d by (auto simp: sound_decl_def)
    have in_ts: "t \<in> set ts" using d t unfolding ts by (force simp: declared_target_def)
    have "u = build_upstream t"
      if nd: "\<forall>(_, _, _, ns', _) \<in> declared snap class. CHR ''-'' \<notin> set ns'" and u: "u \<in> set us"
        and nm: "uc_name u = rt_upstream (make_route path host exact t)" for u
    proof -
      obtain t' where t': "t' \<in> set ts" "u = build_upstream t'" using u us by auto
      then obtain path' host' exact' ns' b' where d': "(path', host', exact', ns', b') \<in> declared snap class"
        "target_of ns' b' = Some t'" unfolding ts by (auto simp: declared_target_def)
      have "CHR ''-'' \<notin> set (fst t)" "CHR ''-'' \<notin> set (fst t')"
        using nd d d'(1) tns [OF t] tns [OF d'(2)] by auto
      moreover have "upstream_name (fst t') (fst (snd t')) (snd (snd t')) = upstream_name (fst t) (fst (snd t)) (snd (snd t))"
        using nm t'(2) by (cases t; cases t') (simp add: build_upstream_def make_route_def)
      ultimately have "t' = t" using upstream_name_inj prod_eqI by metis
      then show ?thesis using t'(2) by simp
    qed
    then show ?thesis using p t in_ts us by auto
  qed
  show ?thesis
  proof (intro conjI)
    show "routes = static_routes @ rs" "distinct (map route_key_of routes)" using merge_routes_Inr [OF assms(4)] by blast+
    show "set rs = declared_route ` declared snap class" using r by blast
    show "\<exists>ts. us = map build_upstream ts \<and> sorted_wrt (<) ts" using us srt by blast
    show "\<forall>h pair. map_of tls h = Some pair \<longleftrightarrow> (\<exists>ki \<in> set (sp_items snap). (h, pair) \<in> tls_claims b64 secrets class ki)"
      using render_tls_spec [OF assms(3)] by blast
    show "upstream_name ''a-b'' ''c'' 80 = upstream_name ''a'' ''b-c'' 80" by (simp add: upstream_name_def)
  qed (use decl in blast)
qed

definition sample_ingress :: ingress where
  "sample_ingress = \<lparr>in_metadata = \<lparr>om_name = ''web'', om_namespace = ''shop'', om_resource_version = ''7'', om_annotations = []\<rparr>,
     in_spec = \<lparr>is_ingress_class_name = Some ''openrusty'', is_default_backend = None, is_tls = [],
       is_rules = [\<lparr>ir_host = None, ir_http = Some [\<lparr>hp_path = ''/shop'', hp_path_type = PrefixType,
         hp_backend = \<lparr>ib_service = Some \<lparr>sb_name = ''front'', sb_port = Some \<lparr>bp_name = None, bp_number = Some 80\<rparr>\<rparr>\<rparr>\<rparr>]\<rparr>]\<rparr>\<rparr>"

definition sample_ingresses :: "ingress snapshot" where
  "sample_ingresses = \<lparr>sp_items = [((''shop'', ''web''), sample_ingress)], sp_resource_version = ''7''\<rparr>"

abbreviation sample_target :: target where
  "sample_target \<equiv> (''shop'', ''front'', 80)"

lemma sample_target_of:
  "target_of ''shop'' \<lparr>ib_service = Some \<lparr>sb_name = ''front'', sb_port = Some \<lparr>bp_name = None, bp_number = Some 80\<rparr>\<rparr>\<rparr> = Some sample_target"
  by (simp add: target_of_def backend_target_def)

lemma sample_owned: "owned sample_ingresses ''openrusty'' = [(owner_label (''shop'', ''web''), sample_ingress)]"
  by (simp add: owned_def sample_ingresses_def sample_ingress_def)

lemma sample_render:
  "render_routes sample_ingresses ''openrusty'' = Inr [make_route ''/shop'' None False sample_target]"
  "render_upstreams sample_ingresses ''openrusty'' = Inr [build_upstream sample_target]"
  "render_tls b64 sample_ingresses secrets ''openrusty'' = Inr []"
  by (simp_all add: render_routes_def render_upstreams_def sample_owned ingress_routes_def ingress_targets_def sample_ingress_def
      rule_routes_def rule_targets_def path_routes_def sample_target_of Let_def)
    (simp add: render_tls_def sample_ingresses_def sample_ingress_def)

theorem render_spec_witness:
  "\<exists>rs us t. render_routes sample_ingresses ''openrusty'' = Inr rs \<and> render_upstreams sample_ingresses ''openrusty'' = Inr us
     \<and> merge_routes [] rs = Inr rs \<and> render_tls Inr sample_ingresses snapshot_new ''openrusty'' = Inr []
     \<and> t = sample_target \<and> (\<forall>u \<in> set us. uc_name u = rt_upstream (hd rs) \<longrightarrow> u = build_upstream t)"
proof -
  let ?r = "make_route ''/shop'' None False sample_target"
  have m: "merge_routes [] [?r] = Inr [?r]" by (simp add: merge_routes_def Let_def)
  have d: "declared sample_ingresses ''openrusty'' = {(''/shop'', None, False, ''shop'',
      \<lparr>ib_service = Some \<lparr>sb_name = ''front'', sb_port = Some \<lparr>bp_name = None, bp_number = Some 80\<rparr>\<rparr>\<rparr>)}"
    by (simp add: declared_owned sample_owned declared_by_def sample_ingress_def)
  have "\<forall>u \<in> set [build_upstream sample_target]. uc_name u = rt_upstream ?r \<longrightarrow> u = build_upstream sample_target"
    using render_spec [OF sample_render(1,2) sample_render(3) [of Inr snapshot_new] m] unfolding d by (simp add: sample_target_of)
  then show ?thesis using sample_render m by auto
qed

end
