(* ===== verification/Gateway.thy ===== *)
theory Gateway
  imports Runtime K8sRender
begin

text \<open>
  The gateway as a whole: the Ingress plane (\<open>crates/openrusty-server/src/ingress/mod.rs\<close>), which applies
  rendered cluster state to the running server, and the states the server can reach by booting,
  reloads, cluster hand-overs and the operations of requests, probes and the admin plane.
  Arguments beside those of the runtime: base64 decoding and the building of certificates.
\<close>

section \<open>The Ingress plane\<close>

record watch_status =
  wt_enabled :: bool
  wt_watching :: bool
  wt_ingresses :: "watch_stats option"
  wt_secrets :: "watch_stats option"

definition watch_status_default :: watch_status where
  "watch_status_default = \<lparr>wt_enabled = False, wt_watching = False, wt_ingresses = None, wt_secrets = None\<rparr>"

datatype which = Ingresses | Secrets

definition record_stats :: "which \<Rightarrow> watch_stats \<Rightarrow> watch_status \<Rightarrow> watch_status" where
  "record_stats w stats s =
     (case w of Ingresses \<Rightarrow> s\<lparr>wt_ingresses := Some stats\<rparr> | Secrets \<Rightarrow> s\<lparr>wt_secrets := Some stats\<rparr>)"

definition set_status_watching :: "watch_status \<Rightarrow> watch_status" where
  "set_status_watching s = s\<lparr>wt_watching := True\<rparr>"

type_synonym pair = "ingress snapshot \<times> secret snapshot"

record ('cert, 'sk, 'ck) gateway =
  gw_server :: "('cert, 'sk) server"
  gw_resolver :: "'ck cert_resolver"
  gw_status :: watch_status
  gw_ing_slots :: "ingress snapshot option list"
  gw_sec_slots :: "secret snapshot option list"
  gw_pair :: pair
  gw_changed :: bool

text \<open>Why a hand-over is rejected.\<close>

datatype pair_error =
    RenderFailed render_error
  | RouteConflict conflict
  | PairTls rstr tls_error

text \<open>
  \<open>apply_pair\<close>: render, merge, compose, resolve the endpoints, build the TLS material; only then
  publish, at the generation of the current plugin snapshot, and update the certificates.
\<close>

definition pair_config ::
  "resolver \<Rightarrow> config \<Rightarrow> route_config list \<Rightarrow> rstr \<Rightarrow> (rstr \<Rightarrow> rstr + rstr) \<Rightarrow> pair
   \<Rightarrow> pair_error + config \<times> (rstr \<times> tls_pair) list" where
  "pair_config dns boot static_routes class b64 p =
     and_then (map_err RenderFailed (render_routes (fst p) class)) (\<lambda>routes.
     and_then (map_err RenderFailed (render_upstreams (fst p) class)) (\<lambda>upstreams.
     and_then (map_err RenderFailed (render_tls b64 (fst p) (snd p) class)) (\<lambda>tls.
     and_then (map_err RouteConflict (merge_routes static_routes routes)) (\<lambda>merged.
       Inr (resolve_config dns (build_ingress_config boot merged upstreams), tls)))))"

definition apply_pair ::
  "('cert, 'key, 'sk) outside \<Rightarrow> (rstr \<Rightarrow> rstr + rstr) \<Rightarrow> (rstr \<Rightarrow> rstr \<Rightarrow> rstr + 'ck) \<Rightarrow> config \<Rightarrow> route_config list
   \<Rightarrow> rstr \<Rightarrow> pair \<Rightarrow> ('cert, 'sk, 'ck) gateway \<Rightarrow> (('cert, 'sk, 'ck) gateway \<times> (pair_error + unit)) rust" where
  "apply_pair Q b64 certify boot static_routes class p g =
     (case pair_config (ou_dns Q) boot static_routes class b64 p of
        Inl e \<Rightarrow> Return (g, Inl e)
      | Inr (cfg, tls) \<Rightarrow>
          (case build_tls_plans (ou_tls Q) (cf_upstreams cfg) of
             Inl (name, e) \<Rightarrow> Return (g, Inl (PairTls name e))
           | Inr plans \<Rightarrow>
               let generation = sn_generation (ce_snap (sr_registry (gw_server g))) in
               rust_map (\<lambda>st.
                   (g\<lparr>gw_server := st,
                      gw_resolver := (if sr_tls_resolver st then fst (update_from_tls_pairs certify (gw_resolver g) tls)
                                      else gw_resolver g)\<rparr>,
                    Inr ()))
                 (apply_runtime (ou_name_valid Q) cfg generation plans (gw_server g))))"

text \<open>A hand-over of the loop with the given index updates its slot and the pair, and wakes the consumer.\<close>

definition on_ingresses ::
  "nat \<Rightarrow> ingress snapshot \<Rightarrow> watch_stats \<Rightarrow> ('cert, 'sk, 'ck) gateway \<Rightarrow> ('cert, 'sk, 'ck) gateway rust" where
  "on_ingresses index snap stats g =
     rust_map (\<lambda>(slots, merged).
         g\<lparr>gw_status := record_stats Ingresses stats (gw_status g), gw_ing_slots := slots,
           gw_pair := (merged, snd (gw_pair g)), gw_changed := True\<rparr>)
       (fold_slot in_metadata (gw_ing_slots g) index snap)"

definition on_secrets ::
  "nat \<Rightarrow> secret snapshot \<Rightarrow> watch_stats \<Rightarrow> ('cert, 'sk, 'ck) gateway \<Rightarrow> ('cert, 'sk, 'ck) gateway rust" where
  "on_secrets index snap stats g =
     rust_map (\<lambda>(slots, merged).
         g\<lparr>gw_status := record_stats Secrets stats (gw_status g), gw_sec_slots := slots,
           gw_pair := (fst (gw_pair g), merged), gw_changed := True\<rparr>)
       (fold_slot se_metadata (gw_sec_slots g) index snap)"

text \<open>\<open>run\<close>: without credentials or a client the plane stays off; otherwise one slot per watched path.\<close>

definition run_ingress :: "rstr option \<Rightarrow> ingress_config \<Rightarrow> ('cert, 'sk, 'ck) gateway \<Rightarrow> ('cert, 'sk, 'ck) gateway" where
  "run_ingress client_error ig g =
     (let g = g\<lparr>gw_status := (gw_status g)\<lparr>wt_enabled := True\<rparr>\<rparr> in
      case client_error of
        Some _ \<Rightarrow> g
      | None \<Rightarrow> g\<lparr>gw_status := set_status_watching (gw_status g),
                  gw_ing_slots := replicate (length (ingress_paths (ig_namespaces ig))) None,
                  gw_sec_slots := replicate (length (secret_paths (ig_namespaces ig))) None,
                  gw_pair := (snapshot_new, snapshot_new), gw_changed := False\<rparr>)"

text \<open>The consumer, over the boot-time configuration and its routes.\<close>

definition merge_task ::
  "('cert, 'key, 'sk) outside \<Rightarrow> (rstr \<Rightarrow> rstr + rstr) \<Rightarrow> (rstr \<Rightarrow> rstr \<Rightarrow> rstr + 'ck)
   \<Rightarrow> ('cert, 'sk, 'ck) gateway \<Rightarrow> (('cert, 'sk, 'ck) gateway \<times> (pair_error + unit)) rust" where
  "merge_task Q b64 certify g =
     (let boot = sr_static_config (gw_server g) in
      apply_pair Q b64 certify boot (cf_routes boot) (ig_ingress_class (cf_ingress boot)) (gw_pair g)
        (g\<lparr>gw_changed := False\<rparr>))"

section \<open>Reachable gateways\<close>

text \<open>What a request pins of the server.\<close>

definition app_view :: "('cert, 'sk) server \<Rightarrow> ('cert, 'sk) app_state" where
  "app_view st = \<lparr>as_routes = rn_routes (sr_runtime st), as_upstreams = map_of (rn_upstreams (sr_runtime st)),
     as_plugins = map plugin.truncate (sn_plugins (ce_snap (sr_registry st))),
     as_log_on_no_route = pl_log_on_no_route (cf_plugins (sr_static_config st)),
     as_health = sr_health st, as_pool = sr_pool st\<rparr>"

text \<open>
  The atomic effects of requests in flight, the probe task, the sweeper and the admin plane on the
  server, interleaved in any order.
\<close>

datatype server_op =
    HealthOp health_op
  | PoolOp pool_op
  | SwrrOp rstr "int list"
  | StoreOp nat hs_op
  | RouteOp dyn_op
  | ModulesOp "dyn_registry option"
  | GateOp bool

definition update_store :: "nat \<Rightarrow> hs_op \<Rightarrow> snapshot_cell \<Rightarrow> snapshot_cell" where
  "update_store i e cell =
     (let ps = sn_plugins (ce_snap cell) in
      if i < length ps
      then cell\<lparr>ce_snap := (ce_snap cell)\<lparr>sn_plugins := ps[i := (ps ! i)\<lparr>lp_state := hs_step (lp_state (ps ! i)) e\<rparr>]\<rparr>\<rparr>
      else cell)"

fun server_step ::
  "('cert, 'key, 'sk) tls_lib \<Rightarrow> (rstr \<Rightarrow> bool) \<Rightarrow> ('cert, 'sk) server \<Rightarrow> server_op \<Rightarrow> ('cert, 'sk) server" where
  "server_step T valid st (HealthOp e) =
     (case e of Register _ _ \<Rightarrow> st | _ \<Rightarrow> st\<lparr>sr_health := health_step (sr_health st) e\<rparr>)"
| "server_step T valid st (PoolOp e) = st\<lparr>sr_pool := pool_step T valid (sr_pool st) e\<rparr>"
| "server_step T valid st (SwrrOp n ws) =
     st\<lparr>sr_runtime := (sr_runtime st)\<lparr>rn_upstreams :=
          map (\<lambda>(k, u). (k, if k = n then u\<lparr>ur_swrr := ws\<rparr> else u)) (rn_upstreams (sr_runtime st))\<rparr>\<rparr>"
| "server_step T valid st (StoreOp i e) = st\<lparr>sr_registry := update_store i e (sr_registry st)\<rparr>"
| "server_step T valid st (RouteOp e) =
     st\<lparr>sr_dynamic_routes := \<lparr>cl_ptr = Suc (cl_ptr (sr_dynamic_routes st)),
          cl_val = dyn_step (cl_val (sr_dynamic_routes st)) e\<rparr>\<rparr>"
| "server_step T valid st (ModulesOp d) = st\<lparr>sr_dynamic := d\<rparr>"
| "server_step T valid st (GateOp b) = st\<lparr>sr_reload_gate := b\<rparr>"

text \<open>
  \<open>W\<close> are the answers the outside world may give: what DNS, the files and the cluster hold may
  differ from step to step.
\<close>

inductive gateway_step ::
  "('cert, 'key, 'sk) outside set \<Rightarrow> ('cert, 'sk, 'ck) gateway \<Rightarrow> ('cert, 'sk, 'ck) gateway \<Rightarrow> bool" for W where
  Reload: "Q \<in> W \<Longrightarrow> reload Q input env (gw_server g) = Return (st, r) \<Longrightarrow> gateway_step W g (g\<lparr>gw_server := st\<rparr>)"
| ApplyConfig: "Q \<in> W \<Longrightarrow> validate (ou_dns Q) cfg = None
    \<Longrightarrow> apply_config Q cfg (gw_server g) = Return (st, r) \<Longrightarrow> gateway_step W g (g\<lparr>gw_server := st\<rparr>)"
| RunIngress: "gateway_step W g (run_ingress err ig g)"
| OnIngresses: "on_ingresses i ings stats g = Return g' \<Longrightarrow> gateway_step W g g'"
| OnSecrets: "on_secrets i secs stats g = Return g' \<Longrightarrow> gateway_step W g g'"
| MergeTask: "Q \<in> W \<Longrightarrow> merge_task Q b64 certify g = Return (g', r) \<Longrightarrow> gateway_step W g g'"
| Op: "Q \<in> W \<Longrightarrow> gateway_step W g (g\<lparr>gw_server := server_step (ou_tls Q) (ou_name_valid Q) (gw_server g) e\<rparr>)"

inductive gateway_reach :: "('cert, 'key, 'sk) outside set \<Rightarrow> ('cert, 'sk, 'ck) gateway \<Rightarrow> bool" for W where
  Boot: "Q \<in> W \<Longrightarrow> load_config (ou_dns Q) env parsed = Inr cfg \<Longrightarrow> server_from_config Q cfg = Return (Inr st)
    \<Longrightarrow> gateway_reach W \<lparr>gw_server = st, gw_resolver = res, gw_status = watch_status_default,
          gw_ing_slots = [], gw_sec_slots = [], gw_pair = (snapshot_new, snapshot_new), gw_changed = False\<rparr>"
| Step: "gateway_reach W g \<Longrightarrow> gateway_step W g g' \<Longrightarrow> gateway_reach W g'"

section \<open>Lemmas\<close>

text \<open>TLS server names: pooled clients have parseable ones, and so have the upstreams whose clients were made ahead.\<close>

definition pool_names :: "(rstr \<Rightarrow> bool) \<Rightarrow> ('cert, 'sk) client_pool \<Rightarrow> bool" where
  "pool_names valid p \<longleftrightarrow> (\<forall>k c. po_https p k = Some c \<longrightarrow> valid (tk_server_name (snd k)))"

definition dialable :: "(rstr \<Rightarrow> bool) \<Rightarrow> ('cert, 'sk) upstream \<Rightarrow> bool" where
  "dialable valid up \<longleftrightarrow> (\<forall>tls. up_tls up = Some tls \<longrightarrow> up_peers up \<noteq> [] \<longrightarrow> valid (ut_server_name tls))"

lemma pool_names_get: "pool_names valid p \<Longrightarrow> pool_names valid (fst (get p a ct it))"
  by (auto simp: pool_names_def get_def Let_def split: option.splits)

lemma pool_names_evict: "pool_names valid p \<Longrightarrow> pool_names valid (evict_except p keep)"
  by (auto simp: pool_names_def evict_except_https split: if_splits)

lemma pool_names_get_tls:
  assumes "pool_names valid p" "build_tls T cfg = Inr tls" "get_tls valid p a tls ct it = Return (p', c)"
  shows "pool_names valid p' \<and> valid (ut_server_name tls)"
proof -
  have k: "tk_server_name (ut_key tls) = ut_server_name tls"
    using assms(2) by (auto simp: build_tls_Inr tls_client_key_from_config_def)
  show ?thesis
  proof (cases "po_https p (a, ut_key tls)")
    case (Some x)
    then have "valid (ut_server_name tls)" using assms(1) k unfolding pool_names_def by (metis snd_conv)
    then show ?thesis using assms(1,3) Some by (simp add: get_tls_def Let_def)
  next
    case None
    then show ?thesis using assms(1,3) k
      by (cases "valid (ut_server_name tls)") (auto simp: get_tls_def Let_def build_tls_client_def pool_names_def split: if_splits, blast+)
  qed
qed

lemma pool_names_step: "pool_names valid p \<Longrightarrow> pool_names valid (pool_step T valid p e)"
  using pool_names_get_tls [of valid p T]
  by (cases e) (auto simp: pool_names_get pool_names_evict split: sum.split rust.split)

lemma warm_peers_names:
  assumes "warm_peers valid up ps pool keys = Return (pool', keys')" "tls_built T up" "pool_names valid pool"
  shows "pool_names valid pool' \<and> (ps \<noteq> [] \<longrightarrow> (\<forall>tls. up_tls up = Some tls \<longrightarrow> valid (ut_server_name tls)))"
  using assms(1,3)
proof (induction ps arbitrary: pool keys)
  case (Cons p ps)
  show ?case
  proof (cases "up_tls up")
    case None
    then show ?thesis using Cons pool_names_get by fastforce
  next
    case (Some tls)
    then obtain cfg where b: "build_tls T cfg = Inr tls" using assms(2) by (auto simp: tls_built_def)
    obtain pool1 c where g: "get_tls valid pool (pr_addr p) tls (up_connect_timeout up) (up_pool_idle_timeout up) = Return (pool1, c)"
      using Cons.prems Some by (auto split: rust.splits)
    note n = pool_names_get_tls [OF Cons.prems(2) b g]
    have "warm_peers valid up ps pool1 (keys @ [PoolHttps (pr_addr p) (ut_key tls)]) = Return (pool', keys')"
      using Cons.prems Some g by simp
    from Cons.IH [OF this] n show ?thesis using Some by simp
  qed
qed simp

lemma apply_upstreams_names:
  assumes "apply_upstreams valid plans ucs b = Return b'" "\<And>uc. uc \<in> set ucs \<Longrightarrow> tls_built T (ur_up (rt_of plans uc))"
    "pool_names valid (bs_pool b)"
  shows "pool_names valid (bs_pool b') \<and> (\<forall>uc \<in> set ucs. dialable valid (ur_up (rt_of plans uc)))"
  using assms
proof (induction ucs arbitrary: b)
  case (Cons uc ucs)
  obtain b1 where b1: "apply_upstream valid plans uc b = Return b1" and r: "apply_upstreams valid plans ucs b1 = Return b'"
    using Cons.prems(1) by (auto split: rust.splits)
  define up where "up = upstream_from_config uc (plans (uc_name uc))"
  have up: "ur_up (rt_of plans uc) = up" by (simp add: up_def rt_of_def Let_def)
  obtain pool keys where w: "warm_peers valid up (up_peers up) (bs_pool b) (bs_keys b) = Return (pool, keys)"
    and pool: "bs_pool b1 = pool"
    using b1 by (cases "warm_peers valid up (up_peers up) (bs_pool b) (bs_keys b)")
      (auto simp: apply_upstream_def Let_def simp flip: up_def)
  have "tls_built T up" using Cons.prems(2) [of uc] up by simp
  from warm_peers_names [OF w this Cons.prems(3)] have n: "pool_names valid (bs_pool b1)" "dialable valid up"
    by (auto simp: pool dialable_def)
  from Cons.IH [OF r _ n(1)] Cons.prems(2) n(2) up show ?case by auto
qed simp

lemma plans_sound: "build_tls_plans T ucs = Inr plans \<Longrightarrow> plans n = Some tls \<Longrightarrow> \<exists>cfg. build_tls T cfg = Inr tls"
  by (induction ucs arbitrary: plans n) (fastforce split: option.splits if_splits)+

text \<open>Publishing a runtime, also with several sections of one name: the last one wins.\<close>

definition sound_sections :: "config \<Rightarrow> bool" where
  "sound_sections cfg \<longleftrightarrow> (\<forall>u \<in> set (cf_upstreams cfg). \<forall>p \<in> set (uc_peers u). pc_weight p \<noteq> 0)
     \<and> (\<forall>r \<in> set (cf_routes cfg). rt_upstream r \<in> uc_name ` set (cf_upstreams cfg))"

lemma apply_runtime_sound:
  assumes "apply_runtime valid cfg gen plans st = Return st'" "sound_sections cfg"
    "build_tls_plans T (cf_upstreams cfg) = Inr plans"
    "health_inv (sr_health st)" "pool_inv (sr_pool st)" "pool_names valid (sr_pool st)"
  shows "runtime_inv st' \<and> health_inv (sr_health st') \<and> pool_inv (sr_pool st') \<and> pool_names valid (sr_pool st')
    \<and> (\<forall>(n, u) \<in> set (rn_upstreams (sr_runtime st')). dialable valid (ur_up u))
    \<and> map_of (rn_upstreams (sr_runtime st')) = map_of (rev (section_entries plans (cf_upstreams cfg)))
    \<and> rn_routes (sr_runtime st') = cf_routes cfg \<and> rn_generation (sr_runtime st') = gen
    \<and> (\<exists>h p r. st' = st\<lparr>sr_health := h, sr_pool := p, sr_runtime := r\<rparr>)"
proof -
  let ?b = "\<lparr>bs_health = sr_health st, bs_pool = sr_pool st, bs_keys = [], bs_upstreams = []\<rparr>"
  let ?es = "section_entries plans (cf_upstreams cfg)"
  obtain b' where b': "apply_upstreams valid plans (cf_upstreams cfg) ?b = Return b'"
    and st': "st' = st\<lparr>sr_health := bs_health b', sr_pool := evict_except (bs_pool b') (bs_keys b'),
      sr_runtime := \<lparr>rn_generation = gen, rn_routes = cf_routes cfg, rn_upstreams = bs_upstreams b'\<rparr>\<rparr>"
    using assms(1) unfolding apply_runtime_def by (cases "apply_upstreams valid plans (cf_upstreams cfg) ?b") auto
  have built: "tls_built T (ur_up (rt_of plans uc))" for uc
    using plans_sound [OF assms(3)] by (simp add: tls_built_def rt_of_def Let_def upstream_from_config_def)
  note s = apply_upstreams_spec [OF b', of T]
  have names: "pool_names valid (bs_pool b')" "\<forall>uc \<in> set (cf_upstreams cfg). dialable valid (ur_up (rt_of plans uc))"
    using apply_upstreams_names [OF b' built] assms(6) by auto
  have m: "map_of (bs_upstreams b') = map_of (rev ?es)" and d: "distinct (map fst (bs_upstreams b'))"
    and al: "aligned (bs_health b') (map_of (bs_upstreams b'))"
    using s by (simp_all add: aligned_def)
  have sub: "set (bs_upstreams b') \<subseteq> set ?es"
  proof
    fix x assume "x \<in> set (bs_upstreams b')"
    then have "map_of (rev ?es) (fst x) = Some (snd x)" using d m by (metis map_of_is_SomeI prod.collapse)
    then show "x \<in> set ?es" by (metis map_of_SomeD prod.collapse set_rev)
  qed
  have dom: "fst ` set (bs_upstreams b') = uc_name ` set (cf_upstreams cfg)"
    using arg_cong [OF m, of dom] by (simp add: dom_map_of_conv_image_fst section_entries_def image_image)
  have each: "up_name (ur_up u) = n \<and> weighted u \<and> dialable valid (ur_up u)" if nu: "(n, u) \<in> set (bs_upstreams b')" for n u
  proof -
    obtain uc where "uc \<in> set (cf_upstreams cfg)" "n = uc_name uc" "u = rt_of plans uc"
      using sub nu unfolding section_entries_def by fastforce
    moreover from this(1) have "weighted (rt_of plans uc)" using assms(2) by (intro weighted_rt_of) (simp add: sound_sections_def)
    ultimately show ?thesis using names(2) by simp
  qed
  have "runtime_inv st'"
    unfolding runtime_inv_def st' using d each dom al assms(2) by (auto simp: sound_sections_def)
  moreover have "pool_inv (evict_except (bs_pool b') (bs_keys b'))" using s built assms(5) by (simp add: pool_inv_evict)
  moreover have "health_inv (bs_health b')" using s assms(4) by simp
  ultimately show ?thesis using each names(1) m by (auto simp: st' pool_names_evict)
qed

section \<open>The invariant of the gateway\<close>

definition gateway_inv :: "(rstr \<Rightarrow> bool) \<Rightarrow> ('cert, 'sk, 'ck) gateway \<Rightarrow> bool" where
  "gateway_inv valid g \<longleftrightarrow> server_inv (gw_server g) \<and> buildable (sr_static_config (gw_server g))
     \<and> pool_names valid (sr_pool (gw_server g))
     \<and> (\<forall>(n, u) \<in> set (rn_upstreams (sr_runtime (gw_server g))). dialable valid (ur_up u))"

lemma buildable_sound: "buildable cfg \<Longrightarrow> sound_sections cfg"
  by (simp add: buildable_def sound_sections_def)

lemma sound_resolve: "sound_sections cfg \<Longrightarrow> sound_sections (resolve_config dns cfg)"
proof -
  assume b: "sound_sections cfg"
  have "uc_name ` set (cf_upstreams (resolve_config dns cfg)) = uc_name ` set (cf_upstreams cfg)"
    by (metis resolve_config_names set_map)
  then show ?thesis using b resolve_weights [of cfg dns] by (simp add: sound_sections_def) (simp add: resolve_config_def)
qed

lemma sound_ingress_config:
  assumes "buildable boot" "render_routes snap class = Inr rs" "render_upstreams snap class = Inr us"
    "merge_routes (cf_routes boot) rs = Inr routes"
  shows "sound_sections (build_ingress_config boot routes us)"
proof -
  have routes: "routes = cf_routes boot @ rs" using merge_routes_Inr [OF assms(4)] by simp
  note r = render_routes_spec [OF assms(2)]
  obtain ts where us: "us = map build_upstream ts"
    and ts: "set ts = (\<Union>d \<in> declared snap class. set_option (declared_target d))"
    using render_upstreams_spec [OF assms(3)] by blast
  have up: "rt_upstream x \<in> uc_name ` set us" if x: "x \<in> set rs" for x
  proof -
    obtain d where d: "d \<in> declared snap class" "x = declared_route d" using r x by blast
    then have "sound_decl d" using r by blast
    then obtain t where "declared_target d = Some t" "rt_upstream x = uc_name (build_upstream t)"
      using d(2) by (cases d) (auto simp: sound_decl_def declared_target_def declared_route_def make_route_def build_upstream_def)
    then show ?thesis using d(1) ts us by force
  qed
  have peers: "uc_peers u = []" if "u \<in> set us" for u using that us by (auto simp: build_upstream_def)
  have n: "uc_name ` set (cf_upstreams (build_ingress_config boot routes us)) = uc_name ` set (cf_upstreams boot) \<union> uc_name ` set us"
    by (auto simp: build_ingress_config_def Let_def)
  have rr: "cf_routes (build_ingress_config boot routes us) = cf_routes boot @ rs"
    by (simp add: build_ingress_config_def Let_def routes)
  have "\<forall>p \<in> set (uc_peers u). pc_weight p \<noteq> 0" if u: "u \<in> set (cf_upstreams (build_ingress_config boot routes us))" for u
  proof (cases "u \<in> set us")
    case False
    then have "u \<in> set (cf_upstreams boot)" using u by (simp add: build_ingress_config_def Let_def)
    then show ?thesis using assms(1) unfolding buildable_def by blast
  qed (simp add: peers)
  then show ?thesis
    unfolding sound_sections_def n rr using assms(1) up by (auto simp: buildable_def)
qed

lemma server_inv_of:
  "runtime_inv st' \<Longrightarrow> health_inv (sr_health st') \<Longrightarrow> pool_inv (sr_pool st') \<Longrightarrow> server_inv st
   \<Longrightarrow> \<exists>h p r. st' = st\<lparr>sr_health := h, sr_pool := p, sr_runtime := r\<rparr> \<Longrightarrow> server_inv st'"
  by (auto simp: server_inv_def)

lemma apply_pair_cases:
  assumes "apply_pair Q b64 certify boot rts class p g = Return (g', r)"
  obtains (rejected) e where "g' = g" "r = Inl e"
    | (applied) rs us tls merged plans st where "r = Inr ()"
      "render_routes (fst p) class = Inr rs" "render_upstreams (fst p) class = Inr us"
      "render_tls b64 (fst p) (snd p) class = Inr tls" "merge_routes rts rs = Inr merged"
      "build_tls_plans (ou_tls Q) (cf_upstreams (resolve_config (ou_dns Q) (build_ingress_config boot merged us))) = Inr plans"
      "apply_runtime (ou_name_valid Q) (resolve_config (ou_dns Q) (build_ingress_config boot merged us))
         (sn_generation (ce_snap (sr_registry (gw_server g)))) plans (gw_server g) = Return st"
      "g' = g\<lparr>gw_server := st, gw_resolver := (if sr_tls_resolver st
         then fst (update_from_tls_pairs certify (gw_resolver g) tls) else gw_resolver g)\<rparr>"
proof (cases "pair_config (ou_dns Q) boot rts class b64 p")
  case (Inl e)
  then show ?thesis using assms rejected by (auto simp: apply_pair_def)
next
  case (Inr ct)
  then obtain rs us tls merged where c: "render_routes (fst p) class = Inr rs" "render_upstreams (fst p) class = Inr us"
      "render_tls b64 (fst p) (snd p) class = Inr tls" "merge_routes rts rs = Inr merged"
      "ct = (resolve_config (ou_dns Q) (build_ingress_config boot merged us), tls)"
    by (auto simp: pair_config_def)
  let ?cfg = "resolve_config (ou_dns Q) (build_ingress_config boot merged us)"
  show ?thesis
  proof (cases "build_tls_plans (ou_tls Q) (cf_upstreams ?cfg)")
    case (Inl e)
    then show ?thesis using assms rejected Inr c(5) by (cases e) (auto simp: apply_pair_def)
  next
    case plans: (Inr plans)
    then show ?thesis using assms applied [OF _ c(1-4) plans] Inr c(5)
      by (cases "apply_runtime (ou_name_valid Q) ?cfg (sn_generation (ce_snap (sr_registry (gw_server g)))) plans (gw_server g)")
        (auto simp: apply_pair_def Let_def)
  qed
qed

lemma boot_inv_names:
  fixes st :: "('cert, 'sk) server"
  assumes "server_from_config Q cfg = Return (Inr st)" "buildable cfg"
  shows "server_inv st \<and> sr_static_config st = cfg \<and> pool_names (ou_name_valid Q) (sr_pool st)
    \<and> (\<forall>(n, u) \<in> set (rn_upstreams (sr_runtime st)). dialable (ou_name_valid Q) (ur_up u))"
proof -
  obtain plans where plans: "build_tls_plans (ou_tls Q) (cf_upstreams cfg) = Inr plans"
    using assms(1) by (auto simp: server_from_config_def split: sum.splits)
  obtain st0 :: "('cert, 'sk) server" and gen where
    a: "apply_runtime (ou_name_valid Q) cfg gen plans st0 = Return st" and st0: "sr_static_config st0 = cfg"
      "sr_health st0 = health_new" "sr_pool st0 = new_pool"
    using assms(1) plans
    by (auto simp: server_from_config_def Let_def rust_map_Return split: sum.splits)
  have "health_inv (sr_health st0)" "pool_inv (sr_pool st0)" "pool_names (ou_name_valid Q) (sr_pool st0)"
    using health.inv_init by (simp_all add: st0 pool_inv_def new_pool_def pool_names_def)
  from apply_runtime_sound [OF a buildable_sound [OF assms(2)] plans this] show ?thesis
    using boot_inv [OF assms] st0(1) by auto
qed

lemma gateway_inv_publish:
  assumes "publish Q cfg st = Return (st', r)" "buildable cfg" "gateway_inv (ou_name_valid Q) (g\<lparr>gw_server := st\<rparr>)"
  shows "gateway_inv (ou_name_valid Q) (g\<lparr>gw_server := st'\<rparr>)"
  using assms(1)
proof (cases rule: publish_cases)
  case (ok plans cell gen L st1 d)
  have inv: "server_inv st" "pool_names (ou_name_valid Q) (sr_pool st)" "buildable (sr_static_config st)"
    using assms(3) by (simp_all add: gateway_inv_def)
  note s = publish_spec [OF assms(1) [unfolded ok(7)] assms(2)]
  have "sound_sections (resolve_config (ou_dns Q) cfg)" using assms(2) by (intro sound_resolve buildable_sound)
  note n = apply_runtime_sound [OF ok(2) this ok(1)]
  have "pool_names (ou_name_valid Q) (sr_pool st1) \<and> (\<forall>(n, u) \<in> set (rn_upstreams (sr_runtime st1)). dialable (ou_name_valid Q) (ur_up u))"
    using n inv by (simp add: server_inv_def)
  then show ?thesis using s inv
    by (simp add: gateway_inv_def ok(6) spawn_probes_def apply_dynamic_routes_def Let_def)
qed (use assms(3) in simp)

lemma gateway_inv_reload:
  assumes "reload Q input env (gw_server g) = Return (st, r)" "gateway_inv (ou_name_valid Q) g"
  shows "gateway_inv (ou_name_valid Q) (g\<lparr>gw_server := st\<rparr>)"
proof (cases "\<not> sr_reload_gate (gw_server g) \<and> (\<exists>parsed cfg. input = Parsed parsed \<and> load_config (ou_dns Q) env parsed = Inr cfg)")
  case False
  then have "st = gw_server g" using assms(1) by (cases input) (auto simp: reload_def split: sum.splits if_splits)
  then show ?thesis using assms(2) by simp
next
  case True
  then obtain parsed cfg where f: "input = Parsed parsed" "load_config (ou_dns Q) env parsed = Inr cfg"
    "\<not> sr_reload_gate (gw_server g)" by blast
  obtain st1 r1 where p: "publish Q cfg (gw_server g) = Return (st1, r1)"
    using assms(1) f by (cases "publish Q cfg (gw_server g)") (auto simp: reload_def)
  then obtain tok where st: "st = st1\<lparr>sr_admin_token := tok\<rparr>"
    using assms(1) f that by (cases r1) (auto simp: reload_def intro: that [of "sr_admin_token st1"])
  have "gateway_inv (ou_name_valid Q) (g\<lparr>gw_server := st1\<rparr>)"
    using gateway_inv_publish [OF p load_config_buildable [OF f(2)], of g] assms(2) by simp
  then show ?thesis by (simp add: st gateway_inv_def server_inv_def runtime_inv_def)
qed

lemma gateway_inv_apply_pair:
  assumes "apply_pair Q b64 certify (sr_static_config (gw_server g)) (cf_routes (sr_static_config (gw_server g))) class p g = Return (g', r)"
    "gateway_inv (ou_name_valid Q) g"
  shows "gateway_inv (ou_name_valid Q) g'"
  using assms(1)
proof (cases rule: apply_pair_cases)
  case (applied rs us tls merged plans st)
  have inv: "server_inv (gw_server g)" "buildable (sr_static_config (gw_server g))"
    "pool_names (ou_name_valid Q) (sr_pool (gw_server g))" using assms(2) by (simp_all add: gateway_inv_def)
  have "sound_sections (resolve_config (ou_dns Q) (build_ingress_config (sr_static_config (gw_server g)) merged us))"
    by (intro sound_resolve sound_ingress_config [OF inv(2) applied(2,3,5)])
  note s = apply_runtime_sound [OF applied(7) this applied(6)]
  have h: "health_inv (sr_health (gw_server g))" "pool_inv (sr_pool (gw_server g))" using inv(1) by (simp_all add: server_inv_def)
  note s = s [OF h inv(3)]
  have "server_inv st" using s by (intro server_inv_of [OF _ _ _ inv(1)]) blast+
  moreover have "sr_static_config st = sr_static_config (gw_server g)" using s by auto
  ultimately show ?thesis using s inv(2) by (simp add: gateway_inv_def applied(8))
qed (use assms(2) in simp)

text \<open>The atomic operations leave addresses, names and weights alone.\<close>

lemma aligned_health_step:
  assumes "aligned h ups" "\<And>u as. e \<noteq> Register u as"
  shows "aligned (health_step h e) ups"
proof -
  have upd: "aligned (update_peer h' u i f) ups" if "aligned h' ups" for h' u i f
    using that by (fastforce simp: aligned_def update_peer_slots)
  have act: "aligned (h'\<lparr>hr_active := a, hr_active_map := m\<rparr>) ups \<longleftrightarrow> aligned h' ups" for h' a m
    by (simp add: aligned_def)
  show ?thesis
  proof (cases e)
    case (Probe u i a ok ut ht)
    then show ?thesis using assms(1) upd act by (auto simp: record_probe_def Let_def split_beta)
  qed (use assms upd in \<open>auto simp: record_failure_def record_success_def inc_in_flight_def dec_in_flight_def update_in_flight_def
      split: option.splits\<close>)
qed

lemma aligned_cong:
  assumes "aligned h ups" "\<And>n. map_option (\<lambda>u. up_peers (ur_up u)) (ups' n) = map_option (\<lambda>u. up_peers (ur_up u)) (ups n)"
  shows "aligned h ups'"
  unfolding aligned_def
proof (intro allI impI)
  fix n u assume "ups' n = Some u"
  with assms(2) [of n] obtain u0 where "ups n = Some u0" "up_peers (ur_up u0) = up_peers (ur_up u)" by (cases "ups n") auto
  then show "\<exists>slots. hr_upstreams h n = Some slots \<and> sl_addrs slots = map pr_addr (up_peers (ur_up u))"
    using assms(1) by (fastforce simp: aligned_def)
qed

lemma swrr_members:
  assumes "\<forall>(k, u) \<in> set xs. P k (ur_up u)"
  shows "\<forall>(k, u) \<in> set (map (\<lambda>(k, u). (k, if k = n then u\<lparr>ur_swrr := ws\<rparr> else u)) xs). P k (ur_up u)"
  using assms by (induction xs) (auto split: if_splits)

lemma runtime_inv_upstreams:
  assumes "runtime_inv st" "map fst ups = map fst (rn_upstreams (sr_runtime st))" "aligned (sr_health st) (map_of ups)"
    "\<forall>(k, u) \<in> set ups. up_name (ur_up u) = k \<and> weighted u"
  shows "runtime_inv (st\<lparr>sr_runtime := (sr_runtime st)\<lparr>rn_upstreams := ups\<rparr>\<rparr>)"
proof -
  have "fst ` set ups = fst ` set (rn_upstreams (sr_runtime st))" using arg_cong [OF assms(2), of set] by simp
  then show ?thesis using assms by (simp add: runtime_inv_def)
qed

lemma runtime_inv_swrr:
  assumes "runtime_inv st"
  shows "runtime_inv (server_step T valid st (SwrrOp n ws))"
proof -
  let ?f = "\<lambda>(k, u). (k, if k = n then u\<lparr>ur_swrr := ws\<rparr> else u)"
  let ?ups = "rn_upstreams (sr_runtime st)"
  have k: "map fst (map ?f ?ups) = map fst ?ups" by (simp add: case_prod_beta)
  have m: "map_of (map ?f xs) k = map_option (\<lambda>u. if k = n then u\<lparr>ur_swrr := ws\<rparr> else u) (map_of xs k)" for xs k
    by (induction xs) auto
  have "aligned (sr_health st) (map_of (map ?f ?ups))"
  proof (rule aligned_cong)
    show "aligned (sr_health st) (map_of ?ups)" using assms by (simp add: runtime_inv_def)
    show "map_option (\<lambda>u. up_peers (ur_up u)) (map_of (map ?f ?ups) k) = map_option (\<lambda>u. up_peers (ur_up u)) (map_of ?ups k)" for k
      unfolding m by (cases "map_of ?ups k") auto
  qed
  moreover have "\<forall>(k, u) \<in> set (map ?f ?ups). up_name (ur_up u) = k \<and> weighted u"
  proof -
    have "\<forall>(k, u) \<in> set ?ups. up_name (ur_up u) = k \<and> (\<forall>p \<in> set (up_peers (ur_up u)). 0 < pr_weight p)"
      using assms by (simp add: runtime_inv_def weighted_def)
    from swrr_members [OF this] show ?thesis by (simp add: weighted_def)
  qed
  ultimately show ?thesis using runtime_inv_upstreams [OF assms k] by simp
qed

lemma cell_inv_update_store: "cell_inv cell \<Longrightarrow> cell_inv (update_store i e cell)"
  by (auto simp: update_store_def cell_inv_def Let_def hs_inv_step dest!: set_update_subset_insert [THEN subsetD])

lemma gateway_inv_op:
  assumes "gateway_inv valid g"
  shows "gateway_inv valid (g\<lparr>gw_server := server_step T valid (gw_server g) e\<rparr>)"
proof (cases e)
  case (HealthOp x)
  have "runtime_inv ((gw_server g)\<lparr>sr_health := health_step (sr_health (gw_server g)) x\<rparr>)" if "\<And>u as. x \<noteq> Register u as"
    using assms aligned_health_step [OF _ that, of "sr_health (gw_server g)" "map_of (rn_upstreams (sr_runtime (gw_server g)))"]
    by (simp add: gateway_inv_def server_inv_def runtime_inv_def)
  moreover have "health_inv (health_step (sr_health (gw_server g)) x)"
    using assms health_inv_step by (simp add: gateway_inv_def server_inv_def)
  ultimately show ?thesis using assms by (cases x) (simp_all add: HealthOp gateway_inv_def server_inv_def)
next
  case (SwrrOp n ws)
  have "\<forall>(k, u) \<in> set (rn_upstreams (sr_runtime (server_step T valid (gw_server g) e))). dialable valid (ur_up u)"
    using assms swrr_members [of "rn_upstreams (sr_runtime (gw_server g))" "\<lambda>_. dialable valid" n ws]
    by (simp add: SwrrOp gateway_inv_def)
  then show ?thesis using assms runtime_inv_swrr [of "gw_server g" T valid n ws]
    by (simp add: SwrrOp gateway_inv_def server_inv_def)
qed (use assms in \<open>simp_all add: gateway_inv_def server_inv_def runtime_inv_def
    pool_inv_step pool_names_step cell_inv_update_store table_inv_step\<close>)

lemma gateway_inv_frame:
  "gw_server g' = gw_server g \<Longrightarrow> gateway_inv valid g \<Longrightarrow> gateway_inv valid g'"
  by (simp add: gateway_inv_def)

lemma gateway_inv_step:
  assumes "gateway_step W g g'" "\<And>Q. Q \<in> W \<Longrightarrow> ou_name_valid Q = valid" "gateway_inv valid g"
  shows "gateway_inv valid g'"
  using assms
proof cases
  case (Reload Q input env st r)
  then show ?thesis using gateway_inv_reload [OF Reload(3)] assms(2,3) by simp
next
  case (ApplyConfig Q cfg st r)
  have "gateway_inv valid (g\<lparr>gw_server := st\<rparr>)"
  proof (cases "sr_reload_gate (gw_server g)")
    case True
    then show ?thesis using ApplyConfig(4) assms(3) by (simp add: apply_config_def gateway_inv_def)
  next
    case False
    then have "publish Q cfg (gw_server g) = Return (st, r)" using ApplyConfig(4) by (simp add: apply_config_def)
    from gateway_inv_publish [OF this buildable_ok, of "ou_dns Q" g] show ?thesis
      using ApplyConfig(2,3) assms(2,3) by (simp add: validate_None)
  qed
  then show ?thesis using ApplyConfig(1) by simp
next
  case (RunIngress err ig)
  then show ?thesis using assms(3) by (intro gateway_inv_frame [OF _ assms(3)]) (simp add: run_ingress_def Let_def split: option.split)
next
  case (OnIngresses i ings stats)
  then show ?thesis using assms(3) by (intro gateway_inv_frame [OF _ assms(3)])
    (cases "fold_slot in_metadata (gw_ing_slots g) i ings", auto simp: on_ingresses_def)
next
  case (OnSecrets i secs stats)
  then show ?thesis using assms(3) by (intro gateway_inv_frame [OF _ assms(3)])
    (cases "fold_slot se_metadata (gw_sec_slots g) i secs", auto simp: on_secrets_def)
next
  case (MergeTask Q b64 certify r)
  have "gateway_inv valid (g\<lparr>gw_changed := False\<rparr>)" using assms(3) by (rule gateway_inv_frame [rotated]) simp
  then show ?thesis
    using gateway_inv_apply_pair [of Q b64 certify "g\<lparr>gw_changed := False\<rparr>"] MergeTask assms(2) by (simp add: merge_task_def Let_def)
next
  case (Op Q e)
  then show ?thesis using gateway_inv_op [OF assms(3)] assms(2) by simp
qed

lemma gateway_inv_reach:
  assumes "gateway_reach W g" "\<And>Q. Q \<in> W \<Longrightarrow> ou_name_valid Q = valid"
  shows "gateway_inv valid g"
  using assms(1)
proof (induction rule: gateway_reach.induct)
  case (Boot Q env parsed cfg st res)
  note b = load_config_buildable [OF Boot(2)]
  show ?case using boot_inv_names [OF Boot(3) b] b Boot(1) assms(2) by (simp add: gateway_inv_def)
next
  case (Step g g')
  then show ?case using gateway_inv_step assms(2) by blast
qed

text \<open>A well-formed gateway gives requests what the pipeline needs.\<close>

lemma app_view_inv:
  assumes "gateway_inv valid g"
  shows "app_inv (app_view (gw_server g))"
    and "r \<in> set (as_routes (app_view (gw_server g))) \<Longrightarrow> \<exists>u. as_upstreams (app_view (gw_server g)) (rt_upstream r) = Some u \<and> up_name (ur_up u) = rt_upstream r"
    and "as_upstreams (app_view (gw_server g)) n = Some u \<Longrightarrow> (\<And>a. nt_name_valid (en_net E a) = valid) \<Longrightarrow> names_ok E (ur_up u)"
proof -
  note i = assms [unfolded gateway_inv_def server_inv_def runtime_inv_def]
  have "hs_inv (lp_state (plugin.truncate p))" if "p \<in> set (sn_plugins (ce_snap (sr_registry (gw_server g))))" for p
    using i that by (simp add: cell_inv_def plugin.defs)
  moreover have "weighted u" if "map_of (rn_upstreams (sr_runtime (gw_server g))) n = Some u" for n u
    using i map_of_SomeD [OF that] by auto
  ultimately show "app_inv (app_view (gw_server g))" using i by (auto simp: app_inv_def app_view_def)
  show "\<exists>u. as_upstreams (app_view (gw_server g)) (rt_upstream r) = Some u \<and> up_name (ur_up u) = rt_upstream r"
    if "r \<in> set (as_routes (app_view (gw_server g)))"
  proof -
    have "rt_upstream r \<in> fst ` set (rn_upstreams (sr_runtime (gw_server g)))" using i that by (simp add: app_view_def)
    then obtain u where u: "(rt_upstream r, u) \<in> set (rn_upstreams (sr_runtime (gw_server g)))" by auto
    then have "map_of (rn_upstreams (sr_runtime (gw_server g))) (rt_upstream r) = Some u" using i by simp
    then show ?thesis using i u by (auto simp: app_view_def)
  qed
  show "names_ok E (ur_up u)"
    if "as_upstreams (app_view (gw_server g)) n = Some u" "\<And>a. nt_name_valid (en_net E a) = valid"
  proof -
    have "(n, u) \<in> set (rn_upstreams (sr_runtime (gw_server g)))" using that(1) by (auto simp: app_view_def dest: map_of_SomeD)
    then have "dialable valid (ur_up u)" using i by auto
    then show ?thesis by (simp add: names_ok_def dialable_def that(2))
  qed
qed

section \<open>Lemmas on the Ingress plane\<close>

lemma tls_hosts_sorted: "tls_hosts claim pair hosts (out, cl) = Inr (out', cl') \<Longrightarrow> bt_inv out \<Longrightarrow> bt_inv out'"
  by (induction hosts arbitrary: out cl) (auto simp: Let_def bt_inv_insert split: if_splits option.splits)

lemma tls_sections_sorted: "tls_sections b64 secrets owner ns ts (out, cl) = Inr (out', cl') \<Longrightarrow> bt_inv out \<Longrightarrow> bt_inv out'"
  by (induction ts arbitrary: out cl) (auto split: option.splits dest: tls_hosts_sorted)

lemma tls_ingresses_sorted: "tls_ingresses b64 secrets class kis (out, cl) = Inr (out', cl') \<Longrightarrow> bt_inv out \<Longrightarrow> bt_inv out'"
proof (induction kis arbitrary: out cl)
  case (Cons ki kis)
  then show ?case by (cases ki) (auto split: if_splits dest: tls_sections_sorted)
qed simp

lemma render_tls_keys:
  assumes "render_tls b64 ings secrets class = Inr tls"
  shows "distinct (map fst tls) \<and> (\<forall>h \<in> fst ` set tls. to_ascii_lowercase h = h)"
proof -
  obtain cl where "tls_ingresses b64 secrets class (sp_items ings) ([], []) = Inr (tls, cl)"
    using assms by (auto simp: render_tls_def)
  from tls_ingresses_sorted [OF this] have d: "distinct (map fst tls)" by (intro bt_inv_distinct) (simp add: bt_inv_def)
  have "to_ascii_lowercase h = h" if "(h, pair) \<in> set tls" for h pair
  proof -
    have "map_of tls h = Some pair" using d that by simp
    then obtain ki where "(h, pair) \<in> tls_claims b64 secrets class ki" using render_tls_spec [OF assms] by blast
    then show ?thesis by (auto simp: tls_claims_def section_claims_def host_keys_def normalize_host_def split: if_splits)
  qed
  then show ?thesis using d by auto
qed

lemma map_of_certify_pairs:
  assumes "distinct (map fst pairs)" "\<forall>h \<in> fst ` set pairs. to_ascii_lowercase h = h"
  shows "map_of (certify_pairs certify pairs next) h =
    (case map_of pairs h of
       Some pair \<Rightarrow> (case certify (tp_cert_pem pair) (tp_key_pem pair) of Inr k \<Rightarrow> Some k | Inl _ \<Rightarrow> map_of next h)
     | None \<Rightarrow> map_of next h)"
  using assms
proof (induction pairs arbitrary: "next")
  case (Cons hp pairs)
  obtain host pair where hp: "hp = (host, pair)" by (cases hp)
  have "map_of pairs host = None" using Cons.prems(1) by (simp add: hp map_of_eq_None_iff)
  then show ?case using Cons by (auto simp: hp split: sum.split option.split)
qed simp

lemma published_certs:
  assumes "render_tls b64 ings secrets class = Inr tls"
  shows "map_of (cr_map (fst (update_from_tls_pairs certify res tls))) h = Some k \<longleftrightarrow>
    (\<exists>pair. map_of tls h = Some pair \<and> certify (tp_cert_pem pair) (tp_key_pem pair) = Inr k)"
proof -
  have "cr_map (fst (update_from_tls_pairs certify res tls)) = certify_pairs certify tls []"
    by (simp add: update_from_tls_pairs_def Let_def)
  then show ?thesis
    using map_of_certify_pairs [of tls certify "[]" h] render_tls_keys [OF assms]
    by (cases "map_of tls h") (simp_all split: sum.split)
qed

lemma map_of_taken:
  assumes "\<forall>y \<in> set ys. fst y \<notin> fst ` set xs" "distinct (map fst xs)" "(n, v) \<in> set xs"
  shows "map_of (rev (xs @ ys)) n = Some v"
proof -
  have "n \<notin> fst ` set ys" using assms(1,3) by force
  then have "map_of (rev ys) n = None" by (simp add: map_of_eq_None_iff)
  moreover have "map_of (rev xs) n = Some v" using assms(2,3) by (simp add: map_of_rev_distinct)
  ultimately show ?thesis by (simp add: map_add_def)
qed

lemma apply_runtime_published:
  assumes "apply_runtime valid cfg gen plans st = Return st'"
  shows "map_of (rn_upstreams (sr_runtime st')) = map_of (rev (section_entries plans (cf_upstreams cfg)))
    \<and> rn_routes (sr_runtime st') = cf_routes cfg \<and> rn_generation (sr_runtime st') = gen
    \<and> (\<exists>h p r. st' = st\<lparr>sr_health := h, sr_pool := p, sr_runtime := r\<rparr>)"
proof -
  let ?b = "\<lparr>bs_health = sr_health st, bs_pool = sr_pool st, bs_keys = [], bs_upstreams = []\<rparr>"
  obtain b' where b': "apply_upstreams valid plans (cf_upstreams cfg) ?b = Return b'"
    and st': "st' = st\<lparr>sr_health := bs_health b', sr_pool := evict_except (bs_pool b') (bs_keys b'),
      sr_runtime := \<lparr>rn_generation = gen, rn_routes = cf_routes cfg, rn_upstreams = bs_upstreams b'\<rparr>\<rparr>"
    using assms(1) unfolding apply_runtime_def by (cases "apply_upstreams valid plans (cf_upstreams cfg) ?b") auto
  then show ?thesis using apply_upstreams_spec [OF b'] by auto
qed

lemma static_sections_win:
  assumes "buildable boot" "u \<in> set (cf_upstreams boot)"
  shows "map_of (rev (section_entries plans (cf_upstreams (resolve_config dns (build_ingress_config boot routes us))))) (uc_name u)
    = Some (rt_of plans (resolve_upstream dns u))"
proof -
  let ?e = "\<lambda>ucs. map (\<lambda>uc. (uc_name uc, rt_of plans (resolve_upstream dns uc))) ucs"
  let ?rest = "filter (\<lambda>u. uc_name u \<notin> uc_name ` set (cf_upstreams boot)) us"
  have "section_entries plans (cf_upstreams (resolve_config dns (build_ingress_config boot routes us)))
      = ?e (cf_upstreams boot) @ ?e ?rest"
    by (simp add: section_entries_def resolve_config_def build_ingress_config_def Let_def resolve_upstream_eq comp_def)
  moreover have "map_of (rev (?e (cf_upstreams boot) @ ?e ?rest)) (uc_name u) = Some (rt_of plans (resolve_upstream dns u))"
    using assms by (intro map_of_taken) (auto simp: buildable_def comp_def)
  ultimately show ?thesis by simp
qed

section \<open>Properties\<close>


text \<open>The sample server, booted and handed the sample Ingress.\<close>

definition sample_gateway :: "(nat, nat, nat) gateway" where
  "sample_gateway = \<lparr>gw_server = sample_server\<lparr>sr_tls_resolver := True\<rparr>, gw_resolver = \<lparr>cr_map = [], cr_fallback = Some 3\<rparr>,
     gw_status = watch_status_default, gw_ing_slots = [Some sample_ingresses], gw_sec_slots = [None],
     gw_pair = (sample_ingresses, snapshot_new), gw_changed = True\<rparr>"

lemma sample_boot_config: "sr_static_config (gw_server sample_gateway) = sample_config" "gw_pair sample_gateway = (sample_ingresses, snapshot_new)"
  by (simp_all add: sample_gateway_def sample_server_def)

lemma sample_class: "ig_ingress_class (cf_ingress sample_config) = ''openrusty''"
  by (simp add: sample_config_def ingress_config_default_def default_ingress_class_def)

lemma sample_merge:
  "merge_routes (cf_routes sample_config) [make_route ''/shop'' None False sample_target]
     = Inr (cf_routes sample_config @ [make_route ''/shop'' None False sample_target])"
  by (simp add: merge_routes_def Let_def sample_config_def route_key_of_def make_route_def)


lemma sample_bootstrap: "\<exists>cell. registry_bootstrap (Inr ()) (Inr ()) sample_loader sample_plugins_config = Inr cell"
  by (simp add: registry_bootstrap_def build_snapshot_def discover_def sample_loader_def
        sample_plugins_config_def order_plugins_def load_plugin_def Let_def)

lemma sample_reach:
  "\<exists>g :: (nat, nat, nat) gateway. gateway_reach {sample_outside} g \<and> rn_routes (sr_runtime (gw_server g)) = cf_routes sample_config"
proof -
  obtain cell where cell: "registry_bootstrap (Inr ()) (Inr ()) sample_loader sample_plugins_config = Inr cell" using sample_bootstrap by blast
  have p: "build_tls_plans (ou_tls sample_outside) (cf_upstreams sample_config) = Inr Map.empty" by (simp add: sample_config_def)
  have t: "\<exists>x. apply_runtime (\<lambda>_. True) sample_config gen Map.empty st = Return x" for gen and st :: "(nat, nat) server"
    using apply_upstreams_total [of Map.empty "\<lambda>_. True" "cf_upstreams sample_config"
      "\<lparr>bs_health = sr_health st, bs_pool = sr_pool st, bs_keys = [], bs_upstreams = []\<rparr>"] by (auto simp: apply_runtime_def)
  have pl: "cf_plugins sample_config = sample_plugins_config" by (simp add: sample_config_def)
  have "\<exists>st. server_from_config sample_outside sample_config = Return (Inr st)"
    unfolding server_from_config_def p pl using t by (simp add: sample_outside_def cell Let_def)
  then obtain st where st: "server_from_config sample_outside sample_config = Return (Inr st)" ..
  have l: "load_config (ou_dns sample_outside) None sample_config = Inr sample_config" by (rule sample_load)
  let ?g = "\<lparr>gw_server = st, gw_resolver = resolver_new :: nat cert_resolver, gw_status = watch_status_default,
          gw_ing_slots = [], gw_sec_slots = [], gw_pair = (snapshot_new, snapshot_new), gw_changed = False\<rparr>"
  have "gateway_reach {sample_outside} ?g" by (rule gateway_reach.Boot [OF _ l st]) simp
  moreover have "rn_routes (sr_runtime st) = cf_routes sample_config"
    using st p by (auto simp: server_from_config_def Let_def split: sum.splits dest!: apply_runtime_published)
  ultimately show ?thesis by (intro exI [of _ ?g]) simp
qed

end
