(* ===== verification/Metrics.thy ===== *)
theory Metrics
  imports Respond SortedMap Complex_Main
begin

text \<open>
  The metrics collector and its text exposition (\<open>crates/openrusty-server/src/metrics.rs\<close>,
  \<open>metrics_render.rs\<close>). Counters are \<open>u64\<close> and wrap. Durations are the rational values of \<open>f64\<close>
  numbers; \<open>rnd\<close> rounds a rational to the nearest \<open>f64\<close>, as the literals and the sums do. The
  hash maps are tables sorted by key, since the renderer sorts them and nothing else iterates.
\<close>

section \<open>The collector\<close>

definition DURATION_LABELS :: "(rat \<times> rstr) list" where
  "DURATION_LABELS =
     [(5/1000, ''0.005''), (1/100, ''0.01''), (25/1000, ''0.025''), (5/100, ''0.05''), (1/10, ''0.1''), (25/100, ''0.25''),
      (5/10, ''0.5''), (1, ''1''), (25/10, ''2.5''), (5, ''5''), (10, ''10''), (30, ''30''), (60, ''60''), (120, ''120'')]"

definition PHASE_LABELS :: "(rat \<times> rstr) list" where
  "PHASE_LABELS =
     [(25/10^6, ''0.000025''), (50/10^6, ''0.00005''), (100/10^6, ''0.0001''), (250/10^6, ''0.00025''), (500/10^6, ''0.0005''),
      (1/10^3, ''0.001''), (25/10^4, ''0.0025''), (5/10^3, ''0.005''), (1/10^2, ''0.01''), (25/10^3, ''0.025''),
      (5/10^2, ''0.05''), (1/10, ''0.1''), (25/10^2, ''0.25''), (5/10, ''0.5''), (1, ''1'')]"

definition DURATION_BUCKETS :: "(rat \<Rightarrow> rat) \<Rightarrow> rat list" where
  "DURATION_BUCKETS rnd = map (rnd \<circ> fst) DURATION_LABELS"

definition PHASE_BUCKETS :: "(rat \<Rightarrow> rat) \<Rightarrow> rat list" where
  "PHASE_BUCKETS rnd = map (rnd \<circ> fst) PHASE_LABELS"

record phase_hist =
  ph_buckets :: "u64 list"
  ph_count :: u64
  ph_sum :: rat

definition phase_hist_empty :: phase_hist where
  "phase_hist_empty = \<lparr>ph_buckets = replicate (length PHASE_LABELS) 0, ph_count = 0, ph_sum = 0\<rparr>"

fun position :: "('a \<Rightarrow> bool) \<Rightarrow> 'a list \<Rightarrow> nat option" where
  "position p [] = None"
| "position p (x # xs) = (if p x then Some 0 else map_option Suc (position p xs))"

definition bucket_index :: "(rat \<Rightarrow> rat) \<Rightarrow> rat \<Rightarrow> nat option" where
  "bucket_index rnd seconds = position (\<lambda>b. seconds \<le> b) (DURATION_BUCKETS rnd)"

definition phase_bucket_index :: "(rat \<Rightarrow> rat) \<Rightarrow> rat \<Rightarrow> nat option" where
  "phase_bucket_index rnd seconds = position (\<lambda>b. seconds \<le> b) (PHASE_BUCKETS rnd)"

text \<open>\<open>iter_mut().skip(i)\<close>: the buckets from the given one on.\<close>

definition bump_from :: "nat option \<Rightarrow> u64 list \<Rightarrow> u64 list" where
  "bump_from i bs = (case i of None \<Rightarrow> bs | Some i \<Rightarrow> take i bs @ map (\<lambda>b. b + 1) (drop i bs))"

definition observe :: "(rat \<Rightarrow> rat) \<Rightarrow> rat \<Rightarrow> phase_hist \<Rightarrow> phase_hist" where
  "observe rnd seconds h =
     h\<lparr>ph_count := ph_count h + 1, ph_sum := rnd (ph_sum h + seconds),
       ph_buckets := bump_from (phase_bucket_index rnd seconds) (ph_buckets h)\<rparr>"

type_synonym 'k counters = "('k \<times> u64) list"

record metrics =
  mt_requests :: "(rstr \<times> u16) counters"
  mt_attempts :: "(rstr \<times> rstr) counters"
  mt_plugin_errors :: "(rstr \<times> rstr) counters"
  mt_transparent :: "(rstr \<times> rstr) counters"
  mt_dynamic :: "(rstr \<times> u16) counters"
  mt_phases :: "(rstr \<times> phase_hist) list"
  mt_buckets :: "u64 list"
  mt_count :: u64
  mt_sum :: rat

definition metrics_new :: metrics where
  "metrics_new = \<lparr>mt_requests = [], mt_attempts = [], mt_plugin_errors = [], mt_transparent = [], mt_dynamic = [],
     mt_phases = [], mt_buckets = replicate (length DURATION_LABELS) 0, mt_count = 0, mt_sum = 0\<rparr>"

text \<open>\<open>entry(k).or_insert(0) += n\<close>.\<close>

definition add_count :: "'k::linorder \<Rightarrow> u64 \<Rightarrow> 'k counters \<Rightarrow> 'k counters" where
  "add_count k n m = bt_insert k ((case map_of m k of Some c \<Rightarrow> c | None \<Rightarrow> 0) + n) m"

definition record_request :: "rstr \<Rightarrow> u16 \<Rightarrow> metrics \<Rightarrow> metrics" where
  "record_request route code m = m\<lparr>mt_requests := add_count (route, code) 1 (mt_requests m)\<rparr>"

definition record_duration :: "(rat \<Rightarrow> rat) \<Rightarrow> rat \<Rightarrow> metrics \<Rightarrow> metrics" where
  "record_duration rnd seconds m =
     m\<lparr>mt_count := mt_count m + 1, mt_sum := rnd (mt_sum m + seconds),
       mt_buckets := bump_from (bucket_index rnd seconds) (mt_buckets m)\<rparr>"

definition record_request_timed :: "(rat \<Rightarrow> rat) \<Rightarrow> rstr \<Rightarrow> u16 \<Rightarrow> rat \<Rightarrow> metrics \<Rightarrow> metrics" where
  "record_request_timed rnd route code seconds m =
     m\<lparr>mt_requests := add_count (route, code) 1 (mt_requests m),
       mt_count := mt_count m + 1, mt_sum := rnd (mt_sum m + seconds),
       mt_buckets := bump_from (bucket_index rnd seconds) (mt_buckets m)\<rparr>"

definition record_attempt :: "rstr \<Rightarrow> rstr \<Rightarrow> metrics \<Rightarrow> metrics" where
  "record_attempt upstream result m = m\<lparr>mt_attempts := add_count (upstream, result) 1 (mt_attempts m)\<rparr>"

definition record_plugin_error :: "rstr \<Rightarrow> rstr \<Rightarrow> metrics \<Rightarrow> metrics" where
  "record_plugin_error plugin kind m = m\<lparr>mt_plugin_errors := add_count (plugin, kind) 1 (mt_plugin_errors m)\<rparr>"

definition record_transparent :: "rstr \<Rightarrow> rstr \<Rightarrow> metrics \<Rightarrow> metrics" where
  "record_transparent role outcome m = m\<lparr>mt_transparent := add_count (role, outcome) 1 (mt_transparent m)\<rparr>"

definition record_dynamic :: "rstr \<Rightarrow> u16 \<Rightarrow> metrics \<Rightarrow> metrics" where
  "record_dynamic name code m = m\<lparr>mt_dynamic := add_count (name, code) 1 (mt_dynamic m)\<rparr>"

definition record_phase :: "(rat \<Rightarrow> rat) \<Rightarrow> rstr \<Rightarrow> rat \<Rightarrow> metrics \<Rightarrow> metrics" where
  "record_phase rnd phase seconds m =
     m\<lparr>mt_phases := bt_insert phase
          (observe rnd seconds (case map_of (mt_phases m) phase of Some h \<Rightarrow> h | None \<Rightarrow> phase_hist_empty)) (mt_phases m)\<rparr>"

text \<open>\<open>Duration::as_secs_f64\<close> of nanoseconds.\<close>

definition as_secs_f64 :: "(rat \<Rightarrow> rat) \<Rightarrow> u64 \<Rightarrow> rat" where
  "as_secs_f64 rnd ns = rnd (of_nat (unat ns) / 10 ^ 9)"

definition record_phases :: "(rat \<Rightarrow> rat) \<Rightarrow> (rstr \<times> u64 \<times> u64) list \<Rightarrow> metrics \<Rightarrow> metrics" where
  "record_phases rnd phases m = fold (\<lambda>(phase, _, total). record_phase rnd phase (as_secs_f64 rnd total)) phases m"

section \<open>The exposition\<close>

definition backslash :: char where "backslash = CHR 0x5C"
definition dquote :: char where "dquote = CHR 0x22"

fun escape_label :: "rstr \<Rightarrow> rstr" where
  "escape_label [] = []"
| "escape_label (c # cs) =
     (if c = backslash then [backslash, backslash]
      else if c = dquote then [backslash, dquote]
      else if c = byte 10 then [backslash, CHR ''n'']
      else [c]) @ escape_label cs"

text \<open>\<open>{v:.6}\<close>: the nearest multiple of a millionth, the even one on a tie.\<close>

definition round_even :: "rat \<Rightarrow> int" where
  "round_even x =
     (let f = \<lfloor>x\<rfloor>; d = x - of_int f in
      if d < 1/2 then f else if 1/2 < d then f + 1 else if even f then f else f + 1)"

definition pad6 :: "rstr \<Rightarrow> rstr" where
  "pad6 s = replicate (6 - length s) (CHR ''0'') @ s"

definition fmt6 :: "rat \<Rightarrow> rstr" where
  "fmt6 v =
     (let n = nat \<bar>round_even (v * 10 ^ 6)\<bar>
      in (if v < 0 then ''-'' else []) @ dec_digits (n div 10 ^ 6) @ ''.'' @ pad6 (dec_digits (n mod 10 ^ 6)))"

definition trim_end_matches :: "char \<Rightarrow> rstr \<Rightarrow> rstr" where
  "trim_end_matches c s = rev (dropWhile (\<lambda>x. x = c) (rev s))"

definition format_sum :: "rat \<Rightarrow> rstr" where
  "format_sum v =
     (let s = trim_end_matches (CHR ''.'') (trim_end_matches (CHR ''0'') (fmt6 v)) in if s = [] then ''0'' else s)"

text \<open>A sample line: name, labels already escaped, value.\<close>

definition label_text :: "rstr \<times> rstr \<Rightarrow> rstr" where
  "label_text kv = fst kv @ ''='' @ [dquote] @ snd kv @ [dquote]"

fun labels_text :: "(rstr \<times> rstr) list \<Rightarrow> rstr" where
  "labels_text [] = []"
| "labels_text [kv] = label_text kv"
| "labels_text (kv # kvs) = label_text kv @ '','' @ labels_text kvs"

definition metric_line :: "rstr \<Rightarrow> (rstr \<times> rstr) list \<Rightarrow> rstr \<Rightarrow> rstr" where
  "metric_line name labels val =
     name @ (if labels = [] then [] else ''{'' @ labels_text labels @ ''}'') @ '' '' @ val @ newline"

definition family :: "rstr \<Rightarrow> rstr \<Rightarrow> rstr \<Rightarrow> rstr" where
  "family name help kind = ''# HELP '' @ name @ '' '' @ help @ newline @ ''# TYPE '' @ name @ '' '' @ kind @ newline"

definition show_u64 :: "u64 \<Rightarrow> rstr" where "show_u64 n = dec_digits (unat n)"
definition show_u16 :: "u16 \<Rightarrow> rstr" where "show_u16 n = dec_digits (unat n)"

definition pair_lines :: "rstr \<Rightarrow> rstr \<Rightarrow> rstr \<Rightarrow> (rstr \<times> rstr) counters \<Rightarrow> rstr" where
  "pair_lines name l1 l2 cs =
     concat (map (\<lambda>((a, b), n). metric_line name [(l1, escape_label a), (l2, escape_label b)] (show_u64 n)) cs)"

definition code_lines :: "rstr \<Rightarrow> rstr \<Rightarrow> (rstr \<times> u16) counters \<Rightarrow> rstr" where
  "code_lines name l cs =
     concat (map (\<lambda>((a, code), n). metric_line name [(l, escape_label a), (''code'', show_u16 code)] (show_u64 n)) cs)"

definition histogram_lines :: "rstr \<Rightarrow> (rstr \<times> rstr) list \<Rightarrow> rstr list \<Rightarrow> u64 list \<Rightarrow> u64 \<Rightarrow> rat \<Rightarrow> rstr" where
  "histogram_lines name labels bounds buckets n secs =
     concat (map (\<lambda>(b, c). metric_line (name @ ''_bucket'') (labels @ [(''le'', b)]) (show_u64 c)) (zip bounds buckets))
     @ metric_line (name @ ''_bucket'') (labels @ [(''le'', ''+Inf'')]) (show_u64 n)
     @ metric_line (name @ ''_sum'') labels (format_sum secs)
     @ metric_line (name @ ''_count'') labels (show_u64 n)"

definition merge_errors :: "(rstr \<times> rstr \<times> u64) list \<Rightarrow> (rstr \<times> rstr) counters \<Rightarrow> (rstr \<times> rstr) counters" where
  "merge_errors errs m = fold (\<lambda>(plugin, kind, n). add_count (plugin, kind) n) errs m"

definition render_metrics :: "metrics \<Rightarrow> (rstr \<times> rstr \<times> bool) list \<Rightarrow> (rstr \<times> u64) list \<Rightarrow> (rstr \<times> rstr \<times> u64) list \<Rightarrow> rstr" where
  "render_metrics snap peers kv plugin_errors =
     family ''openrusty_requests_total'' ''Total HTTP requests handled by route and status code.'' ''counter''
     @ code_lines ''openrusty_requests_total'' ''route'' (mt_requests snap)
     @ family ''openrusty_request_duration_seconds'' ''Request handling duration in seconds.'' ''histogram''
     @ histogram_lines ''openrusty_request_duration_seconds'' [] (map snd DURATION_LABELS) (mt_buckets snap) (mt_count snap) (mt_sum snap)
     @ family ''openrusty_upstream_attempts_total'' ''Total upstream attempts by upstream and result.'' ''counter''
     @ pair_lines ''openrusty_upstream_attempts_total'' ''upstream'' ''result'' (mt_attempts snap)
     @ family ''openrusty_plugin_errors_total'' ''Total plugin execution errors by plugin and kind.'' ''counter''
     @ pair_lines ''openrusty_plugin_errors_total'' ''plugin'' ''kind'' (merge_errors plugin_errors (mt_plugin_errors snap))
     @ family ''openrusty_transparent_conns_total'' ''Transparently intercepted connections by listener role and disposition.'' ''counter''
     @ pair_lines ''openrusty_transparent_conns_total'' ''role'' ''outcome'' (mt_transparent snap)
     @ (if mt_dynamic snap = [] then []
        else family ''openrusty_dynamic_requests_total'' ''Dynamic module invocations by module name and status code.'' ''counter''
          @ code_lines ''openrusty_dynamic_requests_total'' ''module'' (mt_dynamic snap))
     @ family ''openrusty_peer_healthy'' ''Whether an upstream peer is currently healthy.'' ''gauge''
     @ concat (map (\<lambda>(up, addr, healthy). metric_line ''openrusty_peer_healthy''
          [(''upstream'', escape_label up), (''addr'', escape_label addr)] (if healthy then ''1'' else ''0'')) (sort peers))
     @ family ''openrusty_kv_entries'' ''Live KV entries held by each plugin.'' ''gauge''
     @ concat (map (\<lambda>(plugin, n). metric_line ''openrusty_kv_entries'' [(''plugin'', escape_label plugin)] (show_u64 n))
          (sort_key fst kv))
     @ family ''openrusty_plugin_phase_seconds'' ''Total wall time spent in each plugin phase per request.'' ''histogram''
     @ concat (map (\<lambda>(phase, h). histogram_lines ''openrusty_plugin_phase_seconds'' [(''phase'', escape_label phase)]
          (map snd PHASE_LABELS) (ph_buckets h) (ph_count h) (ph_sum h)) (mt_phases snap))"

section \<open>Lemmas\<close>

text \<open>The split counters and the combined one agree.\<close>

lemma record_request_timed_split:
  "record_request_timed rnd route code seconds m = record_duration rnd seconds (record_request route code m)"
  by (simp add: record_request_timed_def record_duration_def record_request_def)

lemma map_of_add_count:
  "map_of (add_count k n m) = (map_of m)(k \<mapsto> (case map_of m k of Some c \<Rightarrow> c | None \<Rightarrow> 0) + n)"
  unfolding add_count_def by (rule map_of_bt_insert)

text \<open>With ascending bounds an observation raises exactly the buckets it fits under.\<close>

lemma bump_from_position:
  assumes "sorted bounds"
  shows "bump_from (position (\<lambda>b. s \<le> b) bounds) (map c bounds) = map (\<lambda>b. c b + (if s \<le> b then 1 else 0)) bounds"
  using assms
proof (induction bounds)
  case (Cons b bounds)
  show ?case
  proof (cases "s \<le> b")
    case True
    then have "\<forall>x \<in> set bounds. s \<le> x" using Cons.prems by force
    then show ?thesis using True by (simp add: bump_from_def)
  next
    case False
    then show ?thesis using Cons by (cases "position (\<lambda>b. s \<le> b) bounds") (simp_all add: bump_from_def)
  qed
qed (simp add: bump_from_def)

lemma sorted_buckets:
  assumes "mono rnd"
  shows "sorted (DURATION_BUCKETS rnd)" "sorted (PHASE_BUCKETS rnd)"
proof -
  have "sorted (map fst DURATION_LABELS)" "sorted (map fst PHASE_LABELS)"
    by (simp_all add: DURATION_LABELS_def PHASE_LABELS_def)
  then show "sorted (DURATION_BUCKETS rnd)" "sorted (PHASE_BUCKETS rnd)"
    using assms by (auto simp: DURATION_BUCKETS_def PHASE_BUCKETS_def sorted_wrt_map mono_def elim!: sorted_wrt_mono_rel [rotated])
qed

text \<open>The histogram is exact: after any requests a bucket holds the number of durations at most its bound.\<close>

definition timed_requests :: "(rat \<Rightarrow> rat) \<Rightarrow> (rstr \<times> u16 \<times> rat) list \<Rightarrow> metrics \<Rightarrow> metrics" where
  "timed_requests rnd = fold (\<lambda>(route, code, seconds). record_request_timed rnd route code seconds)"

definition at_most :: "(rstr \<times> u16 \<times> rat) list \<Rightarrow> rat \<Rightarrow> u64" where
  "at_most rs b = of_nat (length (filter (\<lambda>(_, _, s). s \<le> b) rs))"

lemma timed_requests_histogram:
  assumes "mono rnd"
  shows "mt_buckets (timed_requests rnd rs metrics_new) = map (at_most rs) (DURATION_BUCKETS rnd)
    \<and> mt_count (timed_requests rnd rs metrics_new) = of_nat (length rs)"
proof (induction rs rule: rev_induct)
  case Nil
  then show ?case
    by (simp add: timed_requests_def metrics_new_def at_most_def DURATION_BUCKETS_def comp_def map_replicate_const)
next
  case (snoc r rs)
  obtain route code sec where r: "r = (route, code, sec)" by (cases r)
  have "at_most (rs @ [r]) = (\<lambda>b. at_most rs b + (if sec \<le> b then 1 else 0))"
    by (auto simp: at_most_def r)
  then show ?case
    using snoc bump_from_position [OF sorted_buckets(1) [OF assms], of sec "at_most rs"]
    by (simp add: timed_requests_def r record_request_timed_def bucket_index_def add.commute)
qed

lemma timed_requests_counts:
  "(case map_of (mt_requests (timed_requests rnd rs metrics_new)) (route, code) of Some c \<Rightarrow> c | None \<Rightarrow> 0)
     = of_nat (length (filter (\<lambda>(r, c, _). r = route \<and> c = code) rs))"
proof (induction rs rule: rev_induct)
  case Nil
  then show ?case by (simp add: timed_requests_def metrics_new_def)
next
  case (snoc r rs)
  obtain route' code' sec where r: "r = (route', code', sec)" by (cases r)
  show ?case using snoc
    by (simp add: timed_requests_def r record_request_timed_def map_of_add_count add.commute del: fun_upd_apply) auto
qed

text \<open>Escaping loses nothing, so different label values stay different.\<close>

fun unescape_label :: "rstr \<Rightarrow> rstr" where
  "unescape_label [] = []"
| "unescape_label [c] = [c]"
| "unescape_label (c # d # cs) =
     (if c = backslash then (if d = CHR ''n'' then byte 10 else d) # unescape_label cs
      else c # unescape_label (d # cs))"

lemma unescape_cons: "c \<noteq> backslash \<Longrightarrow> unescape_label (c # cs) = c # unescape_label cs"
  by (cases cs) simp_all

lemma escape_special: "backslash \<noteq> CHR ''n''" "dquote \<noteq> CHR ''n''" "backslash \<noteq> dquote"
  by (simp_all add: backslash_def dquote_def)

lemma unescape_escape: "unescape_label (escape_label s) = s"
  by (induction s) (simp_all add: unescape_cons escape_special)

lemma escape_label_inj: "inj escape_label"
  by (metis injI unescape_escape)

end
