(* ===== verification/Websocket.thy ===== *)
theory Websocket
  imports Pipeline
begin

text \<open>
  WebSocket pass-through (\<open>crates/openrusty-server/src/ws.rs\<close>): the handshake with one peer after the
  other, the 101 handed back to the client and the log phase when the tunnel closes. It takes over
  where \<open>handle_request\<close> ends with \<open>Upgraded\<close>. The text of a status (\<open>StatusCode\<close>'s \<open>Display\<close>) is an
  argument, and so is what the two upgrades and the byte copying of the tunnel give.
\<close>

section \<open>The handshake\<close>

definition CONNECTION_UPGRADE :: rstr where "CONNECTION_UPGRADE = ''upgrade''"

definition UPGRADE_WEBSOCKET :: rstr where "UPGRADE_WEBSOCKET = ''websocket''"

definition handshake_headers :: "header list \<Rightarrow> rstr \<Rightarrow> rstr \<Rightarrow> header list" where
  "handshake_headers client_headers peer_addr client =
     filter (\<lambda>(name, _). \<not> (eq_ignore_ascii_case name ''host'' \<or> eq_ignore_ascii_case name ''x-forwarded-for''))
       (strip_hop_by_hop client_headers)
     @ [(''host'', peer_addr), (''connection'', CONNECTION_UPGRADE), (''upgrade'', UPGRADE_WEBSOCKET),
        (''x-forwarded-for'', merge_xff client_headers client)]"

text \<open>The request target as the client sent it.\<close>

definition target :: "'v request \<Rightarrow> rstr" where
  "target rq = rq_path rq @ (case rq_query rq of Some q \<Rightarrow> ''?'' @ q | None \<Rightarrow> [])"

definition ws_uri :: "('cert, 'sk) upstream \<Rightarrow> peer \<Rightarrow> rstr \<Rightarrow> rstr" where
  "ws_uri up peer pq =
     (case (case up_tls up of
              Some tls \<Rightarrow> (''https'', ut_server_name tls)
            | None \<Rightarrow> (''http'', addr_to_string (pr_addr peer))) of
        (scheme, uri_authority) \<Rightarrow> scheme @ ''://'' @ uri_authority @ pq)"

definition outbound :: "('m, 'v) http_lib \<Rightarrow> 'v request \<Rightarrow> rstr \<Rightarrow> ('cert, 'sk) upstream \<Rightarrow> peer \<Rightarrow> 'm outgoing option" where
  "outbound H rq client up peer =
     (let uri = ws_uri up peer (target rq) in
      if \<not> hl_request_ok H (rq_method rq) uri then None
      else
        let headers = append_headers H
              (handshake_headers (visible_headers H (rq_headers rq)) (addr_to_string (pr_addr peer)) client) (hl_empty H)
        in case hl_finish H headers of
             Some _ \<Rightarrow> None
           | None \<Rightarrow> Some \<lparr>og_method = rq_method rq, og_uri = uri, og_headers = headers, og_body = []\<rparr>)"

definition dial ::
  "('m, 'cert, 'sk, 'resp) net \<Rightarrow> ('cert, 'sk) client_pool \<Rightarrow> ('cert, 'sk) upstream \<Rightarrow> peer \<Rightarrow> 'm outgoing
   \<Rightarrow> (('cert, 'sk) client_pool \<times> (client_error + 'resp)) rust" where
  "dial N pool up peer out =
     (case up_tls up of
        Some tls \<Rightarrow>
          rust_map (\<lambda>(pool', client). (pool', nt_https N client out))
            (get_tls (nt_name_valid N) pool (pr_addr peer) tls (up_connect_timeout up) (up_pool_idle_timeout up))
      | None \<Rightarrow>
          (case get pool (pr_addr peer) (up_connect_timeout up) (up_pool_idle_timeout up) of
             (pool', client) \<Rightarrow> Return (pool', nt_http N client out)))"

section \<open>The walk over the peers\<close>

datatype ('g, 'm, 'cert, 'sk, 'b) ws_step =
    WsAgain "('g, 'cert, 'sk) lstate"
  | WsAnswered "('g, 'cert, 'sk) lstate" nat u64 "('m, 'b) upstream_resp"
  | WsReturned "('g, 'cert, 'sk) lstate" "'m response"

text \<open>Failure and timeout: count it, release the slot, never pick this address again.\<close>

definition ws_failed :: "u64 \<Rightarrow> nat \<Rightarrow> ('g, 'cert, 'sk) lstate \<Rightarrow> ('g, 'cert, 'sk) lstate" where
  "ws_failed now idx l =
     on_ctx (\<lambda>c. mark_tried c (pr_addr (up_peers (up_of l) ! idx)))
       (l\<lparr>ls_health := release_peer
            (record_failure (ls_health l) (up_name (up_of l)) idx (up_health (up_of l)) now) (ls_up l) idx\<rparr>)"

definition handshake ::
  "('g, 'm, 'v, 'cert, 'sk, 'b) hr_env \<Rightarrow> 'v request \<Rightarrow> u64 option \<Rightarrow> nat \<Rightarrow> nat
   \<Rightarrow> ('g, 'cert, 'sk) lstate \<Rightarrow> ('g, 'm, 'cert, 'sk, 'b) ws_step rust" where
  "handshake E rq timeout a idx l =
     (let l = on_ctx (\<lambda>c. c\<lparr>rc_attempts := rc_attempts c + 1, rc_peer_index := Some (of_nat idx)\<rparr>) l;
          peer = up_peers (up_of l) ! idx
      in case outbound (en_http E) rq (client_ip (ss_ctx (ls_session l))) (up_of l) peer of
           None \<Rightarrow> Return (WsReturned (finish E 502 l) (text_response (en_http E) 502 (''502 bad request'' @ newline)))
         | Some out \<Rightarrow>
             rust_map (\<lambda>(pool, r).
                 let timed_out = (timeout \<noteq> None \<and> en_timeout E a);
                     l = l\<lparr>ls_pool := pool,
                           ls_sent := ls_sent l @ [(pr_addr peer, outcome_kind timed_out (map_err classify r))]\<rparr>
                 in if timed_out then WsAgain (ws_failed (en_now E a 2) idx l)
                    else case r of
                           Inl e \<Rightarrow> WsAgain (ws_failed (en_now E a 2) idx l)
                         | Inr resp \<Rightarrow>
                             WsAnswered (l\<lparr>ls_health := release_peer (ls_health l) (ls_up l) idx\<rparr>) idx (en_now E a 2) resp)
               (dial (en_net E a) (ls_pool l) (up_of l) peer out))"

definition ws_once ::
  "('g, 'm, 'v, 'cert, 'sk, 'b) hr_env \<Rightarrow> 'v request \<Rightarrow> u64 option \<Rightarrow> nat
   \<Rightarrow> ('g, 'cert, 'sk) lstate \<Rightarrow> ('g, 'm, 'cert, 'sk, 'b) ws_step rust" where
  "ws_once E rq timeout a l =
     (let l = on_ctx (\<lambda>c. c\<lparr>rc_peer_index := None\<rparr>) l in
      case pick_peer (en_wasm E) (en_now E a) (ls_health l) (ls_up l) (ls_session l) of
        Panic \<Rightarrow> Panic
      | Return (h, u, s, p) \<Rightarrow>
          let l = l\<lparr>ls_health := h, ls_up := u, ls_session := s\<rparr> in
          case p of
            PickPeer idx \<Rightarrow> handshake E rq timeout a idx l
          | PickDeny c \<Rightarrow> Return (WsReturned (finish E c l) (text_response (en_http E) c (status_line c)))
          | PickNone \<Rightarrow>
              Return (WsReturned (finish E 502 l)
                (text_response (en_http E) 502 (''502 no healthy upstream'' @ newline))))"

text \<open>The \<open>loop\<close> has no counter of its own: \<open>None\<close> is the walk that never ends.\<close>

partial_function (option) ws_loop ::
  "('g, 'm, 'v, 'cert, 'sk, 'b) hr_env \<Rightarrow> 'v request \<Rightarrow> u64 option \<Rightarrow> nat
   \<Rightarrow> ('g, 'cert, 'sk) lstate \<Rightarrow> ('g, 'm, 'cert, 'sk, 'b) ws_step rust option" where
  "ws_loop E rq timeout a l =
     (case ws_once E rq timeout a l of
        Panic \<Rightarrow> Some Panic
      | Return st \<Rightarrow>
          (case st of
             WsAgain l' \<Rightarrow> ws_loop E rq timeout (Suc a) l'
           | WsAnswered l' idx now resp \<Rightarrow> Some (Return st)
           | WsReturned l' r \<Rightarrow> Some (Return st)))"

section \<open>The answer and the tunnel\<close>

datatype ('g, 'm, 'cert, 'sk) ws_outcome =
    WsRefused "('g, 'cert, 'sk) lstate" "'m response"
  | WsSwitched "('g, 'cert, 'sk) lstate" "'m response"

definition switching_headers :: "('m, 'v) http_lib \<Rightarrow> 'm \<Rightarrow> header list" where
  "switching_headers H m =
     visible_headers H
       (filter (\<lambda>(n, _). n = ''upgrade'' \<or> n = ''connection'' \<or> n = ''sec-websocket-accept'') (hl_iter H m))"

definition ws_answer ::
  "('g, 'm, 'v, 'cert, 'sk, 'b) hr_env \<Rightarrow> (u16 \<Rightarrow> rstr) \<Rightarrow> nat \<Rightarrow> u64 \<Rightarrow> ('m, 'b) upstream_resp
   \<Rightarrow> ('g, 'cert, 'sk) lstate \<Rightarrow> ('g, 'm, 'cert, 'sk) ws_outcome" where
  "ws_answer E display idx now resp l =
     (let H = en_http E in
      if us_status resp \<noteq> 101 then
        WsRefused (finish E 502 l)
          (text_response H 502 (''502 upstream refused upgrade ('' @ display (us_status resp) @ '')'' @ newline))
      else
        let l = l\<lparr>ls_health := record_success (ls_health l) (up_name (up_of l)) idx now\<rparr> in
        case builder H 101 of
          None \<Rightarrow> WsRefused (finish E 502 l) (text_response H 502 (''502 bad response'' @ newline))
        | Some m \<Rightarrow>
            WsSwitched l \<lparr>rs_status = 101, rs_headers = append_headers H (switching_headers H (us_headers resp)) m, rs_body = []\<rparr>)"

definition proxy_websocket ::
  "('g, 'm, 'v, 'cert, 'sk, 'b) hr_env \<Rightarrow> (u16 \<Rightarrow> rstr) \<Rightarrow> 'v request \<Rightarrow> u64 option
   \<Rightarrow> ('g, 'cert, 'sk) lstate \<Rightarrow> ('g, 'm, 'cert, 'sk) ws_outcome rust option" where
  "proxy_websocket E display rq timeout l =
     (if rq_http2 rq then
        Some (Return (WsRefused (finish E 502 l)
          (text_response (en_http E) 502 (''502 websocket requires http/1.1'' @ newline))))
      else
        (case ws_loop E rq timeout 0 l of
           None \<Rightarrow> None
         | Some Panic \<Rightarrow> Some Panic
         | Some (Return st) \<Rightarrow>
             (case st of
                WsAnswered l' idx now resp \<Rightarrow> Some (Return (ws_answer E display idx now resp l'))
              | WsReturned l' r \<Rightarrow> Some (Return (WsRefused l' r))
              | WsAgain l' \<Rightarrow> None)))"

definition run_ws_log :: "'g wasm_env \<Rightarrow> 'g session \<times> event list \<Rightarrow> 'g session \<times> event list" where
  "run_ws_log W = (\<lambda>(s, ev).
     let s1 = fst (run_phase W Log_Phase s); (s2, stats) = take_phase_stats s1
     in (s2, ev @ phase_event stats))"

text \<open>
  The tunnel task: a failed upgrade on either side ends it, otherwise bytes are copied until both
  ends are done. The second component is what the tunnel reported, if it opened.
\<close>

definition ws_tunnel ::
  "'g wasm_env \<Rightarrow> rstr option \<Rightarrow> rstr option \<Rightarrow> io_error_kind + nat \<times> nat \<Rightarrow> 'g session \<times> event list
   \<Rightarrow> ('g session \<times> event list) \<times> (io_error_kind + unit) option" where
  "ws_tunnel W on_upgrade out_upgraded copied s =
     (case on_upgrade of
        Some e \<Rightarrow> (run_ws_log W s, None)
      | None \<Rightarrow>
          (case out_upgraded of
             Some e \<Rightarrow> (run_ws_log W s, None)
           | None \<Rightarrow> let res = tunnel copied in (run_ws_log W s, Some res)))"

section \<open>A request from end to end\<close>

datatype ('g, 'm, 'cert, 'sk, 'b) request_end =
    Proxied "('g, 'm, 'cert, 'sk, 'b) outcome"
  | WebSocket "('g, 'm, 'cert, 'sk) ws_outcome"

text \<open>\<open>handle_request\<close> with its WebSocket branch.\<close>

definition run_request ::
  "('g, 'm, 'v, 'cert, 'sk, 'b) hr_env \<Rightarrow> (u16 \<Rightarrow> rstr) \<Rightarrow> u64 \<Rightarrow> ('cert, 'sk) app_state \<Rightarrow> 'v request
   \<Rightarrow> (('g, 'm, 'cert, 'sk, 'b) request_end \<times> rstr option) rust option" where
  "run_request E display now st rq =
     (case handle_request E now st rq of
        Panic \<Rightarrow> Some Panic
      | Return (Upgraded l timeout, label) \<Rightarrow>
          map_option (rust_map (\<lambda>w. (WebSocket w, label))) (proxy_websocket E display rq timeout l)
      | Return (out, label) \<Rightarrow> Some (Return (Proxied out, label)))"

section \<open>Invariants of the walk\<close>

text \<open>Addresses on the wire: pairwise different peers of the upstream, and only the last may have answered.\<close>

definition walk_ok :: "('cert, 'sk) upstream \<Rightarrow> (socket_addr \<times> failure_kind option) list \<Rightarrow> bool" where
  "walk_ok up sent \<longleftrightarrow>
     distinct (map fst sent) \<and> fst ` set sent \<subseteq> pr_addr ` set (up_peers up)
     \<and> (\<forall>x \<in> set (butlast sent). snd x \<noteq> None)"

definition ws_inv :: "('g, 'cert, 'sk) lstate \<Rightarrow> ('g, 'cert, 'sk) lstate \<Rightarrow> bool" where
  "ws_inv l0 l \<longleftrightarrow>
     base l0 l \<and> rc_tried (ss_ctx (ls_session l)) = map fst (ls_sent l)
     \<and> walk_ok (up_of l0) (ls_sent l) \<and> (\<forall>x \<in> set (ls_sent l). snd x \<noteq> None)
     \<and> log_lines (ls_events l) = log_lines (ls_events l0)"

text \<open>What one round, or the whole walk, may end with.\<close>

definition ws_spec :: "('g, 'cert, 'sk) lstate \<Rightarrow> ('g, 'm, 'cert, 'sk, 'b) ws_step \<Rightarrow> bool" where
  "ws_spec l0 st \<longleftrightarrow>
     (case st of
        WsAgain l \<Rightarrow> ws_inv l0 l
      | WsAnswered l idx now resp \<Rightarrow>
          base l0 l \<and> walk_ok (up_of l0) (ls_sent l) \<and> (\<exists>front a. ls_sent l = front @ [(a, None)])
          \<and> log_lines (ls_events l) = log_lines (ls_events l0)
      | WsReturned l r \<Rightarrow>
          base l0 l \<and> walk_ok (up_of l0) (ls_sent l) \<and> (\<forall>x \<in> set (ls_sent l). snd x \<noteq> None)
          \<and> (\<exists>e. log_lines (ls_events l) = log_lines (ls_events l0) @ [e]))"

text \<open>The outbound request can be built for every peer of the upstream.\<close>

definition buildable :: "('m, 'v) http_lib \<Rightarrow> 'v request \<Rightarrow> ('cert, 'sk) upstream \<Rightarrow> bool" where
  "buildable H rq up \<longleftrightarrow>
     (\<forall>p \<in> set (up_peers up). hl_request_ok H (rq_method rq) (ws_uri up p (target rq))) \<and> (\<forall>m. hl_finish H m = None)"

definition ws_ok :: "('m, 'v) http_lib \<Rightarrow> 'v request \<Rightarrow> ('g, 'cert, 'sk) lstate \<Rightarrow> ('g, 'm, 'cert, 'sk, 'b) ws_step \<Rightarrow> bool" where
  "ws_ok H rq l0 st \<longleftrightarrow> ws_spec l0 st \<or> \<not> buildable H rq (up_of l0) \<and> (\<exists>l' r. st = WsReturned l' r)"

lemma walk_ok_length:
  assumes "walk_ok up sent"
  shows "length sent \<le> length (up_peers up)"
proof -
  have "length sent = card (fst ` set sent)" using assms distinct_card [of "map fst sent"] by (simp add: walk_ok_def)
  also have "\<dots> \<le> card (pr_addr ` set (up_peers up))" using assms by (intro card_mono) (auto simp: walk_ok_def)
  also have "\<dots> \<le> length (up_peers up)" by (metis card_image_le card_length le_trans List.finite_set)
  finally show ?thesis .
qed

lemma walk_ok_snoc:
  assumes "walk_ok up sent" "\<forall>x \<in> set sent. snd x \<noteq> None" "a \<notin> set (map fst sent)" "a \<in> pr_addr ` set (up_peers up)"
  shows "walk_ok up (sent @ [(a, k)])"
  using assms by (auto simp: walk_ok_def)

lemma dial_total:
  assumes "names_ok E up" "up_peers up \<noteq> []"
  shows "\<exists>pool r. dial (en_net E a) pool0 up peer out = Return (pool, r)"
  using assms
  by (auto simp: dial_def names_ok_def get_tls_def build_tls_client_def Let_def split: option.splits prod.splits)

lemma WsReturned_spec:
  assumes "ws_inv l0 l"
  shows "ws_spec l0 (WsReturned (finish E c l) r)"
  using assms base_finish [of l0 l E c] finish_log_lines [of E c l] by (auto simp: ws_inv_def ws_spec_def)

lemma ws_inv_on_ctx: "ws_inv l0 l \<Longrightarrow> ws_inv l0 (on_ctx (\<lambda>c. c\<lparr>rc_peer_index := None\<rparr>) l)"
  by (simp add: ws_inv_def base_def)

lemma release_flight:
  assumes "health_inv h" "idx < length (up_peers (ur_up u))"
    "h1 = inc_in_flight h (up_name (ur_up u)) (pr_addr (up_peers (ur_up u) ! idx))"
  shows "flight (release_peer h1 u idx) = flight h" "health_inv (release_peer h1 u idx)"
proof -
  let ?n = "up_name (ur_up u)" and ?a = "pr_addr (up_peers (ur_up u) ! idx)"
  have "flight (dec_in_flight (inc_in_flight h ?n ?a) ?n ?a) v b = flight h v b" for v b
    unfolding dec_in_flight_def flight_update_in_flight [OF health_inv_ops(3) [OF assms(1)]]
    unfolding inc_in_flight_def flight_update_in_flight [OF assms(1)] by simp
  then show "flight (release_peer h1 u idx) = flight h" using assms by (simp add: release_peer_def fun_eq_iff)
  show "health_inv (release_peer h1 u idx)" using assms by (simp add: release_peer_def health_inv_ops)
qed

text \<open>The three ends of a handshake with the peer just picked.\<close>

lemma ws_failed_spec:
  assumes "ws_inv l0 l" "sent_from l idx k l2" "k \<noteq> None"
  shows "ws_inv l0 (ws_failed now idx l2)" "ls_sent (ws_failed now idx l2) = ls_sent l2"
proof -
  let ?a = "pr_addr (up_peers (up_of l) ! idx)"
  obtain l1 where p: "picked l idx l1" and l1: "ls_health l2 = ls_health l1" "ls_up l2 = ls_up l1"
    "ls_events l2 = ls_events l1" "sess_inv (ls_session l2)" "ss_peers (ls_session l2) = ss_peers (ls_session l1)"
    "rc_tried (ss_ctx (ls_session l2)) = rc_tried (ss_ctx (ls_session l1))"
    and s: "ls_sent l2 = ls_sent l @ [(?a, k)]"
    using assms(2) by (auto simp: sent_from_def)
  have h: "health_inv (ls_health l)" "idx < length (up_peers (up_of l2))" "up_of l2 = up_of l" "up_of l = up_of l0"
    using assms(1) p l1 by (auto simp: ws_inv_def base_def picked_def)
  have "ls_health l2 = inc_in_flight (ls_health l) (up_name (up_of l2)) (pr_addr (up_peers (up_of l2) ! idx))"
    using p l1(1) h by (simp add: picked_def)
  note rel = released_flight(2,4) [OF h(1,2) this]
  have tried: "rc_tried (ss_ctx (ls_session l2)) = map fst (ls_sent l)" "?a \<notin> set (map fst (ls_sent l))"
    using assms(1) p l1(6) by (auto simp: ws_inv_def picked_def)
  have "walk_ok (up_of l0) (ls_sent l @ [(?a, k)])"
    using assms(1) h tried(2) by (intro walk_ok_snoc) (auto simp: ws_inv_def)
  then show "ws_inv l0 (ws_failed now idx l2)"
    using assms(1,3) p l1 h rel tried s
    by (auto simp: ws_failed_def ws_inv_def base_def picked_def mark_tried_def)
  show "ls_sent (ws_failed now idx l2) = ls_sent l2" by (simp add: ws_failed_def)
qed

lemma ws_answered_spec:
  assumes "ws_inv l0 l" "sent_from l idx None l2"
  shows "ws_spec l0 (WsAnswered (l2\<lparr>ls_health := release_peer (ls_health l2) (ls_up l2) idx\<rparr>) idx now resp)"
proof -
  let ?a = "pr_addr (up_peers (up_of l) ! idx)"
  obtain l1 where p: "picked l idx l1" and l1: "ls_health l2 = ls_health l1" "ls_up l2 = ls_up l1"
    "ls_events l2 = ls_events l1" "sess_inv (ls_session l2)" "ss_peers (ls_session l2) = ss_peers (ls_session l1)"
    and s: "ls_sent l2 = ls_sent l @ [(?a, None)]"
    using assms(2) by (auto simp: sent_from_def)
  have h: "health_inv (ls_health l)" "idx < length (up_peers (up_of l2))" "up_of l2 = up_of l" "up_of l = up_of l0"
    using assms(1) p l1 by (auto simp: ws_inv_def base_def picked_def)
  have "ls_health l2 = inc_in_flight (ls_health l) (up_name (up_of l2)) (pr_addr (up_peers (up_of l2) ! idx))"
    using p l1(1) h by (simp add: picked_def)
  note rel = release_flight [OF h(1,2) this]
  have "walk_ok (up_of l0) (ls_sent l @ [(?a, None)])"
    using assms(1) p h by (intro walk_ok_snoc) (auto simp: ws_inv_def picked_def)
  then show ?thesis
    using assms(1) p l1 h rel s by (auto simp: ws_spec_def ws_inv_def base_def picked_def)
qed

lemma handshake_spec:
  assumes "ws_inv l0 l" "picked l idx l1" "names_ok E (up_of l0)"
  shows "\<exists>st. handshake E rq timeout a idx l1 = Return st \<and> ws_ok (en_http E) rq l0 st
    \<and> (\<forall>l'. st = WsAgain l' \<longrightarrow> length (ls_sent l') = Suc (length (ls_sent l)))"
proof -
  define la where "la = on_ctx (\<lambda>c. c\<lparr>rc_attempts := rc_attempts c + 1, rc_peer_index := Some (of_nat idx)\<rparr>) l1"
  have up: "up_of la = up_of l0" "up_of l = up_of l0" "idx < length (up_peers (up_of l0))"
    using assms(1,2) by (auto simp: la_def ws_inv_def base_def picked_def)
  let ?peer = "up_peers (up_of l0) ! idx"
  show ?thesis
  proof (cases "outbound (en_http E) rq (client_ip (ss_ctx (ls_session la))) (up_of l0) ?peer")
    case None
    then have "\<not> buildable (en_http E) rq (up_of l0)"
      using up(3) by (auto simp: outbound_def buildable_def Let_def split: if_splits)
    moreover have "\<exists>l' r. handshake E rq timeout a idx l1 = Return (WsReturned l' r)"
      unfolding handshake_def Let_def la_def [symmetric] up(1) None by simp
    ultimately show ?thesis by (auto simp: ws_ok_def)
  next
    case out: (Some out)
    have "up_peers (up_of l0) \<noteq> []" using up by auto
    from dial_total [OF assms(3) this] obtain pool r
      where d: "dial (en_net E a) (ls_pool la) (up_of l0) ?peer out = Return (pool, r)" by blast
    define k where "k = outcome_kind (timeout \<noteq> None \<and> en_timeout E a) (map_err classify r)"
    define l2 where "l2 = la\<lparr>ls_pool := pool, ls_sent := ls_sent la @ [(pr_addr ?peer, k)]\<rparr>"
    have sf: "sent_from l idx k l2"
      using assms(2) up by (auto simp: sent_from_def picked_def l2_def la_def intro!: exI [of _ l1])
    have run: "handshake E rq timeout a idx l1 = Return
        (if timeout \<noteq> None \<and> en_timeout E a then WsAgain (ws_failed (en_now E a 2) idx l2)
         else case r of Inl e \<Rightarrow> WsAgain (ws_failed (en_now E a 2) idx l2)
              | Inr resp \<Rightarrow> WsAnswered (l2\<lparr>ls_health := release_peer (ls_health l2) (ls_up l2) idx\<rparr>) idx (en_now E a 2) resp)"
      unfolding handshake_def Let_def la_def [symmetric] up(1) out l2_def k_def by (cases r) (simp_all add: d)
    have len: "length (ls_sent l2) = Suc (length (ls_sent l))" using sf by (simp add: sent_from_def)
    show ?thesis
    proof (cases k)
      case None
      then obtain resp where r: "r = Inr resp" and t: "\<not> (timeout \<noteq> None \<and> en_timeout E a)"
        by (auto simp: k_def outcome_kind_def split: if_splits sum.splits)
      from sf None have "sent_from l idx None l2" by simp
      from ws_answered_spec [OF assms(1) this] show ?thesis unfolding run if_not_P [OF t] r by (simp add: ws_ok_def)
    next
      case (Some f)
      then have "handshake E rq timeout a idx l1 = Return (WsAgain (ws_failed (en_now E a 2) idx l2))"
        unfolding run by (cases r) (auto simp: k_def outcome_kind_def split: if_splits)
      then show ?thesis using ws_failed_spec [OF assms(1) sf] Some len by (simp add: ws_ok_def ws_spec_def)
    qed
  qed
qed

lemma ws_once_spec:
  assumes "ws_inv l0 l" "weighted (ls_up l0)" "names_ok E (up_of l0)"
  shows "\<exists>st. ws_once E rq timeout a l = Return st \<and> ws_ok (en_http E) rq l0 st
    \<and> (\<forall>l'. st = WsAgain l' \<longrightarrow> length (ls_sent l') = Suc (length (ls_sent l)))"
proof -
  define la where "la = on_ctx (\<lambda>c. c\<lparr>rc_peer_index := None\<rparr>) l"
  have la: "ws_inv l0 la" unfolding la_def by (rule ws_inv_on_ctx [OF assms(1)])
  have sent: "ls_sent la = ls_sent l" by (simp add: la_def)
  have w: "weighted (ls_up la)" and inv: "sess_inv (ls_session la)"
    using la assms(2) by (simp_all add: ws_inv_def base_def weighted_def)
  obtain h u s p where pk: "pick_peer (en_wasm E) (en_now E a) (ls_health la) (ls_up la) (ls_session la) = Return (h, u, s, p)"
    and s: "sess_inv s" "ur_up u = up_of la" "frozen (ss_ctx s) = frozen (ss_ctx (ls_session la))"
      "ss_peers s = ss_peers (ls_session la)"
    and p: "case p of
          PickPeer i \<Rightarrow> i < length (up_peers (up_of la))
            \<and> pr_addr (up_peers (up_of la) ! i) \<notin> set (rc_tried (ss_ctx (ls_session la)))
            \<and> h = inc_in_flight (ls_health la) (up_name (up_of la)) (pr_addr (up_peers (up_of la) ! i))
        | PickDeny c \<Rightarrow> h = ls_health la
        | PickNone \<Rightarrow> h = ls_health la"
    using pick_peer_total [OF w inv, of "en_wasm E" "en_now E a" "ls_health la"]
    by (fastforce split: pick.splits)
  let ?l = "la\<lparr>ls_health := h, ls_up := u, ls_session := s\<rparr>"
  have once: "ws_once E rq timeout a l = (case p of
            PickPeer idx \<Rightarrow> handshake E rq timeout a idx ?l
          | PickDeny c \<Rightarrow> Return (WsReturned (finish E c ?l) (text_response (en_http E) c (status_line c)))
          | PickNone \<Rightarrow> Return (WsReturned (finish E 502 ?l) (text_response (en_http E) 502 (''502 no healthy upstream'' @ newline))))"
    unfolding ws_once_def Let_def la_def [symmetric] pk by (simp only: rust.case prod.case)
  have tried: "rc_tried (ss_ctx s) = rc_tried (ss_ctx (ls_session la))" using s(3) by (simp add: frozen_def)
  have keep: "ws_inv l0 ?l" if "h = ls_health la"
    using la s tried that by (simp add: ws_inv_def base_def)
  have ret: "ws_ok (en_http E) rq l0 (WsReturned (finish E c ?l) r)" if "h = ls_health la" for c r
    unfolding ws_ok_def by (rule disjI1) (rule WsReturned_spec [OF keep [OF that]])
  show ?thesis
  proof (cases p)
    case (PickPeer i)
    then have "picked la i ?l" using p s tried by (simp add: picked_def)
    from handshake_spec [OF la this assms(3)] show ?thesis using once PickPeer sent by simp
  next
    case (PickDeny c)
    then show ?thesis using once p ret by simp
  next
    case PickNone
    then show ?thesis using once p ret by simp
  qed
qed

text \<open>Each round but the last takes an address out of play, so the walk ends.\<close>

lemma ws_loop_spec:
  assumes "ws_inv l0 l" "weighted (ls_up l0)" "names_ok E (up_of l0)"
  shows "\<exists>st. ws_loop E rq timeout a l = Some (Return st) \<and> ws_ok (en_http E) rq l0 st \<and> (\<forall>l'. st \<noteq> WsAgain l')"
  using assms(1)
proof (induction "length (up_peers (up_of l0)) - length (ls_sent l)" arbitrary: l a rule: less_induct)
  case less
  obtain st where st: "ws_once E rq timeout a l = Return st" "ws_ok (en_http E) rq l0 st"
    and len: "\<forall>l'. st = WsAgain l' \<longrightarrow> length (ls_sent l') = Suc (length (ls_sent l))"
    using ws_once_spec [OF less.prems assms(2,3)] by blast
  show ?case
  proof (cases st)
    case (WsAgain l')
    then have inv: "ws_inv l0 l'" using st(2) by (simp add: ws_ok_def ws_spec_def)
    then have "length (ls_sent l') \<le> length (up_peers (up_of l0))"
      using walk_ok_length by (auto simp: ws_inv_def)
    then have "length (up_peers (up_of l0)) - length (ls_sent l') < length (up_peers (up_of l0)) - length (ls_sent l)"
      using len WsAgain by simp
    from less.hyps [OF this inv] show ?thesis
      using st(1) WsAgain by (simp add: ws_loop.simps [of E rq timeout a])
  qed (use st in \<open>simp_all add: ws_loop.simps [of E rq timeout a]\<close>)
qed

section \<open>Header policy\<close>

lemma append_headers_append: "append_headers H (xs @ ys) m = append_headers H ys (append_headers H xs m)"
  by (induction H xs m rule: append_headers.induct) (auto split: option.splits sum.splits)

text \<open>The end-to-end headers of a handshake are those of a forwarded request.\<close>

lemma append_headers_copy:
  "append_headers H (filter (\<lambda>(name, _). \<not> (eq_ignore_ascii_case name ''host'' \<or> eq_ignore_ascii_case name ''x-forwarded-for''))
       (strip_hop_by_hop hs)) m = copy_headers H hs m"
  by (induction hs arbitrary: m) (auto simp: strip_hop_by_hop_def skipped_def split: option.splits sum.splits)

definition header_value_list :: "('m, 'v) http_lib \<Rightarrow> rstr \<Rightarrow> 'v list" where
  "header_value_list H s = (case hl_value H s of Inr v \<Rightarrow> [v] | Inl _ \<Rightarrow> [])"

text \<open>The names the handshake sets are accepted as they are by \<open>HeaderName\<close>.\<close>

definition handshake_names :: "('m, 'v) http_lib \<Rightarrow> bool" where
  "handshake_names H \<longleftrightarrow> list_all (\<lambda>n. hl_name H n = Some n) [''host'', ''connection'', ''upgrade'', ''x-forwarded-for'']"

lemma append_one:
  assumes "http_laws H" "hl_name H k = Some k"
  shows "hl_get_all H (append_headers H [(k, s)] m) n = hl_get_all H m n @ (if n = k then header_value_list H s else [])"
  using assms by (cases "hl_value H s") (auto simp: header_value_list_def http_laws_def)

lemma handshake_header_values:
  assumes "http_laws H" "handshake_names H"
  shows "hl_get_all H (append_headers H (handshake_headers hs peer_addr client) (hl_empty H)) n =
    (if n = ''host'' then header_value_list H peer_addr
     else if n = ''connection'' then header_value_list H ''upgrade''
     else if n = ''upgrade'' then header_value_list H ''websocket''
     else if n = ''x-forwarded-for'' then header_value_list H (merge_xff hs client)
     else kept_values H n hs)"
proof -
  have split: "handshake_headers hs peer_addr client =
     filter (\<lambda>(name, _). \<not> (eq_ignore_ascii_case name ''host'' \<or> eq_ignore_ascii_case name ''x-forwarded-for'')) (strip_hop_by_hop hs)
     @ [(''host'', peer_addr)] @ [(''connection'', ''upgrade'')] @ [(''upgrade'', ''websocket'')]
     @ [(''x-forwarded-for'', merge_xff hs client)]"
    by (simp add: handshake_headers_def CONNECTION_UPGRADE_def UPGRADE_WEBSOCKET_def)
  have nm: "hl_name H ''host'' = Some ''host''" "hl_name H ''connection'' = Some ''connection''"
    "hl_name H ''upgrade'' = Some ''upgrade''" "hl_name H ''x-forwarded-for'' = Some ''x-forwarded-for''"
    using assms(2) by (simp_all add: handshake_names_def)
  have empty: "hl_get_all H (hl_empty H) n = []" for n using assms(1) by (simp add: http_laws_def)
  have hop: "kept_values H ''connection'' hs = []" "kept_values H ''upgrade'' hs = []"
    by (simp_all add: kept_values_hop [OF assms(1)] HOP_BY_HOP_def)
  note one = append_one [OF assms(1) nm(1)] append_one [OF assms(1) nm(2)] append_one [OF assms(1) nm(3)]
    append_one [OF assms(1) nm(4)]
  show ?thesis
    unfolding split append_headers_append append_headers_copy one copy_headers_get_all [OF assms(1)] empty
    by (simp add: hop)
qed

section \<open>A request that ends in the WebSocket proxy\<close>

fun ws_state :: "('g, 'm, 'cert, 'sk) ws_outcome \<Rightarrow> ('g, 'cert, 'sk) lstate" where
  "ws_state (WsRefused l r) = l"
| "ws_state (WsSwitched l r) = l"

text \<open>
  Relative to the state \<open>l0\<close>: an answered handshake leaves the access log to the tunnel task, every other
  end writes its line.
\<close>

definition ws_end :: "('g, 'cert, 'sk) lstate \<Rightarrow> ('g, 'm, 'cert, 'sk) ws_outcome \<Rightarrow> bool" where
  "ws_end l0 out \<longleftrightarrow>
     base l0 (ws_state out) \<and> walk_ok (up_of l0) (ls_sent (ws_state out))
     \<and> (case out of
          WsRefused l r \<Rightarrow> \<exists>e. log_lines (ls_events l) = log_lines (ls_events l0) @ [e]
        | WsSwitched l r \<Rightarrow> rs_status r = 101 \<and> (\<exists>front a. ls_sent l = front @ [(a, None)])
            \<and> log_lines (ls_events l) = log_lines (ls_events l0))"

lemma base_record_success: "base l0 l \<Longrightarrow> base l0 (l\<lparr>ls_health := record_success (ls_health l) n i now\<rparr>)"
  by (simp add: base_def health_inv_ops flight_records fun_eq_iff)

lemma WsRefused_end:
  assumes "base l0 l" "walk_ok (up_of l0) (ls_sent l)" "log_lines (ls_events l) = log_lines (ls_events l0)"
  shows "ws_end l0 (WsRefused (finish E c l) r)"
  using assms base_finish [OF assms(1)] finish_log_lines [of E c l] by (auto simp: ws_end_def)

lemma ws_answer_end:
  assumes "ws_spec l0 (WsAnswered l idx now resp)"
  shows "ws_end l0 (ws_answer E display idx now resp l)"
proof -
  have b: "base l0 l" "base l0 (l\<lparr>ls_health := record_success (ls_health l) (up_name (up_of l)) idx now\<rparr>)"
    using assms base_record_success by (auto simp: ws_spec_def)
  have w: "walk_ok (up_of l0) (ls_sent l)" "\<exists>front a. ls_sent l = front @ [(a, None)]"
    "log_lines (ls_events l) = log_lines (ls_events l0)"
    using assms by (auto simp: ws_spec_def)
  show ?thesis
    using b w WsRefused_end [OF b(1) w(1,3)] WsRefused_end [OF b(2)]
    by (auto simp: ws_answer_def Let_def ws_end_def split: option.splits)
qed

lemma pre_loop_ws_inv: "pre_loop l0 l \<Longrightarrow> ws_inv l0 l"
  by (simp add: pre_loop_def ws_inv_def walk_ok_def)

lemma proxy_websocket_spec:
  assumes "pre_loop l0 l" "weighted (ls_up l0)" "names_ok E (up_of l0)"
  shows "\<exists>out. proxy_websocket E display rq timeout l = Some (Return out)
    \<and> (buildable (en_http E) rq (up_of l0) \<longrightarrow> ws_end l0 out)"
proof (cases "rq_http2 rq")
  case True
  have "ws_end l0 (WsRefused (finish E 502 l) r)" for r
    using assms(1) by (intro WsRefused_end) (auto simp: pre_loop_def walk_ok_def)
  then show ?thesis unfolding proxy_websocket_def if_P [OF True] by blast
next
  case False
  obtain st where st: "ws_loop E rq timeout 0 l = Some (Return st)" "ws_ok (en_http E) rq l0 st" "\<forall>l'. st \<noteq> WsAgain l'"
    using ws_loop_spec [OF pre_loop_ws_inv [OF assms(1)] assms(2,3)] by blast
  then show ?thesis
  proof (cases st)
    case (WsAnswered l' idx now resp)
    then show ?thesis using False st by (auto simp: proxy_websocket_def ws_ok_def intro: ws_answer_end)
  next
    case (WsReturned l' r)
    then have "buildable (en_http E) rq (up_of l0) \<longrightarrow> ws_end l0 (WsRefused l' r)"
      using st(2) by (auto simp: ws_ok_def ws_spec_def ws_end_def)
    then show ?thesis using False st(1) WsReturned by (simp add: proxy_websocket_def)
  qed simp
qed

lemma run_ws_log_lines: "log_lines (snd (run_ws_log W s)) = log_lines (snd s)"
  by (simp add: run_ws_log_def Let_def split: prod.splits)

lemma ws_tunnel_once:
  "fst (ws_tunnel W up1 up2 copied s) = run_ws_log W s"
  "snd (ws_tunnel W up1 up2 copied s) \<noteq> None \<longleftrightarrow> up1 = None \<and> up2 = None"
  by (auto simp: ws_tunnel_def Let_def split: option.splits)

text \<open>
  A handshake whose outbound request cannot be built returns without releasing the slot it took: the
  in-flight gauge of the picked peer stays one higher.
\<close>

lemma unbuildable_keeps_slot:
  assumes "ws_inv l0 l" "picked l idx l1"
    "outbound (en_http E) rq (client_ip (ss_ctx (ls_session l1))) (up_of l1) (up_peers (up_of l1) ! idx) = None"
    "registered (ls_health l0) (up_name (up_of l0)) (pr_addr (up_peers (up_of l0) ! idx))"
    "registered (ls_health l) = registered (ls_health l0)"
  obtains l' r where "handshake E rq timeout a idx l1 = Return (WsReturned l' r)"
    "flight (ls_health l') (up_name (up_of l0)) (pr_addr (up_peers (up_of l0) ! idx))
       = Suc (flight (ls_health l0) (up_name (up_of l0)) (pr_addr (up_peers (up_of l0) ! idx)))"
proof -
  define la where "la = on_ctx (\<lambda>c. c\<lparr>rc_attempts := rc_attempts c + 1, rc_peer_index := Some (of_nat idx)\<rparr>) l1"
  have up: "up_of l1 = up_of l0" "up_of l = up_of l0" "up_of la = up_of l1" "ls_health la = ls_health l1"
    "client_ip (ss_ctx (ls_session la)) = client_ip (ss_ctx (ls_session l1))"
    using assms(1,2) by (simp_all add: ws_inv_def base_def picked_def la_def client_ip_def)
  have "handshake E rq timeout a idx l1 = Return (WsReturned (finish E 502 la)
      (text_response (en_http E) 502 (''502 bad request'' @ newline)))"
    unfolding handshake_def Let_def la_def [symmetric] using assms(3) by (simp add: up)
  moreover have "health_inv (ls_health l)" "flight (ls_health l) = flight (ls_health l0)"
    using assms(1) by (simp_all add: ws_inv_def base_def)
  then have "flight (ls_health (finish E 502 la)) (up_name (up_of l0)) (pr_addr (up_peers (up_of l0) ! idx))
       = Suc (flight (ls_health l0) (up_name (up_of l0)) (pr_addr (up_peers (up_of l0) ! idx)))"
    using assms(2,4,5) up by (simp add: picked_def inc_in_flight_def flight_update_in_flight)
  ultimately show ?thesis by (rule that)
qed

text \<open>Every request is served, WebSocket upgrades included, whatever can be built.\<close>

lemma run_request_total:
  assumes "app_inv st" "\<forall>n u. as_upstreams st n = Some u \<longrightarrow> names_ok E (ur_up u)"
  shows "\<exists>out label. run_request E display now st rq = Some (Return (out, label))"
proof -
  obtain out label where h: "handle_request E now st rq = Return (out, label)"
    using handle_request_total [OF assms] by blast
  show ?thesis
  proof (cases out)
    case (Upgraded l timeout)
    from h [unfolded Upgraded] assms(1) obtain i u l0 where "as_upstreams st (rt_upstream (as_routes st ! i)) = Some u"
      "ls_up l0 = u" "pre_loop l0 l"
      by (cases rule: handle_request_spec) (auto simp: outcome_spec_def)
    then have "\<exists>w. proxy_websocket E display rq timeout l = Some (Return w)"
      using assms proxy_websocket_spec [of l0 l E display rq timeout] by (auto simp: app_inv_def)
    then show ?thesis using h Upgraded by (auto simp: run_request_def)
  qed (use h in \<open>simp_all add: run_request_def\<close>)
qed

section \<open>Properties\<close>


definition sample_ws_app :: "(nat, nat) app_state" where
  "sample_ws_app = sample_app\<lparr>as_plugins := []\<rparr>"

definition sample_ws_rq :: "rstr request" where
  "sample_ws_rq = sample_rq\<lparr>rq_method := ''GET'', rq_headers := [(''connection'', ''upgrade''), (''upgrade'', ''websocket'')]\<rparr>"

lemma sample_ws_app_inv: "app_inv sample_ws_app"
  using sample_app_inv by (simp add: app_inv_def sample_ws_app_def sample_app_def)

lemma sample_ws_upgrade: "is_websocket_upgrade ''GET'' [(''connection'', ''upgrade''), (''upgrade'', ''websocket'')]"
proof -
  have "trim ''upgrade'' = ''upgrade''" "trim ''websocket'' = ''websocket''"
    by (rule trim_solid, simp add: graphic_solid graphic_def)+
  then show ?thesis
    by (simp add: is_websocket_upgrade_def tokens_def header_value_def eq_ignore_ascii_case_def to_ascii_lowercase_def
        ascii_lower_char_def is_ascii_upper_def)
qed

lemma sample_ws_handed_over:
  "\<exists>l. handle_request sample_hr_env 5 sample_ws_app sample_ws_rq = Return (Upgraded l None, Some ''/'')
    \<and> up_of l = ur_up (sample_upstream Swrr)"
proof -
  have quiet: "run_phase W ph (session_new [] c pv) = (session_new [] c pv, Declined)" for W :: "unit wasm_env" and ph c pv
    by (simp add: run_phase_def session_new_def)
  have route: "match_route (as_routes sample_ws_app) h ''/x'' = Some 0" for h
    by (simp add: sample_ws_app_def sample_app_def match_route_def path_in_class_def sample_route_def host_matches_def)
  have app: "as_plugins sample_ws_app = []" "as_routes sample_ws_app = [sample_route ''/'' None False]"
    "as_upstreams sample_ws_app ''u'' = Some (sample_upstream Swrr)"
    by (simp_all add: sample_ws_app_def sample_app_def)
  have hs: "fold_h2_authority (visible_headers (en_http sample_hr_env) (rq_headers sample_ws_rq)) (rq_authority sample_ws_rq)
     = [(''connection'', ''upgrade''), (''upgrade'', ''websocket'')]"
    by (simp add: sample_ws_rq_def sample_rq_def sample_hr_env_def sample_http_lib_def fold_h2_authority_def Let_def
        eq_ignore_ascii_case_def to_ascii_lowercase_def ascii_lower_char_def is_ascii_upper_def)
  have rq: "rq_path sample_ws_rq = ''/x''" "rq_method sample_ws_rq = ''GET''"
    by (simp_all add: sample_ws_rq_def sample_rq_def)
  show ?thesis
    unfolding handle_request_def Let_def hs rq route
    by (simp add: app sample_route_def gate_phase_def quiet make_req_ctx_def session_new_def [symmetric] route_timeout_def)
      (simp add: session_new_def sample_ws_upgrade)
qed


end
