(* ===== verification/AdminPlane.thy ===== *)
theory AdminPlane
  imports Gateway Metrics Websocket
begin

text \<open>
  The management plane: the token guard (\<open>crates/openrusty-server/src/admin_auth.rs\<close>), the endpoints and
  routers (\<open>app.rs\<close>), the placement of the routers on the listeners (\<open>listeners.rs\<close>) and graceful
  shutdown (\<open>shutdown.rs\<close>). Arguments: what the outside answers, time, and the percent decoding
  of a path segment.
\<close>

unbundle bit_operations_syntax

section \<open>The token guard\<close>

definition ALWAYS_OPEN :: "rstr list" where
  "ALWAYS_OPEN = [''/openrusty/ready'', ''/openrusty/live'']"

definition is_always_open :: "rstr \<Rightarrow> bool" where
  "is_always_open path = (path \<in> set ALWAYS_OPEN)"

text \<open>The first value of a header, when it is visible text.\<close>

definition header_str :: "('m, 'v) http_lib \<Rightarrow> (rstr \<times> 'v) list \<Rightarrow> rstr \<Rightarrow> rstr option" where
  "header_str H headers name = (case map_of headers name of Some v \<Rightarrow> hl_to_str H v | None \<Rightarrow> None)"

definition solid_token :: "rstr option \<Rightarrow> rstr option" where
  "solid_token t = (case map_option trim t of Some x \<Rightarrow> if x = [] then None else Some x | None \<Rightarrow> None)"

definition presented_token :: "('m, 'v) http_lib \<Rightarrow> (rstr \<times> 'v) list \<Rightarrow> rstr option" where
  "presented_token H headers =
     (let bearer =
            (case header_str H headers ''authorization'' of
               None \<Rightarrow> None
             | Some auth \<Rightarrow>
                 solid_token (case strip_prefix auth ''Bearer '' of Some r \<Rightarrow> Some r | None \<Rightarrow> strip_prefix auth ''bearer ''))
      in case bearer of
           Some t \<Rightarrow> Some t
         | None \<Rightarrow> solid_token (header_str H headers ''x-openrusty-token''))"

definition u8_of :: "char \<Rightarrow> u8" where "u8_of c = of_nat (of_char c)"

definition token_eq :: "rstr \<Rightarrow> rstr \<Rightarrow> bool" where
  "token_eq a b =
     (length a = length b \<and> fold (\<lambda>(x, y) acc. acc OR (u8_of x XOR u8_of y)) (zip a b) 0 = 0)"

definition admin_auth :: "('m, 'v) http_lib \<Rightarrow> rstr option \<Rightarrow> rstr \<Rightarrow> (rstr \<times> 'v) list \<Rightarrow> 'r \<Rightarrow> 'r \<Rightarrow> 'r" where
  "admin_auth H expected path headers run refuse =
     (if is_always_open path then run
      else case expected of
        None \<Rightarrow> run
      | Some secret \<Rightarrow>
          (case map_option (\<lambda>p. token_eq p secret) (presented_token H headers) of Some True \<Rightarrow> run | _ \<Rightarrow> refuse))"

section \<open>Shutdown\<close>

record shutdown_signal =
  sg_flag :: bool
  sg_sender_alive :: bool
  sg_in_flight :: nat

definition new_signal :: shutdown_signal where
  "new_signal = \<lparr>sg_flag = False, sg_sender_alive = True, sg_in_flight = 0\<rparr>"

definition is_draining :: "shutdown_signal \<Rightarrow> bool" where
  "is_draining s = (sg_flag s \<or> \<not> sg_sender_alive s)"

definition DRAIN_POLL :: nat where "DRAIN_POLL = 10"

record shutdown_report =
  sh_drained :: nat
  sh_forced :: nat
  sh_elapsed :: nat
  sh_timed_out :: bool
  sh_task_errors :: nat

datatype task_end = TaskOk | TaskError rstr | TaskPanic rstr

definition settle :: "task_end \<Rightarrow> bool" where
  "settle t = (case t of TaskOk \<Rightarrow> True | _ \<Rightarrow> False)"

text \<open>
  An accept task ends at a time, in milliseconds after the signal, or never. The tasks are awaited one
  after the other until the deadline; then the counter is polled. The results are the time the wait
  ends, if it does by the deadline, and the failed tasks seen.
\<close>

fun await_tasks :: "nat \<Rightarrow> (nat option \<times> task_end) list \<Rightarrow> nat \<Rightarrow> nat \<Rightarrow> nat option \<times> nat" where
  "await_tasks deadline [] now errors = (Some now, errors)"
| "await_tasks deadline ((ends, t) # ts) now errors =
     (case ends of
        None \<Rightarrow> (None, errors)
      | Some e \<Rightarrow>
          if deadline < max now e then (None, errors)
          else await_tasks deadline ts (max now e) (if settle t then errors else errors + 1))"

function until_drained :: "(nat \<Rightarrow> nat) \<Rightarrow> nat \<Rightarrow> nat \<Rightarrow> nat option" where
  "until_drained open_conns deadline now =
     (if deadline < now then None
      else if open_conns now = 0 then Some now
      else until_drained open_conns deadline (now + DRAIN_POLL))"
  by auto
termination
  by (relation "measure (\<lambda>(_, deadline, now). Suc deadline - now)") (auto simp: DRAIN_POLL_def)

declare until_drained.simps [simp del]

definition run_shutdown :: "(nat option \<times> task_end) list \<Rightarrow> (nat \<Rightarrow> nat) \<Rightarrow> nat \<Rightarrow> shutdown_report" where
  "run_shutdown tasks open_conns grace =
     (let at_signal = open_conns 0;
          (t, errors) = await_tasks grace tasks 0 0;
          done_at = (case t of None \<Rightarrow> None | Some now \<Rightarrow> until_drained open_conns grace now);
          timed_out = (done_at = None);
          ended = (case done_at of Some now \<Rightarrow> now | None \<Rightarrow> grace);
          remaining = open_conns ended
      in \<lparr>sh_drained = at_signal - remaining, sh_forced = (if timed_out then remaining else 0), sh_elapsed = ended,
          sh_timed_out = timed_out, sh_task_errors = errors\<rparr>)"

text \<open>SIGQUIT: every accept task is awaited, however long it takes; \<open>None\<close> when one never ends.\<close>

fun await_all :: "(nat option \<times> task_end) list \<Rightarrow> nat \<Rightarrow> nat \<Rightarrow> (nat \<times> nat) option" where
  "await_all [] now errors = Some (now, errors)"
| "await_all ((ends, t) # ts) now errors =
     (case ends of
        None \<Rightarrow> None
      | Some e \<Rightarrow> await_all ts (max now e) (if settle t then errors else errors + 1))"

definition run_fast :: "(nat option \<times> task_end) list \<Rightarrow> (nat \<Rightarrow> nat) \<Rightarrow> shutdown_report option" where
  "run_fast tasks open_conns =
     map_option (\<lambda>(ended, errors).
         \<lparr>sh_drained = open_conns 0 - open_conns ended, sh_forced = open_conns ended, sh_elapsed = ended,
          sh_timed_out = False, sh_task_errors = errors\<rparr>)
       (await_all tasks 0 0)"

section \<open>Routers and their placement\<close>

datatype admin_endpoint =
    EpStatus | EpReload | EpMetrics | EpReady | EpLive | EpShutdown
  | EpDynList | EpDynPut rstr | EpDynDelete rstr

datatype plane = AdminOnly | DataOnly | Combined

datatype routed = ToAdmin admin_endpoint | ToDynamic rstr | ToFallback | NotAllowed | Unmatched

text \<open>A \<open>get\<close> route also answers HEAD; \<open>{name}\<close> is one non-empty path segment, percent-decoded.\<close>

definition is_get :: "rstr \<Rightarrow> bool" where "is_get method = (method = ''GET'' \<or> method = ''HEAD'')"

definition segment_after :: "(rstr \<Rightarrow> rstr) \<Rightarrow> rstr \<Rightarrow> rstr \<Rightarrow> rstr option" where
  "segment_after pct path prefix =
     (case strip_prefix path prefix of
        Some s \<Rightarrow> if s \<noteq> [] \<and> CHR ''/'' \<notin> set s then Some (pct s) else None
      | None \<Rightarrow> None)"

definition admin_routes :: "(rstr \<Rightarrow> rstr) \<Rightarrow> bool \<Rightarrow> rstr \<Rightarrow> rstr \<Rightarrow> routed option" where
  "admin_routes pct dynamic method path =
     (let on = (\<lambda>ok ep. Some (if ok then ToAdmin ep else NotAllowed)) in
      if path = ''/openrusty/status'' then on (is_get method) EpStatus
      else if path = ''/openrusty/reload'' then on (method = ''POST'') EpReload
      else if path = ''/openrusty/metrics'' then on (is_get method) EpMetrics
      else if path = ''/openrusty/ready'' then on (is_get method) EpReady
      else if path = ''/openrusty/live'' then on (is_get method) EpLive
      else if path = ''/openrusty/shutdown'' then on (method = ''POST'') EpShutdown
      else if \<not> dynamic then None
      else if path = ''/openrusty/dynamic'' then on (is_get method) EpDynList
      else case segment_after pct path ''/openrusty/dynamic/'' of
        Some name \<Rightarrow>
          if method = ''PUT'' then Some (ToAdmin (EpDynPut name))
          else if method = ''DELETE'' then Some (ToAdmin (EpDynDelete name)) else Some NotAllowed
      | None \<Rightarrow> None)"

definition dynamic_routes :: "(rstr \<Rightarrow> rstr) \<Rightarrow> bool \<Rightarrow> rstr \<Rightarrow> rstr \<Rightarrow> routed option" where
  "dynamic_routes pct dynamic method path =
     (if \<not> dynamic then None
      else case segment_after pct path ''/api/v1/dynamic/'' of
        Some name \<Rightarrow> Some (if method = ''POST'' then ToDynamic name else NotAllowed)
      | None \<Rightarrow> None)"

definition route_request :: "(rstr \<Rightarrow> rstr) \<Rightarrow> plane \<Rightarrow> bool \<Rightarrow> rstr \<Rightarrow> rstr \<Rightarrow> routed" where
  "route_request pct plane dynamic method path =
     (case plane of
        AdminOnly \<Rightarrow> (case admin_routes pct dynamic method path of Some r \<Rightarrow> r | None \<Rightarrow> Unmatched)
      | DataOnly \<Rightarrow> (case dynamic_routes pct dynamic method path of Some r \<Rightarrow> r | None \<Rightarrow> ToFallback)
      | Combined \<Rightarrow>
          (case admin_routes pct dynamic method path of
             Some r \<Rightarrow> r
           | None \<Rightarrow> (case dynamic_routes pct dynamic method path of Some r \<Rightarrow> r | None \<Rightarrow> ToFallback)))"

record mount =
  mo_listener :: listener_config
  mo_plane :: plane
  mo_tls :: bool

definition mounts :: "('cert, 'sk) server \<Rightarrow> listener_config list \<Rightarrow> mount list" where
  "mounts st listeners =
     (let has_admin = list_ex (\<lambda>l. li_role l = Admin_Role) listeners in
      map (\<lambda>l. \<lparr>mo_listener = l,
            mo_plane = (case li_role l of Admin_Role \<Rightarrow> AdminOnly | _ \<Rightarrow> if has_admin then DataOnly else Combined),
            mo_tls = (sr_tls_resolver st \<and> uses_tls l)\<rparr>) listeners)"

definition uses_transparent :: "listener_config \<Rightarrow> bool" where
  "uses_transparent l = (li_transparent l \<and> li_role l \<noteq> Admin_Role)"

definition own_ports :: "listener_config list \<Rightarrow> u16 list" where
  "own_ports listeners = remdups_adj (sort (map (\<lambda>l. port (li_listen l)) listeners))"

datatype loop_kind = TlsLoop | TransparentLoop | HttpLoop

definition accept_loop :: "mount \<Rightarrow> loop_kind" where
  "accept_loop m = (if mo_tls m then TlsLoop else if uses_transparent (mo_listener m) then TransparentLoop else HttpLoop)"

section \<open>The endpoints\<close>

record ('cert, 'sk, 'ck) node =
  nd_gateway :: "('cert, 'sk, 'ck) gateway"
  nd_signal :: shutdown_signal
  nd_metrics :: metrics
  nd_dir :: mod_dir

abbreviation nd_server :: "('cert, 'sk, 'ck) node \<Rightarrow> ('cert, 'sk) server" where
  "nd_server nd \<equiv> gw_server (nd_gateway nd)"

text \<open>The status of a watch loop; the age is of the last success, by the given clock.\<close>

record stats_node =
  sj_generation :: u64
  sj_last_rv :: rstr
  sj_reconnects :: u64
  sj_last_success_age_ms :: "nat option"

definition stats_json :: "nat \<Rightarrow> watch_stats option \<Rightarrow> stats_node" where
  "stats_json clock stats =
     (case stats of
        None \<Rightarrow> \<lparr>sj_generation = 0, sj_last_rv = [], sj_reconnects = 0, sj_last_success_age_ms = None\<rparr>
      | Some s \<Rightarrow> \<lparr>sj_generation = ws_generation s, sj_last_rv = ws_last_rv s, sj_reconnects = ws_reconnects s,
                  sj_last_success_age_ms = map_option (\<lambda>t. clock - t) (ws_last_success s)\<rparr>)"

datatype ingress_node = NodeDisabled | NodeEnabled bool stats_node stats_node

definition status_node :: "nat \<Rightarrow> watch_status \<Rightarrow> ingress_node" where
  "status_node clock s =
     (if \<not> wt_enabled s then NodeDisabled
      else NodeEnabled (wt_watching s) (stats_json clock (wt_ingresses s)) (stats_json clock (wt_secrets s)))"

record upstream_status =
  us_name :: rstr
  us_peers :: nat
  us_healthy :: nat
  us_active_healthy :: nat

record status_view =
  sv_generation :: u64
  sv_uptime_secs :: nat
  sv_plugins :: "(rstr \<times> u64) list"
  sv_routes :: nat
  sv_upstreams :: "upstream_status list"
  sv_ingress :: ingress_node

definition upstream_status_of :: "health_registry \<Rightarrow> u64 \<Rightarrow> rstr \<times> ('cert, 'sk) upstream_rt \<Rightarrow> upstream_status" where
  "upstream_status_of h now nu = (case nu of (name, u) \<Rightarrow>
     \<lparr>us_name = name, us_peers = length (peers_of u),
      us_healthy = length (healthy_indices h name (length (peers_of u)) now),
      us_active_healthy =
        (if hc_active (up_health (ur_up u)) \<noteq> None
         then length (filter (\<lambda>(n, _, ok). n = name \<and> ok) (active_peers h)) else length (peers_of u))\<rparr>)"

definition admin_status :: "u64 \<Rightarrow> nat \<Rightarrow> nat \<Rightarrow> ('cert, 'sk, 'ck) node \<Rightarrow> status_view" where
  "admin_status now uptime clock nd =
     (let st = nd_server nd; rt = sr_runtime st in
      \<lparr>sv_generation = rn_generation rt, sv_uptime_secs = uptime, sv_plugins = registry_status (sr_registry st),
       sv_routes = length (rn_routes rt),
       sv_upstreams = sort_key us_name (map (upstream_status_of (sr_health st) now) (rn_upstreams rt)),
       sv_ingress = status_node clock (gw_status (nd_gateway nd))\<rparr>)"

definition peer_gauges :: "health_registry \<Rightarrow> u64 \<Rightarrow> (rstr \<times> ('cert, 'sk) upstream_rt) list \<Rightarrow> (rstr \<times> rstr \<times> bool) list" where
  "peer_gauges h now ups =
     concat (map (\<lambda>(name, u).
         map (\<lambda>(i, p). (name, addr_to_string (pr_addr p), is_healthy h name i now)) (List.enumerate 0 (peers_of u)))
       (sort_key fst ups))"

definition metrics_endpoint :: "u64 \<Rightarrow> ('cert, 'sk, 'ck) node \<Rightarrow> rstr" where
  "metrics_endpoint now nd =
     (let st = nd_server nd; view = metric_view (sr_registry st) in
      render_metrics (nd_metrics nd) (peer_gauges (sr_health st) now (rn_upstreams (sr_runtime st)))
        (map (\<lambda>(plugin, _, n). (plugin, of_nat n)) view)
        (concat (map (\<lambda>(plugin, kinds, _). map (\<lambda>(kind, n). (plugin, kind, n)) kinds) view)))"

datatype admin_resp =
    RespText u16 rstr
  | RespState u16 rstr
  | RespReload u64 "rstr list"
  | RespError u16 rstr
  | RespReloadFailed fail_reason
  | RespStatus status_view
  | RespMetrics rstr
  | RespDynamic admin_reply

fun ip_is_loopback :: "ip_addr \<Rightarrow> bool" where
  "ip_is_loopback (IpV4 a b c d) = (a = 127)"
| "ip_is_loopback (IpV6 ws) = (ws = [0, 0, 0, 0, 0, 0, 0, 1])"

definition reload_endpoint ::
  "('cert, 'key, 'sk) outside \<Rightarrow> config_file \<Rightarrow> rstr option \<Rightarrow> socket_addr \<Rightarrow> ('cert, 'sk) server
   \<Rightarrow> (('cert, 'sk) server \<times> admin_resp) rust" where
  "reload_endpoint Q input env remote st =
     (if \<not> ip_is_loopback (ip remote) then Return (st, RespText 403 (''403 loopback only'' @ newline))
      else rust_map (\<lambda>(st', r).
          (st', case r of
                  Inr report \<Rightarrow> RespReload (rp_generation report) (rp_plugins report)
                | Inl InFlight \<Rightarrow> RespError 409 ''reload already in progress''
                | Inl (Failed e) \<Rightarrow> RespReloadFailed e))
        (reload Q input env st))"

definition ready :: "('cert, 'sk, 'ck) node \<Rightarrow> admin_resp" where
  "ready nd = (if is_draining (nd_signal nd) then RespState 503 ''draining'' else RespState 200 ''ready'')"

definition live_endpoint :: admin_resp where "live_endpoint = RespState 200 ''live''"

definition shutdown_endpoint :: "('cert, 'sk, 'ck) node \<Rightarrow> ('cert, 'sk, 'ck) node \<times> admin_resp" where
  "shutdown_endpoint nd = (nd\<lparr>nd_signal := (nd_signal nd)\<lparr>sg_flag := True\<rparr>\<rparr>, RespState 200 ''shutting down'')"

text \<open>What the outside answers while an admin request runs.\<close>

record ('cert, 'key, 'sk) admin_env =
  ae_outside :: "('cert, 'key, 'sk) outside"
  ae_file :: config_file
  ae_env_dir :: "rstr option"
  ae_now :: u64
  ae_uptime :: nat
  ae_clock :: nat
  ae_others :: "nat \<Rightarrow> dyn_routes cell \<Rightarrow> dyn_routes cell"
  ae_loader :: loader
  ae_task :: "rstr option"
  ae_write :: "rstr + file_version"
  ae_remove :: "rstr option"
  ae_entries :: "(bool \<times> rstr option) list"
  ae_query :: "rstr \<Rightarrow> rstr option"

definition with_dynamic :: "('cert, 'sk, 'ck) node \<Rightarrow> mod_dir \<times> dyn_routes cell \<times> admin_reply \<Rightarrow> ('cert, 'sk, 'ck) node \<times> admin_resp" where
  "with_dynamic nd r = (case r of (dir, c, ans) \<Rightarrow>
     (nd\<lparr>nd_dir := dir, nd_gateway := (nd_gateway nd)\<lparr>gw_server := (nd_server nd)\<lparr>sr_dynamic_routes := c\<rparr>\<rparr>\<rparr>, RespDynamic ans))"

definition admin_call ::
  "('cert, 'key, 'sk) admin_env \<Rightarrow> 'v request \<Rightarrow> admin_endpoint \<Rightarrow> ('cert, 'sk, 'ck) node
   \<Rightarrow> (('cert, 'sk, 'ck) node \<times> admin_resp) rust" where
  "admin_call A rq ep nd =
     (case ep of
        EpStatus \<Rightarrow> Return (nd, RespStatus (admin_status (ae_now A) (ae_uptime A) (ae_clock A) nd))
      | EpMetrics \<Rightarrow> Return (nd, RespMetrics (metrics_endpoint (ae_now A) nd))
      | EpReady \<Rightarrow> Return (nd, ready nd)
      | EpLive \<Rightarrow> Return (nd, live_endpoint)
      | EpShutdown \<Rightarrow> Return (shutdown_endpoint nd)
      | EpReload \<Rightarrow>
          rust_map (\<lambda>(st, r). (nd\<lparr>nd_gateway := (nd_gateway nd)\<lparr>gw_server := st\<rparr>\<rparr>, r))
            (reload_endpoint (ae_outside A) (ae_file A) (ae_env_dir A) (rq_remote rq) (nd_server nd))
      | EpDynList \<Rightarrow>
          Return (nd, RespDynamic (dyn_list (sr_dynamic (nd_server nd)) (ae_entries A) (cl_val (sr_dynamic_routes (nd_server nd)))))
      | EpDynPut name \<Rightarrow>
          Return (with_dynamic nd (dyn_register (ae_others A) (ae_loader A) (ae_task A) (ae_write A) (sr_dynamic (nd_server nd)) name
            (ae_query A ''method'') (ae_query A ''path'') (rq_to_bytes rq) (nd_dir nd) (sr_dynamic_routes (nd_server nd))))
      | EpDynDelete name \<Rightarrow>
          Return (with_dynamic nd (dyn_unregister (ae_others A) (ae_remove A) (sr_dynamic (nd_server nd)) name
            (nd_dir nd) (sr_dynamic_routes (nd_server nd)))))"

datatype served = Answer admin_resp | RunModule rstr | RunFallback

definition serve_request ::
  "('m, 'v) http_lib \<Rightarrow> (rstr \<Rightarrow> rstr) \<Rightarrow> ('cert, 'key, 'sk) admin_env \<Rightarrow> plane \<Rightarrow> bool \<Rightarrow> 'v request \<Rightarrow> ('cert, 'sk, 'ck) node
   \<Rightarrow> (('cert, 'sk, 'ck) node \<times> served) rust" where
  "serve_request H pct A plane dynamic rq nd =
     (case route_request pct plane dynamic (rq_method rq) (rq_path rq) of
        ToAdmin ep \<Rightarrow>
          admin_auth H (sr_admin_token (nd_server nd)) (rq_path rq) (rq_headers rq)
            (rust_map (\<lambda>(nd', r). (nd', Answer r)) (admin_call A rq ep nd))
            (Return (nd, Answer (RespText 401 (''401 unauthorized'' @ newline))))
      | ToDynamic name \<Rightarrow> Return (nd, RunModule name)
      | ToFallback \<Rightarrow>
          (case route_hit (sr_dynamic (nd_server nd)) (cl_val (sr_dynamic_routes (nd_server nd))) (rq_method rq) (rq_path rq) of
             Some name \<Rightarrow> Return (nd, RunModule name)
           | None \<Rightarrow> Return (nd, RunFallback))
      | NotAllowed \<Rightarrow> Return (nd, Answer (RespText 405 []))
      | Unmatched \<Rightarrow> Return (nd, Answer (RespText 404 [])))"

text \<open>
  The proxy fallback: one request through the pipeline, counted under the label the request was routed
  with; \<open>None\<close> would be a request that is never answered. \<open>elapsed\<close> is the measured duration in seconds.
\<close>

fun served_status :: "('g, 'm, 'cert, 'sk, 'b) request_end \<Rightarrow> u16" where
  "served_status (Proxied (Local r _)) = rs_status r"
| "served_status (Proxied (Replied _ r)) = rs_status r"
| "served_status (Proxied (outcome.Streaming _ status _ _ _)) = status"
| "served_status (Proxied (Upgraded _ _)) = 101"
| "served_status (WebSocket (WsRefused _ r)) = rs_status r"
| "served_status (WebSocket (WsSwitched _ r)) = rs_status r"

definition proxy_fallback ::
  "(rat \<Rightarrow> rat) \<Rightarrow> ('g, 'm, 'v, 'cert, 'sk, 'b) hr_env \<Rightarrow> (u16 \<Rightarrow> rstr) \<Rightarrow> u64 \<Rightarrow> rat \<Rightarrow> 'v request \<Rightarrow> ('cert, 'sk, 'ck) node
   \<Rightarrow> (metrics \<times> ('g, 'm, 'cert, 'sk, 'b) request_end) rust option" where
  "proxy_fallback rnd E display now elapsed rq nd =
     map_option (rust_map (\<lambda>(out, label).
         (record_request_timed rnd (case label of Some l \<Rightarrow> l | None \<Rightarrow> ''unknown'') (served_status out) elapsed (nd_metrics nd), out)))
       (run_request E display now (app_view (nd_server nd)) rq)"

section \<open>Lemmas\<close>

lemma u8_of_inj: "u8_of x = u8_of y \<longleftrightarrow> x = y"
proof -
  have "unat (u8_of z) = of_char z" for z
  proof -
    have "(of_char z :: nat) mod 256 = of_char z" by (rule of_char_mod_256)
    then show ?thesis by (simp add: u8_of_def unat_of_nat)
  qed
  then show ?thesis by (metis of_char_eq_iff)
qed

lemma token_fold: "fold (\<lambda>(x, y) acc. acc OR (u8_of x XOR u8_of y)) ps acc = 0 \<longleftrightarrow> acc = 0 \<and> (\<forall>(x, y) \<in> set ps. x = y)"
proof (induction ps arbitrary: acc)
  case (Cons p ps)
  have "(a OR (b XOR c) = 0) \<longleftrightarrow> (a = 0 \<and> b = c)" for a b c :: u8
    by (metis or_eq_0_iff xor.assoc xor.left_neutral xor.right_neutral xor_self_eq)
  then show ?case using Cons by (auto simp: u8_of_inj split: prod.split)
qed simp

lemma token_eq_iff: "token_eq a b \<longleftrightarrow> a = b"
proof -
  have "length a = length b \<Longrightarrow> (\<forall>(x, y) \<in> set (zip a b). x = y) \<longleftrightarrow> a = b"
    by (induction a b rule: list_induct2) auto
  then show ?thesis by (auto simp: token_eq_def token_fold)
qed

text \<open>What the guard demands.\<close>

definition authorised :: "('m, 'v) http_lib \<Rightarrow> rstr option \<Rightarrow> rstr \<Rightarrow> (rstr \<times> 'v) list \<Rightarrow> bool" where
  "authorised H expected path headers \<longleftrightarrow>
     path \<in> {''/openrusty/ready'', ''/openrusty/live''} \<or> expected = None \<or> presented_token H headers = expected"

lemma admin_auth_iff:
  "admin_auth H expected path headers run refuse = (if authorised H expected path headers then run else refuse)"
  by (auto simp: authorised_def admin_auth_def is_always_open_def ALWAYS_OPEN_def token_eq_iff split: option.split bool.split)

text \<open>Which endpoints a request reaches, and what they can change.\<close>

lemma admin_routes_open:
  "admin_routes pct dynamic method path = Some (ToAdmin ep) \<Longrightarrow> is_always_open path \<Longrightarrow> ep \<in> {EpReady, EpLive}"
  by (auto simp: is_always_open_def ALWAYS_OPEN_def admin_routes_def Let_def split: if_splits)

lemma dynamic_routes_data: "dynamic_routes pct dynamic method path = Some r \<Longrightarrow> \<exists>name. r \<in> {ToDynamic name, NotAllowed}"
  by (auto simp: dynamic_routes_def split: if_splits option.splits)

lemma admin_routes_admin: "admin_routes pct dynamic method path = Some r \<Longrightarrow> (\<exists>ep. r = ToAdmin ep) \<or> r = NotAllowed"
  by (auto simp: admin_routes_def Let_def split: if_splits option.splits)

lemma route_request_admin:
  assumes "route_request pct plane dynamic method path = ToAdmin ep"
  shows "plane \<noteq> DataOnly \<and> admin_routes pct dynamic method path = Some (ToAdmin ep)"
  using assms dynamic_routes_data [of pct dynamic "method" path]
  by (cases plane) (auto simp: route_request_def split: option.splits)

lemma with_dynamic_same: "with_dynamic nd (nd_dir nd, sr_dynamic_routes (nd_server nd), r) = (nd, RespDynamic r)"
  by (simp add: with_dynamic_def)

lemma dyn_register_refused:
  "reg = None \<or> \<not> valid_name name \<Longrightarrow> \<exists>r. dyn_register env L task io reg name m p tb dir c = (dir, c, r)"
  by (auto simp: dyn_register_def split: option.split)

lemma dyn_unregister_refused:
  "reg = None \<or> \<not> valid_name name \<Longrightarrow> \<exists>r. dyn_unregister env io reg name dir c = (dir, c, r)"
  by (auto simp: dyn_unregister_def split: option.split)

definition may_change :: "('cert, 'sk, 'ck) node \<Rightarrow> socket_addr \<Rightarrow> admin_endpoint \<Rightarrow> bool" where
  "may_change nd remote ep =
     (case ep of
        EpShutdown \<Rightarrow> True
      | EpReload \<Rightarrow> ip_is_loopback (ip remote)
      | EpDynPut name \<Rightarrow> valid_name name \<and> sr_dynamic (nd_server nd) \<noteq> None
      | EpDynDelete name \<Rightarrow> valid_name name \<and> sr_dynamic (nd_server nd) \<noteq> None
      | _ \<Rightarrow> False)"

lemma admin_call_frame:
  assumes "admin_call A rq ep nd = Return (nd', r)" "\<not> may_change nd (rq_remote rq) ep"
  shows "nd' = nd"
proof (cases ep)
  case EpReload
  then show ?thesis using assms by (auto simp: admin_call_def may_change_def reload_endpoint_def)
next
  case (EpDynPut name)
  then show ?thesis using assms dyn_register_refused [of "sr_dynamic (nd_server nd)" name "ae_others A" "ae_loader A" "ae_task A" "ae_write A"
      "ae_query A ''method''" "ae_query A ''path''" "rq_to_bytes rq" "nd_dir nd" "sr_dynamic_routes (nd_server nd)"]
    by (auto simp: admin_call_def may_change_def with_dynamic_same)
next
  case (EpDynDelete name)
  then show ?thesis using assms dyn_unregister_refused [of "sr_dynamic (nd_server nd)" name "ae_others A" "ae_remove A" "nd_dir nd" "sr_dynamic_routes (nd_server nd)"]
    by (auto simp: admin_call_def may_change_def with_dynamic_same)
qed (use assms in \<open>auto simp: admin_call_def may_change_def\<close>)

text \<open>The bounded drain.\<close>

lemma until_drained_Some:
  "until_drained open_conns deadline now = Some t \<Longrightarrow> open_conns t = 0 \<and> now \<le> t \<and> t \<le> deadline"
proof (induction open_conns deadline now rule: until_drained.induct)
  case (1 open_conns deadline now)
  then show ?case by (subst (asm) (2) until_drained.simps) (auto split: if_splits)
qed

lemma run_shutdown_spec:
  assumes "run_shutdown tasks open_conns grace = r"
  shows "sh_elapsed r \<le> grace
    \<and> (if sh_timed_out r then sh_elapsed r = grace \<and> sh_forced r = open_conns grace
       else sh_forced r = 0 \<and> sh_drained r = open_conns 0 \<and> open_conns (sh_elapsed r) = 0)"
proof -
  obtain t errors where a: "await_tasks grace tasks 0 0 = (t, errors)" by fastforce
  show ?thesis
    unfolding assms [symmetric] run_shutdown_def a Let_def
    by (auto split: option.split dest: until_drained_Some)
qed

section \<open>Properties\<close>

text \<open>
  C40: the management plane is guarded. With a token configured, an endpoint other than the two probes
  runs only for a request that presents exactly that token, as a bearer credential or in the
  dedicated header, surrounding blanks aside; any other request is answered 401 and changes
  nothing. The node changes only through shutdown, a reload asked for from a loopback address, or the
  registration of a valid module name while modules are enabled; the probes never change it, and
  readiness answers 503 exactly while draining. Data-plane routers never reach an endpoint, and
  once a listener has the admin role no other listener does.
\<close>

theorem admin_plane_guarded:
  assumes "serve_request H pct A plane dynamic rq nd = Return (nd', out)"
  shows "(case route_request pct plane dynamic (rq_method rq) (rq_path rq) of
      ToAdmin ep \<Rightarrow> plane \<noteq> DataOnly
        \<and> (if authorised H (sr_admin_token (nd_server nd)) (rq_path rq) (rq_headers rq)
           then \<exists>r. out = Answer r \<and> admin_call A rq ep nd = Return (nd', r)
           else nd' = nd \<and> out = Answer (RespText 401 (''401 unauthorized'' @ newline)))
        \<and> (nd' \<noteq> nd \<longrightarrow> may_change nd (rq_remote rq) ep \<and> \<not> is_always_open (rq_path rq))
        \<and> (is_always_open (rq_path rq) \<and> ep = EpReady \<longrightarrow> out = Answer (if is_draining (nd_signal nd)
             then RespState 503 ''draining'' else RespState 200 ''ready''))
    | _ \<Rightarrow> nd' = nd \<and> (\<forall>r. out = Answer r \<longrightarrow> r \<in> {RespText 404 [], RespText 405 []}))
   \<and> (\<forall>m \<in> set (mounts (nd_server nd) ls). list_ex (\<lambda>l. li_role l = Admin_Role) ls \<longrightarrow>
        (mo_plane m \<noteq> DataOnly \<longleftrightarrow> li_role (mo_listener m) = Admin_Role))"
proof (rule conjI)
  show "\<forall>m \<in> set (mounts (nd_server nd) ls). list_ex (\<lambda>l. li_role l = Admin_Role) ls \<longrightarrow>
        (mo_plane m \<noteq> DataOnly \<longleftrightarrow> li_role (mo_listener m) = Admin_Role)"
    by (auto simp: mounts_def Let_def split: listener_role.splits)
next
  let ?ok = "authorised H (sr_admin_token (nd_server nd)) (rq_path rq) (rq_headers rq)"
  show "case route_request pct plane dynamic (rq_method rq) (rq_path rq) of
      ToAdmin ep \<Rightarrow> plane \<noteq> DataOnly
        \<and> (if ?ok then \<exists>r. out = Answer r \<and> admin_call A rq ep nd = Return (nd', r)
           else nd' = nd \<and> out = Answer (RespText 401 (''401 unauthorized'' @ newline)))
        \<and> (nd' \<noteq> nd \<longrightarrow> may_change nd (rq_remote rq) ep \<and> \<not> is_always_open (rq_path rq))
        \<and> (is_always_open (rq_path rq) \<and> ep = EpReady \<longrightarrow> out = Answer (if is_draining (nd_signal nd)
             then RespState 503 ''draining'' else RespState 200 ''ready''))
    | _ \<Rightarrow> nd' = nd \<and> (\<forall>r. out = Answer r \<longrightarrow> r \<in> {RespText 404 [], RespText 405 []})"
  proof (cases "route_request pct plane dynamic (rq_method rq) (rq_path rq)")
    case (ToAdmin ep)
    note rt = route_request_admin [OF ToAdmin]
    have op: ?ok if "is_always_open (rq_path rq)" using that by (auto simp: authorised_def is_always_open_def ALWAYS_OPEN_def)
    show ?thesis
    proof (cases ?ok)
      case True
      then obtain r where r: "out = Answer r" "admin_call A rq ep nd = Return (nd', r)"
        using assms by (auto simp: serve_request_def ToAdmin admin_auth_iff)
      have probes: "\<not> may_change nd (rq_remote rq) ep" if "is_always_open (rq_path rq)"
        using admin_routes_open [OF conjunct2 [OF rt] that] by (auto simp: may_change_def)
      have "out = Answer (ready nd)" if "ep = EpReady" using r that by (auto simp: admin_call_def)
      then show ?thesis using True r rt admin_call_frame [OF r(2)] ToAdmin probes by (auto simp: ready_def)
    next
      case False
      then have "nd' = nd" "out = Answer (RespText 401 (''401 unauthorized'' @ newline))" "\<not> is_always_open (rq_path rq)"
        using assms op by (auto simp: serve_request_def ToAdmin admin_auth_iff)
      then show ?thesis using False rt ToAdmin by simp
    qed
  qed (use assms in \<open>auto simp: serve_request_def split: option.splits\<close>)
qed

definition sample_node :: "(nat, nat, nat) node" where
  "sample_node = \<lparr>nd_gateway = sample_gateway\<lparr>gw_server := sample_server\<lparr>sr_admin_token := Some ''s3cret''\<rparr>\<rparr>,
     nd_signal = new_signal, nd_metrics = metrics_new, nd_dir = Map.empty\<rparr>"

definition sample_admin_env :: "(nat, nat, nat) admin_env" where
  "sample_admin_env = \<lparr>ae_outside = sample_outside, ae_file = Parsed sample_config, ae_env_dir = None, ae_now = 5, ae_uptime = 1,
     ae_clock = 9, ae_others = (\<lambda>_ c. c), ae_loader = sample_loader, ae_task = None, ae_write = Inl ''io'', ae_remove = None,
     ae_entries = [], ae_query = (\<lambda>_. None)\<rparr>"

definition shutdown_rq :: "(rstr \<times> rstr) list \<Rightarrow> rstr request" where
  "shutdown_rq headers = sample_rq\<lparr>rq_path := ''/openrusty/shutdown'', rq_headers := headers\<rparr>"

theorem admin_plane_guarded_witness:
  "\<exists>nd'. serve_request sample_http_lib id sample_admin_env Combined False (shutdown_rq [(''x-openrusty-token'', ''s3cret'')]) sample_node
       = Return (nd', Answer (RespState 200 ''shutting down''))
     \<and> nd' \<noteq> sample_node \<and> presented_token sample_http_lib [(''x-openrusty-token'', ''s3cret'')] = Some ''s3cret''
     \<and> (\<exists>r. serve_request sample_http_lib id sample_admin_env Combined False (shutdown_rq []) sample_node = Return (sample_node, Answer r))"
proof -
  have rt: "route_request id Combined False (rq_method (shutdown_rq hs)) (rq_path (shutdown_rq hs)) = ToAdmin EpShutdown" for hs
    by (simp add: route_request_def admin_routes_def shutdown_rq_def sample_rq_def Let_def)
  have tok: "presented_token sample_http_lib [(''x-openrusty-token'', ''s3cret'')] = Some ''s3cret''"
    "presented_token sample_http_lib [] = None"
    by (simp_all add: presented_token_def header_str_def solid_token_def sample_http_lib_def sample_trims)
  have nd: "sr_admin_token (nd_server sample_node) = Some ''s3cret''" by (simp add: sample_node_def)
  let ?on = "fst (shutdown_endpoint sample_node)"
  have s1: "serve_request sample_http_lib id sample_admin_env Combined False (shutdown_rq [(''x-openrusty-token'', ''s3cret'')]) sample_node
      = Return (?on, Answer (RespState 200 ''shutting down''))"
    unfolding serve_request_def rt by (simp add: admin_auth_iff authorised_def nd tok shutdown_rq_def admin_call_def shutdown_endpoint_def)
  have s2: "serve_request sample_http_lib id sample_admin_env Combined False (shutdown_rq []) sample_node
      = Return (sample_node, Answer (RespText 401 (''401 unauthorized'' @ newline)))"
    unfolding serve_request_def rt by (simp add: admin_auth_iff authorised_def nd tok shutdown_rq_def)
  have "sg_flag (nd_signal ?on)" "\<not> sg_flag (nd_signal sample_node)"
    by (simp_all add: shutdown_endpoint_def sample_node_def new_signal_def)
  then have "?on \<noteq> sample_node" by metis
  then show ?thesis using admin_plane_guarded [OF s1, of "[]"] admin_plane_guarded [OF s2, of "[]"] s1 s2 tok(1) unfolding rt by blast
qed

end
