(* ===== verification/Intercept.thy ===== *)
theory Intercept
  imports Detect AdminPlane
begin

text \<open>
  Accepted connections: the accept loop and the connection driver (\<open>crates/openrusty-server/src/h2c.rs\<close>),
  transparent interception (\<open>transparent.rs\<close>, \<open>transparent/prefixed.rs\<close>) and the egress policy
  (\<open>egress.rs\<close>). What \<open>select!\<close> yields round after round, the answers of the socket options, the bytes of
  the probe and the outcome of dialling are arguments; hyper serves a connection, and only the mode
  and the bytes it is handed matter here.
\<close>

section \<open>Connection handling (h2c.rs)\<close>

record conn_timeouts =
  ct_header_read :: nat
  ct_h2_keep_alive_interval :: "nat option"
  ct_h2_keep_alive_timeout :: nat

text \<open>In seconds.\<close>

definition default_conn_timeouts :: conn_timeouts where
  "default_conn_timeouts = \<lparr>ct_header_read = 60, ct_h2_keep_alive_interval = Some 30, ct_h2_keep_alive_timeout = 20\<rparr>"

datatype proto_mode = Auto | ForceHttp1 | ForceHttp2

definition proto_mode_from :: "bool \<Rightarrow> proto_mode" where
  "proto_mode_from http1_only = (if http1_only then ForceHttp1 else Auto)"

text \<open>
  One round of the accept loop: the flag was written, its sender dropped, a connection accepted or
  \<open>accept\<close> failed. The result lists the accepted connections, each of which raises the in-flight
  counter, and whether the loop ended.
\<close>

datatype 'c accept_event = SenderDropped | FlagChanged bool | Accepted 'c | AcceptFailed

fun accept_rounds :: "'c accept_event list \<Rightarrow> shutdown_signal \<Rightarrow> 'c list \<times> shutdown_signal \<times> bool" where
  "accept_rounds [] s = ([], s, False)"
| "accept_rounds (SenderDropped # es) s = ([], s, True)"
| "accept_rounds (FlagChanged b # es) s = (if b then ([], s, True) else accept_rounds es s)"
| "accept_rounds (Accepted c # es) s =
     (case accept_rounds es (s\<lparr>sg_in_flight := sg_in_flight s + 1\<rparr>) of (cs, s', ended) \<Rightarrow> (c # cs, s', ended))"
| "accept_rounds (AcceptFailed # es) s = accept_rounds es s"

definition serve_listener :: "'c accept_event list \<Rightarrow> shutdown_signal \<Rightarrow> 'c list \<times> shutdown_signal \<times> bool" where
  "serve_listener es s = (if is_draining s then ([], s, True) else accept_rounds es s)"

definition conn_finished :: "shutdown_signal \<Rightarrow> shutdown_signal" where
  "conn_finished s = s\<lparr>sg_in_flight := sg_in_flight s - 1\<rparr>"

text \<open>The driver of one connection: how often a graceful drain was started, and whether it completed.\<close>

datatype drive_event = ConnDone | SignalChanged

fun drive_loop :: "bool \<Rightarrow> nat \<Rightarrow> drive_event list \<Rightarrow> nat \<times> bool" where
  "drive_loop shutting drains [] = (drains, False)"
| "drive_loop shutting drains (ConnDone # es) = (drains, True)"
| "drive_loop shutting drains (SignalChanged # es) =
     (if \<not> shutting then drive_loop True (Suc drains) es else drive_loop shutting drains es)"

definition drive :: "shutdown_signal \<Rightarrow> drive_event list \<Rightarrow> nat \<times> bool" where
  "drive s es = drive_loop (is_draining s) 0 es"

section \<open>Prefix re-injection (transparent/prefixed.rs)\<close>

record prefixed_stream =
  ps_prefix :: rstr
  ps_pos :: nat

definition prefixed_new :: "rstr \<Rightarrow> prefixed_stream" where
  "prefixed_new prefix = \<lparr>ps_prefix = prefix, ps_pos = 0\<rparr>"

datatype read_poll = ReadPending | ReadReady rstr | ReadFailed io_error_kind

text \<open>\<open>room\<close> is what remains of the reader's buffer; \<open>inner\<close> is what polling the socket would give.\<close>

definition poll_read :: "prefixed_stream \<Rightarrow> nat \<Rightarrow> read_poll \<Rightarrow> prefixed_stream \<times> read_poll" where
  "poll_read this room inner =
     (if ps_pos this < length (ps_prefix this) then
        let n = min room (length (ps_prefix this) - ps_pos this)
        in (this\<lparr>ps_pos := ps_pos this + n\<rparr>, ReadReady (take n (drop (ps_pos this) (ps_prefix this))))
      else (this, inner))"

text \<open>A reader that polls with the given buffer sizes; a poll of the socket yields its next chunk.\<close>

fun read_all :: "prefixed_stream \<Rightarrow> nat list \<Rightarrow> rstr list \<Rightarrow> rstr \<times> prefixed_stream \<times> rstr list" where
  "read_all p [] chunks = ([], p, chunks)"
| "read_all p (n # ns) chunks =
     (if ps_pos p < length (ps_prefix p) then
        (case poll_read p n ReadPending of
           (p', ReadReady bs) \<Rightarrow> (case read_all p' ns chunks of (out, p'', cs) \<Rightarrow> (bs @ out, p'', cs))
         | (p', _) \<Rightarrow> ([], p', chunks))
      else
        (case chunks of
           [] \<Rightarrow> ([], p, [])
         | c # cs \<Rightarrow> (case read_all p ns cs of (out, p'', cs') \<Rightarrow> (c @ out, p'', cs'))))"

section \<open>Routing decisions (transparent.rs, egress.rs)\<close>

datatype reject_reason = RejectLoop | NoOriginalDst

datatype intercept_step = DegradeHttp | StepSniff socket_addr | StepDial socket_addr | StepReject reject_reason

definition route_pre :: "listener_role \<Rightarrow> socket_addr option \<Rightarrow> u16 list \<Rightarrow> intercept_step" where
  "route_pre role orig_dst ports =
     (case orig_dst of
        Some dst \<Rightarrow>
          if is_loopback dst ports then StepReject RejectLoop
          else if role = Outbound then StepDial dst
          else StepSniff dst
      | None \<Rightarrow> if role = Outbound then StepReject NoOriginalDst else DegradeHttp)"

datatype http_step = ServeHttp proto_mode | TunnelOpaque

definition route_http :: "protocol \<Rightarrow> http_step" where
  "route_http p = (case p of H1 \<Rightarrow> ServeHttp ForceHttp1 | H2 \<Rightarrow> ServeHttp ForceHttp2 | Opaque \<Rightarrow> TunnelOpaque)"

datatype egress_deny_reason = ModeDeny | DenyOpaque | DenyTlsPort

definition egress_deny_reason_as_str :: "egress_deny_reason \<Rightarrow> rstr" where
  "egress_deny_reason_as_str r =
     (case r of ModeDeny \<Rightarrow> ''mode_deny'' | DenyOpaque \<Rightarrow> ''opaque'' | DenyTlsPort \<Rightarrow> ''tls_port'')"

datatype egress_step = EgressOrig socket_addr | EgressSniff socket_addr | ToGateway socket_addr | Denied egress_deny_reason

definition route_egress :: "egress_mode \<Rightarrow> protocol option \<Rightarrow> socket_addr \<Rightarrow> egress_step" where
  "route_egress mode protocol orig_dst =
     (case mode of
        EgressDirect \<Rightarrow> EgressOrig orig_dst
      | EgressDeny \<Rightarrow> Denied ModeDeny
      | EgressGateway \<Rightarrow>
          (case protocol of
             None \<Rightarrow> EgressSniff orig_dst
           | Some p \<Rightarrow>
               if p = Opaque then Denied DenyOpaque
               else if port orig_dst = 443 then Denied DenyTlsPort
               else ToGateway orig_dst))"

section \<open>Intercepted connections\<close>

definition OUTCOME_HTTP :: rstr where "OUTCOME_HTTP = ''http''"

definition OUTCOME_TUNNEL :: rstr where "OUTCOME_TUNNEL = ''tunnel''"

definition OUTCOME_LOOP_REJECTED :: rstr where "OUTCOME_LOOP_REJECTED = ''loop_rejected''"

definition OUTCOME_NO_ORIG_DST :: rstr where "OUTCOME_NO_ORIG_DST = ''no_orig_dst''"

definition OUTCOME_EGRESS_DIRECT :: rstr where "OUTCOME_EGRESS_DIRECT = ''egress_direct''"

definition OUTCOME_EGRESS_DENY :: rstr where "OUTCOME_EGRESS_DENY = ''egress_deny''"

definition OUTCOME_EGRESS_GATEWAY_OK :: rstr where "OUTCOME_EGRESS_GATEWAY_OK = ''egress_gateway_ok''"

definition OUTCOME_EGRESS_GATEWAY_FAIL :: rstr where "OUTCOME_EGRESS_GATEWAY_FAIL = ''egress_gateway_fail''"

text \<open>The time a gateway dial may take, in milliseconds.\<close>

definition GATEWAY_CONNECT_TIMEOUT :: nat where "GATEWAY_CONNECT_TIMEOUT = 3000"

text \<open>
  What the outside does with one connection: the socket options, the reads of the probe, and for each
  address when a dial ends (milliseconds, \<open>None\<close> never) and with which error, if any.
\<close>

record conn_world =
  cw_local :: "io_error_kind + ip_family option"
  cw_dst_v4 :: "io_error_kind + socket_addr option"
  cw_dst_v6 :: "io_error_kind + socket_addr option"
  cw_probe :: "nat \<Rightarrow> probe_event"
  cw_connect :: "socket_addr \<Rightarrow> nat option \<times> io_error_kind option"

text \<open>
  How a connection ends: closed, served as HTTP, or spliced to an address. The bytes are those that
  were read already and are fed in again ahead of the socket. A dial that never ends keeps the
  connection waiting.
\<close>

datatype conn_end = Closed | Served proto_mode rstr | Spliced socket_addr rstr | Waiting socket_addr

definition tunnel_to :: "conn_world \<Rightarrow> socket_addr \<Rightarrow> rstr \<Rightarrow> conn_end" where
  "tunnel_to W dst prefix =
     (case cw_connect W dst of
        (None, _) \<Rightarrow> Waiting dst
      | (Some _, None) \<Rightarrow> Spliced dst prefix
      | (Some _, Some e) \<Rightarrow> Closed)"

definition forward_to_gateway :: "conn_world \<Rightarrow> socket_addr option \<Rightarrow> rstr \<Rightarrow> metrics \<Rightarrow> metrics \<times> conn_end" where
  "forward_to_gateway W gateway prefix m =
     (let role = role_as_str Outbound in
      case gateway of
        None \<Rightarrow> (record_transparent role OUTCOME_EGRESS_GATEWAY_FAIL m, Closed)
      | Some gw \<Rightarrow>
          (case cw_connect W gw of
             (Some t, None) \<Rightarrow>
               if t \<le> GATEWAY_CONNECT_TIMEOUT
               then (record_transparent role OUTCOME_EGRESS_GATEWAY_OK m, Spliced gw prefix)
               else (record_transparent role OUTCOME_EGRESS_GATEWAY_FAIL m, Closed)
           | _ \<Rightarrow> (record_transparent role OUTCOME_EGRESS_GATEWAY_FAIL m, Closed)))"

definition run_outbound ::
  "conn_world \<Rightarrow> socket_addr \<Rightarrow> egress_config \<Rightarrow> socket_addr option \<Rightarrow> metrics \<Rightarrow> (metrics \<times> conn_end) rust" where
  "run_outbound W orig_dst egress gateway m =
     (let role = role_as_str Outbound in
      case route_egress (eg_mode egress) None orig_dst of
        EgressOrig dst \<Rightarrow> Return (record_transparent role OUTCOME_EGRESS_DIRECT m, tunnel_to W dst [])
      | Denied reason \<Rightarrow> Return (record_transparent role OUTCOME_EGRESS_DENY m, Closed)
      | EgressSniff dst \<Rightarrow>
          (case detect (cw_probe W) of
             Inr (protocol, prefix) \<Rightarrow>
               (case route_egress (eg_mode egress) (Some protocol) dst of
                  ToGateway _ \<Rightarrow> Return (forward_to_gateway W gateway prefix m)
                | Denied reason \<Rightarrow> Return (record_transparent role OUTCOME_EGRESS_DENY m, Closed)
                | _ \<Rightarrow> Panic)
           | Inl e \<Rightarrow> Return (m, Closed))
      | ToGateway _ \<Rightarrow> Panic)"

record egress_plane =
  ep_egress :: egress_config
  ep_gateway :: "socket_addr option"

definition handle_conn ::
  "conn_world \<Rightarrow> listener_config \<Rightarrow> egress_plane \<Rightarrow> u16 list \<Rightarrow> metrics \<Rightarrow> (metrics \<times> conn_end) rust" where
  "handle_conn W cfg plane ports m =
     (let role = role_as_str (li_role cfg);
          orig = (case original_dst (cw_local W) (cw_dst_v4 W) (cw_dst_v6 W) of Inr d \<Rightarrow> Some d | Inl _ \<Rightarrow> None)
      in case route_pre (li_role cfg) orig ports of
           StepReject reason \<Rightarrow>
             Return (record_transparent role
               (case reason of RejectLoop \<Rightarrow> OUTCOME_LOOP_REJECTED | NoOriginalDst \<Rightarrow> OUTCOME_NO_ORIG_DST) m, Closed)
         | DegradeHttp \<Rightarrow>
             Return (record_transparent role OUTCOME_HTTP m, Served (proto_mode_from (li_http1_only cfg)) [])
         | StepDial dst \<Rightarrow> run_outbound W dst (ep_egress plane) (ep_gateway plane) m
         | StepSniff dst \<Rightarrow>
             (case detect (cw_probe W) of
                Inr (protocol, prefix) \<Rightarrow>
                  (case route_http protocol of
                     ServeHttp mode \<Rightarrow> Return (record_transparent role OUTCOME_HTTP m, Served mode prefix)
                   | TunnelOpaque \<Rightarrow> Return (record_transparent role OUTCOME_TUNNEL m, tunnel_to W dst prefix))
              | Inl e \<Rightarrow> Return (m, Closed)))"

section \<open>Lemmas\<close>

text \<open>Nothing is accepted once the loop ended, and every accepted connection is counted.\<close>

lemma accept_rounds_stop:
  "e = SenderDropped \<or> e = FlagChanged True \<Longrightarrow> accept_rounds (es @ e # rest) s = accept_rounds (es @ [e]) s"
  by (induction es s rule: accept_rounds.induct) auto

lemma accept_rounds_counts:
  "accept_rounds es s = (cs, s', ended) \<Longrightarrow> s' = s\<lparr>sg_in_flight := sg_in_flight s + length cs\<rparr>"
  by (induction es s arbitrary: cs s' rule: accept_rounds.induct) (auto split: if_splits prod.splits)

lemma serve_listener_counts:
  "serve_listener es s = (cs, s', ended) \<Longrightarrow> sg_in_flight ((conn_finished ^^ length cs) s') = sg_in_flight s"
proof -
  have "sg_in_flight ((conn_finished ^^ n) t) = sg_in_flight t - n" for n and t :: shutdown_signal
    by (induction n) (auto simp: conn_finished_def)
  then show "serve_listener es s = (cs, s', ended) \<Longrightarrow> ?thesis"
    by (auto simp: serve_listener_def split: if_splits dest: accept_rounds_counts)
qed

text \<open>
  A drain is started at most once, by the first change of the signal; a connection that starts when
  the signal has already fired is never told to drain.
\<close>

lemma drive_loop_drains:
  "fst (drive_loop shutting n es) =
     n + (if \<not> shutting \<and> SignalChanged \<in> set (takeWhile (\<lambda>e. e \<noteq> ConnDone) es) then 1 else 0)"
  by (induction shutting n es rule: drive_loop.induct) auto

lemma drive_drains:
  "fst (drive s es) =
     (if \<not> is_draining s \<and> SignalChanged \<in> set (takeWhile (\<lambda>e. e \<noteq> ConnDone) es) then 1 else 0)"
  by (simp add: drive_def drive_loop_drains)

lemma late_connection_not_drained: "is_draining s \<Longrightarrow> fst (drive s es) = 0"
  by (simp add: drive_drains)

text \<open>What was read plus what is left is the prefix followed by the socket, at every moment.\<close>

lemma read_all_stream:
  "read_all p ns chunks = (out, p', chunks') \<Longrightarrow>
     drop (ps_pos p) (ps_prefix p) @ concat chunks = out @ drop (ps_pos p') (ps_prefix p') @ concat chunks'"
proof (induction p ns chunks arbitrary: out p' chunks' rule: read_all.induct)
  case (2 p n ns chunks)
  show ?case
  proof (cases "ps_pos p < length (ps_prefix p)")
    case True
    let ?n = "min n (length (ps_prefix p) - ps_pos p)" and ?p = "p\<lparr>ps_pos := ps_pos p + min n (length (ps_prefix p) - ps_pos p)\<rparr>"
    have poll: "poll_read p n ReadPending = (?p, ReadReady (take ?n (drop (ps_pos p) (ps_prefix p))))"
      using True by (simp add: poll_read_def Let_def)
    obtain o1 p1 c1 where r: "read_all ?p ns chunks = (o1, p1, c1)" by (cases "read_all ?p ns chunks") auto
    from 2(1) [OF True poll [symmetric] refl r] 2(3) show ?thesis
      using True by (simp add: poll r) (metis append.assoc append_take_drop_id drop_drop add.commute)
  next
    case False
    then show ?thesis using 2(2) [OF False] 2(3) by (auto split: list.splits prod.splits)
  qed
qed simp

lemma detect_result:
  assumes "detect ev = Inr (p, bs)"
  shows "(\<exists>n. bs = received ev 0 n) \<and> (sniff_spec bs = Complete p \<or> p = Opaque \<and> sniff_spec bs = Incomplete)"
proof -
  have "Detect.classify [] = Incomplete" by (simp add: Detect.classify_def H2_PREFIX_def)
  from detect_loop_end [OF this, of ev 0] obtain n where "probe_end [] ev 0 n (detect ev)"
    by (auto simp: detect_def)
  then show ?thesis unfolding assms by (auto simp: probe_end_def simp del: received_simps)
qed

text \<open>The destination a connection was aimed at, and where it may be sent.\<close>

definition aimed_at :: "conn_world \<Rightarrow> socket_addr option" where
  "aimed_at W = (case original_dst (cw_local W) (cw_dst_v4 W) (cw_dst_v6 W) of Inr d \<Rightarrow> Some d | Inl _ \<Rightarrow> None)"

text \<open>The bytes are exactly what the probe received, and they do or do not look like HTTP.\<close>

definition sniffed :: "conn_world \<Rightarrow> protocol \<Rightarrow> rstr \<Rightarrow> bool" where
  "sniffed W p bs \<longleftrightarrow>
     (\<exists>n. bs = received (cw_probe W) 0 n) \<and> (sniff_spec bs = Complete p \<or> p = Opaque \<and> sniff_spec bs = Incomplete)"

definition outbound_ok :: "conn_world \<Rightarrow> egress_plane \<Rightarrow> u16 list \<Rightarrow> conn_end \<Rightarrow> bool" where
  "outbound_ok W plane ports e \<longleftrightarrow>
     (case e of
        Closed \<Rightarrow> True
      | Served mode bs \<Rightarrow> False
      | Waiting a \<Rightarrow> eg_mode (ep_egress plane) = EgressDirect \<and> aimed_at W = Some a \<and> port a \<notin> set ports
      | Spliced a bs \<Rightarrow>
          (\<exists>d. aimed_at W = Some d \<and> port d \<notin> set ports
             \<and> (eg_mode (ep_egress plane) = EgressDirect \<and> a = d \<and> bs = []
                \<or> eg_mode (ep_egress plane) = EgressGateway \<and> ep_gateway plane = Some a \<and> port d \<noteq> 443
                  \<and> (\<exists>p. p \<noteq> Opaque \<and> sniffed W p bs))))"

definition inbound_ok :: "conn_world \<Rightarrow> bool \<Rightarrow> u16 list \<Rightarrow> conn_end \<Rightarrow> bool" where
  "inbound_ok W http1_only ports e \<longleftrightarrow>
     (case e of
        Closed \<Rightarrow> aimed_at W \<noteq> None
      | Served mode bs \<Rightarrow>
          aimed_at W = None \<and> bs = [] \<and> mode = (if http1_only then ForceHttp1 else Auto)
          \<or> aimed_at W \<noteq> None \<and> (sniffed W H1 bs \<and> mode = ForceHttp1 \<or> sniffed W H2 bs \<and> mode = ForceHttp2)
      | Waiting a \<Rightarrow> aimed_at W = Some a \<and> port a \<notin> set ports
      | Spliced a bs \<Rightarrow> aimed_at W = Some a \<and> port a \<notin> set ports \<and> sniffed W Opaque bs)"

lemma tunnel_to_cases: "tunnel_to W dst bs \<in> {Closed, Waiting dst, Spliced dst bs}"
  by (auto simp: tunnel_to_def split: prod.split option.split)

lemma forward_to_gateway_cases:
  obtains (open_gw) a where "gateway = Some a" "forward_to_gateway W gateway bs m
      = (record_transparent (role_as_str Outbound) OUTCOME_EGRESS_GATEWAY_OK m, Spliced a bs)"
  | (failed) "forward_to_gateway W gateway bs m
      = (record_transparent (role_as_str Outbound) OUTCOME_EGRESS_GATEWAY_FAIL m, Closed)"
  by (fastforce simp: forward_to_gateway_def Let_def split: option.splits prod.splits if_splits)

lemma run_outbound_spec:
  assumes "aimed_at W = Some d" "port d \<notin> set ports"
  shows "\<exists>m' e. run_outbound W d (ep_egress plane) (ep_gateway plane) m = Return (m', e) \<and> outbound_ok W plane ports e
    \<and> (m' = m \<and> e = Closed \<and> (\<exists>err. detect (cw_probe W) = Inl err)
       \<or> (\<exists>outcome. m' = record_transparent (role_as_str Outbound) outcome m))"
proof (cases "eg_mode (ep_egress plane)")
  case EgressDirect
  then show ?thesis
    using assms tunnel_to_cases [of W d "[]"]
    by (auto simp: run_outbound_def Let_def route_egress_def outbound_ok_def)
next
  case EgressDeny
  then show ?thesis by (auto simp: run_outbound_def Let_def route_egress_def outbound_ok_def)
next
  case EgressGateway
  show ?thesis
  proof (cases "detect (cw_probe W)")
    case (Inl err)
    then show ?thesis using EgressGateway by (simp add: run_outbound_def Let_def route_egress_def outbound_ok_def)
  next
    case (Inr r)
    obtain p bs where r: "r = (p, bs)" by (cases r)
    have sn: "sniffed W p bs" using detect_result Inr r by (simp add: sniffed_def)
    show ?thesis
    proof (cases "p = Opaque \<or> port d = 443")
      case True
      then show ?thesis
        using EgressGateway Inr r by (auto simp: run_outbound_def Let_def route_egress_def outbound_ok_def)
    next
      case False
      then have run: "run_outbound W d (ep_egress plane) (ep_gateway plane) m
          = Return (forward_to_gateway W (ep_gateway plane) bs m)"
        using EgressGateway Inr r by (simp add: run_outbound_def Let_def route_egress_def)
      show ?thesis
        by (cases rule: forward_to_gateway_cases [of "ep_gateway plane" W bs m])
          (use run EgressGateway False sn assms in \<open>auto simp: outbound_ok_def\<close>)
    qed
  qed
qed

lemma handle_inbound_spec:
  assumes "aimed_at W = Some d" "port d \<notin> set ports" "li_role cfg \<noteq> Outbound"
  shows "\<exists>m' e. handle_conn W cfg plane ports m = Return (m', e) \<and> inbound_ok W (li_http1_only cfg) ports e
    \<and> (m' = m \<and> e = Closed \<and> (\<exists>err. detect (cw_probe W) = Inl err)
       \<or> (\<exists>outcome. m' = record_transparent (role_as_str (li_role cfg)) outcome m))"
proof -
  note hc = handle_conn_def [of W cfg plane ports m, folded aimed_at_def, unfolded Let_def]
  have run: "handle_conn W cfg plane ports m = (case detect (cw_probe W) of
      Inr (protocol, prefix) \<Rightarrow>
        (case route_http protocol of
           ServeHttp mode \<Rightarrow> Return (record_transparent (role_as_str (li_role cfg)) OUTCOME_HTTP m, Served mode prefix)
         | TunnelOpaque \<Rightarrow> Return (record_transparent (role_as_str (li_role cfg)) OUTCOME_TUNNEL m, tunnel_to W d prefix))
    | Inl e \<Rightarrow> Return (m, Closed))"
    using assms by (simp add: hc route_pre_def is_loopback_def)
  show ?thesis
  proof (cases "detect (cw_probe W)")
    case (Inl err)
    then show ?thesis using run assms by (simp add: inbound_ok_def)
  next
    case (Inr r)
    obtain p bs where r: "r = (p, bs)" by (cases r)
    have sn: "sniffed W p bs" using detect_result Inr r by (simp add: sniffed_def)
    show ?thesis
      using run assms Inr r sn tunnel_to_cases [of W d bs] by (cases p) (auto simp: inbound_ok_def route_http_def)
  qed
qed

section \<open>Properties\<close>


definition sample_conn :: conn_world where
  "sample_conn = \<lparr>cw_local = Inr (Some FamilyV4), cw_dst_v4 = Inr (Some (sample_addr 1)), cw_dst_v6 = Inr None,
     cw_probe = (\<lambda>_. ReadOk ''GET /''), cw_connect = (\<lambda>_. (Some 1, None))\<rparr>"

definition sample_outbound :: listener_config where
  "sample_outbound = \<lparr>li_role = Outbound, li_listen = sample_addr 7, li_http1_only = False, li_transparent = True,
     li_detect_timeout_ms = 100, li_tls = False, li_tls_cert = None, li_tls_key = None\<rparr>"

definition sample_plane :: "egress_mode \<Rightarrow> egress_plane" where
  "sample_plane mode = \<lparr>ep_egress = \<lparr>eg_mode = mode, eg_gateway = ''gw:80''\<rparr>, ep_gateway = Some (sample_addr 3)\<rparr>"


end
