(* ===== verification/SdListen.thy ===== *)
theory SdListen
  imports Numerals "HOL-Library.Multiset"
begin

text \<open>
  Socket activation (\<open>crates/openrusty-server/src/sd_listen.rs\<close>): the activation environment, the matching
  of inherited sockets to the configured addresses and their adoption. The environment, the process
  id and the sockets behind the file descriptors are arguments.
\<close>

section \<open>The activation environment\<close>

record activation =
  ac_fds :: nat
  ac_names :: "rstr option list"

definition resize_with :: "'a list \<Rightarrow> nat \<Rightarrow> 'a \<Rightarrow> 'a list" where
  "resize_with xs n x = take n xs @ replicate (n - length xs) x"

definition parse_activation :: "(rstr \<Rightarrow> rstr option) \<Rightarrow> u32 \<Rightarrow> activation option" where
  "parse_activation vars pid =
     (case vars ''LISTEN_FDS'' of
        None \<Rightarrow> None
      | Some v \<Rightarrow>
          (case parse_uint 64 (trim v) of
             None \<Rightarrow> None
           | Some fds \<Rightarrow>
               if fds = 0 then None
               else
                 let listen_pid = (case vars ''LISTEN_PID'' of Some v \<Rightarrow> parse_uint 32 (trim v) | None \<Rightarrow> None) in
                 if listen_pid \<noteq> Some (unat pid) then None
                 else
                   let names = (case vars ''LISTEN_FDNAMES'' of
                         Some raw \<Rightarrow> map (\<lambda>n. if n = [] then None else Some n) (split_on CHR '':'' raw)
                       | None \<Rightarrow> [])
                   in Some \<lparr>ac_fds = fds, ac_names = take fds (resize_with names fds None)\<rparr>))"

section \<open>Matching\<close>

definition received_text :: "rstr option list \<Rightarrow> nat \<times> u16 \<Rightarrow> rstr" where
  "received_text names = (\<lambda>(i, p).
     (case if i < length names then names ! i else None of
        Some name \<Rightarrow> ''fd'' @ dec_digits (3 + i) @ ''('' @ name @ '')='' @ dec_digits (unat p)
      | None \<Rightarrow> ''fd'' @ dec_digits (3 + i) @ ''='' @ dec_digits (unat p)))"

definition mismatch_message :: "u16 list \<Rightarrow> rstr option list \<Rightarrow> socket_addr list \<Rightarrow> rstr" where
  "mismatch_message inherited names expected =
     ''socket activation mismatch: expected ['' @ join '', '' (map addr_to_string expected)
     @ ''], received ['' @ join '', '' (map (received_text names) (List.enumerate 0 inherited)) @ '']''"

text \<open>The loop over the expected addresses; \<open>used\<close> marks the descriptors already taken.\<close>

fun match_loop :: "u16 list \<Rightarrow> bool list \<Rightarrow> nat list \<Rightarrow> socket_addr list \<Rightarrow> (bool list \<times> nat list) option" where
  "match_loop inherited used order [] = Some (used, order)"
| "match_loop inherited used order (addr # rest) =
     (case find (\<lambda>i. \<not> used ! i \<and> inherited ! i = port addr) [0..<length inherited] of
        Some i \<Rightarrow> match_loop inherited (used[i := True]) (order @ [i]) rest
      | None \<Rightarrow> None)"

definition match_ports :: "u16 list \<Rightarrow> rstr option list \<Rightarrow> socket_addr list \<Rightarrow> rstr + nat list" where
  "match_ports inherited names expected =
     (case match_loop inherited (replicate (length inherited) False) [] expected of
        None \<Rightarrow> Inl (mismatch_message inherited names expected)
      | Some (used, order) \<Rightarrow>
          if list_ex (\<lambda>u. \<not> u) used then Inl (mismatch_message inherited names expected) else Inr order)"

section \<open>Adoption\<close>

text \<open>
  A descriptor's local address, and the error of making it non-blocking and registering it. A socket
  can be taken once; taking it again would panic.
\<close>

record fd_world =
  fw_local_addr :: "int \<Rightarrow> socket_addr option"
  fw_register :: "int \<Rightarrow> rstr option"

fun fd_ports :: "fd_world \<Rightarrow> int list \<Rightarrow> rstr + u16 list" where
  "fd_ports W [] = Inr []"
| "fd_ports W (fd # fds) =
     (case fw_local_addr W fd of
        None \<Rightarrow> Inl (''inherited fd '' @ dec_digits (nat fd) @ '' is not an IPv4/IPv6 TCP listener ''
                     @ ''(local address unavailable: unix or datagram socket?)'')
      | Some a \<Rightarrow> and_then (fd_ports W fds) (\<lambda>ps. Inr (port a # ps)))"

fun take_sockets :: "fd_world \<Rightarrow> int option list \<Rightarrow> nat list \<Rightarrow> (rstr + int list) rust" where
  "take_sockets W sockets [] = Return (Inr [])"
| "take_sockets W sockets (i # order) =
     (if length sockets \<le> i then Panic
      else case sockets ! i of
             None \<Rightarrow> Panic
           | Some fd \<Rightarrow>
               (case fw_register W fd of
                  Some e \<Rightarrow> Return (Inl e)
                | None \<Rightarrow> rust_map (\<lambda>r. and_then r (\<lambda>fds. Inr (fd # fds))) (take_sockets W (sockets[i := None]) order)))"

definition adopt_fds :: "fd_world \<Rightarrow> int list \<Rightarrow> rstr option list \<Rightarrow> socket_addr list \<Rightarrow> (rstr + int list) rust" where
  "adopt_fds W fds names expected =
     (case and_then (fd_ports W fds) (\<lambda>ports. match_ports ports names expected) of
        Inl e \<Rightarrow> Return (Inl e)
      | Inr order \<Rightarrow> take_sockets W (map Some fds) order)"

definition adopt ::
  "fd_world \<Rightarrow> (rstr \<Rightarrow> rstr option) \<Rightarrow> u32 \<Rightarrow> socket_addr list \<Rightarrow> (rstr + int list option) rust" where
  "adopt W vars pid expected =
     (case parse_activation vars pid of
        None \<Rightarrow> Return (Inr None)
      | Some act \<Rightarrow>
          rust_map (\<lambda>r. and_then r (\<lambda>ls. Inr (Some ls)))
            (adopt_fds W (map (\<lambda>k. 3 + int k) [0..<ac_fds act]) (ac_names act) expected))"

section \<open>Lemmas\<close>

lemma parse_activation_names: "parse_activation vars pid = Some act \<Longrightarrow> length (ac_names act) = ac_fds act \<and> 0 < ac_fds act"
  by (auto simp: parse_activation_def Let_def resize_with_def split: option.splits if_splits)

text \<open>The descriptors still free, and the ports behind them.\<close>

definition free_ports :: "u16 list \<Rightarrow> bool list \<Rightarrow> u16 multiset" where
  "free_ports inherited used =
     image_mset (\<lambda>i. inherited ! i) (mset_set {i. i < length inherited \<and> \<not> used ! i})"

lemma free_ports_take:
  assumes "i < length inherited" "\<not> used ! i" "length used = length inherited"
  shows "free_ports inherited used = add_mset (inherited ! i) (free_ports inherited (used[i := True]))"
proof -
  let ?F = "{j. j < length inherited \<and> \<not> used[i := True] ! j}"
  have "{j. j < length inherited \<and> \<not> used ! j} = insert i ?F" "i \<notin> ?F"
    using assms by (auto simp: nth_list_update)
  then show ?thesis by (simp add: free_ports_def)
qed

lemma find_free:
  "find (\<lambda>i. \<not> used ! i \<and> inherited ! i = p) [0..<length inherited] = None \<longleftrightarrow> p \<notin># free_ports inherited used"
  by (auto simp: find_None_iff free_ports_def)

text \<open>What the loop has taken so far.\<close>

definition match_inv :: "u16 list \<Rightarrow> bool list \<Rightarrow> nat list \<Rightarrow> bool" where
  "match_inv inherited used order \<longleftrightarrow>
     length used = length inherited \<and> distinct order
     \<and> (\<forall>i < length inherited. used ! i \<longleftrightarrow> i \<in> set order) \<and> set order \<subseteq> {..<length inherited}"

lemma match_loop_step:
  assumes "match_inv inherited used order" "find (\<lambda>i. \<not> used ! i \<and> inherited ! i = p) [0..<length inherited] = Some i"
  shows "match_inv inherited (used[i := True]) (order @ [i])" and "inherited ! i = p"
    and "free_ports inherited used = add_mset p (free_ports inherited (used[i := True]))"
proof -
  have i: "i < length inherited" "\<not> used ! i" "inherited ! i = p"
    using assms(2) by (auto simp: find_Some_iff)
  then show "match_inv inherited (used[i := True]) (order @ [i])" "inherited ! i = p"
    using assms(1) by (auto simp: match_inv_def nth_list_update)
  show "free_ports inherited used = add_mset p (free_ports inherited (used[i := True]))"
    using free_ports_take [OF i(1,2)] assms(1) i(3) by (simp add: match_inv_def)
qed

lemma match_loop_spec:
  assumes "match_inv inherited used order"
  shows "case match_loop inherited used order expected of
      None \<Rightarrow> \<not> mset (map port expected) \<subseteq># free_ports inherited used
    | Some (used', order') \<Rightarrow> match_inv inherited used' order'
        \<and> map (\<lambda>i. inherited ! i) order' = map (\<lambda>i. inherited ! i) order @ map port expected
        \<and> free_ports inherited used = mset (map port expected) + free_ports inherited used'"
  using assms
proof (induction inherited used order expected rule: match_loop.induct)
  case (2 inherited used order addr rest)
  show ?case
  proof (cases "find (\<lambda>i. \<not> used ! i \<and> inherited ! i = port addr) [0..<length inherited]")
    case None
    then have "port addr \<notin># free_ports inherited used" by (simp add: find_free)
    then show ?thesis using None by (auto dest!: mset_subset_eqD [of _ _ "port addr"])
  next
    case (Some i)
    note step = match_loop_step [OF 2(2) Some]
    from 2(1) [OF Some step(1)] show ?thesis
      using Some step(2,3) by (auto split: option.splits)
  qed
qed simp

lemma free_ports_all: "length used = length inherited \<Longrightarrow> free_ports inherited used = {#} \<longleftrightarrow> \<not> list_ex (\<lambda>u. \<not> u) used"
  unfolding free_ports_def list_ex_iff
  by (simp add: mset_set_empty_iff) (metis in_set_conv_nth)

text \<open>
  Matching succeeds exactly when the inherited ports are the configured ones with their multiplicity;
  the order it returns is then a permutation of the descriptors that puts the right port at every
  position.
\<close>

lemma match_ports_spec:
  "(case match_ports inherited names expected of
      Inl e \<Rightarrow> mset inherited \<noteq> mset (map port expected)
    | Inr order \<Rightarrow> mset inherited = mset (map port expected)
        \<and> distinct order \<and> set order = {..<length inherited} \<and> map (\<lambda>i. inherited ! i) order = map port expected)"
proof -
  let ?used = "replicate (length inherited) False"
  have inv: "match_inv inherited ?used []" by (simp add: match_inv_def)
  have all: "free_ports inherited ?used = mset inherited"
  proof -
    have "{i. i < length inherited \<and> \<not> ?used ! i} = {0..<length inherited}" by auto
    then have "free_ports inherited ?used = mset (map (\<lambda>i. inherited ! i) [0..<length inherited])"
      by (simp add: free_ports_def)
    then show ?thesis by (simp add: map_nth)
  qed
  note spec = match_loop_spec [OF inv, of expected, unfolded all]
  show ?thesis
  proof (cases "match_loop inherited ?used [] expected")
    case None
    then show ?thesis using spec by (auto simp: match_ports_def)
  next
    case (Some r)
    obtain used order where r: "r = (used, order)" by (cases r)
    have s: "match_inv inherited used order" "map (\<lambda>i. inherited ! i) order = map port expected"
      "mset inherited = mset (map port expected) + free_ports inherited used"
      using spec Some r by auto
    have used: "free_ports inherited used = {#} \<longleftrightarrow> \<not> list_ex (\<lambda>u. \<not> u) used"
      using s(1) by (simp add: free_ports_all match_inv_def)
    have "set order = {..<length inherited}" if "\<not> list_ex (\<lambda>u. \<not> u) used"
      using s(1) that by (auto simp: match_inv_def list_ex_iff in_set_conv_nth)
    then show ?thesis using Some r s used by (auto simp: match_ports_def match_inv_def)
  qed
qed

text \<open>So adoption never takes a socket twice, and every listener gets a socket of its port.\<close>

lemma take_sockets_total:
  assumes "distinct order" "\<forall>i \<in> set order. i < length sockets \<and> sockets ! i \<noteq> None"
  shows "\<exists>r. take_sockets W sockets order = Return r
    \<and> (\<forall>fds. r = Inr fds \<longrightarrow> map Some fds = map (\<lambda>i. sockets ! i) order)"
  using assms
proof (induction W sockets order rule: take_sockets.induct)
  case (2 W sockets i order)
  then obtain fd where fd: "sockets ! i = Some fd" and i: "i < length sockets" by auto
  have rest: "\<forall>j \<in> set order. j < length (sockets[i := None]) \<and> sockets[i := None] ! j \<noteq> None"
    using 2(2,3) by (auto simp: nth_list_update)
  have same: "map (\<lambda>j. sockets[i := None] ! j) order = map (\<lambda>j. sockets ! j) order"
    using 2(2) by (intro map_cong refl nth_list_update_neq) auto
  show ?case
  proof (cases "fw_register W fd")
    case None
    then obtain r where r: "take_sockets W (sockets[i := None]) order = Return r"
      "\<forall>fds. r = Inr fds \<longrightarrow> map Some fds = map (\<lambda>j. sockets ! j) order"
      using 2(1) [OF _ fd None _ rest] 2(2) i same by fastforce
    then show ?thesis using fd i None by (cases r) auto
  qed (use fd i in auto)
qed simp

lemma fd_ports_length: "fd_ports W fds = Inr ps \<Longrightarrow> length ps = length fds
    \<and> (\<forall>i < length fds. \<exists>a. fw_local_addr W (fds ! i) = Some a \<and> port a = ps ! i)"
  by (induction fds arbitrary: ps) (auto split: option.splits simp: nth_Cons split: nat.splits)

lemma adopt_fds_spec:
  "\<exists>r. adopt_fds W fds names expected = Return r
     \<and> (\<forall>ls. r = Inr ls \<longrightarrow> mset ls = mset fds
          \<and> map (\<lambda>fd. map_option port (fw_local_addr W fd)) ls = map (\<lambda>a. Some (port a)) expected)"
proof (cases "and_then (fd_ports W fds) (\<lambda>ports. match_ports ports names expected)")
  case (Inl e)
  then show ?thesis by (simp add: adopt_fds_def)
next
  case (Inr order)
  then obtain ps where ps: "fd_ports W fds = Inr ps" and o: "match_ports ps names expected = Inr order" by auto
  note len = fd_ports_length [OF ps]
  have ord: "distinct order" "set order = {..<length fds}" "map (\<lambda>i. ps ! i) order = map port expected"
    using match_ports_spec [of ps expected names] o len by auto
  obtain r where r: "take_sockets W (map Some fds) order = Return r"
    "\<forall>ls. r = Inr ls \<longrightarrow> map Some ls = map (\<lambda>i. map Some fds ! i) order"
    using take_sockets_total [OF ord(1), of "map Some fds" W] ord(2) by auto
  have "mset ls = mset fds \<and> map (\<lambda>fd. map_option port (fw_local_addr W fd)) ls = map (\<lambda>a. Some (port a)) expected"
    if "r = Inr ls" for ls
  proof -
    have "map (\<lambda>i. map Some fds ! i) order = map Some (map (\<lambda>i. fds ! i) order)"
      unfolding map_map using ord(2) by (intro map_cong refl) simp
    then have "map Some ls = map Some (map (\<lambda>i. fds ! i) order)" using r(2) that by simp
    then have ls: "ls = map (\<lambda>i. fds ! i) order" by (simp only: inj_map_eq_map [OF inj_Some])
    have "mset order = mset [0..<length fds]"
      using set_eq_iff_mset_eq_distinct [OF ord(1) distinct_upt, of 0 "length fds"] ord(2)
      by (simp only: set_upt atLeast0LessThan simp_thms)
    then have "mset ls = image_mset (\<lambda>i. fds ! i) (mset [0..<length fds])" by (simp add: ls)
    also have "\<dots> = mset (map (\<lambda>i. fds ! i) [0..<length fds])" by (simp only: mset_map)
    finally have "mset ls = mset fds" by (simp add: map_nth)
    moreover have "map (\<lambda>fd. map_option port (fw_local_addr W fd)) ls = map (\<lambda>i. Some (ps ! i)) order"
      using len ord(2) by (force simp: ls)
    moreover have "map (\<lambda>i. Some (ps ! i)) order = map Some (map (\<lambda>i. ps ! i) order)" by simp
    ultimately show ?thesis unfolding ord(3) by (simp add: comp_def)
  qed
  then show ?thesis using r(1) by (simp add: adopt_fds_def ps o)
qed

end
