(* ===== verification/InitRules.thy ===== *)
theory InitRules
  imports Numerals
begin

text \<open>
  The traffic-redirection installer (\<open>crates/openrusty-server/src/init/mod.rs\<close>, \<open>init/exec.rs\<close>): its
  argument parser, the plan of commands and the execution of the plan. Running a command is an
  argument of the execution; reading an IP address (\<open>IpAddr\<close>'s \<open>FromStr\<close>) is one of the parser, and says
  whether the text is an IPv4 address, an IPv6 address or neither.
\<close>

section \<open>Parameters\<close>

definition CHAIN_IN :: rstr where "CHAIN_IN = ''OPENRUSTY_IN''"

definition CHAIN_OUT :: rstr where "CHAIN_OUT = ''OPENRUSTY_OUT''"

definition COMMENT :: rstr where "COMMENT = ''openrusty-init''"

definition PROBE_CHAIN :: rstr where "PROBE_CHAIN = ''OPENRUSTY_PROBE''"

datatype backend = BackendAuto | BackendIptables

record init_params =
  ip_proxy_uid :: u32
  ip_inbound_port :: u16
  ip_outbound_port :: u16
  ip_ignore_inbound_ports :: "u16 list"
  ip_ignore_outbound_ports :: "u16 list"
  ip_skip_subnets :: "rstr list"
  ip_backend :: backend
  ip_dry_run :: bool

definition init_params_default :: init_params where
  "init_params_default = \<lparr>ip_proxy_uid = 65534, ip_inbound_port = 4143, ip_outbound_port = 4140,
     ip_ignore_inbound_ports = [4191], ip_ignore_outbound_ports = [443], ip_skip_subnets = [],
     ip_backend = BackendAuto, ip_dry_run = False\<rparr>"

section \<open>Argument parsing\<close>

definition in_quotes :: "rstr \<Rightarrow> rstr" where
  "in_quotes s = [byte 39] @ s @ [byte 39]"

definition parse_num :: "rstr \<Rightarrow> rstr \<Rightarrow> rstr + u32" where
  "parse_num s what =
     (case parse_uint 32 s of Some n \<Rightarrow> Inr (of_nat n) | None \<Rightarrow> Inl (''invalid '' @ what @ '' '' @ in_quotes s))"

definition parse_port :: "rstr \<Rightarrow> rstr + u16" where
  "parse_port s =
     (case parse_uint 16 s of
        Some n \<Rightarrow> if n = 0 then Inl (''invalid port '' @ in_quotes s @ '' (1-65535)'') else Inr (of_nat n)
      | None \<Rightarrow> Inl (''invalid port '' @ in_quotes s @ '' (1-65535)''))"

text \<open>\<open>collect\<close> into a \<open>Result\<close>: the first error, or all values.\<close>

fun collect_all :: "('a \<Rightarrow> 'e + 'b) \<Rightarrow> 'a list \<Rightarrow> 'e + 'b list" where
  "collect_all f [] = Inr []"
| "collect_all f (x # xs) = and_then (f x) (\<lambda>y. and_then (collect_all f xs) (\<lambda>ys. Inr (y # ys)))"

definition parse_ports :: "rstr \<Rightarrow> rstr + u16 list" where
  "parse_ports s = collect_all (\<lambda>x. parse_port (trim x)) (filter (\<lambda>x. trim x \<noteq> []) (split_on CHR '','' s))"

definition parse_subnet :: "(rstr \<Rightarrow> bool option) \<Rightarrow> rstr \<Rightarrow> rstr + rstr" where
  "parse_subnet is_ipv4 cidr =
     (let bad = Inl (''invalid subnet '' @ in_quotes cidr) in
      case split_once CHR ''/'' cidr of
        Some (addr, bits) \<Rightarrow>
          (case is_ipv4 addr of
             None \<Rightarrow> bad
           | Some v4 \<Rightarrow>
               (case parse_uint 32 bits of
                  Some m \<Rightarrow> if m \<le> (if v4 then 32 else 128) then Inr cidr else bad
                | None \<Rightarrow> bad))
      | None \<Rightarrow> (case is_ipv4 cidr of Some _ \<Rightarrow> Inr cidr | None \<Rightarrow> bad))"

definition parse_subnets :: "(rstr \<Rightarrow> bool option) \<Rightarrow> rstr \<Rightarrow> rstr + rstr list" where
  "parse_subnets is_ipv4 s =
     collect_all (parse_subnet is_ipv4) (filter (\<lambda>x. x \<noteq> []) (map trim (split_on CHR '','' s)))"

definition split_flag :: "rstr \<Rightarrow> rstr \<times> rstr option" where
  "split_flag a =
     (case split_once CHR ''='' a of
        Some (f, v) \<Rightarrow> if starts_with f ''--'' then (f, Some v) else (a, None)
      | None \<Rightarrow> (a, None))"

fun next_value :: "rstr option \<Rightarrow> rstr list \<Rightarrow> rstr \<Rightarrow> rstr + rstr \<times> rstr list" where
  "next_value (Some v) rest what = Inr (v, rest)"
| "next_value None [] what = Inl (what @ '' needs a value'')"
| "next_value None (v # rest) what = Inr (v, rest)"

definition VALUE_FLAGS :: "rstr list" where
  "VALUE_FLAGS = [''--proxy-uid'', ''--inbound-port'', ''--outbound-port'', ''--ignore-inbound-ports'',
     ''--ignore-outbound-ports'', ''--skip-subnets'', ''--backend'']"

definition parse_backend :: "rstr \<Rightarrow> rstr + backend" where
  "parse_backend v =
     (if v = ''auto'' then Inr BackendAuto else if v = ''iptables'' then Inr BackendIptables
      else Inl (''unknown backend '' @ in_quotes v @ '' (auto|iptables)''))"

definition set_flag ::
  "(rstr \<Rightarrow> bool option) \<Rightarrow> rstr \<Rightarrow> rstr \<Rightarrow> init_params \<times> u32 option \<Rightarrow> rstr + init_params \<times> u32 option" where
  "set_flag is_ipv4 flag v = (\<lambda>(p, uid).
     if flag = ''--proxy-uid'' then and_then (parse_num v ''proxy-uid'') (\<lambda>n. Inr (p, Some n))
     else if flag = ''--inbound-port'' then and_then (parse_port v) (\<lambda>n. Inr (p\<lparr>ip_inbound_port := n\<rparr>, uid))
     else if flag = ''--outbound-port'' then and_then (parse_port v) (\<lambda>n. Inr (p\<lparr>ip_outbound_port := n\<rparr>, uid))
     else if flag = ''--ignore-inbound-ports'' then
       and_then (parse_ports v) (\<lambda>ns. Inr (p\<lparr>ip_ignore_inbound_ports := ns\<rparr>, uid))
     else if flag = ''--ignore-outbound-ports'' then
       and_then (parse_ports v) (\<lambda>ns. Inr (p\<lparr>ip_ignore_outbound_ports := ns\<rparr>, uid))
     else if flag = ''--skip-subnets'' then
       and_then (parse_subnets is_ipv4 v) (\<lambda>ns. Inr (p\<lparr>ip_skip_subnets := ns\<rparr>, uid))
     else and_then (parse_backend v) (\<lambda>b. Inr (p\<lparr>ip_backend := b\<rparr>, uid)))"

lemma next_value_shorter: "next_value i rest what = Inr (v, rest') \<Longrightarrow> length rest' \<le> length rest"
  by (cases "(i, rest, what)" rule: next_value.cases) auto

text \<open>The \<open>while\<close> over the arguments; a value that is not inline is the next argument.\<close>

function args_loop ::
  "(rstr \<Rightarrow> bool option) \<Rightarrow> rstr list \<Rightarrow> init_params \<times> u32 option \<Rightarrow> rstr + init_params \<times> u32 option" where
  "args_loop K [] acc = Inr acc"
| "args_loop K (a # rest) acc =
     (case split_flag a of
        (flag, inline) \<Rightarrow>
          if flag \<in> set VALUE_FLAGS then
            (case next_value inline rest flag of
               Inl e \<Rightarrow> Inl e
             | Inr (v, rest') \<Rightarrow>
                 (case set_flag K flag v acc of Inl e \<Rightarrow> Inl e | Inr acc' \<Rightarrow> args_loop K rest' acc'))
          else if flag = ''--dry-run'' \<and> inline = None then args_loop K rest ((fst acc)\<lparr>ip_dry_run := True\<rparr>, snd acc)
          else Inl (''unknown flag '' @ in_quotes flag @ '' (see --help)''))"
  by pat_completeness auto
termination
  by (relation "measure (\<lambda>(K, args, acc). length args)") (auto dest: next_value_shorter)

definition parse_args :: "(rstr \<Rightarrow> bool option) \<Rightarrow> rstr list \<Rightarrow> rstr + init_params" where
  "parse_args K argv =
     and_then (args_loop K argv (init_params_default, None)) (\<lambda>(p, uid).
       case uid of
         Some n \<Rightarrow> Inr (p\<lparr>ip_proxy_uid := n\<rparr>)
       | None \<Rightarrow> Inl ''missing required flag --proxy-uid <UID>'')"

section \<open>The plan\<close>

definition chain_setup :: "rstr \<Rightarrow> rstr \<Rightarrow> rstr list" where
  "chain_setup chain hook =
     (let jump = ''-m comment --comment '' @ COMMENT @ '' -j '' @ chain in
      [''iptables -t nat -N '' @ chain, ''iptables -t nat -F '' @ chain,
       ''iptables -t nat -C '' @ hook @ '' '' @ jump, ''iptables -t nat -I '' @ hook @ '' '' @ jump])"

definition build_rules :: "init_params \<Rightarrow> rstr list" where
  "build_rules params =
     chain_setup CHAIN_IN ''PREROUTING''
     @ [''iptables -t nat -A '' @ CHAIN_IN @ '' -p tcp -i lo -m comment --comment '' @ COMMENT @ '' -j RETURN'']
     @ map (\<lambda>p. ''iptables -t nat -A '' @ CHAIN_IN @ '' -p tcp --dport '' @ dec_digits (unat p)
              @ '' -m comment --comment '' @ COMMENT @ '' -j RETURN'') (ip_ignore_inbound_ports params)
     @ [''iptables -t nat -A '' @ CHAIN_IN @ '' -p tcp -m comment --comment '' @ COMMENT
          @ '' -j REDIRECT --to-ports '' @ dec_digits (unat (ip_inbound_port params))]
     @ chain_setup CHAIN_OUT ''OUTPUT''
     @ [''iptables -t nat -A '' @ CHAIN_OUT @ '' -p tcp -o lo -m comment --comment '' @ COMMENT @ '' -j RETURN'']
     @ [''iptables -t nat -A '' @ CHAIN_OUT @ '' -p tcp -m owner --uid-owner '' @ dec_digits (unat (ip_proxy_uid params))
          @ '' -m comment --comment '' @ COMMENT @ '' -j RETURN'']
     @ map (\<lambda>p. ''iptables -t nat -A '' @ CHAIN_OUT @ '' -p tcp --dport '' @ dec_digits (unat p)
              @ '' -m comment --comment '' @ COMMENT @ '' -j RETURN'') (ip_ignore_outbound_ports params)
     @ map (\<lambda>s. ''iptables -t nat -A '' @ CHAIN_OUT @ '' -p tcp -d '' @ s
              @ '' -m comment --comment '' @ COMMENT @ '' -j RETURN'') (ip_skip_subnets params)
     @ [''iptables -t nat -A '' @ CHAIN_OUT @ '' -p tcp -m comment --comment '' @ COMMENT
          @ '' -j REDIRECT --to-ports '' @ dec_digits (unat (ip_outbound_port params))]"

section \<open>Execution (exec.rs)\<close>

text \<open>Running a command with its arguments changes the world and gives an error text or none.\<close>

type_synonym 'w exec = "rstr list \<Rightarrow> 'w \<Rightarrow> 'w \<times> rstr option"

fun plan_loop ::
  "'w exec \<Rightarrow> nat \<Rightarrow> nat \<Rightarrow> nat \<Rightarrow> nat \<Rightarrow> bool \<Rightarrow> rstr list \<Rightarrow> 'w \<Rightarrow> 'w \<times> (rstr + nat \<times> nat)" where
  "plan_loop exec len idx executed appended skip_insert [] w = (w, Inr (executed, appended))"
| "plan_loop exec len idx executed appended skip_insert (rule # rest) w =
     (let args = tl (split_on CHR '' '' rule); op = (if 2 < length args then args ! 2 else []) in
      if skip_insert \<and> op = ''-I'' then plan_loop exec len (Suc idx) (Suc executed) appended False rest w
      else
        case exec args w of
          (w', None) \<Rightarrow>
            if op = ''-C'' then plan_loop exec len (Suc idx) (Suc executed) appended True rest w'
            else plan_loop exec len (Suc idx) (Suc executed) (if op = ''-A'' then Suc appended else appended) False rest w'
        | (w', Some e) \<Rightarrow>
            if op = ''-N'' \<or> op = ''-C'' then plan_loop exec len (Suc idx) (Suc executed) appended False rest w'
            else (w', Inl (''command '' @ dec_digits (Suc idx) @ ''/'' @ dec_digits len @ '' failed: '' @ e @ ''; ''
                    @ dec_digits executed @ '' command(s) applied before abort: '' @ rule)))"

definition exec_plan :: "'w exec \<Rightarrow> rstr list \<Rightarrow> 'w \<Rightarrow> 'w \<times> (rstr + nat \<times> nat)" where
  "exec_plan exec rules w = plan_loop exec (length rules) 0 0 0 False rules w"

definition backend_candidates :: "backend \<Rightarrow> rstr list" where
  "backend_candidates b =
     (case b of BackendIptables \<Rightarrow> [''iptables''] | BackendAuto \<Rightarrow> [''iptables'', ''iptables-nft'', ''iptables-legacy''])"

definition detect_backend :: "(rstr \<Rightarrow> bool) \<Rightarrow> backend \<Rightarrow> rstr + rstr" where
  "detect_backend available b =
     (case find available (backend_candidates b) of
        Some name \<Rightarrow> Inr name
      | None \<Rightarrow> Inl ''no usable iptables command (tried iptables, iptables-nft, iptables-legacy)'')"

definition check_conntrack :: "bool \<Rightarrow> bool \<Rightarrow> bool \<Rightarrow> rstr + unit" where
  "check_conntrack proc_file proc_dir modprobe =
     (if proc_file \<or> proc_dir \<or> modprobe then Inr ()
      else Inl (''conntrack unavailable: /proc/net/nf_conntrack missing and ''
         @ in_quotes ''modprobe nf_conntrack'' @ '' failed; REDIRECT requires the conntrack facility''))"

definition check_redirect :: "'w exec \<Rightarrow> 'w \<Rightarrow> 'w \<times> (rstr + unit)" where
  "check_redirect exec w =
     (let (w, _) = exec [''-t'', ''nat'', ''-N'', PROBE_CHAIN] w;
          (w, result) = exec (split_on CHR '' '' (''-t nat -A '' @ PROBE_CHAIN @ '' -p tcp -m comment --comment '' @ COMMENT
             @ '' -j REDIRECT --to-ports 1'')) w;
          (w, _) = exec [''-t'', ''nat'', ''-F'', PROBE_CHAIN] w;
          (w, _) = exec [''-t'', ''nat'', ''-X'', PROBE_CHAIN] w
      in (w, case result of
               None \<Rightarrow> Inr ()
             | Some _ \<Rightarrow> Inl (''REDIRECT target unavailable: kernel rejected a REDIRECT rule ''
                 @ ''(nat/redirect target missing?)'')))"

text \<open>The whole flow: the printed plan of a dry run, or the checks and the execution.\<close>

record 'w init_host =
  ih_available :: "rstr \<Rightarrow> bool"
  ih_proc_file :: bool
  ih_proc_dir :: bool
  ih_modprobe :: bool
  ih_exec :: "rstr \<Rightarrow> 'w exec"

definition init_run :: "'w init_host \<Rightarrow> init_params \<Rightarrow> 'w \<Rightarrow> 'w \<times> rstr list \<times> (rstr + unit)" where
  "init_run host params w =
     (let rules = build_rules params in
      if ip_dry_run params then (w, rules, Inr ())
      else
        case and_then (detect_backend (ih_available host) (ip_backend params)) (\<lambda>bin.
               and_then (check_conntrack (ih_proc_file host) (ih_proc_dir host) (ih_modprobe host)) (\<lambda>_. Inr bin)) of
          Inl e \<Rightarrow> (w, [], Inl e)
        | Inr bin \<Rightarrow>
            (case check_redirect (ih_exec host bin) w of
               (w, Inl e) \<Rightarrow> (w, [], Inl e)
             | (w, Inr _) \<Rightarrow>
                 (case exec_plan (ih_exec host bin) rules w of
                    (w, Inl e) \<Rightarrow> (w, [], Inl e)
                  | (w, Inr _) \<Rightarrow> (w, [], Inr ()))))"

text \<open>What the subcommand prints, the help text apart, and its exit code: help, bad flags, failure, success.\<close>

definition init_run_cli ::
  "'w init_host \<Rightarrow> (rstr \<Rightarrow> bool option) \<Rightarrow> rstr list \<Rightarrow> 'w \<Rightarrow> 'w \<times> rstr list \<times> nat" where
  "init_run_cli host K argv w =
     (if list_ex (\<lambda>a. a = ''-h'' \<or> a = ''--help'') argv then (w, [], 0)
      else
        case parse_args K argv of
          Inl e \<Rightarrow> (w, [], 2)
        | Inr params \<Rightarrow>
            (case init_run host params w of
               (w, printed, Inr _) \<Rightarrow> (w, printed, 0)
             | (w, printed, Inl _) \<Rightarrow> (w, printed, 1)))"

section \<open>The rules as data\<close>

text \<open>What a rule of the plan matches and does, its text, and the words after the chain name.\<close>

datatype rule_match = MatchAny | MatchInLo | MatchOutLo | MatchPort u16 | MatchOwner u32 | MatchSubnet rstr

datatype rule_target = TargetReturn | TargetRedirect u16

fun match_text :: "rule_match \<Rightarrow> rstr" where
  "match_text MatchAny = []"
| "match_text MatchInLo = '' -i lo''"
| "match_text MatchOutLo = '' -o lo''"
| "match_text (MatchPort p) = '' --dport '' @ dec_digits (unat p)"
| "match_text (MatchOwner u) = '' -m owner --uid-owner '' @ dec_digits (unat u)"
| "match_text (MatchSubnet s) = '' -d '' @ s"

fun target_text :: "rule_target \<Rightarrow> rstr" where
  "target_text TargetReturn = ''RETURN''"
| "target_text (TargetRedirect p) = ''REDIRECT --to-ports '' @ dec_digits (unat p)"

definition rule_rest :: "rule_match \<times> rule_target \<Rightarrow> rstr" where
  "rule_rest r = ''-p tcp'' @ match_text (fst r) @ '' -m comment --comment '' @ COMMENT @ '' -j '' @ target_text (snd r)"

definition rule_text :: "rstr \<Rightarrow> rule_match \<times> rule_target \<Rightarrow> rstr" where
  "rule_text chain r = ''iptables -t nat -A '' @ chain @ '' '' @ rule_rest r"

definition in_rules :: "init_params \<Rightarrow> (rule_match \<times> rule_target) list" where
  "in_rules p = (MatchInLo, TargetReturn) # map (\<lambda>n. (MatchPort n, TargetReturn)) (ip_ignore_inbound_ports p)
     @ [(MatchAny, TargetRedirect (ip_inbound_port p))]"

definition out_rules :: "init_params \<Rightarrow> (rule_match \<times> rule_target) list" where
  "out_rules p = [(MatchOutLo, TargetReturn), (MatchOwner (ip_proxy_uid p), TargetReturn)]
     @ map (\<lambda>n. (MatchPort n, TargetReturn)) (ip_ignore_outbound_ports p)
     @ map (\<lambda>s. (MatchSubnet s, TargetReturn)) (ip_skip_subnets p)
     @ [(MatchAny, TargetRedirect (ip_outbound_port p))]"

lemma build_rules_text:
  "build_rules p = chain_setup CHAIN_IN ''PREROUTING'' @ map (rule_text CHAIN_IN) (in_rules p)
     @ chain_setup CHAIN_OUT ''OUTPUT'' @ map (rule_text CHAIN_OUT) (out_rules p)"
  by (simp add: build_rules_def in_rules_def out_rules_def rule_text_def rule_rest_def comp_def)

text \<open>
  A TCP packet of a chain, and the verdict of a chain: the target of the first rule that matches, as
  \<open>iptables(8)\<close> documents it. Whether an address lies in a subnet is an argument.
\<close>

record 'd packet =
  pk_loopback :: bool
  pk_owner :: "u32 option"
  pk_dport :: u16
  pk_dst :: 'd

fun rule_matches :: "(rstr \<Rightarrow> 'd \<Rightarrow> bool) \<Rightarrow> 'd packet \<Rightarrow> rule_match \<Rightarrow> bool" where
  "rule_matches sub k MatchAny = True"
| "rule_matches sub k MatchInLo = pk_loopback k"
| "rule_matches sub k MatchOutLo = pk_loopback k"
| "rule_matches sub k (MatchPort p) = (pk_dport k = p)"
| "rule_matches sub k (MatchOwner u) = (pk_owner k = Some u)"
| "rule_matches sub k (MatchSubnet s) = sub s (pk_dst k)"

fun verdict :: "(rstr \<Rightarrow> 'd \<Rightarrow> bool) \<Rightarrow> 'd packet \<Rightarrow> (rule_match \<times> rule_target) list \<Rightarrow> rule_target" where
  "verdict sub k [] = TargetReturn"
| "verdict sub k ((m, t) # rs) = (if rule_matches sub k m then t else verdict sub k rs)"

lemma verdict_returns:
  "verdict sub k (map (\<lambda>x. (f x, TargetReturn)) xs @ rest) =
     (if \<exists>x \<in> set xs. rule_matches sub k (f x) then TargetReturn else verdict sub k rest)"
  by (induction xs) auto

lemma verdict_in:
  "verdict sub k (in_rules p) =
     (if pk_loopback k \<or> pk_dport k \<in> set (ip_ignore_inbound_ports p) then TargetReturn
      else TargetRedirect (ip_inbound_port p))"
  by (auto simp: in_rules_def verdict_returns)

lemma verdict_out:
  "verdict sub k (out_rules p) =
     (if pk_loopback k \<or> pk_owner k = Some (ip_proxy_uid p) \<or> pk_dport k \<in> set (ip_ignore_outbound_ports p)
         \<or> (\<exists>s \<in> set (ip_skip_subnets p). sub s (pk_dst k)) then TargetReturn
      else TargetRedirect (ip_outbound_port p))"
  by (auto simp: out_rules_def verdict_returns)

section \<open>Running the plan\<close>

text \<open>
  The nat table as the commands of the plan change it: rules as words after the chain name. A chain
  can be created once, flushed, checked for a rule, and grown at either end, if it exists.
\<close>

type_synonym nat_table = "rstr \<rightharpoonup> rstr list list"

definition nat_apply :: "rstr list \<Rightarrow> nat_table \<Rightarrow> nat_table option" where
  "nat_apply args t =
     (case args of
        t1 # t2 # op # chain # spec \<Rightarrow>
          if t1 = ''-t'' \<and> t2 = ''nat'' then
            (if op = ''-N'' then (if t chain = None then Some (t(chain \<mapsto> [])) else None)
             else case t chain of
               None \<Rightarrow> None
             | Some rs \<Rightarrow>
                 if op = ''-F'' then Some (t(chain \<mapsto> []))
                 else if op = ''-X'' then (if rs = [] then Some (t(chain := None)) else None)
                 else if op = ''-C'' then (if spec \<in> set rs then Some t else None)
                 else if op = ''-I'' then Some (t(chain \<mapsto> spec # rs))
                 else if op = ''-A'' then Some (t(chain \<mapsto> rs @ [spec]))
                 else None)
          else None
      | _ \<Rightarrow> None)"

text \<open>A command runner that works on the nat table: it reports failures, which change nothing.\<close>

definition obeys :: "'w exec \<Rightarrow> ('w \<Rightarrow> nat_table) \<Rightarrow> bool" where
  "obeys exec tab \<longleftrightarrow>
     (\<forall>args w. case nat_apply args (tab w) of
        Some t \<Rightarrow> snd (exec args w) = None \<and> tab (fst (exec args w)) = t
      | None \<Rightarrow> snd (exec args w) \<noteq> None \<and> tab (fst (exec args w)) = tab w)"

lemma obeys_Some:
  assumes "obeys exec tab" "nat_apply args (tab w) = Some t"
  obtains w' where "exec args w = (w', None)" "tab w' = t"
proof -
  have "snd (exec args w) = None \<and> tab (fst (exec args w)) = t"
    using assms(1) [unfolded obeys_def, rule_format, of args w] assms(2) by simp
  then show ?thesis using that by (cases "exec args w") auto
qed

lemma obeys_None:
  assumes "obeys exec tab" "nat_apply args (tab w) = None"
  obtains w' e where "exec args w = (w', Some e)" "tab w' = tab w"
proof -
  have "snd (exec args w) \<noteq> None \<and> tab (fst (exec args w)) = tab w"
    using assms(1) [unfolded obeys_def, rule_format, of args w] assms(2) by simp
  then show ?thesis using that by (cases "exec args w") auto
qed

definition rule_spec :: "rule_match \<times> rule_target \<Rightarrow> rstr list" where
  "rule_spec r = split_on CHR '' '' (rule_rest r)"

definition own_chain :: "rstr \<Rightarrow> bool" where
  "own_chain chain \<longleftrightarrow> chain = CHAIN_IN \<or> chain = CHAIN_OUT"

lemma words_append: "own_chain chain \<Longrightarrow> tl (split_on CHR '' '' (rule_text chain r)) = ''-t'' # ''nat'' # ''-A'' # chain # rule_spec r"
  by (auto simp: own_chain_def rule_text_def CHAIN_IN_def CHAIN_OUT_def rule_spec_def)

definition jump_spec :: "rstr \<Rightarrow> rstr list" where
  "jump_spec chain = [''-m'', ''comment'', ''--comment'', ''openrusty-init'', ''-j'', chain]"

definition own_hook :: "rstr \<Rightarrow> bool" where
  "own_hook hook \<longleftrightarrow> hook = ''PREROUTING'' \<or> hook = ''OUTPUT''"

lemma words_setup:
  assumes "own_chain chain" "own_hook hook"
  shows "\<exists>n f c i. chain_setup chain hook = [n, f, c, i]
    \<and> tl (split_on CHR '' '' n) = [''-t'', ''nat'', ''-N'', chain] \<and> tl (split_on CHR '' '' f) = [''-t'', ''nat'', ''-F'', chain]
    \<and> tl (split_on CHR '' '' c) = ''-t'' # ''nat'' # ''-C'' # hook # jump_spec chain
    \<and> tl (split_on CHR '' '' i) = ''-t'' # ''nat'' # ''-I'' # hook # jump_spec chain"
  using assms
  by (auto simp: own_chain_def own_hook_def chain_setup_def Let_def CHAIN_IN_def CHAIN_OUT_def COMMENT_def jump_spec_def)

lemma append_step:
  assumes "obeys exec tab" "own_chain chain" "tab w chain = Some rs"
  obtains w' where "tab w' = (tab w)(chain \<mapsto> rs @ [rule_spec r])"
    "\<And>rest. plan_loop exec len idx n k skip (rule_text chain r # rest) w
       = plan_loop exec len (Suc idx) (Suc n) (Suc k) False rest w'"
proof -
  have "nat_apply (''-t'' # ''nat'' # ''-A'' # chain # rule_spec r) (tab w) = Some ((tab w)(chain \<mapsto> rs @ [rule_spec r]))"
    using assms(3) by (simp add: nat_apply_def)
  from obeys_Some [OF assms(1) this] obtain w' where
    "exec (''-t'' # ''nat'' # ''-A'' # chain # rule_spec r) w = (w', None)" "tab w' = (tab w)(chain \<mapsto> rs @ [rule_spec r])" .
  then show ?thesis using that words_append [OF assms(2), of r] by (simp add: Let_def)
qed

lemma append_rules:
  assumes "obeys exec tab" "own_chain chain" "tab w chain = Some rs"
  shows "\<exists>w'. tab w' = (tab w)(chain \<mapsto> rs @ map rule_spec rules)
    \<and> (\<forall>rest. plan_loop exec len idx n k skip (map (rule_text chain) rules @ rest) w
       = plan_loop exec len (idx + length rules) (n + length rules) (k + length rules) (skip \<and> rules = []) rest w')"
  using assms(3)
proof (induction rules arbitrary: w rs idx n k skip)
  case Nil
  then show ?case by (auto intro!: exI [of _ w])
next
  case (Cons r rules)
  obtain w1 where w1: "tab w1 = (tab w)(chain \<mapsto> rs @ [rule_spec r])"
    "\<And>rest. plan_loop exec len idx n k skip (rule_text chain r # rest) w
       = plan_loop exec len (Suc idx) (Suc n) (Suc k) False rest w1"
    using append_step [OF assms(1,2) Cons.prems, of r len idx n k skip] by blast
  then have "tab w1 chain = Some (rs @ [rule_spec r])" by simp
  from Cons.IH [OF this, of "Suc idx" "Suc n" "Suc k" False] obtain w2
    where w2: "tab w2 = (tab w1)(chain \<mapsto> (rs @ [rule_spec r]) @ map rule_spec rules)"
      "\<And>rest. plan_loop exec len (Suc idx) (Suc n) (Suc k) False (map (rule_text chain) rules @ rest) w1
        = plan_loop exec len (Suc idx + length rules) (Suc n + length rules) (Suc k + length rules) False rest w2"
    unfolding simp_thms by blast
  have "tab w2 = (tab w)(chain \<mapsto> rs @ map rule_spec (r # rules))" by (simp add: w2(1) w1(1))
  moreover have "plan_loop exec len idx n k skip (map (rule_text chain) (r # rules) @ rest) w
      = plan_loop exec len (idx + length (r # rules)) (n + length (r # rules)) (k + length (r # rules)) False rest w2" for rest
    using w1(2) [of "map (rule_text chain) rules @ rest"] w2(2) [of rest] by (simp del: plan_loop.simps)
  ultimately show ?case by (intro exI [of _ w2]) (simp only: list.distinct simp_thms)
qed

lemma setup_chain:
  assumes "obeys exec tab" "own_chain chain" "own_hook hook" "tab w hook = Some hs"
  shows "\<exists>w'. tab w' = (tab w)(chain \<mapsto> [], hook \<mapsto> (if jump_spec chain \<in> set hs then hs else jump_spec chain # hs))
    \<and> (\<forall>rest. plan_loop exec len idx n k False (chain_setup chain hook @ rest) w
       = plan_loop exec len (idx + 4) (n + 4) k False rest w')"
proof -
  obtain cn cf cc ci where cs: "chain_setup chain hook = [cn, cf, cc, ci]"
    and ws: "tl (split_on CHR '' '' cn) = [''-t'', ''nat'', ''-N'', chain]" "tl (split_on CHR '' '' cf) = [''-t'', ''nat'', ''-F'', chain]"
      "tl (split_on CHR '' '' cc) = ''-t'' # ''nat'' # ''-C'' # hook # jump_spec chain"
      "tl (split_on CHR '' '' ci) = ''-t'' # ''nat'' # ''-I'' # hook # jump_spec chain"
    using words_setup [OF assms(2,3)] by blast
  have ne: "chain \<noteq> hook"
    using assms(2,3) by (auto simp: own_chain_def own_hook_def CHAIN_IN_def CHAIN_OUT_def)
  let ?t = "(tab w)(chain \<mapsto> [])"
  obtain w1 where w1: "tab w1 chain \<noteq> None" "\<forall>c. c \<noteq> chain \<longrightarrow> tab w1 c = tab w c"
    "\<And>rest. plan_loop exec len idx n k False (cn # rest) w = plan_loop exec len (Suc idx) (Suc n) k False rest w1"
  proof (cases "tab w chain")
    case None
    then have "nat_apply [''-t'', ''nat'', ''-N'', chain] (tab w) = Some ?t" by (simp add: nat_apply_def)
    from obeys_Some [OF assms(1) this] obtain w1 where e: "exec [''-t'', ''nat'', ''-N'', chain] w = (w1, None)" "tab w1 = ?t" .
    show ?thesis by (rule that [of w1]) (simp_all add: e ws Let_def)
  next
    case (Some old)
    then have "nat_apply [''-t'', ''nat'', ''-N'', chain] (tab w) = None" by (simp add: nat_apply_def)
    from obeys_None [OF assms(1) this] obtain w1 err where
      e: "exec [''-t'', ''nat'', ''-N'', chain] w = (w1, Some err)" "tab w1 = tab w" .
    show ?thesis by (rule that [of w1]) (simp_all add: e ws Some Let_def)
  qed
  have t1: "(tab w1)(chain \<mapsto> []) = ?t" using w1(2) by auto
  then have "nat_apply [''-t'', ''nat'', ''-F'', chain] (tab w1) = Some ?t" using w1(1) by (auto simp: nat_apply_def)
  from obeys_Some [OF assms(1) this] obtain w2 where e2: "exec [''-t'', ''nat'', ''-F'', chain] w1 = (w2, None)" "tab w2 = ?t" .
  have hs: "tab w2 hook = Some hs" using assms(4) ne e2(2) by simp
  have run2: "plan_loop exec len idx n k False (chain_setup chain hook @ rest) w
      = plan_loop exec len (idx + 2) (n + 2) k False (cc # ci # rest) w2" for rest
    unfolding cs using w1(3) [of "cf # cc # ci # rest"] by (simp add: e2 ws Let_def)
  show ?thesis
  proof (cases "jump_spec chain \<in> set hs")
    case True
    then have "nat_apply (''-t'' # ''nat'' # ''-C'' # hook # jump_spec chain) (tab w2) = Some (tab w2)"
      using hs by (simp add: nat_apply_def)
    from obeys_Some [OF assms(1) this] obtain w3 where
      e3: "exec (''-t'' # ''nat'' # ''-C'' # hook # jump_spec chain) w2 = (w3, None)" "tab w3 = tab w2" .
    have "plan_loop exec len (idx + 2) (n + 2) k False (cc # ci # rest) w2 = plan_loop exec len (idx + 4) (n + 4) k False rest w3" for rest
      by (simp add: e3 ws Let_def eval_nat_numeral)
    moreover have "tab w3 = ?t(hook \<mapsto> hs)"
      using e3(2) e2(2) hs fun_upd_idem [of "tab w2" hook "Some hs"] by (simp del: fun_upd_apply)
    ultimately show ?thesis using run2 True by auto
  next
    case False
    then have "nat_apply (''-t'' # ''nat'' # ''-C'' # hook # jump_spec chain) (tab w2) = None"
      using hs by (simp add: nat_apply_def)
    from obeys_None [OF assms(1) this] obtain w3 err where
      e3: "exec (''-t'' # ''nat'' # ''-C'' # hook # jump_spec chain) w2 = (w3, Some err)" "tab w3 = tab w2" .
    have "nat_apply (''-t'' # ''nat'' # ''-I'' # hook # jump_spec chain) (tab w3) = Some (?t(hook \<mapsto> jump_spec chain # hs))"
      using hs e3(2) e2(2) by (simp add: nat_apply_def)
    from obeys_Some [OF assms(1) this] obtain w4 where
      e4: "exec (''-t'' # ''nat'' # ''-I'' # hook # jump_spec chain) w3 = (w4, None)" "tab w4 = ?t(hook \<mapsto> jump_spec chain # hs)" .
    have "plan_loop exec len (idx + 2) (n + 2) k False (cc # ci # rest) w2 = plan_loop exec len (idx + 4) (n + 4) k False rest w4" for rest
      by (simp add: e3 e4 ws Let_def eval_nat_numeral)
    then show ?thesis using run2 False e4(2) by auto
  qed
qed

text \<open>The table the plan aims at.\<close>

definition hooked :: "rstr \<Rightarrow> rstr \<Rightarrow> nat_table \<Rightarrow> rstr list list option" where
  "hooked chain hook t = map_option (\<lambda>hs. if jump_spec chain \<in> set hs then hs else jump_spec chain # hs) (t hook)"

definition installed :: "init_params \<Rightarrow> nat_table \<Rightarrow> nat_table" where
  "installed p t = t
     (CHAIN_IN \<mapsto> map rule_spec (in_rules p), CHAIN_OUT \<mapsto> map rule_spec (out_rules p),
      ''PREROUTING'' := hooked CHAIN_IN ''PREROUTING'' t, ''OUTPUT'' := hooked CHAIN_OUT ''OUTPUT'' t)"

lemma chain_names [simp]:
  "CHAIN_IN \<noteq> CHAIN_OUT" "CHAIN_OUT \<noteq> CHAIN_IN" "CHAIN_IN \<noteq> ''PREROUTING''" "CHAIN_IN \<noteq> ''OUTPUT''" "CHAIN_OUT \<noteq> ''PREROUTING''"
  "CHAIN_OUT \<noteq> ''OUTPUT''" "''PREROUTING'' \<noteq> CHAIN_IN" "''OUTPUT'' \<noteq> CHAIN_IN" "''PREROUTING'' \<noteq> CHAIN_OUT" "''OUTPUT'' \<noteq> CHAIN_OUT"
  by (simp_all add: CHAIN_IN_def CHAIN_OUT_def)

lemma installed_again: "installed q (installed p t) = installed q t"
proof -
  have again: "hooked c h s = hooked c h t" if "s h = hooked c h t" for c h s
    by (cases "t h") (simp_all add: hooked_def that)
  have "hooked CHAIN_IN ''PREROUTING'' (installed p t) = hooked CHAIN_IN ''PREROUTING'' t"
    "hooked CHAIN_OUT ''OUTPUT'' (installed p t) = hooked CHAIN_OUT ''OUTPUT'' t"
    by (rule again, simp add: installed_def)+
  then show ?thesis unfolding installed_def [of q] by (auto simp: installed_def fun_eq_iff)
qed

lemma plan_installs:
  assumes "obeys exec tab" "tab w ''PREROUTING'' \<noteq> None" "tab w ''OUTPUT'' \<noteq> None"
  shows "\<exists>w'. exec_plan exec (build_rules p) w
      = (w', Inr (length (build_rules p), length (in_rules p) + length (out_rules p))) \<and> tab w' = installed p (tab w)"
proof -
  let ?len = "length (build_rules p)"
  obtain pre out where pre: "tab w ''PREROUTING'' = Some pre" and out: "tab w ''OUTPUT'' = Some out" using assms by blast
  have own: "own_chain CHAIN_IN" "own_chain CHAIN_OUT" "own_hook ''PREROUTING''" "own_hook ''OUTPUT''"
    by (simp_all add: own_chain_def own_hook_def)
  obtain w1 where t1: "tab w1 = (tab w)(CHAIN_IN \<mapsto> [], ''PREROUTING'' \<mapsto> (if jump_spec CHAIN_IN \<in> set pre then pre else jump_spec CHAIN_IN # pre))"
    and r1: "\<And>rest. plan_loop exec ?len 0 0 0 False (chain_setup CHAIN_IN ''PREROUTING'' @ rest) w
      = plan_loop exec ?len (0 + 4) (0 + 4) 0 False rest w1"
    using setup_chain [where tab = tab and w = w and len = ?len and idx = 0 and n = 0 and k = 0, OF assms(1) own(1,3) pre] by blast
  have "tab w1 CHAIN_IN = Some []" by (simp add: t1)
  from append_rules [where tab = tab and w = w1 and rules = "in_rules p" and len = ?len and idx = 4 and n = 4 and k = 0 and skip = False, OF assms(1) own(1) this] obtain w2
    where t2: "tab w2 = (tab w1)(CHAIN_IN \<mapsto> map rule_spec (in_rules p))"
      and r2: "\<And>rest. plan_loop exec ?len 4 4 0 False (map (rule_text CHAIN_IN) (in_rules p) @ rest) w1
        = plan_loop exec ?len (4 + length (in_rules p)) (4 + length (in_rules p)) (0 + length (in_rules p)) False rest w2"
    unfolding simp_thms append_Nil by blast
  have out2: "tab w2 ''OUTPUT'' = Some out" by (simp add: t2 t1 out)
  let ?i = "4 + length (in_rules p)"
  obtain w3 where t3: "tab w3 = (tab w2)(CHAIN_OUT \<mapsto> [], ''OUTPUT'' \<mapsto> (if jump_spec CHAIN_OUT \<in> set out then out else jump_spec CHAIN_OUT # out))"
    and r3: "\<And>rest. plan_loop exec ?len ?i ?i (length (in_rules p)) False (chain_setup CHAIN_OUT ''OUTPUT'' @ rest) w2
      = plan_loop exec ?len (?i + 4) (?i + 4) (length (in_rules p)) False rest w3"
    using setup_chain [where tab = tab and w = w2 and len = ?len and idx = ?i and n = ?i and k = "length (in_rules p)", OF assms(1) own(2,4) out2] by blast
  have "tab w3 CHAIN_OUT = Some []" by (simp add: t3)
  from append_rules [where tab = tab and w = w3 and rules = "out_rules p" and len = ?len and idx = "?i + 4" and n = "?i + 4"
      and k = "length (in_rules p)" and skip = False, OF assms(1) own(2) this] obtain w4
    where t4: "tab w4 = (tab w3)(CHAIN_OUT \<mapsto> map rule_spec (out_rules p))"
      and r4: "\<And>rest. plan_loop exec ?len (?i + 4) (?i + 4) (length (in_rules p)) False (map (rule_text CHAIN_OUT) (out_rules p) @ rest) w3
        = plan_loop exec ?len (?i + 4 + length (out_rules p)) (?i + 4 + length (out_rules p))
            (length (in_rules p) + length (out_rules p)) False rest w4"
    unfolding simp_thms append_Nil by blast
  have len: "?len = ?i + 4 + length (out_rules p)"
    by (simp add: build_rules_text chain_setup_def Let_def)
  have "exec_plan exec (build_rules p) w = plan_loop exec ?len ?len ?len (length (in_rules p) + length (out_rules p)) False [] w4"
    using r1 [of "map (rule_text CHAIN_IN) (in_rules p) @ chain_setup CHAIN_OUT ''OUTPUT'' @ map (rule_text CHAIN_OUT) (out_rules p) @ []"]
      r2 [of "chain_setup CHAIN_OUT ''OUTPUT'' @ map (rule_text CHAIN_OUT) (out_rules p) @ []"]
      r3 [of "map (rule_text CHAIN_OUT) (out_rules p) @ []"] r4 [of "[]"]
    unfolding exec_plan_def len [symmetric] build_rules_text [symmetric] append_Nil2 by (simp only: add_0)
  moreover have "tab w4 = installed p (tab w)"
    by (auto simp: t4 t3 t2 t1 installed_def hooked_def pre out fun_eq_iff)
  ultimately show ?thesis by auto
qed

section \<open>Properties\<close>


definition table_exec :: "nat_table exec" where
  "table_exec args t = (case nat_apply args t of Some t' \<Rightarrow> (t', None) | None \<Rightarrow> (t, Some ''failed''))"


end
