(* ===== verification/Inject.thy ===== *)
theory Inject
  imports InitRules SortedMap Config
begin

text \<open>
  Sidecar injection (\<open>crates/openrusty-server/src/inject/\<close>): the annotation surface (\<open>mod.rs\<close>), the surgery
  on the manifest (\<open>render.rs\<close>) and the generated configuration (\<open>config.rs\<close>). A manifest is the tree
  \<open>serde_yaml\<close> parses, with mappings as ordered association lists and numbers as their text; reading and
  printing YAML, reading TOML and name resolution are arguments.
\<close>

section \<open>Constants and data (mod.rs)\<close>

definition PREFIX :: rstr where "PREFIX = ''config.openrusty.io/''"

definition INIT_NAME :: rstr where "INIT_NAME = ''openrusty-init''"

definition SIDECAR_NAME :: rstr where "SIDECAR_NAME = ''openrusty-proxy''"

definition CONFIG_VOLUME :: rstr where "CONFIG_VOLUME = ''openrusty-config''"

definition CONFIG_MOUNT :: rstr where "CONFIG_MOUNT = ''/etc/openrusty''"

definition CONFIG_PATH :: rstr where "CONFIG_PATH = ''/etc/openrusty/openrusty.toml''"

definition INBOUND_PORT :: u16 where "INBOUND_PORT = 4143"

definition OUTBOUND_PORT :: u16 where "OUTBOUND_PORT = 4140"

definition ADMIN_PORT :: u16 where "ADMIN_PORT = 4191"

definition ADMIN_IGNORE_PORT :: u16 where "ADMIN_IGNORE_PORT = ADMIN_PORT"

definition DEFAULT_PROXY_UID :: u32 where "DEFAULT_PROXY_UID = 511"

definition DEFAULT_LOG_LEVEL :: rstr where "DEFAULT_LOG_LEVEL = ''warn''"

definition IMAGE :: rstr where "IMAGE = ''ghcr.io/openrusty/openrusty:0.0.0-placeholder''"

definition OPAQUE_PORTS_ENV :: rstr where "OPAQUE_PORTS_ENV = ''OPENRUSTY_OPAQUE_PORTS''"

definition PLUGINS_DIR :: rstr where "PLUGINS_DIR = ''/dev/null-plugins''"

definition MANAGED_BY_LABEL :: rstr where "MANAGED_BY_LABEL = ''app.kubernetes.io/managed-by''"

definition MANAGED_BY :: rstr where "MANAGED_BY = ''openrusty-inject''"

record inject_params =
  ij_enabled :: bool
  ij_skip_inbound_ports :: "u16 list"
  ij_opaque_ports :: "u16 list"
  ij_proxy_uid :: u32
  ij_log_level :: rstr
  ij_egress_mode :: egress_mode
  ij_egress_gateway :: rstr
  ij_app_port :: "u16 option"

definition inject_params_default :: inject_params where
  "inject_params_default = \<lparr>ij_enabled = True, ij_skip_inbound_ports = [], ij_opaque_ports = [],
     ij_proxy_uid = DEFAULT_PROXY_UID, ij_log_level = DEFAULT_LOG_LEVEL, ij_egress_mode = EgressDirect,
     ij_egress_gateway = [], ij_app_port = None\<rparr>"

text \<open>One constructor per error text, with the values it shows.\<close>

datatype inject_error =
    InvalidAnnotation rstr rstr rstr | GatewayAnnotationMissing
  | EmptyInput | MultiDocument | InvalidYaml rstr
  | NoName | NoKind | KindNotInjectable rstr | NoPodSpec rstr "rstr list" | NoContainers "rstr list"
  | AlreadyInjected | SpecNotMapping | NotAList rstr
  | GatewayModeWithoutGateway | RenderedConfigUnreadable rstr | RenderedConfigInvalid config_error
  | CannotRender rstr

datatype yaml =
    YNull | YBool bool | YNumber rstr | YString rstr | YSeq "yaml list" | YMap "(yaml \<times> yaml) list" | YTagged rstr yaml

section \<open>Tree access (render.rs)\<close>

text \<open>\<open>Value::get\<close> and the \<open>as_\<close> accessors look through tags.\<close>

fun untag :: "yaml \<Rightarrow> yaml" where
  "untag (YTagged t v) = untag v"
| "untag v = v"

definition yget :: "rstr \<Rightarrow> yaml \<Rightarrow> yaml option" where
  "yget k v = (case untag v of YMap m \<Rightarrow> map_of m (YString k) | _ \<Rightarrow> None)"

definition as_str :: "yaml \<Rightarrow> rstr option" where
  "as_str v = (case untag v of YString s \<Rightarrow> Some s | _ \<Rightarrow> None)"

definition as_sequence :: "yaml \<Rightarrow> yaml list option" where
  "as_sequence v = (case untag v of YSeq xs \<Rightarrow> Some xs | _ \<Rightarrow> None)"

definition as_mapping :: "yaml \<Rightarrow> (yaml \<times> yaml) list option" where
  "as_mapping v = (case untag v of YMap m \<Rightarrow> Some m | _ \<Rightarrow> None)"

definition metadata_of :: "yaml \<Rightarrow> yaml option" where
  "metadata_of doc = yget ''metadata'' doc"

definition pod_template_metadata :: "yaml \<Rightarrow> yaml option" where
  "pod_template_metadata doc =
     Option.bind (Option.bind (yget ''spec'' doc) (yget ''template'')) (yget ''metadata'')"

definition annotations :: "yaml \<Rightarrow> (rstr \<times> yaml) list" where
  "annotations meta =
     (case Option.bind (yget ''annotations'' meta) as_mapping of
        None \<Rightarrow> []
      | Some m \<Rightarrow> List.map_filter (\<lambda>(k, v). map_option (\<lambda>s. (s, v)) (as_str k)) m)"

definition scalar_string :: "yaml \<Rightarrow> rstr option" where
  "scalar_string v =
     (case v of
        YString s \<Rightarrow> Some s
      | YNumber n \<Rightarrow> Some n
      | YBool b \<Rightarrow> Some (if b then ''true'' else ''false'')
      | _ \<Rightarrow> None)"

definition workload_name :: "yaml \<Rightarrow> inject_error + rstr" where
  "workload_name doc =
     (case Option.bind (Option.bind (metadata_of doc) (yget ''name'')) scalar_string of Some n \<Rightarrow> Inr n | None \<Rightarrow> Inl NoName)"

definition namespace_of :: "yaml \<Rightarrow> rstr option" where
  "namespace_of doc = Option.bind (Option.bind (metadata_of doc) (yget ''namespace'')) scalar_string"

text \<open>\<open>get_mut\<close> as a lens: the value at a path, and the tree with that value replaced.\<close>

fun get_at :: "rstr list \<Rightarrow> yaml \<Rightarrow> yaml option" where
  "get_at [] v = Some v"
| "get_at (k # ks) v = Option.bind (yget k v) (get_at ks)"

fun map_put :: "yaml \<Rightarrow> yaml \<Rightarrow> (yaml \<times> yaml) list \<Rightarrow> (yaml \<times> yaml) list" where
  "map_put k v [] = [(k, v)]"
| "map_put k v ((k', v') # m) = (if k' = k then (k', v) # m else (k', v') # map_put k v m)"

fun retag :: "yaml \<Rightarrow> yaml \<Rightarrow> yaml" where
  "retag (YTagged t v) new = YTagged t (retag v new)"
| "retag v new = new"

definition yput :: "rstr \<Rightarrow> yaml \<Rightarrow> yaml \<Rightarrow> yaml" where
  "yput k new v = (case as_mapping v of Some m \<Rightarrow> retag v (YMap (map_put (YString k) new m)) | None \<Rightarrow> v)"

fun put_at :: "rstr list \<Rightarrow> yaml \<Rightarrow> yaml \<Rightarrow> yaml" where
  "put_at [] new v = new"
| "put_at (k # ks) new v = (case yget k v of Some c \<Rightarrow> yput k (put_at ks new c) v | None \<Rightarrow> v)"

definition POD :: "rstr list" where "POD = [''spec'']"

definition POD_TEMPLATE :: "rstr list" where "POD_TEMPLATE = [''spec'', ''template'', ''spec'']"

definition CRONJOB_POD :: "rstr list" where
  "CRONJOB_POD = [''spec'', ''jobTemplate'', ''spec'', ''template'', ''spec'']"

definition pod_path :: "rstr \<Rightarrow> rstr list option" where
  "pod_path kind =
     (if kind = ''Pod'' then Some POD
      else if kind \<in> {''Deployment'', ''ReplicaSet'', ''StatefulSet'', ''DaemonSet'', ''Job''} then Some POD_TEMPLATE
      else if kind = ''CronJob'' then Some CRONJOB_POD else None)"

definition pod_spec :: "yaml \<Rightarrow> inject_error + rstr list \<times> yaml" where
  "pod_spec doc =
     (case Option.bind (yget ''kind'' doc) as_str of
        None \<Rightarrow> Inl NoKind
      | Some kind \<Rightarrow>
          (case pod_path kind of
             None \<Rightarrow> Inl (KindNotInjectable kind)
           | Some path \<Rightarrow>
               (case get_at path doc of
                  None \<Rightarrow> Inl (NoPodSpec kind path)
                | Some spec \<Rightarrow>
                    if Option.bind (yget ''containers'' spec) as_sequence = None then Inl (NoContainers path)
                    else Inr (path, spec))))"

section \<open>Annotations (mod.rs)\<close>

fun annotation_ports :: "rstr \<Rightarrow> rstr \<Rightarrow> rstr list \<Rightarrow> u16 list \<Rightarrow> inject_error + u16 list" where
  "annotation_ports what raw [] out = Inr out"
| "annotation_ports what raw (part # rest) out =
     (let part = trim part in
      if part = [] then Inl (InvalidAnnotation what raw ''a comma-separated port list'')
      else case parse_uint 16 part of
             None \<Rightarrow> Inl (InvalidAnnotation what raw ''a comma-separated port list'')
           | Some n \<Rightarrow> let port = of_nat n in annotation_ports what raw rest (if port \<in> set out then out else out @ [port]))"

definition parse_port_list :: "rstr \<Rightarrow> rstr \<Rightarrow> inject_error + u16 list" where
  "parse_port_list what raw = annotation_ports what raw (split_on CHR '','' raw) []"

definition parse_egress_mode :: "rstr \<Rightarrow> rstr \<Rightarrow> inject_error + egress_mode" where
  "parse_egress_mode name value =
     (if value = ''direct'' then Inr EgressDirect else if value = ''gateway'' then Inr EgressGateway
      else if value = ''deny'' then Inr EgressDeny else Inl (InvalidAnnotation name value ''direct|gateway|deny''))"

definition apply_annotation :: "rstr \<Rightarrow> rstr \<Rightarrow> inject_params \<Rightarrow> inject_error + inject_params" where
  "apply_annotation name value p =
     (if name = ''inject'' then
        (if value = ''enabled'' then Inr (p\<lparr>ij_enabled := True\<rparr>)
         else if value = ''disabled'' then Inr (p\<lparr>ij_enabled := False\<rparr>)
         else Inl (InvalidAnnotation name value ''enabled|disabled''))
      else if name = ''skip-inbound-ports'' then
        and_then (parse_port_list name value) (\<lambda>ps. Inr (p\<lparr>ij_skip_inbound_ports := ps\<rparr>))
      else if name = ''opaque-ports'' then
        and_then (parse_port_list name value) (\<lambda>ps. Inr (p\<lparr>ij_opaque_ports := ps\<rparr>))
      else if name = ''proxy-uid'' then
        (case parse_uint 32 (trim value) of
           Some n \<Rightarrow> Inr (p\<lparr>ij_proxy_uid := of_nat n\<rparr>)
         | None \<Rightarrow> Inl (InvalidAnnotation name value ''a numeric uid''))
      else if name = ''proxy-log-level'' then
        (if value \<in> {''trace'', ''debug'', ''info'', ''warn'', ''error''} then Inr (p\<lparr>ij_log_level := value\<rparr>)
         else Inl (InvalidAnnotation name value ''trace|debug|info|warn|error''))
      else if name = ''egress-mode'' then
        and_then (parse_egress_mode name value) (\<lambda>m. Inr (p\<lparr>ij_egress_mode := m\<rparr>))
      else if name = ''egress-gateway'' then Inr (p\<lparr>ij_egress_gateway := trim value\<rparr>)
      else if name = ''app-port'' then
        (case parse_uint 16 (trim value) of
           Some n \<Rightarrow> Inr (p\<lparr>ij_app_port := Some (of_nat n)\<rparr>)
         | None \<Rightarrow> Inl (InvalidAnnotation name value ''a port number''))
      else Inr p)"

fun annotation_loop :: "(rstr \<times> rstr) list \<Rightarrow> inject_params \<Rightarrow> inject_error + inject_params" where
  "annotation_loop [] p = Inr p"
| "annotation_loop ((key, value) # rest) p =
     (case strip_prefix key PREFIX of
        None \<Rightarrow> annotation_loop rest p
      | Some name \<Rightarrow> and_then (apply_annotation name value p) (\<lambda>p'. annotation_loop rest p'))"

definition parse_annotations :: "(rstr \<times> rstr) list \<Rightarrow> inject_error + inject_params" where
  "parse_annotations merged =
     and_then (annotation_loop merged inject_params_default) (\<lambda>p.
       if ij_egress_mode p = EgressGateway \<and> ij_egress_gateway p = [] then Inl GatewayAnnotationMissing else Inr p)"

text \<open>The warnings name the annotations that are not scalars.\<close>

definition merge_annotation :: "(rstr \<times> rstr) list \<times> rstr list \<Rightarrow> rstr \<times> yaml \<Rightarrow> (rstr \<times> rstr) list \<times> rstr list" where
  "merge_annotation = (\<lambda>(merged, warnings) (k, v).
     case scalar_string v of
       Some s \<Rightarrow> (bt_insert k s merged, warnings)
     | None \<Rightarrow> (merged, warnings @ [k]))"

definition option_list :: "'a option \<Rightarrow> 'a list" where
  "option_list x = (case x of Some a \<Rightarrow> [a] | None \<Rightarrow> [])"

definition collect_annotations :: "yaml \<Rightarrow> inject_error + inject_params \<times> rstr list" where
  "collect_annotations doc =
     (let sources = option_list (metadata_of doc) @ option_list (pod_template_metadata doc);
          (merged, warnings) = foldl merge_annotation ([], []) (concat (map annotations sources))
      in and_then (parse_annotations merged) (\<lambda>p. Inr (p, warnings)))"

definition ignored_ports :: "inject_params \<Rightarrow> u16 list" where
  "ignored_ports p = remdups_adj (sort (ij_skip_inbound_ports p @ [ADMIN_IGNORE_PORT]))"

definition ignore_inbound_ports :: "inject_params \<Rightarrow> rstr" where
  "ignore_inbound_ports p = join '','' (map (\<lambda>n. dec_digits (unat n)) (ignored_ports p))"

section \<open>Injection (render.rs)\<close>

abbreviation ynum :: "nat \<Rightarrow> yaml" where "ynum n \<equiv> YNumber (dec_digits n)"

abbreviation yobj :: "(rstr \<times> yaml) list \<Rightarrow> yaml" where "yobj fs \<equiv> YMap (map (\<lambda>(k, v). (YString k, v)) fs)"

definition INIT_CAPS :: "rstr list" where "INIT_CAPS = [''NET_ADMIN'', ''NET_RAW'']"

definition init_command :: "inject_params \<Rightarrow> rstr list" where
  "init_command p =
     [''openrusty'', ''iptables-init'', ''--proxy-uid'', dec_digits (unat (ij_proxy_uid p)),
      ''--inbound-port'', dec_digits (unat INBOUND_PORT), ''--outbound-port'', dec_digits (unat OUTBOUND_PORT),
      ''--ignore-inbound-ports'', ignore_inbound_ports p]"

definition opaque_env :: "inject_params \<Rightarrow> yaml list option" where
  "opaque_env p =
     (if ij_opaque_ports p = [] then None
      else Some [yobj [(''name'', YString OPAQUE_PORTS_ENV),
        (''value'', YString (join '','' (map (\<lambda>n. dec_digits (unat n)) (ij_opaque_ports p))))]])"

definition container_port :: "rstr \<Rightarrow> u16 \<Rightarrow> yaml" where
  "container_port name n = yobj [(''name'', YString name), (''containerPort'', ynum (unat n))]"

definition init_container :: "inject_params \<Rightarrow> rstr \<Rightarrow> yaml" where
  "init_container p img =
     yobj [(''name'', YString INIT_NAME), (''image'', YString img), (''command'', YSeq (map YString (init_command p))),
           (''securityContext'', yobj [(''runAsUser'', ynum 0),
              (''capabilities'', yobj [(''add'', YSeq (map YString INIT_CAPS))])])]"

definition sidecar :: "inject_params \<Rightarrow> rstr \<Rightarrow> yaml" where
  "sidecar p img =
     yobj ([(''name'', YString SIDECAR_NAME), (''image'', YString img), (''args'', YSeq [YString CONFIG_PATH])]
        @ (case opaque_env p of Some env \<Rightarrow> [(''env'', YSeq env)] | None \<Rightarrow> [])
        @ [(''ports'', YSeq [container_port ''proxy'' INBOUND_PORT, container_port ''outbound'' OUTBOUND_PORT,
              container_port ''admin'' ADMIN_PORT]),
           (''securityContext'', yobj [(''runAsUser'', ynum (unat (ij_proxy_uid p)))]),
           (''volumeMounts'', YSeq [yobj [(''name'', YString CONFIG_VOLUME), (''mountPath'', YString CONFIG_MOUNT),
              (''readOnly'', YBool True)]])])"

definition config_volume :: "rstr \<Rightarrow> yaml" where
  "config_volume cm_name =
     yobj [(''name'', YString CONFIG_VOLUME), (''configMap'', yobj [(''name'', YString cm_name)])]"

definition container_names :: "yaml \<Rightarrow> rstr \<Rightarrow> rstr list" where
  "container_names spec key =
     (case Option.bind (yget key spec) as_sequence of
        None \<Rightarrow> []
      | Some cs \<Rightarrow> List.map_filter (\<lambda>c. Option.bind (yget ''name'' c) as_str) cs)"

definition append_item :: "rstr \<Rightarrow> yaml \<Rightarrow> yaml \<Rightarrow> inject_error + yaml" where
  "append_item key item spec =
     (case as_mapping spec of
        None \<Rightarrow> Inl SpecNotMapping
      | Some m \<Rightarrow>
          let entry = (case map_of m (YString key) of Some v \<Rightarrow> v | None \<Rightarrow> YSeq []) in
          (case as_sequence entry of
             None \<Rightarrow> Inl (NotAList key)
           | Some xs \<Rightarrow> Inr (retag spec (YMap (map_put (YString key) (retag entry (YSeq (xs @ [item]))) m)))))"

definition inject_pod_spec :: "inject_params \<Rightarrow> rstr \<Rightarrow> rstr \<Rightarrow> yaml \<Rightarrow> inject_error + yaml" where
  "inject_pod_spec p img cm_name spec =
     (if INIT_NAME \<in> set (container_names spec ''initContainers'') \<or> SIDECAR_NAME \<in> set (container_names spec ''containers'')
      then Inl AlreadyInjected
      else
        and_then (append_item ''initContainers'' (init_container p img) spec) (\<lambda>spec.
        and_then (append_item ''containers'' (sidecar p img) spec) (\<lambda>spec.
        append_item ''volumes'' (config_volume cm_name) spec)))"

section \<open>The generated configuration (config.rs)\<close>

definition CONFIG_KEY :: rstr where "CONFIG_KEY = ''openrusty.toml''"

definition nl :: rstr where "nl = [byte 10]"

definition qt :: "rstr \<Rightarrow> rstr" where "qt s = [byte 34] @ s @ [byte 34]"

definition line :: "rstr \<Rightarrow> rstr" where "line s = s @ nl"

definition egress_mode_str :: "egress_mode \<Rightarrow> rstr" where
  "egress_mode_str m = (case m of EgressDirect \<Rightarrow> ''direct'' | EgressGateway \<Rightarrow> ''gateway'' | EgressDeny \<Rightarrow> ''deny'')"

definition app_section :: "inject_params \<Rightarrow> rstr" where
  "app_section p =
     (case ij_app_port p of
        None \<Rightarrow> []
      | Some n \<Rightarrow>
          concat (map line [[], ''[[upstreams]]'', ''name = '' @ qt ''app'', [], ''  [[upstreams.peers]]'',
            ''  addr = '' @ qt (''127.0.0.1:'' @ dec_digits (unat n)), [], ''[[routes]]'', ''path_prefix = '' @ qt ''/'',
            ''upstream = '' @ qt ''app'', []]))"

definition config_text :: "inject_params \<Rightarrow> rstr" where
  "config_text p =
     (let any = (\<lambda>n. qt (''0.0.0.0:'' @ dec_digits (unat n))) in
      concat (map line
        [''# Generated by '' @ [byte 96] @ ''openrusty inject'' @ [byte 96] @ ''; edit with care - the sidecar'',
         ''# restarts with this file verbatim.'', ''[server]'', ''listen = '' @ any INBOUND_PORT,
         ''log_level = '' @ qt (ij_log_level p), [],
         ''[[server.listeners]]'', ''role = '' @ qt ''inbound'', ''listen = '' @ any INBOUND_PORT, ''transparent = true'', [],
         ''[[server.listeners]]'', ''role = '' @ qt ''outbound'', ''listen = '' @ any OUTBOUND_PORT, ''transparent = true'', [],
         ''[[server.listeners]]'', ''role = '' @ qt ''admin'', ''listen = '' @ any ADMIN_PORT, [],
         ''[plugins]'', ''# No plugins volume: a missing dir is '' @ qt ''no plugins'' @ '', never fatal.'',
         ''dir = '' @ qt PLUGINS_DIR, [], ''[egress]'', ''mode = '' @ qt (egress_mode_str (ij_egress_mode p))])
      @ (if ij_egress_mode p = EgressGateway then line (''gateway = '' @ qt (ij_egress_gateway p)) else [])
      @ app_section p @ concat (map line [''[ingress]'', ''enabled = false'']))"

definition render_config_toml ::
  "(rstr \<Rightarrow> rstr + config) \<Rightarrow> resolver \<Rightarrow> inject_params \<Rightarrow> inject_error + rstr" where
  "render_config_toml toml dns p =
     (if ij_egress_mode p = EgressGateway \<and> ij_egress_gateway p = [] then Inl GatewayModeWithoutGateway
      else
        let src = config_text p in
        case toml src of
          Inl e \<Rightarrow> Inl (RenderedConfigUnreadable e)
        | Inr cfg \<Rightarrow>
            (case validate dns cfg of
               None \<Rightarrow> Inr src
             | Some (EgressGatewayUnresolvable _) \<Rightarrow> Inr src
             | Some e \<Rightarrow> Inl (RenderedConfigInvalid e)))"

definition render_config_map ::
  "(rstr \<Rightarrow> rstr + config) \<Rightarrow> resolver \<Rightarrow> rstr \<Rightarrow> rstr option \<Rightarrow> inject_params \<Rightarrow> inject_error + yaml" where
  "render_config_map toml dns name namespace p =
     and_then (render_config_toml toml dns p) (\<lambda>src.
       Inr (yobj [(''apiVersion'', YString ''v1''), (''kind'', YString ''ConfigMap''),
         (''metadata'', yobj ([(''name'', YString (name @ ''-openrusty-config''))]
            @ (case namespace of Some n \<Rightarrow> [(''namespace'', YString n)] | None \<Rightarrow> [])
            @ [(''labels'', yobj [(MANAGED_BY_LABEL, YString MANAGED_BY)])])),
         (''data'', yobj [(CONFIG_KEY, YString src)])]))"

section \<open>The command (mod.rs)\<close>

record inject_lib =
  jl_from_str :: "rstr \<Rightarrow> rstr + yaml"
  jl_to_string :: "yaml \<Rightarrow> rstr + rstr"
  jl_toml :: "rstr \<Rightarrow> rstr + config"
  jl_dns :: resolver

definition inject_doc :: "inject_lib \<Rightarrow> rstr \<Rightarrow> inject_params \<Rightarrow> yaml \<Rightarrow> inject_error + yaml \<times> yaml" where
  "inject_doc L img params doc =
     and_then (workload_name doc) (\<lambda>name.
     and_then (pod_spec doc) (\<lambda>(path, spec).
     and_then (inject_pod_spec params img (name @ ''-openrusty-config'') spec) (\<lambda>spec'.
       let doc' = put_at path spec' doc in
       and_then (render_config_map (jl_toml L) (jl_dns L) name (namespace_of doc') params) (\<lambda>cm. Inr (doc', cm)))))"

definition run_with_image :: "inject_lib \<Rightarrow> rstr \<Rightarrow> rstr \<Rightarrow> inject_error + rstr" where
  "run_with_image L raw img =
     (if trim raw = [] then Inl EmptyInput
      else
        case jl_from_str L raw of
          Inl e \<Rightarrow> Inl (if str_contains e ''more than one document'' then MultiDocument else InvalidYaml e)
        | Inr doc \<Rightarrow>
            and_then (collect_annotations doc) (\<lambda>(params, warnings).
              if \<not> ij_enabled params then Inr raw
              else
                and_then (inject_doc L img params doc) (\<lambda>(workload, config_map).
                and_then (map_err CannotRender (jl_to_string L workload)) (\<lambda>workload_yaml.
                and_then (map_err CannotRender (jl_to_string L config_map)) (\<lambda>cm_yaml.
                  Inr (trim_end workload_yaml @ nl @ ''---'' @ nl @ trim_end cm_yaml @ nl))))))"

text \<open>The flags: only the image, in either form.\<close>

function cli_loop :: "rstr list \<Rightarrow> rstr option \<Rightarrow> rstr + rstr option" where
  "cli_loop [] img = Inr img"
| "cli_loop (a # rest) img =
     (case split_flag a of
        (flag, inline) \<Rightarrow>
          if flag = ''--image'' then
            (case next_value inline rest flag of Inl e \<Rightarrow> Inl e | Inr (v, rest') \<Rightarrow> cli_loop rest' (Some v))
          else Inl (''unknown flag '' @ in_quotes flag @ '' (see --help)''))"
  by pat_completeness auto
termination
  by (relation "measure (\<lambda>(args, img). length args)") (auto dest: next_value_shorter)

definition parse_cli_args :: "rstr list \<Rightarrow> rstr + rstr option" where
  "parse_cli_args argv = cli_loop argv None"

text \<open>Output and exit code; the input is \<open>None\<close> when it is not UTF-8.\<close>

definition inject_run_cli :: "inject_lib \<Rightarrow> rstr list \<Rightarrow> rstr option \<Rightarrow> bool \<Rightarrow> rstr \<times> nat" where
  "inject_run_cli L argv input writable =
     (if list_ex (\<lambda>a. a = ''-h'' \<or> a = ''--help'') argv then ([], 0)
      else
        case parse_cli_args argv of
          Inl e \<Rightarrow> ([], 2)
        | Inr img \<Rightarrow>
            (case input of
               None \<Rightarrow> ([], 1)
             | Some raw \<Rightarrow>
                 (case run_with_image L raw (case img of Some i \<Rightarrow> i | None \<Rightarrow> IMAGE) of
                    Inr rendered \<Rightarrow> if writable then (rendered, 0) else ([], 1)
                  | Inl e \<Rightarrow> ([], 1))))"

section \<open>Lemmas\<close>

text \<open>The flags of the init container are read back.\<close>

lemma unat_u16: "unat (n :: u16) < 2 ^ 16"
  using unsigned_less [where 'a = nat, of n] by simp

lemma unat_u32: "unat (n :: u32) < 2 ^ 32"
  using unsigned_less [where 'a = nat, of n] by simp

lemma parse_port_dec: "n \<noteq> 0 \<Longrightarrow> parse_port (dec_digits (unat n)) = Inr n" "\<exists>e. parse_port (dec_digits (unat (0 :: u16))) = Inl e"
  using parse_uint_dec [of 0 16] by (simp_all add: parse_port_def parse_uint_dec [OF unat_u16] unat_eq_0)

lemma parse_num_dec: "parse_num (dec_digits (unat n)) what = Inr n"
  by (simp add: parse_num_def parse_uint_dec [OF unat_u32])

lemma collect_ports:
  "collect_all (\<lambda>x. parse_port (trim x)) (map (\<lambda>n. dec_digits (unat n)) ns) = Inr ns" if "0 \<notin> set ns" for ns :: "u16 list"
  using that by (induction ns) (auto simp: parse_port_dec)

lemma collect_ports_zero:
  "\<exists>e. collect_all (\<lambda>x. parse_port (trim x)) (map (\<lambda>n. dec_digits (unat n)) ns) = Inl e" if "0 \<in> set ns" for ns :: "u16 list"
  using that
proof (induction ns)
  case (Cons n ns)
  show ?case
  proof (cases "n = 0")
    case True
    then show ?thesis using parse_port_dec(2) by auto
  next
    case False
    then show ?thesis using Cons parse_port_dec(1) [OF False] by auto
  qed
qed simp

lemma parse_ports_join:
  assumes "ns \<noteq> []"
  shows "parse_ports (join '','' (map (\<lambda>n. dec_digits (unat n)) ns))
    = collect_all (\<lambda>x. parse_port (trim x)) (map (\<lambda>n. dec_digits (unat n)) ns)"
proof -
  have "CHR '','' \<notin> set (dec_digits n)" for n by (rule not_digit_not_in) (simp add: is_ascii_digit_def)
  then have "split_on CHR '','' (join '','' (map (\<lambda>n. dec_digits (unat n)) ns)) = map (\<lambda>n. dec_digits (unat n)) ns"
    using assms by (intro split_on_join) auto
  then show ?thesis by (simp add: parse_ports_def filter_map comp_def)
qed

lemma set_ignored_ports: "set (ignored_ports p) = insert ADMIN_PORT (set (ij_skip_inbound_ports p))"
  by (simp add: ignored_ports_def ADMIN_IGNORE_PORT_def)

lemma ignored_ports_not_Nil: "ignored_ports p \<noteq> []"
  using set_ignored_ports [of p] by auto

lemma distinct_remdups_adj_sorted: "sorted xs \<Longrightarrow> distinct (remdups_adj xs)"
  by (induction xs rule: remdups_adj.induct) auto

lemma ignored_ports_sorted: "sorted (ignored_ports p) \<and> distinct (ignored_ports p)"
  by (simp add: ignored_ports_def sorted_remdups_adj distinct_remdups_adj_sorted)

lemma init_args:
  "drop 2 (init_command p) = [''--proxy-uid'', dec_digits (unat (ij_proxy_uid p)), ''--inbound-port'', dec_digits (unat INBOUND_PORT),
      ''--outbound-port'', dec_digits (unat OUTBOUND_PORT), ''--ignore-inbound-ports'', ignore_inbound_ports p]"
  by (simp add: init_command_def)

lemma parse_init_command:
  "parse_args K (drop 2 (init_command p)) =
     and_then (parse_ports (ignore_inbound_ports p)) (\<lambda>ns.
       Inr (init_params_default\<lparr>ip_inbound_port := INBOUND_PORT, ip_outbound_port := OUTBOUND_PORT,
         ip_ignore_inbound_ports := ns, ip_proxy_uid := ij_proxy_uid p\<rparr>))"
proof -
  have ports: "parse_port (dec_digits (unat INBOUND_PORT)) = Inr INBOUND_PORT" "parse_port (dec_digits (unat OUTBOUND_PORT)) = Inr OUTBOUND_PORT"
    by (rule parse_port_dec(1), simp add: INBOUND_PORT_def OUTBOUND_PORT_def)+
  have flags: "split_flag ''--proxy-uid'' = (''--proxy-uid'', None)" "split_flag ''--inbound-port'' = (''--inbound-port'', None)"
    "split_flag ''--outbound-port'' = (''--outbound-port'', None)"
    "split_flag ''--ignore-inbound-ports'' = (''--ignore-inbound-ports'', None)"
    by (simp_all add: split_flag_def)
  show ?thesis
    unfolding parse_args_def init_args
    by (cases "parse_ports (ignore_inbound_ports p)")
      (simp_all add: flags VALUE_FLAGS_def set_flag_def parse_num_dec ports init_params_default_def)
qed

text \<open>Laws of the tree operations.\<close>

lemma untag_retag: "untag (retag v new) = untag new"
  by (induction v new rule: retag.induct) simp_all

lemma map_of_map_put: "map_of (map_put k v m) = (map_of m)(k \<mapsto> v)"
  by (induction k v m rule: map_put.induct) (auto simp: fun_eq_iff)

lemma yget_put: "yget k (retag v (YMap (map_put (YString k') new m))) = (if k = k' then Some new else map_of m (YString k))"
  by (simp add: yget_def untag_retag map_of_map_put)

lemma yget_mapping: "as_mapping v = Some m \<Longrightarrow> yget k v = map_of m (YString k)"
  by (auto simp: as_mapping_def yget_def split: yaml.splits)

lemma yget_Some: "yget k v = Some c \<Longrightarrow> \<exists>m. as_mapping v = Some m"
  by (auto simp: as_mapping_def yget_def split: yaml.splits)

lemma yget_yput: "yget k v = Some c \<Longrightarrow> yget k' (yput k new v) = (if k' = k then Some new else yget k' v)"
  using yget_Some [of k v c] by (auto simp: yput_def yget_put yget_mapping)

lemma get_put_at: "get_at path v = Some c \<Longrightarrow> get_at path (put_at path new v) = Some new"
  by (induction path arbitrary: v) (auto simp: yget_yput split: option.splits Option.bind_splits)

lemma yget_put_at: "get_at (k # ks) v = Some c \<Longrightarrow> k' \<noteq> k \<Longrightarrow> yget k' (put_at (k # ks) new v) = yget k' v"
  by (auto simp: yget_yput split: Option.bind_splits)

definition items :: "rstr \<Rightarrow> yaml \<Rightarrow> yaml list" where
  "items k spec = (case Option.bind (yget k spec) as_sequence of Some xs \<Rightarrow> xs | None \<Rightarrow> [])"

lemma append_item_spec:
  assumes "append_item key item spec = Inr spec'"
  shows "items key spec' = items key spec @ [item]" and "Option.bind (yget key spec') as_sequence \<noteq> None"
    and "k \<noteq> key \<Longrightarrow> yget k spec' = yget k spec"
proof -
  obtain m xs where m: "as_mapping spec = Some m"
    and xs: "as_sequence (case map_of m (YString key) of Some v \<Rightarrow> v | None \<Rightarrow> YSeq []) = Some xs"
    and s': "spec' = retag spec (YMap (map_put (YString key)
        (retag (case map_of m (YString key) of Some v \<Rightarrow> v | None \<Rightarrow> YSeq []) (YSeq (xs @ [item]))) m))"
    using assms by (auto simp: append_item_def Let_def split: option.splits)
  have new: "Option.bind (yget key spec') as_sequence = Some (xs @ [item])"
    by (simp add: s' yget_put as_sequence_def untag_retag)
  have old: "items key spec = xs"
    using xs by (auto simp: items_def yget_mapping [OF m] as_sequence_def split: option.splits)
  show "items key spec' = items key spec @ [item]" "Option.bind (yget key spec') as_sequence \<noteq> None"
    using new old by (simp_all add: items_def)
  show "k \<noteq> key \<Longrightarrow> yget k spec' = yget k spec" by (simp add: s' yget_put yget_mapping [OF m])
qed

lemma items_cong: "yget k a = yget k b \<Longrightarrow> items k a = items k b"
  by (simp add: items_def)

lemma container_names_items: "container_names spec key = List.map_filter (\<lambda>c. Option.bind (yget ''name'' c) as_str) (items key spec)"
  by (simp add: container_names_def items_def map_filter_def split: option.splits)

text \<open>What an injected pod spec is.\<close>

definition injected_spec :: "inject_params \<Rightarrow> rstr \<Rightarrow> rstr \<Rightarrow> yaml \<Rightarrow> yaml \<Rightarrow> bool" where
  "injected_spec p img cm spec spec' \<longleftrightarrow>
     items ''initContainers'' spec' = items ''initContainers'' spec @ [init_container p img]
     \<and> items ''containers'' spec' = items ''containers'' spec @ [sidecar p img]
     \<and> items ''volumes'' spec' = items ''volumes'' spec @ [config_volume cm]
     \<and> (\<forall>k. k \<notin> {''initContainers'', ''containers'', ''volumes''} \<longrightarrow> yget k spec' = yget k spec)"

lemma inject_pod_spec_spec:
  assumes "inject_pod_spec p img cm spec = Inr spec'"
  shows "injected_spec p img cm spec spec'" and "Option.bind (yget ''containers'' spec') as_sequence \<noteq> None"
proof -
  obtain s1 s2 where 1: "append_item ''initContainers'' (init_container p img) spec = Inr s1"
    and 2: "append_item ''containers'' (sidecar p img) s1 = Inr s2"
    and 3: "append_item ''volumes'' (config_volume cm) s2 = Inr spec'"
    using assms by (auto simp: inject_pod_spec_def split: if_splits)
  note a1 = append_item_spec [OF 1] and a2 = append_item_spec [OF 2] and a3 = append_item_spec [OF 3]
  have "items ''initContainers'' spec' = items ''initContainers'' spec @ [init_container p img]"
    using a1(1) items_cong [OF a2(3)] items_cong [OF a3(3)] by simp
  moreover have "items ''containers'' spec' = items ''containers'' spec @ [sidecar p img]"
    using items_cong [OF a1(3)] a2(1) items_cong [OF a3(3)] by simp
  moreover have "items ''volumes'' spec' = items ''volumes'' spec @ [config_volume cm]"
    using items_cong [OF a1(3)] items_cong [OF a2(3)] a3(1) by simp
  ultimately show "injected_spec p img cm spec spec'" using a1(3) a2(3) a3(3) by (auto simp: injected_spec_def)
  show "Option.bind (yget ''containers'' spec') as_sequence \<noteq> None" using a2(2) a3(3) [of "''containers''"] by simp
qed

lemma sidecar_name: "Option.bind (yget ''name'' (sidecar p img)) as_str = Some SIDECAR_NAME"
  by (simp add: sidecar_def yget_def as_str_def)

lemma injected_refused:
  assumes "injected_spec p img cm spec spec'"
  shows "inject_pod_spec q img' cm' spec' = Inl AlreadyInjected"
proof -
  have "SIDECAR_NAME \<in> set (container_names spec' ''containers'')"
    using assms sidecar_name [of p img] by (auto simp: container_names_items injected_spec_def map_filter_def)
  then show ?thesis by (simp add: inject_pod_spec_def)
qed

lemma pod_spec_path:
  assumes "pod_spec doc = Inr (path, spec)"
  obtains ks where "path = ''spec'' # ks" "get_at path doc = Some spec"
  using assms
  by (auto simp: pod_spec_def pod_path_def POD_def POD_TEMPLATE_def CRONJOB_POD_def split: option.splits if_splits)

lemma pod_spec_again:
  assumes "pod_spec doc = Inr (path, spec)" "Option.bind (yget ''containers'' spec') as_sequence \<noteq> None"
  shows "pod_spec (put_at path spec' doc) = Inr (path, spec')" and "metadata_of (put_at path spec' doc) = metadata_of doc"
proof -
  obtain ks where p: "path = ''spec'' # ks" "get_at path doc = Some spec" using pod_spec_path [OF assms(1)] .
  have same: "yget k (put_at path spec' doc) = yget k doc" if "k \<noteq> ''spec''" for k
    using p that by (auto intro!: yget_put_at simp del: get_at.simps put_at.simps)
  have at: "get_at path (put_at path spec' doc) = Some spec'" by (rule get_put_at [OF p(2)])
  show "metadata_of (put_at path spec' doc) = metadata_of doc" by (simp add: metadata_of_def same)
  have kind: "yget ''kind'' (put_at path spec' doc) = yget ''kind'' doc" by (simp add: same)
  obtain k where k: "Option.bind (yget ''kind'' doc) as_str = Some k"
    using assms(1) by (auto simp: pod_spec_def split: option.splits)
  have pa: "pod_path k = Some path" using assms(1) k by (auto simp: pod_spec_def split: option.splits if_splits)
  show "pod_spec (put_at path spec' doc) = Inr (path, spec')"
    unfolding pod_spec_def kind k option.case pa at if_not_P [OF assms(2)] ..
qed

lemma inject_doc_again:
  assumes "inject_doc L img p doc = Inr (doc', cm)"
  shows "\<exists>path spec spec' name. workload_name doc = Inr name \<and> pod_spec doc = Inr (path, spec) \<and> pod_spec doc' = Inr (path, spec')
     \<and> doc' = put_at path spec' doc \<and> injected_spec p img (name @ ''-openrusty-config'') spec spec'"
    and "inject_doc L' img' q doc' = Inl AlreadyInjected"
proof -
  obtain name path spec spec' where n: "workload_name doc = Inr name" and ps: "pod_spec doc = Inr (path, spec)"
    and inj: "inject_pod_spec p img (name @ ''-openrusty-config'') spec = Inr spec'" and d: "doc' = put_at path spec' doc"
    using assms by (auto simp: inject_doc_def Let_def)
  note i = inject_pod_spec_spec [OF inj]
  note again = pod_spec_again [OF ps i(2), folded d]
  have "workload_name doc' = Inr name" using n again(2) by (simp add: workload_name_def)
  then show "inject_doc L' img' q doc' = Inl AlreadyInjected"
    using again(1) injected_refused [OF i(1)] by (simp add: inject_doc_def)
  show "\<exists>path spec spec' name. workload_name doc = Inr name \<and> pod_spec doc = Inr (path, spec) \<and> pod_spec doc' = Inr (path, spec')
     \<and> doc' = put_at path spec' doc \<and> injected_spec p img (name @ ''-openrusty-config'') spec spec'"
    using n ps again(1) d i(1) by blast
qed

text \<open>
  The pod template of a CronJob lies below its job template, where \<open>pod_template_metadata\<close> does not
  look: an opt-out written there has no effect.
\<close>

definition sample_cronjob :: yaml where
  "sample_cronjob = yobj [(''kind'', YString ''CronJob''), (''metadata'', yobj [(''name'', YString ''job'')]),
     (''spec'', yobj [(''jobTemplate'', yobj [(''spec'', yobj [(''template'', yobj
        [(''metadata'', yobj [(''annotations'', yobj [(''config.openrusty.io/inject'', YString ''disabled'')])]),
         (''spec'', yobj [(''containers'', YSeq [])])])])])])]"

lemma cronjob_template_ignored: "collect_annotations sample_cronjob = Inr (inject_params_default, [])"
  by (simp add: collect_annotations_def sample_cronjob_def metadata_of_def pod_template_metadata_def yget_def option_list_def
      annotations_def as_mapping_def parse_annotations_def inject_params_default_def)

text \<open>
  What \<open>toml\<close> and serde make of the generated text: the sections it has, and the defaults for the rest.
\<close>

definition injected_listener :: "listener_role \<Rightarrow> u16 \<Rightarrow> bool \<Rightarrow> listener_config" where
  "injected_listener role n transparent = \<lparr>li_role = role, li_listen = SocketAddrV4 0 0 0 0 n, li_http1_only = False,
     li_transparent = transparent, li_detect_timeout_ms = default_detect_timeout_ms, li_tls = False, li_tls_cert = None, li_tls_key = None\<rparr>"

definition injected_config :: "inject_params \<Rightarrow> config" where
  "injected_config p = \<lparr>
     cf_server = \<lparr>sv_listen = SocketAddrV4 0 0 0 0 INBOUND_PORT, sv_log_level = ij_log_level p, sv_log_file = None,
       sv_http1_only = False,
       sv_listeners = [injected_listener Inbound INBOUND_PORT True, injected_listener Outbound OUTBOUND_PORT True,
         injected_listener Admin_Role ADMIN_PORT False],
       sv_shutdown_grace_ms = default_shutdown_grace_ms\<rparr>,
     cf_admin = \<lparr>ad_token = None\<rparr>,
     cf_plugins = \<lparr>pl_dir = PLUGINS_DIR, pl_order = [], pl_timeout_ms = default_timeout_ms, pl_max_memory_mb = default_max_memory_mb,
       pl_on_failure = FailOpen, pl_settings = [], pl_instance_pool_size = default_instance_pool_size,
       pl_log_on_no_route = default_log_on_no_route\<rparr>,
     cf_dynamic = None,
     cf_upstreams = (case ij_app_port p of None \<Rightarrow> [] | Some n \<Rightarrow>
       [\<lparr>uc_name = ''app'', uc_balancer = Swrr, uc_retries = 0, uc_retry_on_timeout = False,
         uc_connect_timeout_ms = default_connect_timeout_ms, uc_pool_idle_timeout_ms = default_pool_idle_timeout_ms,
         uc_peers = [\<lparr>pc_addr = SocketAddrV4 127 0 0 1 n, pc_weight = default_weight\<rparr>], uc_endpoints = [], uc_tls = None,
         uc_health = health_config_default\<rparr>]),
     cf_routes = (case ij_app_port p of None \<Rightarrow> [] | Some n \<Rightarrow>
       [\<lparr>rt_path_prefix = ''/'', rt_host = None, rt_exact = False, rt_upstream = ''app'', rt_timeout_ms = 0\<rparr>]),
     cf_ingress = ingress_config_default,
     cf_egress = \<lparr>eg_mode = ij_egress_mode p, eg_gateway = (if ij_egress_mode p = EgressGateway then ij_egress_gateway p else [])\<rparr>\<rparr>"

lemma trim_Nil: "trim [] = []"
  by (rule trim_solid) simp

lemma trim_class: "trim ''openrusty'' = ''openrusty''"
  by (rule trim_solid) (simp add: graphic_solid graphic_def)

lemma injected_config_ok:
  assumes "ij_log_level p \<in> {''trace'', ''debug'', ''info'', ''warn'', ''error''}"
    and "ij_egress_mode p = EgressGateway \<Longrightarrow> trim (ij_egress_gateway p) \<noteq> [] \<and> Option.bind (dns (ij_egress_gateway p)) (find (\<lambda>_. True)) \<noteq> None"
  shows "ok_config dns (injected_config p)"
  using assms
  by (auto simp: ok_config_def injected_config_def injected_listener_def ok_listener_def ok_upstream_def ok_route_def trim_class
      ingress_config_default_def default_ingress_class_def default_timeout_ms_def default_max_memory_mb_def INBOUND_PORT_def
      OUTBOUND_PORT_def ADMIN_PORT_def default_detect_timeout_ms_def default_weight_def health_config_default_def resolve_gateway_def
      split: option.splits)

text \<open>So the generated text passes its own check, also when the gateway only resolves in the cluster.\<close>

lemma generated_config_accepted:
  assumes "toml (config_text p) = Inr (injected_config p)"
    and "ij_log_level p \<in> {''trace'', ''debug'', ''info'', ''warn'', ''error''}"
    and "ij_egress_mode p = EgressGateway \<Longrightarrow> trim (ij_egress_gateway p) \<noteq> []"
  shows "render_config_toml toml dns p = Inr (config_text p)"
proof -
  have ne: "\<not> (ij_egress_mode p = EgressGateway \<and> ij_egress_gateway p = [])"
    using assms(3) trim_Nil by metis
  show ?thesis
  proof (cases "ij_egress_mode p = EgressGateway \<and> Option.bind (dns (ij_egress_gateway p)) (find (\<lambda>_. True)) = None")
    case False
    then have "validate dns (injected_config p) = None"
      unfolding validate_None using assms(2,3) by (intro injected_config_ok) auto
    then show ?thesis using assms(1) ne by (simp add: render_config_toml_def Let_def)
  next
    case True
    have listeners: "validate_listeners (injected_config p) = None"
      by (simp add: validate_listeners_None injected_config_def injected_listener_def ok_listener_def INBOUND_PORT_def OUTBOUND_PORT_def
          ADMIN_PORT_def default_detect_timeout_ms_def)
    have ingress: "validate_ingress (cf_ingress (injected_config p)) = None"
      by (simp add: injected_config_def validate_ingress_def ingress_config_default_def default_ingress_class_def trim_class)
    have egress: "validate_egress dns (cf_egress (injected_config p)) = Some (EgressGatewayUnresolvable (ij_egress_gateway p))"
      using True assms(3) by (simp add: injected_config_def validate_egress_def resolve_gateway_def)
    have "sv_log_level (cf_server (injected_config p)) = ij_log_level p" "pl_timeout_ms (cf_plugins (injected_config p)) \<noteq> 0"
      "pl_max_memory_mb (cf_plugins (injected_config p)) \<noteq> 0" "cf_dynamic (injected_config p) = None"
      by (simp_all add: injected_config_def default_timeout_ms_def default_max_memory_mb_def)
    then have "validate dns (injected_config p) = Some (EgressGatewayUnresolvable (ij_egress_gateway p))"
      using assms(2) by (simp add: validate_def listeners ingress egress orelse_def)
    then show ?thesis using assms(1) ne by (simp add: render_config_toml_def Let_def)
  qed
qed

section \<open>Properties\<close>

text \<open>
  C33: an injected workload carries what was asked for. When injection succeeds, the pod spec at the
  place its kind prescribes has gained exactly the init container, the sidecar and the volume, each at
  the end of its list, and every other field of the spec is untouched; injecting the result again, with
  whatever parameters, is refused. The flags of the init container, read by the \<open>iptables-init\<close> parser,
  give the proxy's user, the listener ports of the generated configuration and as exempt inbound ports
  exactly the annotated ones and the admin port, sorted and once each; this fails precisely when
  port 0 was annotated, which the annotation parser accepts.
\<close>

theorem injection_roundtrip:
  assumes "inject_doc L img p doc = Inr (doc', cm)"
  shows "(\<exists>path spec spec' name. workload_name doc = Inr name \<and> pod_spec doc = Inr (path, spec) \<and> pod_spec doc' = Inr (path, spec')
       \<and> doc' = put_at path spec' doc \<and> injected_spec p img (name @ ''-openrusty-config'') spec spec')
    \<and> inject_doc L' img' q doc' = Inl AlreadyInjected
    \<and> (if 0 \<in> set (ij_skip_inbound_ports p) then \<exists>e. parse_args K (drop 2 (init_command p)) = Inl e
       else \<exists>ns. parse_args K (drop 2 (init_command p)) =
           Inr (init_params_default\<lparr>ip_inbound_port := INBOUND_PORT, ip_outbound_port := OUTBOUND_PORT,
             ip_ignore_inbound_ports := ns, ip_proxy_uid := ij_proxy_uid p\<rparr>)
         \<and> set ns = insert ADMIN_PORT (set (ij_skip_inbound_ports p)) \<and> sorted ns \<and> distinct ns)"
proof -
  have admin: "ADMIN_PORT \<noteq> 0" by (simp add: ADMIN_PORT_def)
  have flags: "if 0 \<in> set (ij_skip_inbound_ports p) then \<exists>e. parse_args K (drop 2 (init_command p)) = Inl e
       else \<exists>ns. parse_args K (drop 2 (init_command p)) =
           Inr (init_params_default\<lparr>ip_inbound_port := INBOUND_PORT, ip_outbound_port := OUTBOUND_PORT,
             ip_ignore_inbound_ports := ns, ip_proxy_uid := ij_proxy_uid p\<rparr>)
         \<and> set ns = insert ADMIN_PORT (set (ij_skip_inbound_ports p)) \<and> sorted ns \<and> distinct ns"
  proof (cases "0 \<in> set (ij_skip_inbound_ports p)")
    case True
    then have "0 \<in> set (ignored_ports p)" by (simp add: set_ignored_ports)
    from collect_ports_zero [OF this] show ?thesis
      using True unfolding parse_init_command ignore_inbound_ports_def parse_ports_join [OF ignored_ports_not_Nil] by auto
  next
    case False
    then have "0 \<notin> set (ignored_ports p)" using admin by (simp add: set_ignored_ports)
    then have "parse_ports (ignore_inbound_ports p) = Inr (ignored_ports p)"
      unfolding ignore_inbound_ports_def parse_ports_join [OF ignored_ports_not_Nil] by (rule collect_ports)
    then show ?thesis
      using False set_ignored_ports ignored_ports_sorted unfolding parse_init_command by auto
  qed
  show ?thesis by (intro conjI, rule inject_doc_again(1) [OF assms], rule inject_doc_again(2) [OF assms], rule flags)
qed

definition sample_pod :: yaml where
  "sample_pod = yobj [(''kind'', YString ''Pod''), (''metadata'', yobj [(''name'', YString ''web'')]),
     (''spec'', yobj [(''containers'', YSeq [yobj [(''name'', YString ''app'')]])])]"

definition sample_inject :: inject_params where
  "sample_inject = inject_params_default\<lparr>ij_skip_inbound_ports := [8080, 4191]\<rparr>"

definition sample_inject_lib :: inject_lib where
  "sample_inject_lib = \<lparr>jl_from_str = (\<lambda>_. Inr sample_pod), jl_to_string = (\<lambda>_. Inr []),
     jl_toml = (\<lambda>_. Inr (injected_config sample_inject)), jl_dns = (\<lambda>_. None)\<rparr>"

theorem injection_roundtrip_witness:
  "\<exists>doc' cm ns. inject_doc sample_inject_lib IMAGE sample_inject sample_pod = Inr (doc', cm)
     \<and> inject_doc sample_inject_lib IMAGE sample_inject doc' = Inl AlreadyInjected
     \<and> parse_args (\<lambda>_. None) (drop 2 (init_command sample_inject)) =
         Inr (init_params_default\<lparr>ip_inbound_port := INBOUND_PORT, ip_outbound_port := OUTBOUND_PORT,
           ip_ignore_inbound_ports := ns, ip_proxy_uid := 511\<rparr>) \<and> set ns = {8080, 4191}"
proof -
  have "render_config_toml (jl_toml sample_inject_lib) (jl_dns sample_inject_lib) sample_inject = Inr (config_text sample_inject)"
    by (rule generated_config_accepted)
      (simp_all add: sample_inject_lib_def sample_inject_def inject_params_default_def DEFAULT_LOG_LEVEL_def)
  then have "\<exists>doc' cm. inject_doc sample_inject_lib IMAGE sample_inject sample_pod = Inr (doc', cm)"
    by (simp add: inject_doc_def workload_name_def metadata_of_def sample_pod_def yget_def scalar_string_def pod_spec_def pod_path_def
        POD_def as_str_def as_sequence_def inject_pod_spec_def container_names_def map_filter_simps SIDECAR_NAME_def INIT_NAME_def
        append_item_def as_mapping_def Let_def render_config_map_def)
  then obtain doc' cm where d: "inject_doc sample_inject_lib IMAGE sample_inject sample_pod = Inr (doc', cm)" by blast
  have s: "ij_proxy_uid sample_inject = 511" "insert ADMIN_PORT (set (ij_skip_inbound_ports sample_inject)) = {8080, 4191}"
    "0 \<notin> set (ij_skip_inbound_ports sample_inject)"
    by (auto simp: sample_inject_def inject_params_default_def DEFAULT_PROXY_UID_def ADMIN_PORT_def)
  from injection_roundtrip [OF d, of sample_inject_lib IMAGE sample_inject "\<lambda>_. None", unfolded if_not_P [OF s(3)] s(1,2)] d
  show ?thesis by blast
qed

end
