(* ===== verification/K8sAuth.thy ===== *)
theory K8sAuth
  imports Gateway
begin

text \<open>
  Credentials for the cluster and the client built from them (\<open>openrusty-k8s\<close>: \<open>auth/mod.rs\<close>,
  \<open>auth/kubeconfig.rs\<close>, \<open>auth/exec.rs\<close>, \<open>auth/in_cluster.rs\<close>, \<open>client.rs\<close>), and the start of the Ingress plane
  that uses them (\<open>ingress/mod.rs\<close>, \<open>run\<close>). The environment, the file system, YAML, JSON, base64, the URI type, PEM
  parsing, rustls and the exec plugin's process are the record \<open>auth_lib\<close>.
\<close>

section \<open>Paths\<close>

text \<open>
  \<open>std::path::Path\<close> on Unix, for the three methods used. \<open>join\<close> replaces by an absolute path and puts one separator
  else. \<open>parent\<close> drops the last component; separators and \<open>.\<close> components at the end
  do not count, and the root and the empty path have none. \<open>trim_rev\<close> works on the reversed path.
\<close>

definition is_absolute :: "rstr \<Rightarrow> bool" where
  "is_absolute p = starts_with p ''/''"

definition path_join :: "rstr \<Rightarrow> rstr \<Rightarrow> rstr" where
  "path_join b p = (if is_absolute p then p else if b = [] \<or> last b = CHR ''/'' then b @ p else b @ ''/'' @ p)"

fun trim_rev :: "rstr \<Rightarrow> rstr" where
  "trim_rev (a # b # r) =
     (if a = CHR ''/'' then trim_rev (b # r)
      else if a = CHR ''.'' \<and> b = CHR ''/'' then trim_rev (b # r)
      else a # b # r)"
| "trim_rev r = r"

definition path_parent :: "rstr \<Rightarrow> rstr option" where
  "path_parent p =
     (let r = trim_rev (rev p)
      in if r = [] \<or> r = ''/'' then None else Some (rev (trim_rev (dropWhile (\<lambda>c. c \<noteq> CHR ''/'') r))))"

section \<open>Data\<close>

datatype k8s_error =
    K8sIo rstr
  | KubeconfigParse rstr rstr
  | CredentialMissing rstr
  | CredentialInvalid rstr
  | K8sBase64 rstr rstr
  | K8sExec rstr rstr
  | K8sTls rstr
  | K8sEndpoint rstr
  | K8sHttp rstr
  | K8sJson rstr
  | K8sRequestBuild rstr

record exec_config =
  xc_command :: rstr
  xc_args :: "rstr list"
  xc_env :: "(rstr \<times> rstr) list"
  xc_api_version :: "rstr option"

record cluster_data =
  cd_server :: rstr
  cd_certificate_authority :: "rstr option"
  cd_certificate_authority_data :: "rstr option"

record named_cluster =
  nc_name :: rstr
  nc_cluster :: cluster_data

record user_data =
  ud_token :: "rstr option"
  ud_username :: "rstr option"
  ud_password :: "rstr option"
  ud_client_certificate :: "rstr option"
  ud_client_key :: "rstr option"
  ud_client_certificate_data :: "rstr option"
  ud_client_key_data :: "rstr option"
  ud_exec :: "exec_config option"

record named_user =
  nu_name :: rstr
  nu_user :: user_data

record context_data =
  xd_cluster :: rstr
  xd_user :: rstr

record named_context =
  nx_name :: rstr
  nx_context :: context_data

record kubeconfig =
  kf_clusters :: "named_cluster list"
  kf_users :: "named_user list"
  kf_contexts :: "named_context list"
  kf_current_context :: "rstr option"

record 'u cluster =
  cl_endpoint :: 'u
  cl_ca :: rstr

datatype credentials = Bearer rstr | is_ClientCert: ClientCert rstr rstr | ExecToken exec_config

text \<open>What a finished process leaves: the exit code (none after a signal) and its two streams.\<close>

record exec_output =
  xo_code :: "int option"
  xo_stdout :: rstr
  xo_stderr :: rstr

record exec_credential =
  xr_status :: "rstr option option"

text \<open>
  The outside world. Fallible members give the text of their error on the left. \<open>al_env\<close> is \<open>env::var(..).ok()\<close>; \<open>al_spawn\<close> runs a
  command with its arguments and the entries added to the inherited environment; \<open>al_root\<close> and
  \<open>al_versions\<close> are the refusals of rustls, \<open>al_signing\<close> its reading of a private key.
\<close>

record ('u, 'der, 'key, 'sk, 'v) auth_lib =
  al_env :: "rstr \<Rightarrow> rstr option"
  al_exists :: "rstr \<Rightarrow> bool"
  al_read_to_string :: "rstr \<Rightarrow> rstr + rstr"
  al_read :: "rstr \<Rightarrow> rstr + rstr"
  al_yaml :: "rstr \<Rightarrow> rstr + kubeconfig"
  al_json :: "rstr \<Rightarrow> rstr + exec_credential"
  al_base64 :: "rstr \<Rightarrow> rstr + rstr"
  al_spawn :: "rstr \<Rightarrow> rstr list \<Rightarrow> (rstr \<rightharpoonup> rstr) \<Rightarrow> rstr + exec_output"
  al_uri :: "rstr \<Rightarrow> 'u option"
  al_scheme :: "'u \<Rightarrow> rstr option"
  al_host :: "'u \<Rightarrow> rstr option"
  al_authority :: "'u \<Rightarrow> rstr option"
  al_uri_text :: "'u \<Rightarrow> rstr"
  al_build :: "rstr \<Rightarrow> rstr \<Rightarrow> rstr \<Rightarrow> 'u option"
  al_value :: "rstr \<Rightarrow> 'v option"
  al_certs :: "rstr \<Rightarrow> rstr + 'der list"
  al_private_key :: "rstr \<Rightarrow> rstr + 'key option"
  al_root :: "'der \<Rightarrow> rstr option"
  al_versions :: "rstr option"
  al_signing :: "'key \<Rightarrow> rstr + 'sk"

section \<open>Kubeconfig\<close>

definition parse_kubeconfig :: "('u, 'der, 'key, 'sk, 'v) auth_lib \<Rightarrow> rstr \<Rightarrow> rstr + kubeconfig" where
  "parse_kubeconfig L yaml = al_yaml L yaml"

definition ok_or :: "'e \<Rightarrow> 'a option \<Rightarrow> 'e + 'a" where
  "ok_or e x = (case x of Some a \<Rightarrow> Inr a | None \<Rightarrow> Inl e)"

definition resolve_context :: "kubeconfig \<Rightarrow> rstr option \<Rightarrow> k8s_error + (named_cluster \<times> named_user)" where
  "resolve_context config override_context =
     and_then (ok_or (CredentialMissing ''current-context is not set'')
                (case override_context of Some n \<Rightarrow> Some n | None \<Rightarrow> kf_current_context config)) (\<lambda>name.
     and_then (ok_or (CredentialMissing (''context `'' @ name @ ''` not found''))
                (find (\<lambda>x. nx_name x = name) (kf_contexts config))) (\<lambda>ctx.
     and_then (ok_or (CredentialMissing (''cluster `'' @ xd_cluster (nx_context ctx) @ ''` referenced by context `'' @ name @ ''` not found''))
                (find (\<lambda>c. nc_name c = xd_cluster (nx_context ctx)) (kf_clusters config))) (\<lambda>c.
     and_then (ok_or (CredentialMissing (''user `'' @ xd_user (nx_context ctx) @ ''` referenced by context `'' @ name @ ''` not found''))
                (find (\<lambda>u. nu_name u = xd_user (nx_context ctx)) (kf_users config))) (\<lambda>u.
     Inr (c, u)))))"

definition decode_data :: "('u, 'der, 'key, 'sk, 'v) auth_lib \<Rightarrow> rstr \<Rightarrow> rstr \<Rightarrow> k8s_error + rstr" where
  "decode_data L field val = map_err (K8sBase64 field) (al_base64 L (trim val))"

section \<open>Loading\<close>

definition home_kubeconfig :: "rstr \<Rightarrow> rstr" where
  "home_kubeconfig home = path_join (path_join home ''.kube'') ''config''"

definition strict_kubeconfig_source :: "bool \<Rightarrow> rstr option \<Rightarrow> bool" where
  "strict_kubeconfig_source explicit kubeconfig_env =
     (explicit \<or> (case kubeconfig_env of Some paths \<Rightarrow> trim paths \<noteq> [] | None \<Rightarrow> False))"

definition kubeconfig_candidates :: "rstr option \<Rightarrow> rstr option \<Rightarrow> rstr option \<Rightarrow> rstr list" where
  "kubeconfig_candidates explicit kubeconfig_env home =
     (case explicit of
        Some path \<Rightarrow> [path]
      | None \<Rightarrow>
          (case kubeconfig_env of
             Some paths \<Rightarrow>
               if trim paths \<noteq> [] then filter (\<lambda>e. e \<noteq> []) (split_on CHR '':'' paths)
               else map home_kubeconfig (case home of Some h \<Rightarrow> [h] | None \<Rightarrow> [])
           | None \<Rightarrow> map home_kubeconfig (case home of Some h \<Rightarrow> [h] | None \<Rightarrow> [])))"

definition resolve_relative :: "rstr option \<Rightarrow> rstr \<Rightarrow> rstr" where
  "resolve_relative b path =
     (if is_absolute path then path else path_join (case b of Some d \<Rightarrow> d | None \<Rightarrow> ''.'') path)"

definition parse_endpoint :: "('u, 'der, 'key, 'sk, 'v) auth_lib \<Rightarrow> rstr \<Rightarrow> k8s_error + 'u" where
  "parse_endpoint L server =
     (case al_uri L (trim server) of
        None \<Rightarrow> Inl (K8sEndpoint (trim server))
      | Some uri \<Rightarrow>
          if al_scheme L uri \<in> {Some ''https'', Some ''http''} \<and> al_host L uri \<noteq> None then Inr uri
          else Inl (K8sEndpoint (trim server)))"

definition load_cluster :: "('u, 'der, 'key, 'sk, 'v) auth_lib \<Rightarrow> rstr \<Rightarrow> cluster_data \<Rightarrow> rstr \<Rightarrow> k8s_error + 'u cluster" where
  "load_cluster L server c kubeconfig_path =
     and_then (parse_endpoint L server) (\<lambda>ep.
     and_then
       (case cd_certificate_authority_data c of
          Some data \<Rightarrow> decode_data L ''certificate-authority-data'' data
        | None \<Rightarrow>
            (case cd_certificate_authority c of
               Some ca_path \<Rightarrow>
                 let resolved = resolve_relative (path_parent kubeconfig_path) ca_path
                 in map_err (\<lambda>e. CredentialMissing (''CA file '' @ resolved @ '': '' @ e)) (al_read L resolved)
             | None \<Rightarrow> Inl (CredentialMissing ''cluster has no certificate-authority(-data); insecure mode is not supported'')))
       (\<lambda>ca. Inr \<lparr>cl_endpoint = ep, cl_ca = ca\<rparr>))"

text \<open>One half of a client identity: inline data first, then a file next to the kubeconfig.\<close>

definition identity_part ::
  "('u, 'der, 'key, 'sk, 'v) auth_lib \<Rightarrow> rstr \<Rightarrow> rstr \<Rightarrow> rstr option \<Rightarrow> rstr \<Rightarrow> rstr option \<Rightarrow> rstr \<Rightarrow> k8s_error + rstr" where
  "identity_part L kubeconfig_path field inline label file missing =
     (case inline of
        Some encoded \<Rightarrow> decode_data L field encoded
      | None \<Rightarrow>
          (case file of
             Some path \<Rightarrow>
               let resolved = resolve_relative (path_parent kubeconfig_path) path
               in map_err (\<lambda>e. CredentialMissing (label @ '' '' @ resolved @ '': '' @ e)) (al_read L resolved)
           | None \<Rightarrow> Inl (CredentialMissing missing)))"

definition client_cert_credentials ::
  "('u, 'der, 'key, 'sk, 'v) auth_lib \<Rightarrow> named_user \<Rightarrow> rstr \<Rightarrow> k8s_error + credentials" where
  "client_cert_credentials L user kubeconfig_path =
     (let data = nu_user user in
      and_then (identity_part L kubeconfig_path ''client-certificate-data'' (ud_client_certificate_data data)
                  ''client certificate'' (ud_client_certificate data)
                  (''user `'' @ nu_name user @ ''`: client-key given without a certificate'')) (\<lambda>cert.
      and_then (identity_part L kubeconfig_path ''client-key-data'' (ud_client_key_data data)
                  ''client key'' (ud_client_key data)
                  (''user `'' @ nu_name user @ ''`: client certificate given without a key'')) (\<lambda>key.
      Inr (ClientCert cert key))))"

definition credentials_for_user ::
  "('u, 'der, 'key, 'sk, 'v) auth_lib \<Rightarrow> named_user \<Rightarrow> rstr \<Rightarrow> k8s_error + credentials" where
  "credentials_for_user L user kubeconfig_path =
     (let data = nu_user user in
      case ud_token data of
        Some token \<Rightarrow>
          if trim token = [] then Inl (CredentialInvalid (''user `'' @ nu_name user @ ''`: token is empty''))
          else Inr (Bearer (trim token))
      | None \<Rightarrow>
          if ud_client_certificate data \<noteq> None \<or> ud_client_certificate_data data \<noteq> None
          then client_cert_credentials L user kubeconfig_path
          else
            (case ud_exec data of
               Some x \<Rightarrow> Inr (ExecToken x)
             | None \<Rightarrow>
                 if ud_username data \<noteq> None \<or> ud_password data \<noteq> None
                 then Inl (CredentialInvalid (''user `'' @ nu_name user
                   @ ''`: basic-auth credentials are not supported; use a token, client certificate or exec plugin''))
                 else Inl (CredentialMissing (''user `'' @ nu_name user @ ''` carries no usable credential''))))"

definition load_kubeconfig_file ::
  "('u, 'der, 'key, 'sk, 'v) auth_lib \<Rightarrow> rstr \<Rightarrow> k8s_error + ('u cluster \<times> credentials)" where
  "load_kubeconfig_file L path =
     and_then (map_err K8sIo (al_read_to_string L path)) (\<lambda>text.
     and_then (map_err (KubeconfigParse path) (parse_kubeconfig L text)) (\<lambda>config.
     and_then (resolve_context config None) (\<lambda>(named_cluster, named_user).
     and_then (load_cluster L (cd_server (nc_cluster named_cluster)) (nc_cluster named_cluster) path) (\<lambda>cl.
     and_then (credentials_for_user L named_user path) (\<lambda>cr.
     Inr (cl, cr))))))"

subsection \<open>The service account of a pod\<close>

definition SERVICE_ACCOUNT_DIR :: rstr where "SERVICE_ACCOUNT_DIR = ''/var/run/secrets/kubernetes.io/serviceaccount''"
definition HOST_ENV :: rstr where "HOST_ENV = ''KUBERNETES_SERVICE_HOST''"
definition PORT_ENV :: rstr where "PORT_ENV = ''KUBERNETES_SERVICE_PORT''"

definition account_endpoint :: "('u, 'der, 'key, 'sk, 'v) auth_lib \<Rightarrow> rstr \<Rightarrow> rstr \<Rightarrow> k8s_error + 'u" where
  "account_endpoint L host pt =
     (if host = [] \<or> pt = [] then Inl (CredentialMissing (HOST_ENV @ ''/'' @ PORT_ENV @ '' not set: not running in a cluster''))
      else
        let url = ''https://'' @ (if CHR '':'' \<in> set host then ''['' @ host @ '']'' else host) @ '':'' @ pt
        in ok_or (K8sEndpoint url) (al_uri L url))"

definition load_with_root ::
  "('u, 'der, 'key, 'sk, 'v) auth_lib \<Rightarrow> rstr \<Rightarrow> rstr \<Rightarrow> rstr \<Rightarrow> k8s_error + ('u cluster \<times> credentials)" where
  "load_with_root L root host pt =
     (let token_path = path_join root ''token''; ca_path = path_join root ''ca.crt'' in
      and_then (map_err (\<lambda>e. CredentialMissing (''in-cluster token at '' @ token_path @ '': '' @ e)) (al_read_to_string L token_path)) (\<lambda>token.
      and_then (map_err (\<lambda>e. CredentialMissing (''in-cluster CA at '' @ ca_path @ '': '' @ e)) (al_read L ca_path)) (\<lambda>ca.
      and_then (account_endpoint L host pt) (\<lambda>ep.
      Inr (\<lparr>cl_endpoint = ep, cl_ca = ca\<rparr>, Bearer (trim token))))))"

definition in_cluster_load :: "('u, 'der, 'key, 'sk, 'v) auth_lib \<Rightarrow> k8s_error + ('u cluster \<times> credentials)" where
  "in_cluster_load L =
     (let host = (case al_env L HOST_ENV of Some h \<Rightarrow> h | None \<Rightarrow> []);
          pt = (case al_env L PORT_ENV of Some p \<Rightarrow> p | None \<Rightarrow> [])
      in load_with_root L SERVICE_ACCOUNT_DIR host pt)"

definition load_credentials :: "('u, 'der, 'key, 'sk, 'v) auth_lib \<Rightarrow> rstr option \<Rightarrow> k8s_error + ('u cluster \<times> credentials)" where
  "load_credentials L explicit_path =
     (let kubeconfig_env = al_env L ''KUBECONFIG'';
          candidates = kubeconfig_candidates explicit_path kubeconfig_env (al_env L ''HOME'')
      in if candidates = [] then in_cluster_load L
         else
           (case find (al_exists L) candidates of
              Some candidate \<Rightarrow> load_kubeconfig_file L candidate
            | None \<Rightarrow>
                if \<not> strict_kubeconfig_source (explicit_path \<noteq> None) kubeconfig_env then in_cluster_load L
                else Inl (CredentialMissing (''no kubeconfig found at any of: '' @ join '', '' candidates))))"

section \<open>The exec plugin\<close>

definition env_map :: "exec_config \<Rightarrow> rstr \<rightharpoonup> rstr" where
  "env_map x = fold (\<lambda>(n, v) m. m(n \<mapsto> v)) (xc_env x) Map.empty"

definition token_from_output :: "('u, 'der, 'key, 'sk, 'v) auth_lib \<Rightarrow> rstr \<Rightarrow> k8s_error + rstr" where
  "token_from_output L stdout =
     and_then (map_err (\<lambda>e. K8sExec ''<unavailable>'' (''stdout is not a valid ExecCredential document: '' @ e)) (al_json L stdout)) (\<lambda>credential.
     ok_or (K8sExec ''<unavailable>'' ''no token in exec output'')
       (case Option.bind (xr_status credential) id of
          Some token \<Rightarrow> if token \<noteq> [] then Some token else None
        | None \<Rightarrow> None))"

definition code_text :: "int option \<Rightarrow> rstr" where
  "code_text code =
     (case code of
        None \<Rightarrow> ''None''
      | Some i \<Rightarrow> ''Some('' @ (if i < 0 then ''-'' else []) @ dec_digits (nat \<bar>i\<bar>) @ '')'')"

definition exec_run :: "('u, 'der, 'key, 'sk, 'v) auth_lib \<Rightarrow> exec_config \<Rightarrow> k8s_error + rstr" where
  "exec_run L x =
     and_then (map_err (\<lambda>e. K8sExec (xc_command x) (''failed to spawn: '' @ e)) (al_spawn L (xc_command x) (xc_args x) (env_map x))) (\<lambda>out.
     if xo_code out \<noteq> Some 0
     then Inl (K8sExec (xc_command x) (''exit status '' @ code_text (xo_code out) @ '', stderr: '' @ trim (from_utf8_lossy (xo_stderr out))))
     else
       map_err (\<lambda>e. case e of K8sExec _ message \<Rightarrow> K8sExec (xc_command x) message | other \<Rightarrow> other)
         (token_from_output L (from_utf8_lossy (xo_stdout out))))"

section \<open>The client\<close>

definition request_uri :: "('u, 'der, 'key, 'sk, 'v) auth_lib \<Rightarrow> 'u \<Rightarrow> rstr \<Rightarrow> k8s_error + 'u" where
  "request_uri L ep target =
     (let scheme = (case al_scheme L ep of Some s \<Rightarrow> s | None \<Rightarrow> ''https'') in
      and_then (ok_or (K8sEndpoint (al_uri_text L ep)) (al_authority L ep)) (\<lambda>authority.
      let path = (if starts_with target ''/'' then target else ''/'' @ target) in
      ok_or (K8sEndpoint (scheme @ ''://'' @ authority @ target)) (al_build L scheme authority path)))"

definition parse_cert_pem :: "('u, 'der, 'key, 'sk, 'v) auth_lib \<Rightarrow> rstr \<Rightarrow> k8s_error + 'der list" where
  "parse_cert_pem L pem = map_err (\<lambda>e. K8sTls (''unparsable certificate PEM: '' @ e)) (al_certs L pem)"

definition parse_key_pem :: "('u, 'der, 'key, 'sk, 'v) auth_lib \<Rightarrow> rstr \<Rightarrow> k8s_error + 'key" where
  "parse_key_pem L pem =
     and_then (map_err (\<lambda>e. K8sTls (''unparsable key PEM: '' @ e)) (al_private_key L pem))
       (ok_or (K8sTls ''no private key in PEM input''))"

text \<open>The rustls configuration: the trusted roots and the identity presented.\<close>

record ('der, 'sk) k8s_tls =
  kt_roots :: "'der list"
  kt_identity :: "('der list \<times> 'sk) option"

definition build_tls_config ::
  "('u, 'der, 'key, 'sk, 'v) auth_lib \<Rightarrow> rstr \<Rightarrow> (rstr \<times> rstr) option \<Rightarrow> k8s_error + ('der, 'sk) k8s_tls" where
  "build_tls_config L ca_pem client_cert =
     and_then (parse_cert_pem L ca_pem) (\<lambda>roots.
     case first_err (al_root L) roots of
       Some e \<Rightarrow> Inl (K8sTls (''rejected CA certificate: '' @ e))
     | None \<Rightarrow>
         (case al_versions L of
            Some e \<Rightarrow> Inl (K8sTls (''no enabled protocol version: '' @ e))
          | None \<Rightarrow>
              (case client_cert of
                 Some (cert_pem, key_pem) \<Rightarrow>
                   and_then (parse_cert_pem L cert_pem) (\<lambda>certs.
                   if certs = [] then Inl (K8sTls ''client certificate chain is empty'')
                   else
                     and_then (parse_key_pem L key_pem) (\<lambda>key.
                     and_then (map_err (\<lambda>e. K8sTls (''unsupported client key: '' @ e)) (al_signing L key)) (\<lambda>signing_key.
                     Inr \<lparr>kt_roots = roots, kt_identity = Some (certs, signing_key)\<rparr>)))
               | None \<Rightarrow> Inr \<lparr>kt_roots = roots, kt_identity = None\<rparr>)))"

record ('u, 'der, 'sk, 'v) k8s_client =
  kc_endpoint :: 'u
  kc_tls :: "('der, 'sk) k8s_tls"
  kc_authorization :: "'v option"

definition bearer_header :: "('u, 'der, 'key, 'sk, 'v) auth_lib \<Rightarrow> rstr \<Rightarrow> k8s_error + 'v" where
  "bearer_header L token =
     ok_or (CredentialInvalid ''token contains invalid header bytes'') (al_value L (''Bearer '' @ token))"

definition client_new ::
  "('u, 'der, 'key, 'sk, 'v) auth_lib \<Rightarrow> 'u cluster \<Rightarrow> credentials \<Rightarrow> k8s_error + ('u, 'der, 'sk, 'v) k8s_client" where
  "client_new L cl cr =
     and_then
       (case cr of
          Bearer token \<Rightarrow> and_then (bearer_header L token) (\<lambda>v. Inr (Some v, None))
        | ExecToken x \<Rightarrow> and_then (exec_run L x) (\<lambda>token. and_then (bearer_header L token) (\<lambda>v. Inr (Some v, None)))
        | ClientCert cert key \<Rightarrow> Inr (None, Some (cert, key)))
       (\<lambda>(authorization, client_cert).
     and_then (build_tls_config L (cl_ca cl) client_cert) (\<lambda>tls.
     Inr \<lparr>kc_endpoint = cl_endpoint cl, kc_tls = tls, kc_authorization = authorization\<rparr>))"

text \<open>A request to the cluster: its URI and headers, as they are handed to hyper.\<close>

record ('u, 'v) k8s_request =
  kr_uri :: 'u
  kr_accept :: rstr
  kr_authorization :: "'v option"

definition request_builder :: "('u, 'der, 'sk, 'v) k8s_client \<Rightarrow> 'u \<Rightarrow> ('u, 'v) k8s_request" where
  "request_builder c uri =
     \<lparr>kr_uri = uri, kr_accept = ''application/json'', kr_authorization = kc_authorization c\<rparr>"

definition k8s_get ::
  "('u, 'der, 'key, 'sk, 'v) auth_lib \<Rightarrow> ('u, 'der, 'sk, 'v) k8s_client \<Rightarrow> rstr \<Rightarrow> k8s_error + ('u, 'v) k8s_request" where
  "k8s_get L c path = and_then (request_uri L (kc_endpoint c) path) (\<lambda>uri. Inr (request_builder c uri))"

definition watch_raw ::
  "('u, 'der, 'key, 'sk, 'v) auth_lib \<Rightarrow> ('u, 'der, 'sk, 'v) k8s_client \<Rightarrow> rstr \<Rightarrow> rstr \<Rightarrow> k8s_error + ('u, 'v) k8s_request" where
  "watch_raw L c path resource_version = k8s_get L c (watch_path path resource_version)"

definition client_from_kubeconfig ::
  "('u, 'der, 'key, 'sk, 'v) auth_lib \<Rightarrow> rstr \<Rightarrow> k8s_error + ('u, 'der, 'sk, 'v) k8s_client" where
  "client_from_kubeconfig L path = and_then (load_kubeconfig_file L path) (\<lambda>(cl, cr). client_new L cl cr)"

section \<open>The start of the Ingress plane\<close>

definition kubeconfig_setting :: "ingress_config \<Rightarrow> rstr option" where
  "kubeconfig_setting ig = (if trim (ig_kubeconfig ig) = [] then None else Some (trim (ig_kubeconfig ig)))"

definition connect_cluster ::
  "('u, 'der, 'key, 'sk, 'v) auth_lib \<Rightarrow> ingress_config \<Rightarrow> k8s_error + ('u, 'der, 'sk, 'v) k8s_client" where
  "connect_cluster L ig = and_then (load_credentials L (kubeconfig_setting ig)) (\<lambda>(cl, cr). client_new L cl cr)"

text \<open>\<open>run\<close> up to the spawning of the watchers: the text stands for the line that is logged.\<close>

definition start_ingress ::
  "('u, 'der, 'key, 'sk, 'v) auth_lib \<Rightarrow> ingress_config \<Rightarrow> ('cert, 'tk, 'ck) gateway \<Rightarrow> ('cert, 'tk, 'ck) gateway" where
  "start_ingress L ig g =
     run_ingress (case connect_cluster L ig of Inl _ \<Rightarrow> Some ''staying on the static config'' | Inr _ \<Rightarrow> None) ig g"

section \<open>What loading means\<close>

lemma ok_or_simps [simp]: "ok_or e (Some a) = Inr a" "ok_or e None = Inl e"
  by (simp_all add: ok_or_def)

lemma ok_or_Inr [simp]: "ok_or e x = Inr a \<longleftrightarrow> x = Some a"
  by (cases x) auto

text \<open>
  The files an operator named: the explicit path, or the entries of a \<open>KUBECONFIG\<close> that is not blank. \<open>material\<close> says
  where bytes come from (inline data before a file beside the kubeconfig), \<open>identity_of\<close> which credential a user
  block stands for.
\<close>

definition named_files :: "('u, 'der, 'key, 'sk, 'v) auth_lib \<Rightarrow> rstr option \<Rightarrow> rstr list" where
  "named_files L explicit =
     (case explicit of
        Some p \<Rightarrow> [p]
      | None \<Rightarrow>
          (case al_env L ''KUBECONFIG'' of
             Some paths \<Rightarrow> if trim paths = [] then [] else filter (\<lambda>e. e \<noteq> []) (split_on CHR '':'' paths)
           | None \<Rightarrow> []))"

definition unnamed :: "('u, 'der, 'key, 'sk, 'v) auth_lib \<Rightarrow> rstr option \<Rightarrow> bool" where
  "unnamed L explicit \<longleftrightarrow> explicit = None \<and> (\<forall>paths. al_env L ''KUBECONFIG'' = Some paths \<longrightarrow> trim paths = [])"

definition material :: "('u, 'der, 'key, 'sk, 'v) auth_lib \<Rightarrow> rstr \<Rightarrow> rstr option \<Rightarrow> rstr option \<Rightarrow> rstr \<Rightarrow> bool" where
  "material L p inline file x =
     (case inline of
        Some d \<Rightarrow> al_base64 L (trim d) = Inr x
      | None \<Rightarrow> (\<exists>f. file = Some f \<and> al_read L (resolve_relative (path_parent p) f) = Inr x))"

definition identity_of :: "('u, 'der, 'key, 'sk, 'v) auth_lib \<Rightarrow> rstr \<Rightarrow> user_data \<Rightarrow> credentials \<Rightarrow> bool" where
  "identity_of L p d cr =
     (case cr of
        Bearer t \<Rightarrow> t \<noteq> [] \<and> map_option trim (ud_token d) = Some t
      | ClientCert c k \<Rightarrow> ud_token d = None \<and> material L p (ud_client_certificate_data d) (ud_client_certificate d) c
          \<and> material L p (ud_client_key_data d) (ud_client_key d) k
      | ExecToken x \<Rightarrow> ud_token d = None \<and> ud_client_certificate d = None \<and> ud_client_certificate_data d = None
          \<and> ud_exec d = Some x)"

definition bound :: "kubeconfig \<Rightarrow> named_cluster \<Rightarrow> named_user \<Rightarrow> bool" where
  "bound config nc nu \<longleftrightarrow>
     (\<exists>name ctx. kf_current_context config = Some name \<and> find (\<lambda>x. nx_name x = name) (kf_contexts config) = Some ctx
        \<and> find (\<lambda>c. nc_name c = xd_cluster (nx_context ctx)) (kf_clusters config) = Some nc
        \<and> find (\<lambda>u. nu_name u = xd_user (nx_context ctx)) (kf_users config) = Some nu)"

lemma resolve_context_iff: "resolve_context config None = Inr (nc, nu) \<longleftrightarrow> bound config nc nu"
  by (auto simp: resolve_context_def bound_def)

lemma decode_data_iff [simp]: "decode_data L field d = Inr x \<longleftrightarrow> al_base64 L (trim d) = Inr x"
  by (simp add: decode_data_def)

lemma identity_part_iff [simp]: "identity_part L p field inline label file missing = Inr x \<longleftrightarrow> material L p inline file x"
  by (auto simp: identity_part_def material_def Let_def split: option.splits)

lemma parse_endpoint_iff:
  "parse_endpoint L server = Inr u \<longleftrightarrow>
     al_uri L (trim server) = Some u \<and> al_scheme L u \<in> {Some ''https'', Some ''http''} \<and> al_host L u \<noteq> None"
  by (auto simp: parse_endpoint_def split: option.splits)

lemma load_cluster_iff:
  "load_cluster L server c p = Inr cl \<longleftrightarrow>
     parse_endpoint L server = Inr (cl_endpoint cl)
     \<and> material L p (cd_certificate_authority_data c) (cd_certificate_authority c) (cl_ca cl)"
  by (cases cl) (auto simp: load_cluster_def material_def Let_def split: option.splits)

lemma material_present: "material L p inline file x \<Longrightarrow> file \<noteq> None \<or> inline \<noteq> None"
  by (auto simp: material_def split: option.splits)

lemma client_cert_iff:
  "client_cert_credentials L u p = Inr cr \<longleftrightarrow>
     (\<exists>c k. cr = ClientCert c k \<and> material L p (ud_client_certificate_data (nu_user u)) (ud_client_certificate (nu_user u)) c
        \<and> material L p (ud_client_key_data (nu_user u)) (ud_client_key (nu_user u)) k)"
  by (auto simp: client_cert_credentials_def Let_def)

lemma credentials_iff: "credentials_for_user L u p = Inr cr \<longleftrightarrow> identity_of L p (nu_user u) cr"
proof (cases "ud_token (nu_user u)")
  case None
  then show ?thesis
    by (auto simp: credentials_for_user_def identity_of_def client_cert_iff Let_def dest: material_present
      split: option.splits credentials.splits)
next
  case (Some t)
  then show ?thesis by (auto simp: credentials_for_user_def identity_of_def Let_def split: credentials.splits)
qed

lemma load_file_iff:
  "load_kubeconfig_file L p = Inr (cl, cr) \<longleftrightarrow>
     (\<exists>text config nc nu. al_read_to_string L p = Inr text \<and> al_yaml L text = Inr config \<and> bound config nc nu
        \<and> load_cluster L (cd_server (nc_cluster nc)) (nc_cluster nc) p = Inr cl \<and> identity_of L p (nu_user nu) cr)"
  by (auto simp: load_kubeconfig_file_def parse_kubeconfig_def resolve_context_iff [symmetric] credentials_iff)

lemma candidates_named:
  assumes "named_files L explicit \<noteq> []"
  shows "kubeconfig_candidates explicit (al_env L ''KUBECONFIG'') home = named_files L explicit"
    and "strict_kubeconfig_source (explicit \<noteq> None) (al_env L ''KUBECONFIG'')"
  using assms
  by (auto simp: named_files_def kubeconfig_candidates_def strict_kubeconfig_source_def split: option.splits if_splits)

lemma load_named:
  assumes "named_files L explicit \<noteq> []"
  shows "load_credentials L explicit =
    (case find (al_exists L) (named_files L explicit) of
       Some p \<Rightarrow> load_kubeconfig_file L p
     | None \<Rightarrow> Inl (CredentialMissing (''no kubeconfig found at any of: '' @ join '', '' (named_files L explicit))))"
  using candidates_named [OF assms] assms by (simp add: load_credentials_def Let_def split: option.split)

lemma load_unnamed:
  assumes "unnamed L explicit"
  shows "load_credentials L explicit =
    (case al_env L ''HOME'' of
       Some h \<Rightarrow> if al_exists L (home_kubeconfig h) then load_kubeconfig_file L (home_kubeconfig h) else in_cluster_load L
     | None \<Rightarrow> in_cluster_load L)"
  using assms
  by (auto simp: unnamed_def load_credentials_def kubeconfig_candidates_def strict_kubeconfig_source_def Let_def split: option.splits)

text \<open>
  A \<open>KUBECONFIG\<close> of separators alone names no file and is neither blank: the load takes the service account, without a look
  at the home directory and without an error.
\<close>

lemma separators_fall_through:
  assumes "al_env L ''KUBECONFIG'' = Some '':''"
  shows "load_credentials L None = in_cluster_load L" and "strict_kubeconfig_source False (al_env L ''KUBECONFIG'')"
proof -
  have "trim '':'' = '':''" by code_simp
  then show "load_credentials L None = in_cluster_load L" "strict_kubeconfig_source False (al_env L ''KUBECONFIG'')"
    using assms by (simp_all add: load_credentials_def kubeconfig_candidates_def strict_kubeconfig_source_def Let_def)
qed

text \<open>A blank token is refused in a kubeconfig and taken from a service account.\<close>

lemma blank_account_token:
  assumes "al_read_to_string L (path_join root ''token'') = Inr t" and "trim t = []" and "load_with_root L root host pt = Inr (cl, cr)"
  shows "cr = Bearer []"
  using assms by (auto simp: load_with_root_def Let_def)

section \<open>What the client sends\<close>

text \<open>\<open>Uri::builder\<close> gives the parts it was given.\<close>

definition uri_laws :: "('u, 'der, 'key, 'sk, 'v) auth_lib \<Rightarrow> bool" where
  "uri_laws L \<longleftrightarrow> (\<forall>s a p u. al_build L s a p = Some u \<longrightarrow> al_scheme L u = Some s \<and> al_authority L u = Some a)"

lemma token_nonempty: "exec_run L x = Inr t \<Longrightarrow> t \<noteq> []"
  by (auto simp: exec_run_def token_from_output_def split: if_splits option.splits)

lemma build_tls_config_Inr:
  assumes "build_tls_config L ca cc = Inr t"
  shows "al_certs L ca = Inr (kt_roots t)" and "list_all (\<lambda>r. al_root L r = None) (kt_roots t)"
    and "kt_identity t = None \<longleftrightarrow> cc = None"
  using assms by (auto simp: build_tls_config_def parse_cert_pem_def list_all_iff split: option.splits if_splits)

definition carries :: "('u, 'der, 'key, 'sk, 'v) auth_lib \<Rightarrow> credentials \<Rightarrow> 'v option \<Rightarrow> bool" where
  "carries L cr v =
     (case cr of
        Bearer t \<Rightarrow> v \<noteq> None \<and> v = al_value L (''Bearer '' @ t)
      | ExecToken x \<Rightarrow> v \<noteq> None \<and> (\<exists>t. exec_run L x = Inr t \<and> t \<noteq> [] \<and> v = al_value L (''Bearer '' @ t))
      | ClientCert c k \<Rightarrow> v = None)"

lemma client_new_Inr:
  assumes "client_new L cl cr = Inr c"
  shows "kc_endpoint c = cl_endpoint cl" and "carries L cr (kc_authorization c)"
    and "\<exists>cc. build_tls_config L (cl_ca cl) cc = Inr (kc_tls c) \<and> (cc = None \<longleftrightarrow> \<not> is_ClientCert cr)"
  using assms by (auto simp: client_new_def bearer_header_def carries_def token_nonempty split: credentials.splits)

lemma request_uri_Inr:
  assumes "request_uri L ep target = Inr u" and "uri_laws L"
  shows "al_authority L u = al_authority L ep" and "al_scheme L ep \<noteq> None \<Longrightarrow> al_scheme L u = al_scheme L ep"
  using assms by (auto simp: request_uri_def uri_laws_def Let_def split: option.splits)

lemma client_sound:
  assumes "client_new L cl cr = Inr c"
  shows "al_certs L (cl_ca cl) = Inr (kt_roots (kc_tls c))" and "list_all (\<lambda>x. al_root L x = None) (kt_roots (kc_tls c))"
    and "kt_identity (kc_tls c) = None \<longleftrightarrow> \<not> is_ClientCert cr"
proof -
  obtain cc where cc: "build_tls_config L (cl_ca cl) cc = Inr (kc_tls c)" "cc = None \<longleftrightarrow> \<not> is_ClientCert cr"
    using client_new_Inr(3) [OF assms] by blast
  note t = build_tls_config_Inr [OF cc(1)]
  show "al_certs L (cl_ca cl) = Inr (kt_roots (kc_tls c))" "list_all (\<lambda>x. al_root L x = None) (kt_roots (kc_tls c))"
    using t by simp_all
  show "kt_identity (kc_tls c) = None \<longleftrightarrow> \<not> is_ClientCert cr" using t(3) cc(2) by simp
qed

lemma get_sound:
  assumes "k8s_get L c path = Inr rq" and "uri_laws L"
  shows "al_authority L (kr_uri rq) = al_authority L (kc_endpoint c)" and "kr_authorization rq = kc_authorization c"
  using assms(1) request_uri_Inr(1) [OF _ assms(2)] by (auto simp: k8s_get_def request_builder_def)

text \<open>Whatever path the endpoint of a kubeconfig has, the requests do not: two endpoints of one authority are served alike.\<close>

lemma endpoint_path_dropped:
  assumes "al_scheme L a = al_scheme L b" and "al_authority L a = al_authority L b" and "request_uri L a target = Inr u"
  shows "request_uri L b target = Inr u"
  using assms by (auto simp: request_uri_def Let_def)

lemma find_append_first: "list_all (\<lambda>y. \<not> P y) ys \<Longrightarrow> P x \<Longrightarrow> find P (ys @ x # zs) = Some x"
  by (induction ys) auto

lemma find_Some_split: "find P xs = Some x \<longleftrightarrow> (\<exists>ys zs. xs = ys @ x # zs \<and> list_all (\<lambda>y. \<not> P y) ys \<and> P x)"
proof
  show "find P xs = Some x \<Longrightarrow> \<exists>ys zs. xs = ys @ x # zs \<and> list_all (\<lambda>y. \<not> P y) ys \<and> P x"
  proof (induction xs)
    case (Cons a xs)
    show ?case
    proof (cases "P a")
      case True
      then have "a # xs = [] @ x # xs \<and> list_all (\<lambda>y. \<not> P y) [] \<and> P x" using Cons.prems by simp
      then show ?thesis by blast
    next
      case False
      then obtain ys zs where "xs = ys @ x # zs" "list_all (\<lambda>y. \<not> P y) ys" "P x" using Cons by auto
      then have "a # xs = (a # ys) @ x # zs \<and> list_all (\<lambda>y. \<not> P y) (a # ys) \<and> P x" using False by simp
      then show ?thesis by blast
    qed
  qed simp
qed (auto simp: find_append_first)

lemma load_named_iff:
  assumes "named_files L explicit \<noteq> []"
  shows "load_credentials L explicit = Inr r \<longleftrightarrow>
    (\<exists>ys p zs. named_files L explicit = ys @ p # zs \<and> list_all (\<lambda>q. \<not> al_exists L q) ys \<and> al_exists L p \<and> load_kubeconfig_file L p = Inr r)"
proof -
  have "load_credentials L explicit = Inr r \<longleftrightarrow>
      (\<exists>p. find (al_exists L) (named_files L explicit) = Some p \<and> load_kubeconfig_file L p = Inr r)"
    by (simp add: load_named [OF assms] split: option.split)
  then show ?thesis unfolding find_Some_split by blast
qed

text \<open>Starting the plane is a step of the gateway, and without a client only the flag that it was enabled changes.\<close>

lemma start_ingress_step: "gateway_step W g (start_ingress L ig g)"
  unfolding start_ingress_def by (rule RunIngress)

lemma start_ingress_failed:
  "connect_cluster L ig = Inl e \<Longrightarrow> start_ingress L ig g = g\<lparr>gw_status := (gw_status g)\<lparr>wt_enabled := True\<rparr>\<rparr>"
  by (simp add: start_ingress_def run_ingress_def Let_def)

section \<open>A sample library\<close>

text \<open>A URI is the triple of scheme, authority and the rest; \<open>KUBECONFIG\<close> names two files, the second of which exists.\<close>

definition sample_kubeconfig :: kubeconfig where
  "sample_kubeconfig = \<lparr>kf_clusters = [\<lparr>nc_name = ''c'', nc_cluster = \<lparr>cd_server = ''https'', cd_certificate_authority = Some ''ca.crt'',
       cd_certificate_authority_data = None\<rparr>\<rparr>],
     kf_users = [\<lparr>nu_name = ''u'', nu_user = \<lparr>ud_token = Some ''s3cret'', ud_username = None, ud_password = None,
       ud_client_certificate = None, ud_client_key = None, ud_client_certificate_data = None, ud_client_key_data = None, ud_exec = None\<rparr>\<rparr>],
     kf_contexts = [\<lparr>nx_name = ''x'', nx_context = \<lparr>xd_cluster = ''c'', xd_user = ''u''\<rparr>\<rparr>],
     kf_current_context = Some ''x''\<rparr>"

definition sample_auth_lib :: "(rstr \<times> rstr \<times> rstr, nat, nat, nat, rstr) auth_lib" where
  "sample_auth_lib = \<lparr>al_env = (\<lambda>n. if n = ''KUBECONFIG'' then Some ''/a:/etc/k'' else None), al_exists = (\<lambda>p. p = ''/etc/k''),
     al_read_to_string = (\<lambda>p. if p = ''/etc/k'' then Inr ''text'' else Inl ''missing''),
     al_read = (\<lambda>p. if p = ''/etc/ca.crt'' then Inr ''pem'' else Inl ''missing''),
     al_yaml = (\<lambda>_. Inr sample_kubeconfig), al_json = (\<lambda>_. Inl ''eof''), al_base64 = Inr, al_spawn = (\<lambda>_ _ _. Inl ''missing''),
     al_uri = (\<lambda>s. Some (s, ''10.0.0.1:6443'', ''/'')), al_scheme = (\<lambda>u. Some (fst u)), al_host = (\<lambda>_. Some ''10.0.0.1''),
     al_authority = (\<lambda>u. Some (fst (snd u))), al_uri_text = fst, al_build = (\<lambda>s a p. Some (s, a, p)),
     al_value = Some, al_certs = (\<lambda>_. Inr [1]), al_private_key = (\<lambda>_. Inr None), al_root = (\<lambda>_. None), al_versions = None,
     al_signing = Inr\<rparr>"

lemma sample_uri_laws: "uri_laws sample_auth_lib"
  by (simp add: uri_laws_def sample_auth_lib_def)

lemma sample_auth_trim: "trim ''/a:/etc/k'' = ''/a:/etc/k''" "trim ''https'' = ''https''" "trim ''s3cret'' = ''s3cret''"
  by code_simp+

lemma sample_named: "named_files sample_auth_lib None = [''/a'', ''/etc/k'']"
  by (simp add: named_files_def sample_auth_lib_def sample_auth_trim)

lemma sample_paths: "path_parent ''/etc/k'' = Some ''/etc''" "resolve_relative (Some ''/etc'') ''ca.crt'' = ''/etc/ca.crt''"
  by code_simp+

lemma sample_file: "load_kubeconfig_file sample_auth_lib ''/etc/k'' = Inr (\<lparr>cl_endpoint = (''https'', ''10.0.0.1:6443'', ''/''), cl_ca = ''pem''\<rparr>, Bearer ''s3cret'')"
  by (simp add: load_kubeconfig_file_def parse_kubeconfig_def resolve_context_def load_cluster_def parse_endpoint_def
    credentials_for_user_def sample_auth_lib_def sample_kubeconfig_def sample_auth_trim sample_paths Let_def)

section \<open>Properties\<close>

text \<open>
  C5: the gateway talks to the cluster the operator named, with the credential of its context and nowhere else. When files are named,
  by the setting or by \<open>KUBECONFIG\<close>, a load succeeds exactly with the content of the first one that exists, and
  neither the home directory nor the service account stands in; with nothing named the home file and
  then the account do. A file gives exactly the cluster and user its current context binds, with an http
  or https endpoint, a trust anchor, and the token before the certificate before the plugin. The client trusts
  exactly the certificates of that anchor and carries one identity, in the header or in TLS; each request goes to
  the authority of the endpoint.
\<close>

theorem cluster_access:
  assumes "uri_laws L"
  shows "(named_files L explicit \<noteq> [] \<longrightarrow>
      load_credentials L explicit = Inr r \<longleftrightarrow>
        (\<exists>ys p zs. named_files L explicit = ys @ p # zs \<and> list_all (\<lambda>q. \<not> al_exists L q) ys \<and> al_exists L p \<and> load_kubeconfig_file L p = Inr r))
    \<and> (unnamed L explicit \<longrightarrow>
      load_credentials L explicit =
        (case al_env L ''HOME'' of
           Some h \<Rightarrow> if al_exists L (home_kubeconfig h) then load_kubeconfig_file L (home_kubeconfig h) else in_cluster_load L
         | None \<Rightarrow> in_cluster_load L))
    \<and> (load_kubeconfig_file L p = Inr (cl, cr) \<longleftrightarrow>
        (\<exists>text config nc nu. al_read_to_string L p = Inr text \<and> al_yaml L text = Inr config \<and> bound config nc nu
          \<and> al_uri L (trim (cd_server (nc_cluster nc))) = Some (cl_endpoint cl)
          \<and> al_scheme L (cl_endpoint cl) \<in> {Some ''https'', Some ''http''} \<and> al_host L (cl_endpoint cl) \<noteq> None
          \<and> material L p (cd_certificate_authority_data (nc_cluster nc)) (cd_certificate_authority (nc_cluster nc)) (cl_ca cl)
          \<and> identity_of L p (nu_user nu) cr))
    \<and> (client_new L cl cr = Inr c \<longrightarrow>
        al_certs L (cl_ca cl) = Inr (kt_roots (kc_tls c)) \<and> list_all (\<lambda>x. al_root L x = None) (kt_roots (kc_tls c))
        \<and> (kt_identity (kc_tls c) = None \<longleftrightarrow> \<not> is_ClientCert cr) \<and> carries L cr (kc_authorization c)
        \<and> (k8s_get L c path = Inr rq \<longrightarrow>
             al_authority L (kr_uri rq) = al_authority L (cl_endpoint cl) \<and> kr_authorization rq = kc_authorization c))"
proof -
  note from_file = load_file_iff [of L p cl cr, unfolded load_cluster_iff parse_endpoint_iff conj_assoc]
  have client: "carries L cr (kc_authorization c) \<and> (k8s_get L c path = Inr rq \<longrightarrow>
      al_authority L (kr_uri rq) = al_authority L (cl_endpoint cl) \<and> kr_authorization rq = kc_authorization c)"
    if new: "client_new L cl cr = Inr c"
    using client_new_Inr(1,2) [OF new] get_sound [of L c path rq, OF _ assms] by simp
  show ?thesis
    by (intro conjI impI load_named_iff load_unnamed from_file; use client client_sound [of L cl cr c] in blast)
qed

theorem cluster_access_witness:
  "uri_laws sample_auth_lib \<and> named_files sample_auth_lib None = [''/a'', ''/etc/k'']
   \<and> load_credentials sample_auth_lib None = Inr (\<lparr>cl_endpoint = (''https'', ''10.0.0.1:6443'', ''/''), cl_ca = ''pem''\<rparr>, Bearer ''s3cret'')"
proof -
  note spec = cluster_access [of sample_auth_lib None "(\<lparr>cl_endpoint = (''https'', ''10.0.0.1:6443'', ''/''), cl_ca = ''pem''\<rparr>, Bearer ''s3cret'')",
    OF sample_uri_laws, THEN conjunct1]
  have "[''/a'', ''/etc/k''] = [''/a''] @ ''/etc/k'' # []" "list_all (\<lambda>q. \<not> al_exists sample_auth_lib q) [''/a'']" "al_exists sample_auth_lib ''/etc/k''"
    by (simp_all add: sample_auth_lib_def)
  then show ?thesis using spec sample_named sample_file sample_uri_laws by (metis list.distinct(1))
qed

end
