(* ===== verification/GuestHeap.thy ===== *)
theory GuestHeap
  imports Prelude
begin

text \<open>
  The bump allocator of the guests (\<open>crates/openrusty-sdk/src/alloc_heap.rs\<close>): the rounding, the
  compare-and-swap loop on the water mark, and the two entry points. Sizes are \<open>usize\<close> of wasm32. A
  run of the allocator hands out aligned, pairwise disjoint ranges of the arena.
\<close>

unbundle bit_operations_syntax

type_synonym usize = "32 word"

section \<open>Definitions\<close>

definition HEAP_SIZE :: usize where "HEAP_SIZE = 1024 * 1024"

definition checked_add :: "'a::len word \<Rightarrow> 'a word \<Rightarrow> 'a word option" where
  "checked_add a b = (if unat a + unat b < 2 ^ LENGTH('a) then Some (a + b) else None)"

definition is_power_of_two :: "usize \<Rightarrow> bool" where
  "is_power_of_two a = list_ex (\<lambda>k. a = 2 ^ k) [0..<32]"

definition align_up :: "usize \<Rightarrow> usize \<Rightarrow> usize option" where
  "align_up value align =
     (if \<not> is_power_of_two align then None
      else let mask = align - 1 in map_option (\<lambda>v. v AND NOT mask) (checked_add value mask))"

text \<open>
  One round of the loop on the water mark it loaded, and the loop over the water marks successive
  rounds load: every round but the last lost its exchange, to another thread or spuriously. The
  result is the new water mark with the offset.
\<close>

definition bump_try :: "usize \<Rightarrow> usize \<Rightarrow> usize \<Rightarrow> usize \<Rightarrow> (usize \<times> usize) option" where
  "bump_try cur heap_size nbytes align =
     Option.bind (align_up cur align) (\<lambda>start.
     Option.bind (checked_add start nbytes) (\<lambda>stop.
       if stop > heap_size then None else Some (stop, start)))"

fun bump_loop :: "usize list \<Rightarrow> usize \<Rightarrow> usize \<Rightarrow> usize \<Rightarrow> usize \<Rightarrow> (usize \<times> usize) option" where
  "bump_loop [] cur heap_size nbytes align = bump_try cur heap_size nbytes align"
| "bump_loop (lost # more) cur heap_size nbytes align =
     (case bump_try lost heap_size nbytes align of
        None \<Rightarrow> None
      | Some _ \<Rightarrow> bump_loop more cur heap_size nbytes align)"

definition bump_offset :: "usize list \<Rightarrow> usize \<Rightarrow> usize \<Rightarrow> usize \<Rightarrow> usize \<Rightarrow> (usize \<times> usize) option" where
  "bump_offset lost next heap_size nbytes align =
     (if \<not> is_power_of_two align then None else bump_loop lost next heap_size nbytes align)"

text \<open>
  \<open>Bump::alloc\<close> and \<open>alloc\<close>: the new water mark and the address, 0 (null) when the arena is exhausted.
\<close>

definition bump_alloc :: "usize \<Rightarrow> usize list \<Rightarrow> usize \<Rightarrow> usize \<Rightarrow> usize \<Rightarrow> usize \<times> usize" where
  "bump_alloc heap_base lost next nbytes align =
     (case bump_offset lost next HEAP_SIZE nbytes align of
        Some (next', off) \<Rightarrow> (next', heap_base + off)
      | None \<Rightarrow> (next, 0))"

definition orr_alloc :: "usize \<Rightarrow> usize list \<Rightarrow> usize \<Rightarrow> usize \<Rightarrow> usize \<times> usize" where
  "orr_alloc heap_base lost next nbytes = bump_alloc heap_base lost next nbytes 8"

section \<open>Rounding\<close>

lemma checked_add_Some:
  "checked_add a b = Some c \<longleftrightarrow> unat a + unat b < 2 ^ LENGTH('a) \<and> unat c = unat a + unat b" for a :: "'a::len word"
  by (auto simp: checked_add_def unat_word_ariths unsigned_of_nat word_unat_eq_iff)

lemma and_not_mask: "unat (v AND NOT (2 ^ k - 1)) = unat v - unat v mod 2 ^ k" for v :: usize
proof -
  have p: "v AND NOT (2 ^ k - 1) = push_bit k (drop_bit k v)"
    by (rule bit_eqI)
      (auto simp: mask_eq_exp_minus_1 [symmetric] bit_and_iff bit_not_iff bit_mask_iff bit_push_bit_iff bit_drop_bit_eq)
  have t: "unat (take_bit k v) = unat v mod 2 ^ k" unfolding unsigned_take_bit_eq by (rule take_bit_eq_mod)
  have "v AND NOT (2 ^ k - 1) = v - take_bit k v"
    unfolding p using bits_ident [of k v] by (simp add: algebra_simps)
  moreover have "take_bit k v \<le> v" unfolding word_le_nat_alt t by simp
  ultimately show ?thesis by (simp add: unat_sub t)
qed

lemma power_of_two:
  assumes "is_power_of_two a"
  obtains k where "k < 32" "a = 2 ^ k" "unat a = 2 ^ k" "unat (a - 1) = 2 ^ k - 1"
proof -
  obtain k where k: "k < 32" "a = 2 ^ k" using assms by (auto simp: is_power_of_two_def list_ex_iff)
  have u: "unat (2 ^ k :: usize) = 2 ^ k" using unat_of_nat [where 'a = 32, of "2 ^ k"] power_strict_increasing [OF k(1), of "2 :: nat"] by simp
  then have "unat (a - 1) = 2 ^ k - 1"
    using k by (subst unat_sub) (simp_all add: word_le_nat_alt)
  with k u that show ?thesis by blast
qed

text \<open>The least multiple of the alignment that is not below, unless it does not fit into a word.\<close>

lemma align_up_Some:
  assumes "align_up value align = Some v"
  shows "unat align dvd unat v \<and> unat value \<le> unat v \<and> unat v < unat value + unat align"
proof -
  have "is_power_of_two align" using assms by (auto simp: align_up_def split: if_splits)
  then obtain k where k: "k < 32" "align = 2 ^ k" "unat align = 2 ^ k" "unat (align - 1) = 2 ^ k - 1"
    by (rule power_of_two)
  obtain s where s: "checked_add value (align - 1) = Some s" and v: "v = s AND NOT (align - 1)"
    using assms by (auto simp: align_up_def Let_def split: if_splits)
  have us: "unat s = unat value + (2 ^ k - 1)" using s k(4) by (simp add: checked_add_Some)
  have uv: "unat v = unat s - unat s mod 2 ^ k" unfolding v k(2) by (rule and_not_mask)
  have m: "unat s mod 2 ^ k < 2 ^ k" by simp
  then have "unat s mod 2 ^ k \<le> 2 ^ k - 1" by linarith
  then have "unat value \<le> unat v" unfolding uv us by linarith
  moreover have "unat v \<le> unat s" unfolding uv by simp
  moreover have "(2 :: nat) ^ k dvd unat v" unfolding uv by (rule dvd_minus_mod)
  moreover have "unat s < unat value + 2 ^ k" unfolding us by simp
  ultimately show ?thesis using k(3) by simp
qed

section \<open>The allocator\<close>

lemma bump_try_Some:
  assumes "bump_try cur heap_size n align = Some (stop, start)"
  shows "unat align dvd unat start \<and> unat cur \<le> unat start \<and> unat stop = unat start + unat n \<and> unat stop \<le> unat heap_size
    \<and> unat start < unat cur + unat align"
proof -
  obtain s where s: "align_up cur align = Some s" "checked_add s n = Some stop" "\<not> heap_size < stop" "start = s"
    using assms by (auto simp: bump_try_def Option.bind_eq_Some_conv split: if_splits)
  then show ?thesis using align_up_Some [OF s(1)] by (simp add: checked_add_Some word_less_nat_alt)
qed

text \<open>Losing an exchange does not change the outcome of the round that wins.\<close>

lemma bump_loop_Some:
  "bump_loop lost cur heap_size n align = Some r \<Longrightarrow> bump_try cur heap_size n align = Some r"
  by (induction lost) (auto split: option.splits)

text \<open>
  The contract of an allocator: a state with the first address that is still free, and a request that
  gives an aligned range in the free part and leaves only the part behind it. Ranges of successive
  requests are then disjoint, which is what the callers need.
\<close>

locale allocator =
  fixes request :: "'h \<Rightarrow> nat \<Rightarrow> nat \<Rightarrow> ('h \<times> nat) option" and free_from :: "'h \<Rightarrow> nat" and limit :: nat
  assumes request_range:
    "request h n align = Some (h', p) \<Longrightarrow> free_from h \<le> p \<and> p + n \<le> free_from h' \<and> free_from h' \<le> limit \<and> align dvd p"
begin

fun requests :: "'h \<Rightarrow> (nat \<times> nat) list \<Rightarrow> ('h \<times> nat list) option" where
  "requests h [] = Some (h, [])"
| "requests h ((n, align) # rs) =
     Option.bind (request h n align) (\<lambda>(h', p). map_option (\<lambda>(h'', ps). (h'', p # ps)) (requests h' rs))"

lemma requests_ranges:
  "requests h rs = Some (h', ps) \<Longrightarrow>
     length ps = length rs \<and> free_from h \<le> free_from h' \<and>
     (\<forall>i < length rs. free_from h \<le> ps ! i \<and> ps ! i + fst (rs ! i) \<le> free_from h' \<and> snd (rs ! i) dvd ps ! i) \<and>
     (\<forall>j < length rs. \<forall>i < j. ps ! i + fst (rs ! i) \<le> ps ! j)"
proof (induction rs arbitrary: h ps)
  case (Cons r rs)
  obtain n align where r: "r = (n, align)" by force
  obtain h1 p qs where q: "request h n align = Some (h1, p)" "requests h1 rs = Some (h', qs)" "ps = p # qs"
    using Cons.prems unfolding r by (auto simp: Option.bind_eq_Some_conv)
  note range = request_range [OF q(1)]
  note IH = Cons.IH [OF q(2)]
  have "free_from h \<le> free_from h1" using range by linarith
  then show ?case
    using IH range unfolding q(3) r
    by (auto simp: nth_Cons less_Suc_eq_0_disj split: nat.splits)
qed simp

lemma requests_disjoint:
  assumes "requests h rs = Some (h', ps)" "i < length rs" "j < length rs" "i \<noteq> j"
  shows "{ps ! i ..< ps ! i + fst (rs ! i)} \<inter> {ps ! j ..< ps ! j + fst (rs ! j)} = {}"
  using requests_ranges [OF assms(1)] assms(2-4) by (cases "i < j") (force simp: not_less le_less)+

end

text \<open>The bump allocator implements it, whatever exchanges it loses.\<close>

definition bump_request :: "usize \<Rightarrow> nat \<Rightarrow> nat \<Rightarrow> (usize \<times> nat) option" where
  "bump_request next n align =
     (if n < 2 ^ 32 \<and> align < 2 ^ 32 then map_option (\<lambda>(next', off). (next', unat off)) (bump_offset [] next HEAP_SIZE (of_nat n) (of_nat align))
      else None)"

interpretation bump: allocator bump_request unat "unat HEAP_SIZE"
proof
  fix h h' :: usize and n align p
  assume "bump_request h n align = Some (h', p)"
  then obtain off where n: "n < 2 ^ 32" "align < 2 ^ 32" and p: "p = unat off"
    and b: "bump_offset [] h HEAP_SIZE (of_nat n) (of_nat align) = Some (h', off)"
    by (auto simp: bump_request_def split: if_splits)
  then have t: "bump_try h HEAP_SIZE (of_nat n) (of_nat align) = Some (h', off)"
    by (auto simp: bump_offset_def split: if_splits)
  have u: "unat (of_nat n :: usize) = n" "unat (of_nat align :: usize) = align" using n by (simp_all add: unat_of_nat)
  show "unat h \<le> p \<and> p + n \<le> unat h' \<and> unat h' \<le> unat HEAP_SIZE \<and> align dvd p"
    using bump_try_Some [OF t] unfolding p u by simp
qed

lemma bump_offset_lost: "bump_offset lost next heap_size n align = Some r \<Longrightarrow> bump_offset [] next heap_size n align = Some r"
  by (auto simp: bump_offset_def dest: bump_loop_Some split: if_splits)

end
