(* ===== verification/Sdk.thy ===== *)
theory Sdk
  imports Guest GuestHeap
begin

text \<open>
  The guest side of the plugin boundary (\<open>crates/openrusty-sdk/src/ffi.rs\<close>, \<open>host.rs\<close>, \<open>dispatch.rs\<close>): the
  two-phase read and the wrappers of the host imports, run against the host imports of \<open>Guest\<close> on one
  linear memory. A borrowed string or slice is its address and length; the buffers a call allocates are at
  the addresses its argument \<open>place\<close> names, in the order of the allocations. A value a wrapper
  returns is owned by the guest and no longer looked at by the host, so it is the bytes themselves.
\<close>

section \<open>Two-phase reads (ffi.rs)\<close>

definition MAX_READ_LEN :: nat where "MAX_READ_LEN = unat HEAP_SIZE"

definition START_LEN :: nat where "START_LEN = 256"

type_synonym places = "nat \<Rightarrow> i32"
type_synonym slice = "i32 \<times> i32"

text \<open>A vector in the memory: its contents, its creation with zeros, its move to a larger place.\<close>

definition vec_bytes :: "guest_world \<Rightarrow> i32 \<Rightarrow> nat \<Rightarrow> rstr" where
  "vec_bytes w ptr n = (case gw_mem w of Some d \<Rightarrow> take n (drop (unat ptr) d) | None \<Rightarrow> [])"

definition poke :: "guest_world \<Rightarrow> i32 \<Rightarrow> rstr \<Rightarrow> guest_world" where
  "poke w ptr bs =
     (case gw_mem w of
        None \<Rightarrow> w
      | Some d \<Rightarrow> (case mem_write d (unat ptr) bs of Some d' \<Rightarrow> w\<lparr>gw_mem := Some d'\<rparr> | None \<Rightarrow> w))"

definition vec_zeroed :: "guest_world \<Rightarrow> i32 \<Rightarrow> nat \<Rightarrow> guest_world" where
  "vec_zeroed w ptr n = poke w ptr (replicate n (byte 0))"

definition vec_resize :: "guest_world \<Rightarrow> i32 \<Rightarrow> nat \<Rightarrow> i32 \<Rightarrow> nat \<Rightarrow> guest_world" where
  "vec_resize w old len ptr need = poke w ptr (vec_bytes w old len @ replicate (need - len) (byte 0))"

text \<open>The argument \<open>read\<close> also gets the number of the attempt, at which the host's clock may differ.\<close>

type_synonym host_read = "nat \<Rightarrow> guest_world \<Rightarrow> i32 \<Rightarrow> i32 \<Rightarrow> guest_world \<times> i32"

fun two_phase_loop :: "nat \<Rightarrow> places \<Rightarrow> host_read \<Rightarrow> nat \<Rightarrow> guest_world \<Rightarrow> nat \<Rightarrow> guest_world \<times> rstr option" where
  "two_phase_loop 0 place read k w len = (w, None)"
| "two_phase_loop (Suc n) place read k w len =
     (case read k w (place k) (of_nat len) of
        (w', ret) \<Rightarrow>
          if 0 \<le> sint ret then (w', Some (vec_bytes w' (place k) (min len (unat ret))))
          else
            let need = nat (- sint ret) in
            if need \<le> len \<or> MAX_READ_LEN < need then (w', None)
            else two_phase_loop n place read (Suc k) (vec_resize w' (place k) len (place (Suc k)) need) need)"

definition read_two_phase :: "places \<Rightarrow> host_read \<Rightarrow> guest_world \<Rightarrow> guest_world \<times> rstr option" where
  "read_two_phase place read w = two_phase_loop 3 place read 0 (vec_zeroed w (place 0) START_LEN) START_LEN"

section \<open>TLV lists (host.rs)\<close>

function parse_tlv :: "rstr \<Rightarrow> rstr list" where
  "parse_tlv data =
     (if length data < 4 then []
      else
        let len = unat (from_le_bytes (take 4 data)); rest = drop 4 data in
        if length rest < len then [] else take len rest # parse_tlv (drop len rest))"
  by pat_completeness auto
termination
  by (relation "measure length") auto

declare parse_tlv.simps [simp del]

definition nth_item :: "rstr list \<Rightarrow> nat \<Rightarrow> rstr option" where
  "nth_item items i = (if i < length items then Some (items ! i) else None)"

definition item_is :: "rstr list \<Rightarrow> nat \<Rightarrow> rstr \<Rightarrow> bool" where
  "item_is items idx expect = (nth_item items idx = Some expect)"

record peer_info =
  pi_name :: rstr
  pi_addr :: rstr
  pi_healthy :: bool

definition item_text :: "rstr list \<Rightarrow> nat \<Rightarrow> rstr" where
  "item_text items i = (case nth_item items i of Some b \<Rightarrow> from_utf8_lossy b | None \<Rightarrow> [])"

definition peer_from_tlv :: "rstr \<Rightarrow> peer_info" where
  "peer_from_tlv tlv =
     (let items = parse_tlv tlv in
      \<lparr>pi_name = item_text items 0, pi_addr = item_text items 1, pi_healthy = item_is items 2 ''1''\<rparr>)"

definition kv_pair_from_tlv :: "rstr \<Rightarrow> rstr \<times> rstr" where
  "kv_pair_from_tlv tlv =
     (let items = parse_tlv tlv;
          part = (\<lambda>i. case nth_item items i of Some b \<Rightarrow> b | None \<Rightarrow> [])
      in (part 0, part 1))"

section \<open>Wrappers of the imports (host.rs)\<close>

definition nonempty :: "rstr \<Rightarrow> rstr option" where
  "nonempty b = (if b = [] then None else Some b)"

definition sdk_now_ms :: "(nat \<Rightarrow> u64) \<Rightarrow> u64" where
  "sdk_now_ms now = now 0"

text \<open>\<open>now k\<close> are the clock readings of the k-th host call a wrapper makes.\<close>

type_synonym clock = "nat \<Rightarrow> nat \<Rightarrow> u64"

definition sdk_req_meta :: "clock \<Rightarrow> places \<Rightarrow> guest_world \<Rightarrow> slice \<Rightarrow> guest_world \<times> rstr option" where
  "sdk_req_meta now place w key =
     (case read_two_phase place (\<lambda>k w op oc. host_call_step (now k) w (ReqMeta (fst key) (snd key) op oc)) w of
        (w', out) \<Rightarrow> (w', Option.bind out nonempty))"

definition sdk_req_meta_str :: "clock \<Rightarrow> places \<Rightarrow> guest_world \<Rightarrow> slice \<Rightarrow> guest_world \<times> rstr option" where
  "sdk_req_meta_str now place w key =
     (case sdk_req_meta now place w key of (w', out) \<Rightarrow> (w', map_option from_utf8_lossy out))"

text \<open>\<open>req_body\<close> passes the literal \<open>body\<close>, which lies somewhere in the module's data.\<close>

definition sdk_req_body :: "clock \<Rightarrow> places \<Rightarrow> guest_world \<Rightarrow> slice \<Rightarrow> guest_world \<times> rstr option" where
  "sdk_req_body now place w body_literal = sdk_req_meta now place w body_literal"

definition sdk_peer_at :: "clock \<Rightarrow> places \<Rightarrow> guest_world \<Rightarrow> i32 \<Rightarrow> guest_world \<times> peer_info option" where
  "sdk_peer_at now place w idx =
     (case read_two_phase place (\<lambda>k w op oc. host_call_step (now k) w (ReqPeerGet idx op oc)) w of
        (w', out) \<Rightarrow> (w', map_option peer_from_tlv out))"

fun peers_loop :: "(nat \<Rightarrow> clock) \<Rightarrow> (nat \<Rightarrow> places) \<Rightarrow> nat list \<Rightarrow> guest_world \<Rightarrow> guest_world \<times> peer_info list" where
  "peers_loop now place [] w = (w, [])"
| "peers_loop now place (i # is) w =
     (case sdk_peer_at (now i) (place i) w (of_nat i) of
        (w', p) \<Rightarrow> (case peers_loop now place is w' of
           (w'', ps) \<Rightarrow> (w'', case p of Some q \<Rightarrow> q # ps | None \<Rightarrow> ps)))"

definition sdk_peers :: "(nat \<Rightarrow> clock) \<Rightarrow> (nat \<Rightarrow> places) \<Rightarrow> guest_world \<Rightarrow> guest_world \<times> peer_info list" where
  "sdk_peers now place w =
     (case host_call_step (now 0 0) w ReqPeerCount of
        (w', n) \<Rightarrow> if sint n \<le> 0 then (w', []) else peers_loop now place [0..<unat n] w')"

definition sdk_set_peer :: "(nat \<Rightarrow> u64) \<Rightarrow> guest_world \<Rightarrow> u32 \<Rightarrow> guest_world \<times> bool" where
  "sdk_set_peer now w idx = (case host_call_step now w (BalancerSetPeer idx) of (w', r) \<Rightarrow> (w', r = 0))"

definition sdk_set_req_uri :: "(nat \<Rightarrow> u64) \<Rightarrow> guest_world \<Rightarrow> slice \<Rightarrow> guest_world \<times> bool" where
  "sdk_set_req_uri now w path = (case host_call_step now w (ReqSetUri (fst path) (snd path)) of (w', r) \<Rightarrow> (w', r = 0))"

definition sdk_set_req_query :: "(nat \<Rightarrow> u64) \<Rightarrow> guest_world \<Rightarrow> slice \<Rightarrow> guest_world \<times> bool" where
  "sdk_set_req_query now w query = (case host_call_step now w (ReqSetQuery (fst query) (snd query)) of (w', r) \<Rightarrow> (w', r = 0))"

definition sdk_set_req_header :: "(nat \<Rightarrow> u64) \<Rightarrow> guest_world \<Rightarrow> slice \<Rightarrow> slice \<Rightarrow> guest_world \<times> bool" where
  "sdk_set_req_header now w name val =
     (case host_call_step now w (ReqSetHeader (fst name) (snd name) (fst val) (snd val)) of (w', r) \<Rightarrow> (w', r = 0))"

definition sdk_del_req_header :: "(nat \<Rightarrow> u64) \<Rightarrow> guest_world \<Rightarrow> slice \<Rightarrow> guest_world" where
  "sdk_del_req_header now w name = fst (host_call_step now w (ReqDelHeader (fst name) (snd name)))"

definition sdk_kv_get :: "clock \<Rightarrow> places \<Rightarrow> guest_world \<Rightarrow> slice \<Rightarrow> guest_world \<times> rstr option" where
  "sdk_kv_get now place w key =
     (case read_two_phase place (\<lambda>k w op oc. host_call_step (now k) w (KvGet (fst key) (snd key) op oc)) w of
        (w', out) \<Rightarrow> (w', Option.bind out nonempty))"

definition sdk_kv_set :: "(nat \<Rightarrow> u64) \<Rightarrow> guest_world \<Rightarrow> slice \<Rightarrow> slice \<Rightarrow> int \<Rightarrow> guest_world" where
  "sdk_kv_set now w key val ttl_ms = fst (host_call_step now w (KvSet (fst key) (snd key) (fst val) (snd val) ttl_ms))"

definition sdk_kv_del :: "(nat \<Rightarrow> u64) \<Rightarrow> guest_world \<Rightarrow> slice \<Rightarrow> guest_world" where
  "sdk_kv_del now w key = fst (host_call_step now w (KvDel (fst key) (snd key)))"

definition SCAN_BUF_LEN :: nat where "SCAN_BUF_LEN = 256"

definition SCAN_CURSOR_DEAD :: i32 where "SCAN_CURSOR_DEAD = - 1"

text \<open>A \<open>KvScan\<close> is its cursor.\<close>

definition sdk_kv_scan :: "(nat \<Rightarrow> u64) \<Rightarrow> guest_world \<Rightarrow> slice \<Rightarrow> guest_world \<times> i32" where
  "sdk_kv_scan now w prefix = host_call_step now w (KvScanBegin (fst prefix) (snd prefix))"

definition scan_step :: "places \<Rightarrow> (guest_world \<Rightarrow> i32 \<Rightarrow> i32 \<Rightarrow> i32 \<Rightarrow> guest_world \<times> i32) \<Rightarrow> guest_world \<Rightarrow> i32
    \<Rightarrow> guest_world \<times> i32 \<times> rstr option" where
  "scan_step place next w cursor =
     (if sint cursor < 0 then (w, cursor, None)
      else case next (vec_zeroed w (place 0) SCAN_BUF_LEN) cursor (place 0) (of_nat SCAN_BUF_LEN) of
        (w', ret) \<Rightarrow>
          if ret = 0 then (w', cursor, None)
          else if ret = SCAN_CURSOR_DEAD then (w', SCAN_CURSOR_DEAD, None)
          else if sint ret < 0 then
            (case read_two_phase (\<lambda>k. place (Suc k)) (\<lambda>_ w op oc. next w cursor op oc) w' of (w'', out) \<Rightarrow> (w'', cursor, out))
          else (w', cursor, Some (vec_bytes w' (place 0) (min SCAN_BUF_LEN (unat ret)))))"

definition scan_next_pair :: "(nat \<Rightarrow> u64) \<Rightarrow> places \<Rightarrow> guest_world \<Rightarrow> i32 \<Rightarrow> guest_world \<times> i32 \<times> (rstr \<times> rstr) option" where
  "scan_next_pair now place w cursor =
     (case scan_step place (\<lambda>w cursor op oc. host_call_step now w (KvScanNext cursor op oc)) w cursor of
        (w', cursor', tlv) \<Rightarrow> (w', cursor', map_option kv_pair_from_tlv tlv))"

definition scan_end_if_live :: "(nat \<Rightarrow> u64) \<Rightarrow> guest_world \<Rightarrow> i32 \<Rightarrow> guest_world" where
  "scan_end_if_live now w cursor = (if 0 \<le> sint cursor then fst (host_call_step now w (KvScanEnd cursor)) else w)"

text \<open>
  \<open>for (k, v) in kv_scan(prefix)\<close> with the pairs collected, and the drop of the iterator at its end;
  the n-th step has its own buffers. The host could keep the loop running, so it may not return.
\<close>

partial_function (option) scan_for ::
  "(nat \<Rightarrow> u64) \<Rightarrow> (nat \<Rightarrow> places) \<Rightarrow> nat \<Rightarrow> guest_world \<Rightarrow> i32 \<Rightarrow> (rstr \<times> rstr) list \<Rightarrow> (guest_world \<times> (rstr \<times> rstr) list) option" where
  "scan_for now place n w cursor acc =
     (case scan_next_pair now (place n) w cursor of
        (w', cursor', Some kv) \<Rightarrow> scan_for now place (Suc n) w' cursor' (acc @ [kv])
      | (w', cursor', None) \<Rightarrow> Some (scan_end_if_live now w' cursor', acc))"

definition kv_scan_for :: "(nat \<Rightarrow> u64) \<Rightarrow> (nat \<Rightarrow> places) \<Rightarrow> guest_world \<Rightarrow> slice \<Rightarrow> (guest_world \<times> (rstr \<times> rstr) list) option" where
  "kv_scan_for now place w prefix = (case sdk_kv_scan now w prefix of (w', cursor) \<Rightarrow> scan_for now place 0 w' cursor [])"

definition sdk_resp_header :: "clock \<Rightarrow> places \<Rightarrow> guest_world \<Rightarrow> slice \<Rightarrow> guest_world \<times> rstr option" where
  "sdk_resp_header now place w name =
     (case read_two_phase place (\<lambda>k w op oc. host_call_step (now k) w (RespHeaderGet (fst name) (snd name) op oc)) w of
        (w', out) \<Rightarrow> (w', map_option from_utf8_lossy (Option.bind out nonempty)))"

definition sdk_set_resp_header :: "(nat \<Rightarrow> u64) \<Rightarrow> guest_world \<Rightarrow> slice \<Rightarrow> slice \<Rightarrow> guest_world" where
  "sdk_set_resp_header now w name val = fst (host_call_step now w (RespHeaderSet (fst name) (snd name) (fst val) (snd val)))"

definition sdk_del_resp_header :: "(nat \<Rightarrow> u64) \<Rightarrow> guest_world \<Rightarrow> slice \<Rightarrow> guest_world" where
  "sdk_del_resp_header now w name = fst (host_call_step now w (RespHeaderDel (fst name) (snd name)))"

definition redirect_status :: "u16 \<Rightarrow> u16" where
  "redirect_status status = (if 300 \<le> status \<and> status \<le> 399 then status else 302)"

definition sdk_respond_redirect :: "(nat \<Rightarrow> u64) \<Rightarrow> guest_world \<Rightarrow> slice \<Rightarrow> u16 \<Rightarrow> slice \<Rightarrow> guest_world \<times> decision" where
  "sdk_respond_redirect now w location_literal status location =
     (sdk_set_resp_header now w location_literal location, Deny (redirect_status status))"

definition sdk_set_resp_body :: "(nat \<Rightarrow> u64) \<Rightarrow> guest_world \<Rightarrow> slice \<Rightarrow> guest_world \<times> bool" where
  "sdk_set_resp_body now w bytes =
     (case host_call_step now w (RespBodySet (fst bytes) (snd bytes)) of (w', n) \<Rightarrow> (w', n = snd bytes))"

definition sdk_body_chunk :: "clock \<Rightarrow> places \<Rightarrow> guest_world \<Rightarrow> guest_world \<times> rstr \<times> bool" where
  "sdk_body_chunk now place w =
     (case read_two_phase place (\<lambda>k w op oc. host_call_step (now k) w (BodyChunk op oc)) w of
        (w', out) \<Rightarrow> (case host_call_step (now 3) w' BodyIsLast of
           (w'', r) \<Rightarrow> (w'', case out of Some chunk \<Rightarrow> chunk | None \<Rightarrow> [], r = 1)))"

definition sdk_cfg :: "clock \<Rightarrow> places \<Rightarrow> guest_world \<Rightarrow> slice \<Rightarrow> guest_world \<times> rstr option" where
  "sdk_cfg now place w key =
     (case read_two_phase place (\<lambda>k w op oc. host_call_step (now k) w (CfgGet (fst key) (snd key) op oc)) w of
        (w', out) \<Rightarrow> (w', map_option from_utf8_lossy (Option.bind out nonempty)))"

section \<open>Dispatch (dispatch.rs)\<close>

definition BAD_CODE :: i32 where "BAD_CODE = - 1"

definition sdk_to_abi :: "decision \<Rightarrow> i32" where
  "sdk_to_abi d =
     (case d of
        Ok \<Rightarrow> 0 | Declined \<Rightarrow> - 5 | Done \<Rightarrow> - 4
      | Deny status \<Rightarrow> if 100 \<le> status \<and> status \<le> 599 then ucast status else BAD_CODE)"

text \<open>\<open>orr_on_phase\<close> over the handlers a plugin lists; each handler is run by the caller's state function.\<close>

definition orr_on_phase :: "(phase \<times> ('w \<Rightarrow> 'w \<times> decision)) list \<Rightarrow> i32 \<Rightarrow> 'w \<Rightarrow> 'w \<times> i32" where
  "orr_on_phase handlers code w =
     (case find (\<lambda>(ph, _). phase_id ph = code) handlers of
        Some (_, handler) \<Rightarrow> (case handler w of (w', d) \<Rightarrow> (w', sdk_to_abi d))
      | None \<Rightarrow> (w, sdk_to_abi Declined))"

section \<open>Writing and reading the memory\<close>

lemma mem_write_frame:
  assumes "mem_write d off bs = Some d'"
  shows "length d' = length d" "take (length bs) (drop off d') = bs"
    "\<And>i. i < length d \<Longrightarrow> i < off \<or> off + length bs \<le> i \<Longrightarrow> d' ! i = d ! i"
  using mem_write_read [OF assms] by (auto simp: mem_read_def split: if_splits)

lemma poke_fits:
  assumes "gw_mem w = Some d" "unat ptr + length bs \<le> length d"
  obtains d' where "poke w ptr bs = w\<lparr>gw_mem := Some d'\<rparr>" "mem_write d (unat ptr) bs = Some d'"
  using assms that by (auto simp: poke_def mem_write_def split: option.splits)

lemma read_guest_frame:
  assumes "read_guest (Some d) p l = Some b" "length d' = length d" "\<forall>i \<in> {unat p ..< unat p + unat l}. d' ! i = d ! i"
  shows "read_guest (Some d') p l = Some b"
proof -
  have g: "0 \<le> sint p" "0 \<le> sint l" "unat p + unat l \<le> length d" "b = take (unat l) (drop (unat p) d)"
    using assms(1) by (auto simp: read_guest_def mem_read_def split: if_splits)
  have "take (unat l) (drop (unat p) d') = take (unat l) (drop (unat p) d)"
    using assms(2,3) g(3) by (intro nth_equalityI) auto
  then show ?thesis using g assms(2) by (auto simp: read_guest_def mem_read_def)
qed

text \<open>
  The buffers of one call: at every place there is room for the first buffer and for a payload of the
  given length, and the bytes the call still needs lie elsewhere.
\<close>

definition extent :: "places \<Rightarrow> nat \<Rightarrow> nat set" where
  "extent place n = (\<Union>k. {unat (place k) ..< unat (place k) + max START_LEN n})"

definition roomy :: "rstr \<Rightarrow> places \<Rightarrow> nat \<Rightarrow> bool" where
  "roomy d place n \<longleftrightarrow> (\<forall>k. 0 \<le> sint (place k) \<and> unat (place k) + max START_LEN n \<le> length d)"

abbreviation span :: "slice \<Rightarrow> nat set" where
  "span s \<equiv> {unat (fst s) ..< unat (fst s) + unat (snd s)}"

text \<open>\<open>d'\<close> is \<open>d\<close> but for the buffers.\<close>

definition buffers_only :: "places \<Rightarrow> nat \<Rightarrow> rstr \<Rightarrow> rstr \<Rightarrow> bool" where
  "buffers_only place n d d' \<longleftrightarrow> length d' = length d \<and> (\<forall>i < length d. i \<notin> extent place n \<longrightarrow> d' ! i = d ! i)"

lemma buffers_only_refl [simp]: "buffers_only place n d d"
  by (simp add: buffers_only_def)

lemma buffers_only_trans: "buffers_only place n a b \<Longrightarrow> buffers_only place n b c \<Longrightarrow> buffers_only place n a c"
  by (simp add: buffers_only_def)

lemma buffers_only_write:
  assumes "mem_write d (unat (place k)) bs = Some d'" "length bs \<le> max START_LEN n"
  shows "buffers_only place n d d'"
proof -
  have "i < unat (place k) \<or> unat (place k) + length bs \<le> i" if "i \<notin> extent place n" for i
  proof -
    have "i \<notin> {unat (place k) ..< unat (place k) + max START_LEN n}" using that by (auto simp: extent_def)
    then show ?thesis using assms(2) by auto
  qed
  then show ?thesis using mem_write_frame [OF assms(1)] by (auto simp: buffers_only_def)
qed

lemma buffers_only_slice:
  assumes "buffers_only place n d d'" "span s \<inter> extent place n = {}" "read_guest (Some d) (fst s) (snd s) = Some b"
  shows "read_guest (Some d') (fst s) (snd s) = Some b"
proof (rule read_guest_frame [OF assms(3)])
  have "unat (fst s) + unat (snd s) \<le> length d"
    using assms(3) by (auto simp: read_guest_def mem_read_def split: if_splits)
  then have "i < length d \<and> i \<notin> extent place n" if "i \<in> span s" for i using that assms(2) by auto
  then show "\<forall>i \<in> span s. d' ! i = d ! i" using assms(1) by (simp add: buffers_only_def)
qed (use assms(1) in \<open>simp add: buffers_only_def\<close>)

lemma poke_place:
  assumes "gw_mem w = Some d" "roomy d place n" "length bs \<le> max START_LEN n"
  obtains d' where "poke w (place k) bs = w\<lparr>gw_mem := Some d'\<rparr>" "buffers_only place n d d'"
proof -
  have "unat (place k) + length bs \<le> length d" using assms(2,3) by (auto simp: roomy_def dest!: spec [of _ k])
  then obtain d' where d': "poke w (place k) bs = w\<lparr>gw_mem := Some d'\<rparr>" "mem_write d (unat (place k)) bs = Some d'"
    by (rule poke_fits [OF assms(1)])
  then show ?thesis using that buffers_only_write [where place = place and k = k, OF d'(2) assms(3)] by blast
qed

lemma roomy_frame: "roomy d place n \<Longrightarrow> buffers_only place n d d' \<Longrightarrow> roomy d' place n"
  by (simp add: roomy_def buffers_only_def)

text \<open>A reply into one of the buffers: the payload is delivered when the capacity suffices, else its length.\<close>

lemma reply_place:
  assumes "gw_mem w = Some d" "roomy d place n" "length payload \<le> cap" "cap \<le> max START_LEN n" "cap < 2 ^ 31"
  obtains d' where "reply w (place k) (of_nat cap) payload = (w\<lparr>gw_mem := Some d'\<rparr>, of_nat (length payload))"
    "buffers_only place n d d'" "take (length payload) (drop (unat (place k)) d') = payload"
proof (cases "payload = []")
  case True
  then have "reply w (place k) (of_nat cap) payload = (w\<lparr>gw_mem := Some d\<rparr>, of_nat (length payload))"
    using assms(1) by (simp add: reply_def write_out_def)
  then show ?thesis using that True by simp
next
  case False
  have fits: "0 \<le> sint (place k)" "unat (place k) + length payload \<le> length d"
    using assms(2-4) by (auto simp: roomy_def dest!: spec [of _ k])
  have cap: "unat (of_nat cap :: i32) = cap" "0 \<le> sint (of_nat cap :: i32)"
    using unat_of_nat_i32 sint_of_nat_i32(1) assms(5) by simp_all
  let ?d = "take (unat (place k)) d @ payload @ drop (unat (place k) + length payload) d"
  have len: "length payload < 2 ^ 31" using assms(3,5) by linarith
  have r: "reply w (place k) (of_nat cap) payload = (w\<lparr>gw_mem := Some ?d\<rparr>, of_nat (length payload))"
    unfolding reply_def write_out_cases [OF False len] using assms(1,3) fits cap by simp
  have m: "mem_write d (unat (place k)) payload = Some ?d" using fits(2) by (simp add: mem_write_def)
  show ?thesis
    using that [OF r buffers_only_write [where place = place and k = k, OF m] mem_write_frame(2) [OF m]] assms(3,4) by simp
qed

lemma reply_short:
  assumes "gw_mem w = Some d" "cap < length payload" "length payload < 2 ^ 31"
  shows "reply w p (of_nat cap) payload = (w, - of_nat (length payload))"
proof -
  have "payload \<noteq> []" "unat (of_nat cap :: i32) = cap" using assms(2,3) unat_of_nat_i32 [of cap] by auto
  then have "write_out (gw_mem w) p (of_nat cap) payload = (gw_mem w, - of_nat (length payload))"
    using assms by (simp add: write_out_cases)
  then show ?thesis by (simp add: reply_def)
qed

section \<open>What a two-phase read delivers\<close>

lemma read_two_phase_3:
  "read_two_phase place call w = two_phase_loop (Suc 2) place call 0 (vec_zeroed w (place 0) START_LEN) START_LEN"
  by (simp add: read_two_phase_def numeral_3_eq_3 numeral_2_eq_2)

text \<open>
  The interface between a read and the host: while the bytes of the arguments are in place, every
  attempt is answered with the same payload, and an attempt that delivers it does \<open>upd\<close> to the host.
  The client's lemma is that the read then delivers the payload whole, unless it exceeds the guest's limit.
\<close>

locale two_phase_host =
  fixes call :: host_read and payload :: rstr and ready :: "guest_world \<Rightarrow> bool"
    and place :: places and upd :: "guest_world \<Rightarrow> guest_world"
  assumes replies: "ready w \<Longrightarrow> call k w op oc = (case reply w op oc payload of (w', r) \<Rightarrow> (if 0 \<le> sint r then upd w' else w', r))"
    and upd_mem: "gw_mem (upd w) = gw_mem w"
    and ready_frame: "ready w \<Longrightarrow> gw_mem w = Some d \<Longrightarrow> buffers_only place (min (length payload) MAX_READ_LEN) d d'
      \<Longrightarrow> ready (w\<lparr>gw_mem := Some d'\<rparr>)"
begin

abbreviation want :: nat where "want \<equiv> min (length payload) MAX_READ_LEN"

lemma attempt_delivers:
  assumes "ready w" "gw_mem w = Some d" "roomy d place want" "length payload \<le> cap" "cap \<le> max START_LEN want"
    and payload_i32: "length payload < 2 ^ 31"
  shows "\<exists>d'. two_phase_loop (Suc n) place call k w cap = (upd (w\<lparr>gw_mem := Some d'\<rparr>), Some payload) \<and> buffers_only place want d d'"
proof -
  have cap: "cap < 2 ^ 31" using assms(5) payload_i32 by (auto simp: START_LEN_def)
  have len: "length payload < 2 ^ 31" "unat (of_nat (length payload) :: i32) = length payload"
    using payload_i32 unat_of_nat_i32 by auto
  obtain d' where d': "reply w (place k) (of_nat cap) payload = (w\<lparr>gw_mem := Some d'\<rparr>, of_nat (length payload))"
    "buffers_only place want d d'" "take (length payload) (drop (unat (place k)) d') = payload"
    by (rule reply_place [OF assms(2,3,4,5) cap])
  then have "two_phase_loop (Suc n) place call k w cap = (upd (w\<lparr>gw_mem := Some d'\<rparr>), Some payload)"
    using assms(4) len sint_of_nat_i32(1) [OF len(1)] by (simp add: replies [OF assms(1)] vec_bytes_def upd_mem min_absorb2)
  then show ?thesis using d'(2) by blast
qed

lemma delivers:
  assumes "ready w" "gw_mem w = Some d" "roomy d place want" and payload_i32: "length payload < 2 ^ 31"
  shows "\<exists>d'. read_two_phase place call w =
      (if length payload \<le> MAX_READ_LEN then (upd (w\<lparr>gw_mem := Some d'\<rparr>), Some payload) else (w\<lparr>gw_mem := Some d'\<rparr>, None))
      \<and> buffers_only place want d d'"
proof -
  obtain d0 where d0: "vec_zeroed w (place 0) START_LEN = w\<lparr>gw_mem := Some d0\<rparr>" "buffers_only place want d d0"
    unfolding vec_zeroed_def by (rule poke_place [OF assms(2,3), of "replicate START_LEN (byte 0)" 0]) auto
  let ?w0 = "w\<lparr>gw_mem := Some d0\<rparr>"
  have r0: "ready ?w0" and g0: "gw_mem ?w0 = Some d0" and room0: "roomy d0 place want"
    using ready_frame [OF assms(1,2) d0(2)] roomy_frame [OF assms(3) d0(2)] by simp_all
  show ?thesis
  proof (cases "length payload \<le> START_LEN")
    case True
    obtain d' where d': "two_phase_loop (Suc 2) place call 0 ?w0 START_LEN = (upd (?w0\<lparr>gw_mem := Some d'\<rparr>), Some payload)"
      "buffers_only place want d0 d'"
      using attempt_delivers [OF r0 g0 room0 True _ payload_i32, of 2 0] by auto
    moreover have "START_LEN \<le> MAX_READ_LEN" by (simp add: START_LEN_def MAX_READ_LEN_def HEAP_SIZE_def)
    ultimately show ?thesis
      using True buffers_only_trans [OF d0(2) d'(2)] unfolding read_two_phase_3 d0(1) by auto
  next
    case False
    have short: "reply ?w0 (place 0) (of_nat START_LEN) payload = (?w0, - of_nat (length payload))"
      using False payload_i32 by (intro reply_short) auto
    have s: "sint (- of_nat (length payload) :: i32) = - int (length payload)" by (rule sint_of_nat_i32 [OF payload_i32])
    have step: "two_phase_loop (Suc 2) place call 0 ?w0 START_LEN =
        (if MAX_READ_LEN < length payload then (?w0, None)
         else two_phase_loop 2 place call 1 (vec_resize ?w0 (place 0) START_LEN (place 1) (length payload)) (length payload))"
      unfolding two_phase_loop.simps(2) replies [OF r0] short using False s by (auto simp: Let_def)
    show ?thesis
    proof (cases "MAX_READ_LEN < length payload")
      case True
      then show ?thesis using step d0(2) unfolding read_two_phase_3 d0(1) by auto
    next
      case fits: False
      let ?bs = "vec_bytes ?w0 (place 0) START_LEN @ replicate (length payload - START_LEN) (byte 0)"
      have "length ?bs \<le> max START_LEN want" using False fits by (simp add: vec_bytes_def)
      then obtain d1 where d1: "poke ?w0 (place 1) ?bs = ?w0\<lparr>gw_mem := Some d1\<rparr>" "buffers_only place want d0 d1"
        by (rule poke_place [OF g0 room0])
      have r1: "ready (?w0\<lparr>gw_mem := Some d1\<rparr>)" and room1: "roomy d1 place want"
        using ready_frame [OF r0 g0 d1(2)] roomy_frame [OF room0 d1(2)] by simp_all
      obtain d' where d': "two_phase_loop (Suc 1) place call 1 (?w0\<lparr>gw_mem := Some d1\<rparr>) (length payload)
          = (upd (?w0\<lparr>gw_mem := Some d1\<rparr>\<lparr>gw_mem := Some d'\<rparr>), Some payload)" "buffers_only place want d1 d'"
        using attempt_delivers [OF r1 _ room1 _ _ payload_i32, of "length payload" 1 1] fits by auto
      have "read_two_phase place call w = (upd (w\<lparr>gw_mem := Some d'\<rparr>), Some payload)"
        using step d'(1) fits d1(1) unfolding read_two_phase_3 d0(1) vec_resize_def by (simp add: numeral_2_eq_2 del: two_phase_loop.simps)
      moreover have "buffers_only place want d d'" by (blast intro: buffers_only_trans d0(2) d1(2) d'(2))
      ultimately show ?thesis using fits by auto
    qed
  qed
qed

end

section \<open>TLV lists of the host\<close>

lemma parse_tlv_encode:
  assumes "\<forall>x \<in> set items. length x < 2 ^ 32"
  shows "parse_tlv (encode_tlv items) = items"
  using assms
proof (induction items)
  case Nil
  show ?case by (simp add: parse_tlv.simps)
next
  case (Cons x xs)
  then have "unat (of_nat (length x) :: u32) = length x" by (simp add: unat_of_nat)
  then show ?case using Cons by (subst parse_tlv.simps) (simp add: Let_def)
qed

lemma kv_pair_encode:
  assumes "length k < 2 ^ 32" "length v < 2 ^ 32"
  shows "kv_pair_from_tlv (encode_kv_pair k v) = (k, v)"
proof -
  have "parse_tlv (encode_kv_pair k v) = [k, v]" unfolding encode_kv_pair_def using assms by (intro parse_tlv_encode) simp
  then show ?thesis by (simp add: kv_pair_from_tlv_def Let_def nth_item_def)
qed

text \<open>The guest sees a peer as the host has it, its texts made valid UTF-8.\<close>

lemma peer_encode:
  assumes "length (pv_name p) < 2 ^ 32" "length (pv_addr p) < 2 ^ 32"
  shows "peer_from_tlv (peer_payload p) =
    \<lparr>pi_name = from_utf8_lossy (pv_name p), pi_addr = from_utf8_lossy (pv_addr p), pi_healthy = pv_healthy p\<rparr>"
proof -
  have "parse_tlv (peer_payload p) = [pv_name p, pv_addr p, if pv_healthy p then ''1'' else ''0'']"
    unfolding peer_payload_def using assms by (intro parse_tlv_encode) auto
  then show ?thesis by (simp add: peer_from_tlv_def Let_def nth_item_def item_text_def item_is_def)
qed

section \<open>The wrappers against the host\<close>

text \<open>
  What a call of the SDK means on values: the bytes the host has for it, nothing when there are none or more than the
  guest's arena can hold.
\<close>

definition deliver :: "rstr \<Rightarrow> rstr option" where
  "deliver payload = (if payload = [] \<or> MAX_READ_LEN < length payload then None else Some payload)"

lemma bind_nonempty: "Option.bind (if length p \<le> MAX_READ_LEN then Some p else None) nonempty = deliver p"
  by (auto simp: deliver_def nonempty_def)

text \<open>A slice of the guest that holds the bytes \<open>b\<close> and none of the buffers.\<close>

definition holds :: "guest_world \<Rightarrow> places \<Rightarrow> nat \<Rightarrow> slice \<Rightarrow> rstr \<Rightarrow> bool" where
  "holds w place n s b \<longleftrightarrow> read_guest (gw_mem w) (fst s) (snd s) = Some b \<and> span s \<inter> extent place n = {}"

lemma holds_frame:
  "holds w place n s b \<Longrightarrow> gw_mem w = Some d \<Longrightarrow> buffers_only place n d d' \<Longrightarrow> holds (w\<lparr>gw_mem := Some d'\<rparr>) place n s b"
  unfolding holds_def using buffers_only_slice by simp

text \<open>The imports that only read, with the payload each of them answers.\<close>

lemma read_only_replies:
  assumes "read_guest (gw_mem w) (fst s) (snd s) = Some b"
  shows "host_call_step now w (ReqMeta (fst s) (snd s) op oc)
      = reply w op oc (req_meta_payload (hd_ctx (gw_data w)) (hd_req_body (gw_data w)) (from_utf8_lossy b))"
    and "host_call_step now w (CfgGet (fst s) (snd s) op oc)
      = reply w op oc (case hd_settings (gw_data w) (from_utf8_lossy b) of Some v \<Rightarrow> v | None \<Rightarrow> [])"
    and "host_call_step now w (RespHeaderGet (fst s) (snd s) op oc)
      = reply w op oc (case find_header (hd_resp_headers (gw_data w)) (from_utf8_lossy b) of Some v \<Rightarrow> v | None \<Rightarrow> [])"
  using assms by (auto simp: read_guest_str_def reply_def write_out_def split: option.splits)

definition same_host :: "guest_world \<Rightarrow> guest_world \<Rightarrow> bool" where
  "same_host w w' \<longleftrightarrow> gw_data w' = gw_data w \<and> gw_state w' = gw_state w"

lemma same_host_mem [simp]: "same_host w (w\<lparr>gw_mem := m\<rparr>)" "same_host w w"
  by (simp_all add: same_host_def)

lemma same_host_trans: "same_host a b \<Longrightarrow> same_host b c \<Longrightarrow> same_host a c"
  by (simp add: same_host_def)

definition meta_of :: "host_data \<Rightarrow> rstr \<Rightarrow> rstr" where
  "meta_of d key = req_meta_payload (hd_ctx d) (hd_req_body d) (from_utf8_lossy key)"

definition cfg_of :: "host_data \<Rightarrow> rstr \<Rightarrow> rstr" where
  "cfg_of d key = (case hd_settings d (from_utf8_lossy key) of Some v \<Rightarrow> v | None \<Rightarrow> [])"

definition resp_header_of :: "host_data \<Rightarrow> rstr \<Rightarrow> rstr" where
  "resp_header_of d name = (case find_header (hd_resp_headers d) (from_utf8_lossy name) of Some v \<Rightarrow> v | None \<Rightarrow> [])"

text \<open>Every keyed read-only import is a host of two-phase reads.\<close>

abbreviation keyed_ready :: "host_data \<Rightarrow> places \<Rightarrow> rstr \<Rightarrow> slice \<Rightarrow> rstr \<Rightarrow> guest_world \<Rightarrow> bool" where
  "keyed_ready D place payload s b \<equiv> (\<lambda>w. gw_data w = D \<and> holds w place (min (length payload) MAX_READ_LEN) s b)"

lemma keyed_host:
  assumes "\<And>k w op oc. gw_data w = D \<Longrightarrow> read_guest (gw_mem w) (fst s) (snd s) = Some b \<Longrightarrow> call k w op oc = reply w op oc payload"
  shows "two_phase_host call payload (keyed_ready D place payload s b) place (\<lambda>w. w)"
proof
  show "call k w op oc = (case reply w op oc payload of (w', r) \<Rightarrow> (if 0 \<le> sint r then w' else w', r))"
    if "keyed_ready D place payload s b w" for w k op oc
    using that assms by (auto simp: holds_def)
qed (use holds_frame in auto)

interpretation meta: two_phase_host "\<lambda>k w op oc. host_call_step (now k) w (ReqMeta (fst s) (snd s) op oc)"
  "meta_of D b" "keyed_ready D place (meta_of D b) s b" place "\<lambda>w. w" for now s D b place
  by (rule keyed_host) (simp only: read_only_replies meta_of_def)

interpretation cfg: two_phase_host "\<lambda>k w op oc. host_call_step (now k) w (CfgGet (fst s) (snd s) op oc)"
  "cfg_of D b" "keyed_ready D place (cfg_of D b) s b" place "\<lambda>w. w" for now s D b place
  by (rule keyed_host) (simp only: read_only_replies cfg_of_def)

interpretation resp: two_phase_host "\<lambda>k w op oc. host_call_step (now k) w (RespHeaderGet (fst s) (snd s) op oc)"
  "resp_header_of D b" "keyed_ready D place (resp_header_of D b) s b" place "\<lambda>w. w" for now s D b place
  by (rule keyed_host) (simp only: read_only_replies resp_header_of_def)

interpretation chunk: two_phase_host "\<lambda>k w op oc. host_call_step (now k) w (BodyChunk op oc)"
  "hd_body_chunk D" "\<lambda>w. gw_data w = D" place "\<lambda>w. w" for now D place
  by unfold_locales (auto split: prod.splits)

interpretation peer: two_phase_host "\<lambda>k w op oc. host_call_step (now k) w (ReqPeerGet idx op oc)"
  "peer_payload p" "\<lambda>w. 0 \<le> sint idx \<and> unat idx < length (hd_peers (gw_data w)) \<and> hd_peers (gw_data w) ! unat idx = p" place "\<lambda>w. w"
  for now idx p place
  by unfold_locales (auto split: prod.splits)

text \<open>A live entry answers every attempt as long as it has not expired at the last one.\<close>

definition live_entry :: "clock \<Rightarrow> host_state \<Rightarrow> rstr \<Rightarrow> rstr \<Rightarrow> bool" where
  "live_entry now st key v \<longleftrightarrow> (\<forall>k. live (now k 0) st key = Some v)"

lemma kv_get_live_reply:
  assumes "live_entry now (gw_state w) b v" "read_guest (gw_mem w) (fst s) (snd s) = Some b"
  shows "host_call_step (now k) w (KvGet (fst s) (snd s) op oc) = reply w op oc v"
proof -
  have "live (now k 0) (gw_state w) b = Some v" using assms(1) by (simp add: live_entry_def)
  then show ?thesis using assms(2) by (auto simp: live_def kv_get_with_def reply_def split: prod.splits option.splits if_splits)
qed

interpretation kv: two_phase_host "\<lambda>k w op oc. host_call_step (now k) w (KvGet (fst s) (snd s) op oc)"
  v "\<lambda>w. live_entry now (gw_state w) b v \<and> holds w place (min (length v) MAX_READ_LEN) s b" place "\<lambda>w. w" for now s b v place
proof
  show "host_call_step (now k) w (KvGet (fst s) (snd s) op oc) = (case reply w op oc v of (w', r) \<Rightarrow> (if 0 \<le> sint r then w' else w', r))"
    if "live_entry now (gw_state w) b v \<and> holds w place (min (length v) MAX_READ_LEN) s b" for w k op oc
    using that kv_get_live_reply by (auto simp: holds_def)
qed (use holds_frame in auto)

text \<open>The step of a scan hands out the entry at the cursor and moves on when it was delivered.\<close>

lemma kv_scan_next_peek:
  assumes "0 \<le> sint c" "scan_peek (gw_state w) c = Some (k, v)"
  shows "kv_scan_next w c op oc = (case reply w op oc (encode_kv_pair k v) of
    (w', r) \<Rightarrow> (if 0 \<le> sint r then w'\<lparr>gw_state := scan_advance (gw_state w') c\<rparr> else w', r))"
proof -
  have "scan_is_valid (gw_state w) c"
    using assms(2) by (auto simp: scan_peek_def scan_is_valid_def Option.bind_eq_Some_conv)
  then show ?thesis using assms by (simp add: kv_scan_next_def)
qed

interpretation scan: two_phase_host "\<lambda>_ w op oc. host_call_step now w (KvScanNext c op oc)"
  "encode_kv_pair k v" "\<lambda>w. 0 \<le> sint c \<and> scan_peek (gw_state w) c = Some (k, v)" place
  "\<lambda>w. w\<lparr>gw_state := scan_advance (gw_state w) c\<rparr>" for now c k v place
  by unfold_locales (simp_all add: kv_scan_next_peek)

section \<open>Whole scans\<close>

lemma length_encode_kv_pair [simp]: "length (encode_kv_pair k v) = 8 + length k + length v"
  by (simp add: encode_kv_pair_def)

lemma peek_remaining:
  assumes "map_of (hs_cursors st) c = Some cu" "remaining cu = kv # rest"
  shows "scan_peek st c = Some kv" "scan_advance st c = bump_cursor st c cu"
proof -
  have l: "cu_pos cu < length (cu_entries cu)"
    using assms(2) by (cases "cu_pos cu < length (cu_entries cu)") (auto simp: remaining_def)
  moreover have "cu_entries cu ! cu_pos cu = kv" using assms(2) Cons_nth_drop_Suc [OF l] by (simp add: remaining_def)
  ultimately show "scan_peek st c = Some kv" "scan_advance st c = bump_cursor st c cu"
    using assms(1) by (simp_all add: scan_peek_def cursor_item_def scan_advance_def)
qed

text \<open>The return codes of a scan step that are not an end.\<close>

lemma scan_codes:
  assumes "2 \<le> n" "n < 2 ^ 31"
  shows "(of_nat n :: i32) \<noteq> 0" "(of_nat n :: i32) \<noteq> SCAN_CURSOR_DEAD" "\<not> sint (of_nat n :: i32) < 0" "0 \<le> sint (of_nat n :: i32)"
    "unat (of_nat n :: i32) = n" "(- of_nat n :: i32) \<noteq> 0" "(- of_nat n :: i32) \<noteq> SCAN_CURSOR_DEAD" "sint (- of_nat n :: i32) < 0"
proof -
  note c = sint_of_nat_i32 [OF assms(2)] and u = unat_of_nat_i32 [OF assms(2)]
  show "(of_nat n :: i32) \<noteq> 0" "(- of_nat n :: i32) \<noteq> 0" using u assms(1) by auto
  have "sint SCAN_CURSOR_DEAD = - 1" by (simp add: SCAN_CURSOR_DEAD_def)
  then show "(of_nat n :: i32) \<noteq> SCAN_CURSOR_DEAD" "(- of_nat n :: i32) \<noteq> SCAN_CURSOR_DEAD"
    using c assms(1) by auto
  show "\<not> sint (of_nat n :: i32) < 0" "0 \<le> sint (of_nat n :: i32)" "unat (of_nat n :: i32) = n" "sint (- of_nat n :: i32) < 0"
    using c u assms(1) by simp_all
qed

lemma extent_mono: "m \<le> n \<Longrightarrow> extent place m \<subseteq> extent place n"
  by (force simp: extent_def)

lemma roomy_mono: "roomy d place n \<Longrightarrow> m \<le> n \<Longrightarrow> roomy d place m"
  unfolding roomy_def by (meson add_left_mono le_trans max.mono order_refl)

lemma roomy_shift: "roomy d place n \<Longrightarrow> roomy d (\<lambda>k. place (Suc k)) n"
  by (simp add: roomy_def)

lemma roomy_length: "length d' = length d \<Longrightarrow> roomy d' place n = roomy d place n"
  by (simp add: roomy_def)

lemma buffers_only_length: "buffers_only place n d d' \<Longrightarrow> length d' = length d"
  by (simp add: buffers_only_def)

lemma scan_next_pair_item:
  assumes "gw_mem w = Some d" "roomy d place (8 + length k + length v)" "0 \<le> sint c"
    "map_of (hs_cursors (gw_state w)) c = Some cu" "remaining cu = (k, v) # rest" "8 + length k + length v \<le> MAX_READ_LEN"
  shows "\<exists>d'. scan_next_pair now place w c = (w\<lparr>gw_mem := Some d', gw_state := bump_cursor (gw_state w) c cu\<rparr>, c, Some (k, v))
    \<and> length d' = length d"
proof -
  let ?P = "encode_kv_pair k v" and ?n = "8 + length k + length v"
  have i32: "length ?P < 2 ^ 31" using assms(6) by (simp add: MAX_READ_LEN_def HEAP_SIZE_def)
  note peek = peek_remaining [OF assms(4,5)]
  have kv: "kv_pair_from_tlv ?P = (k, v)" using i32 by (intro kv_pair_encode) simp_all
  obtain d0 where d0: "vec_zeroed w (place 0) SCAN_BUF_LEN = w\<lparr>gw_mem := Some d0\<rparr>" "buffers_only place ?n d d0"
    unfolding vec_zeroed_def
    by (rule poke_place [OF assms(1,2), of "replicate SCAN_BUF_LEN (byte 0)" 0]) (auto simp: SCAN_BUF_LEN_def START_LEN_def)
  let ?w0 = "w\<lparr>gw_mem := Some d0\<rparr>"
  have g0: "gw_mem ?w0 = Some d0" and room0: "roomy d0 place ?n" and p0: "scan_peek (gw_state ?w0) c = Some (k, v)"
    using roomy_frame [OF assms(2) d0(2)] peek(1) by simp_all
  have adv: "scan_advance (gw_state w) c = bump_cursor (gw_state w) c cu" by (rule peek(2))
  have pos: "\<not> sint c < 0" using assms(3) by simp
  have codes: "2 \<le> length ?P" by simp
  note codes = scan_codes [OF codes i32]
  note nxt = kv_scan_next_peek [OF assms(3) p0]
  show ?thesis
  proof (cases "length ?P \<le> SCAN_BUF_LEN")
    case True
    obtain d' where d': "reply ?w0 (place 0) (of_nat SCAN_BUF_LEN) ?P = (?w0\<lparr>gw_mem := Some d'\<rparr>, of_nat (length ?P))"
      "buffers_only place ?n d0 d'" "take (length ?P) (drop (unat (place 0)) d') = ?P"
      by (rule reply_place [OF g0 room0 True]) (auto simp: SCAN_BUF_LEN_def START_LEN_def)
    have "scan_next_pair now place w c = (?w0\<lparr>gw_mem := Some d', gw_state := bump_cursor (gw_state w) c cu\<rparr>, c, Some (k, v))"
      using pos True codes d'(3) kv unfolding scan_next_pair_def scan_step_def d0(1)
      by (simp add: nxt d'(1) adv vec_bytes_def min_absorb2 del: length_encode_kv_pair of_nat_add)
    then show ?thesis using d0(2) d'(2) by (auto simp: buffers_only_length)
  next
    case False
    have short: "reply ?w0 (place 0) (of_nat SCAN_BUF_LEN) ?P = (?w0, - of_nat (length ?P))"
      using False i32 by (intro reply_short [OF g0]) auto
    obtain d' where d': "read_two_phase (\<lambda>k. place (Suc k)) (\<lambda>_ w op oc. host_call_step now w (KvScanNext c op oc)) ?w0
        = (?w0\<lparr>gw_mem := Some d'\<rparr>\<lparr>gw_state := bump_cursor (gw_state w) c cu\<rparr>, Some ?P)" "length d' = length d0"
      using scan.delivers [of c ?w0 k v d0 "\<lambda>k. place (Suc k)" now] assms(3,6) p0 g0 roomy_shift [OF room0] i32 adv
      by (auto simp: min_absorb1 dest: buffers_only_length)
    have "scan_next_pair now place w c = (?w0\<lparr>gw_mem := Some d', gw_state := bump_cursor (gw_state w) c cu\<rparr>, c, Some (k, v))"
      using pos codes d'(1) kv unfolding scan_next_pair_def scan_step_def d0(1)
      by (simp add: nxt short del: length_encode_kv_pair of_nat_add)
    then show ?thesis using d0(2) d'(2) by (auto simp: buffers_only_length)
  qed
qed

lemma scan_next_pair_end:
  assumes "gw_mem w = Some d" "roomy d place n" "0 \<le> sint c"
    "case map_of (hs_cursors (gw_state w)) c of None \<Rightarrow> True | Some cu \<Rightarrow> remaining cu = []"
  shows "\<exists>d' c'. scan_next_pair now place w c = (w\<lparr>gw_mem := Some d', gw_state := scan_end (gw_state w) c\<rparr>, c', None)
    \<and> length d' = length d \<and> (c' = c \<or> sint c' < 0)"
proof -
  obtain d0 where d0: "vec_zeroed w (place 0) SCAN_BUF_LEN = w\<lparr>gw_mem := Some d0\<rparr>" "buffers_only place n d d0"
    unfolding vec_zeroed_def
    by (rule poke_place [OF assms(1,2), of "replicate SCAN_BUF_LEN (byte 0)" 0]) (auto simp: SCAN_BUF_LEN_def START_LEN_def)
  let ?w0 = "w\<lparr>gw_mem := Some d0\<rparr>"
  have pos: "\<not> sint c < 0" using assms(3) by simp
  show ?thesis
  proof (cases "map_of (hs_cursors (gw_state w)) c")
    case None
    then have "kv_scan_next ?w0 c (place 0) (of_nat SCAN_BUF_LEN) = (?w0, SCAN_CURSOR_DEAD)"
      by (simp add: kv_scan_next_def scan_is_valid_def SCAN_CURSOR_DEAD_def)
    moreover have "scan_end (gw_state w) c = gw_state w" using None by (simp add: scan_end_def al_remove_id)
    moreover have "SCAN_CURSOR_DEAD \<noteq> 0" "sint SCAN_CURSOR_DEAD < 0" by (simp_all add: SCAN_CURSOR_DEAD_def)
    ultimately show ?thesis
      using pos d0 by (intro exI [of _ d0] exI [of _ SCAN_CURSOR_DEAD]) (simp add: scan_next_pair_def scan_step_def buffers_only_length)
  next
    case (Some cu)
    then have "scan_peek (gw_state w) c = None" "scan_next (gw_state w) c = (scan_end (gw_state w) c, None)"
      using assms(4) by (auto simp: scan_peek_def cursor_item_def remaining_def scan_next_def scan_end_def)
    then have "kv_scan_next ?w0 c (place 0) (of_nat SCAN_BUF_LEN) = (?w0\<lparr>gw_state := scan_end (gw_state w) c\<rparr>, 0)"
      using Some pos by (simp add: kv_scan_next_def scan_is_valid_def)
    then show ?thesis
      using pos d0 by (intro exI [of _ d0] exI [of _ c]) (simp add: scan_next_pair_def scan_step_def buffers_only_length)
  qed
qed

lemma scan_end_bump: "scan_end (bump_cursor st c cu) c = scan_end st c"
  by (simp add: scan_end_def bump_cursor_def al_insert_def al_remove_def)

text \<open>The loop over a cursor returns, with everything that was left and the cursor gone.\<close>

lemma scan_for_remaining:
  assumes "gw_mem w = Some d" "0 \<le> sint c" "\<forall>i. roomy d (place i) N" "N \<le> MAX_READ_LEN"
    and "\<forall>(k, v) \<in> set left. 8 + length k + length v \<le> N"
    and "case map_of (hs_cursors (gw_state w)) c of None \<Rightarrow> left = [] | Some cu \<Rightarrow> remaining cu = left"
  shows "\<exists>d'. scan_for now place m w c acc = Some (w\<lparr>gw_mem := Some d', gw_state := scan_end (gw_state w) c\<rparr>, acc @ left)
    \<and> length d' = length d"
  using assms
proof (induction left arbitrary: w d m acc)
  case Nil
  obtain d' c' where s: "scan_next_pair now (place m) w c = (w\<lparr>gw_mem := Some d', gw_state := scan_end (gw_state w) c\<rparr>, c', None)"
    "length d' = length d" "c' = c \<or> sint c' < 0"
    using scan_next_pair_end [where place = "place m" and n = N and now = now, OF Nil(1) _ Nil(2)] Nil(3,6) by (auto split: option.splits)
  have "scan_end (scan_end st c) c = scan_end st c" for st by (simp add: scan_end_def al_remove_def)
  then show ?case
    using s Nil(2) by (subst scan_for.simps) (auto simp: scan_end_if_live_def)
next
  case (Cons kv left)
  obtain k v where kv: "kv = (k, v)" by force
  obtain cu where cu: "map_of (hs_cursors (gw_state w)) c = Some cu" "remaining cu = (k, v) # left"
    using Cons.prems(6) kv by (auto split: option.splits)
  have len: "8 + length k + length v \<le> N" using Cons.prems(5) kv by simp
  have room: "roomy d (place m) (8 + length k + length v)" using Cons.prems(3) roomy_mono len by blast
  obtain d1 where d1: "scan_next_pair now (place m) w c
      = (w\<lparr>gw_mem := Some d1, gw_state := bump_cursor (gw_state w) c cu\<rparr>, c, Some (k, v))" "length d1 = length d"
    using scan_next_pair_item [OF Cons.prems(1) room Cons.prems(2) cu, of now] len Cons.prems(4) by auto
  let ?w = "w\<lparr>gw_mem := Some d1, gw_state := bump_cursor (gw_state w) c cu\<rparr>"
  have cur: "case map_of (hs_cursors (gw_state ?w)) c of None \<Rightarrow> left = [] | Some cu \<Rightarrow> remaining cu = left"
    using cu(2) by (auto simp: bump_cursor_lookup remaining_bump)
  have room': "\<forall>i. roomy d1 (place i) N" using Cons.prems(3) roomy_length [OF d1(2)] by simp
  obtain d' where "scan_for now place (Suc m) ?w c (acc @ [(k, v)])
      = Some (?w\<lparr>gw_mem := Some d', gw_state := scan_end (gw_state ?w) c\<rparr>, (acc @ [(k, v)]) @ left)" "length d' = length d1"
    using Cons.IH [where m = "Suc m" and acc = "acc @ [(k, v)]", OF _ Cons.prems(2) room' Cons.prems(4) _ cur] Cons.prems(5) by auto
  then show ?case
    using d1 kv by (subst scan_for.simps) (auto simp: scan_end_bump)
qed

section \<open>Single reads\<close>

lemma buffers_only_mono: "buffers_only place m d d' \<Longrightarrow> m \<le> n \<Longrightarrow> buffers_only place n d d'"
  using extent_mono [of m n place] by (auto simp: buffers_only_def)

lemma holds_mono: "holds w place n s b \<Longrightarrow> m \<le> n \<Longrightarrow> holds w place m s b"
  using extent_mono by (fastforce simp: holds_def)

text \<open>A payload the buffers have room for; beyond the guest's limit no buffer is asked for.\<close>

definition fits :: "nat \<Rightarrow> rstr \<Rightarrow> bool" where
  "fits n p \<longleftrightarrow> min (length p) MAX_READ_LEN \<le> n \<and> length p < 2 ^ 31"

text \<open>The outcome of a read: the value, the host as before, the memory changed in the buffers only.\<close>

definition delivered :: "guest_world \<Rightarrow> places \<Rightarrow> nat \<Rightarrow> guest_world \<times> 'a \<Rightarrow> 'a \<Rightarrow> bool" where
  "delivered w place n r v \<longleftrightarrow> snd r = v \<and> same_host w (fst r)
     \<and> (\<exists>d d'. gw_mem w = Some d \<and> gw_mem (fst r) = Some d' \<and> buffers_only place n d d')"

lemma delivered_map: "delivered w place n r v \<Longrightarrow> delivered w place n (case r of (w', x) \<Rightarrow> (w', f x)) (f v)"
  by (cases r) (simp add: delivered_def)

context two_phase_host
begin

lemma read_delivers:
  assumes "ready w" "gw_mem w = Some d" "roomy d place n" "fits n payload" "upd = (\<lambda>w. w)"
  shows "delivered w place n (read_two_phase place call w) (if length payload \<le> MAX_READ_LEN then Some payload else None)"
proof -
  have m: "want \<le> n" "length payload < 2 ^ 31" using assms(4) by (auto simp: fits_def)
  obtain d' where "read_two_phase place call w =
      (w\<lparr>gw_mem := Some d'\<rparr>, if length payload \<le> MAX_READ_LEN then Some payload else None)" "buffers_only place want d d'"
    using delivers [OF assms(1,2) roomy_mono [OF assms(3) m(1)] m(2)] assms(5) by (auto split: if_splits)
  then show ?thesis using assms(2) buffers_only_mono [OF _ m(1)] by (auto simp: delivered_def)
qed

end

lemma fits_min: "fits n p \<Longrightarrow> min (length p) MAX_READ_LEN \<le> n"
  by (simp add: fits_def)

lemma keyed_delivers:
  assumes "gw_mem w = Some d" "roomy d place n" "holds w place n s b"
  shows "fits n (meta_of (gw_data w) b) \<Longrightarrow> delivered w place n (sdk_req_meta now place w s) (deliver (meta_of (gw_data w) b))"
    and "fits n (cfg_of (gw_data w) b) \<Longrightarrow>
      delivered w place n (sdk_cfg now place w s) (map_option from_utf8_lossy (deliver (cfg_of (gw_data w) b)))"
    and "fits n (resp_header_of (gw_data w) b) \<Longrightarrow>
      delivered w place n (sdk_resp_header now place w s) (map_option from_utf8_lossy (deliver (resp_header_of (gw_data w) b)))"
    and "live_entry now (gw_state w) b v \<Longrightarrow> fits n v \<Longrightarrow> delivered w place n (sdk_kv_get now place w s) (deliver v)"
proof -
  note room = assms(1,2)
  show "delivered w place n (sdk_req_meta now place w s) (deliver (meta_of (gw_data w) b))" if f: "fits n (meta_of (gw_data w) b)"
    unfolding sdk_req_meta_def bind_nonempty [symmetric]
    by (rule delivered_map, rule meta.read_delivers [OF _ room f refl]) (simp add: holds_mono [OF assms(3) fits_min [OF f]])
  show "delivered w place n (sdk_cfg now place w s) (map_option from_utf8_lossy (deliver (cfg_of (gw_data w) b)))"
    if f: "fits n (cfg_of (gw_data w) b)"
    unfolding sdk_cfg_def bind_nonempty [symmetric]
    by (rule delivered_map, rule cfg.read_delivers [OF _ room f refl]) (simp add: holds_mono [OF assms(3) fits_min [OF f]])
  show "delivered w place n (sdk_resp_header now place w s) (map_option from_utf8_lossy (deliver (resp_header_of (gw_data w) b)))"
    if f: "fits n (resp_header_of (gw_data w) b)"
    unfolding sdk_resp_header_def bind_nonempty [symmetric]
    by (rule delivered_map, rule resp.read_delivers [OF _ room f refl]) (simp add: holds_mono [OF assms(3) fits_min [OF f]])
  show "delivered w place n (sdk_kv_get now place w s) (deliver v)" if l: "live_entry now (gw_state w) b v" and f: "fits n v"
    unfolding sdk_kv_get_def bind_nonempty [symmetric]
    by (rule delivered_map, rule kv.read_delivers [where b = b, OF _ room f refl]) (simp add: l holds_mono [OF assms(3) fits_min [OF f]])
qed

text \<open>An absent or expired key is not delivered, and the host may drop the expired entry.\<close>

lemma kv_get_absent:
  assumes "gw_mem w = Some d" "roomy d place n" "holds w place n s b" "live (now 0 0) (gw_state w) b = None"
  shows "\<exists>d'. sdk_kv_get now place w s = (w\<lparr>gw_mem := Some d', gw_state := fst (kv_get (now 0 0) (gw_state w) b)\<rparr>, None)
    \<and> buffers_only place n d d'"
proof -
  obtain d0 where d0: "vec_zeroed w (place 0) START_LEN = w\<lparr>gw_mem := Some d0\<rparr>" "buffers_only place n d d0"
    unfolding vec_zeroed_def by (rule poke_place [OF assms(1,2), of "replicate START_LEN (byte 0)" 0]) auto
  have "read_guest (Some d0) (fst s) (snd s) = Some b"
    using holds_frame [OF assms(3,1) d0(2)] by (simp add: holds_def)
  moreover have "kv_get_with (now 0 0) (gw_state w) b f = (fst (kv_get (now 0 0) (gw_state w) b), None)" for f :: "rstr \<Rightarrow> memory \<times> i32"
    using assms(4) by (auto simp: kv_get_def kv_get_with_def live_def split: option.splits if_splits)
  ultimately show ?thesis
    using d0 unfolding sdk_kv_get_def read_two_phase_3 two_phase_loop.simps(2)
    by (intro exI [of _ d0]) (simp add: vec_bytes_def nonempty_def)
qed

definition peer_seen :: "peer_view \<Rightarrow> peer_info" where
  "peer_seen p = \<lparr>pi_name = from_utf8_lossy (pv_name p), pi_addr = from_utf8_lossy (pv_addr p), pi_healthy = pv_healthy p\<rparr>"

text \<open>A peer whose encoding the guest can hold.\<close>

definition peer_fits :: "nat \<Rightarrow> peer_view \<Rightarrow> bool" where
  "peer_fits n p \<longleftrightarrow> length (peer_payload p) \<le> min n MAX_READ_LEN"

lemma peer_fits_lengths: "peer_fits n p \<Longrightarrow> length (pv_name p) < 2 ^ 32 \<and> length (pv_addr p) < 2 ^ 32 \<and> fits n (peer_payload p)"
  by (auto simp: peer_fits_def fits_def peer_payload_def MAX_READ_LEN_def HEAP_SIZE_def)

lemma peer_at_delivers:
  assumes "gw_mem w = Some d" "roomy d place n" "i < length (hd_peers (gw_data w))" "i < 2 ^ 31" "peer_fits n (hd_peers (gw_data w) ! i)"
  shows "delivered w place n (sdk_peer_at now place w (of_nat i)) (Some (peer_seen (hd_peers (gw_data w) ! i)))"
proof -
  let ?p = "hd_peers (gw_data w) ! i"
  note f = peer_fits_lengths [OF assms(5)]
  have i: "0 \<le> sint (of_nat i :: i32)" "unat (of_nat i :: i32) = i"
    using sint_of_nat_i32(1) unat_of_nat_i32 assms(4) by simp_all
  have m: "length (peer_payload ?p) \<le> MAX_READ_LEN" using assms(5) by (simp add: peer_fits_def)
  have "delivered w place n (read_two_phase place (\<lambda>k w op oc. host_call_step (now k) w (ReqPeerGet (of_nat i) op oc)) w)
      (if length (peer_payload ?p) \<le> MAX_READ_LEN then Some (peer_payload ?p) else None)"
    by (rule peer.read_delivers [OF _ assms(1,2) _ refl]) (use f i assms(3) in auto)
  then have "delivered w place n (sdk_peer_at now place w (of_nat i)) (map_option peer_from_tlv (Some (peer_payload ?p)))"
    using m unfolding sdk_peer_at_def by (intro delivered_map) simp
  moreover have "map_option peer_from_tlv (Some (peer_payload ?p)) = Some (peer_seen ?p)"
    using peer_encode [of ?p] f by (simp add: peer_seen_def)
  ultimately show ?thesis by simp
qed

lemma peers_loop_delivers:
  assumes "gw_mem w = Some d" "\<forall>i. roomy d (place i) n" "length (hd_peers (gw_data w)) < 2 ^ 31"
    "list_all (peer_fits n) (hd_peers (gw_data w))" "\<forall>i \<in> set idxs. i < length (hd_peers (gw_data w))"
  shows "snd (peers_loop now place idxs w) = map (\<lambda>i. peer_seen (hd_peers (gw_data w) ! i)) idxs
    \<and> same_host w (fst (peers_loop now place idxs w)) \<and> (\<exists>d'. gw_mem (fst (peers_loop now place idxs w)) = Some d' \<and> length d' = length d)"
  using assms
proof (induction idxs arbitrary: w d)
  case (Cons i idxs)
  have "peer_fits n (hd_peers (gw_data w) ! i)" using Cons.prems(4,5) by (simp add: list_all_length)
  then have "delivered w (place i) n (sdk_peer_at (now i) (place i) w (of_nat i)) (Some (peer_seen (hd_peers (gw_data w) ! i)))"
    using Cons.prems by (intro peer_at_delivers) auto
  then obtain w' d' where w': "sdk_peer_at (now i) (place i) w (of_nat i) = (w', Some (peer_seen (hd_peers (gw_data w) ! i)))"
    "same_host w w'" "gw_mem w' = Some d'" "length d' = length d"
    using Cons.prems(1) by (cases "sdk_peer_at (now i) (place i) w (of_nat i)") (auto simp: delivered_def dest: buffers_only_length)
  have "gw_data w' = gw_data w" using w'(2) by (simp add: same_host_def)
  then show ?case
    using Cons.IH [OF w'(3)] Cons.prems(2-5) w' roomy_length [OF w'(4)] same_host_trans [OF w'(2)]
    by (auto split: prod.splits)
qed simp

lemma peers_deliver:
  assumes "gw_mem w = Some d" "\<forall>i. roomy d (place i) n" "length (hd_peers (gw_data w)) < 2 ^ 31"
    "list_all (peer_fits n) (hd_peers (gw_data w))"
  shows "snd (sdk_peers now place w) = map peer_seen (hd_peers (gw_data w)) \<and> same_host w (fst (sdk_peers now place w))"
proof (cases "hd_peers (gw_data w) = []")
  case False
  let ?n = "length (hd_peers (gw_data w))"
  have n: "\<not> sint (of_nat ?n :: i32) \<le> 0" "unat (of_nat ?n :: i32) = ?n"
    using sint_of_nat_i32(1) [OF assms(3)] unat_of_nat_i32 [OF assms(3)] False by simp_all
  have "map (\<lambda>i. peer_seen (hd_peers (gw_data w) ! i)) [0..<?n] = map peer_seen (hd_peers (gw_data w))"
    by (rule nth_equalityI) simp_all
  then show ?thesis
    using peers_loop_delivers [OF assms, of "[0..<?n]" now] n by (simp add: sdk_peers_def)
qed (simp add: sdk_peers_def)

text \<open>What an accepted write through the SDK leaves for a later read.\<close>

lemma kv_set_then_live:
  assumes "read_guest (gw_mem w) (fst s) (snd s) = Some b" "read_guest (gw_mem w) (fst val) (snd val) = Some v"
    "snd (kv_set (t 0) (gw_state w) b v ttl)" "\<forall>k. \<not> is_expired (expiry (t 0) ttl) (now k 0)"
  shows "live_entry now (gw_state (sdk_kv_set t w s val ttl)) b v" "gw_mem (sdk_kv_set t w s val ttl) = gw_mem w"
  using assms live_kv_set [OF assms(3)]
  by (cases "kv_set (t 0) (gw_state w) b v ttl"; simp add: sdk_kv_set_def live_entry_def)+

section \<open>Buffers from the arena\<close>

text \<open>
  The buffers the allocator hands out for a two-phase read satisfy what the reads assume: they have room, and they lie in
  the part of the arena that was free before, hence apart from everything the guest holds.
\<close>

lemma arena_places:
  assumes "bump.requests next [(START_LEN, 1), (n, 1)] = Some (next', [p0, p1])" "START_LEN \<le> n"
    "base + unat HEAP_SIZE \<le> length d" "length d < 2 ^ 31"
  shows "roomy d (\<lambda>k. of_nat (base + (if k = 0 then p0 else p1))) n"
    and "extent (\<lambda>k. of_nat (base + (if k = 0 then p0 else p1))) n \<subseteq> {base + unat next ..< base + unat HEAP_SIZE}"
proof -
  note r = bump.requests_ranges [OF assms(1)]
  have lim: "unat next' \<le> unat HEAP_SIZE"
    using assms(1) bump.request_range by (auto simp: Option.bind_eq_Some_conv)
  have i: "i < length [(START_LEN, 1 :: nat), (n, 1)] \<longleftrightarrow> i = 0 \<or> i = 1" for i by auto
  have b: "unat next \<le> p0" "unat next \<le> p1" "p1 + n \<le> unat HEAP_SIZE" "p0 + START_LEN \<le> p1"
    using r lim unfolding i by (auto simp: nth_Cons')
  let ?place = "\<lambda>k :: nat. of_nat (base + (if k = 0 then p0 else p1)) :: i32"
  have u: "base + (if k = 0 then p0 else p1) < 2 ^ 31" for k :: nat using b assms(3,4) by (auto split: if_splits)
  note place = unat_of_nat_i32 [OF u] sint_of_nat_i32(1) [OF u]
  have top: "base + (if k = 0 then p0 else p1) + max START_LEN n \<le> base + unat HEAP_SIZE" for k :: nat
    using b assms(2) by (auto simp: max_def)
  show "roomy d ?place n" unfolding roomy_def place using top assms(3) by (meson le_trans of_nat_0_le_iff)
  have "{unat (?place k) ..< unat (?place k) + max START_LEN n} \<subseteq> {base + unat next ..< base + unat HEAP_SIZE}" for k
    unfolding place using top [of k] b(1,2) by (intro ivl_subset [THEN iffD2] disjI2 conjI) auto
  then show "extent ?place n \<subseteq> {base + unat next ..< base + unat HEAP_SIZE}" unfolding extent_def by blast
qed

section \<open>Properties\<close>



definition sample_guest :: guest_world where
  "sample_guest = \<lparr>gw_mem = Some (''pkvv'' @ replicate 600 (byte 0)), gw_data = new_host_data req_ctx_empty [] Map.empty,
     gw_state = fst (kv_set 1 (host_state_new ''x'') ''pk'' ''vv'' 0)\<rparr>"

lemma sample_guest_facts:
  "roomy (''pkvv'' @ replicate 600 (byte 0)) (\<lambda>_. 300) 256" "read_guest (gw_mem sample_guest) 0 2 = Some ''pk''"
  "read_guest (gw_mem sample_guest) 2 2 = Some ''vv''" "read_guest (gw_mem sample_guest) 0 1 = Some ''p''"
  "live t (gw_state sample_guest) k = (if k = ''pk'' \<and> \<not> is_expired (- 1) t then Some ''vv'' else None)"
  by (simp_all add: roomy_def START_LEN_def sample_guest_def read_guest_def mem_read_def kv_set_def kv_set_verdict_def host_state_new_def
      Let_def KV_MAX_VALUE_BYTES_def KV_MAX_TOTAL_BYTES_def account_def live_def al_insert_def expiry_def)



end
