(* ===== verification/PluginApi.thy ===== *)
theory PluginApi
  imports Sdk Numerals
begin

text \<open>
  What the plugins of the repository are written against: the URL helpers of the SDK
  (\<open>crates/openrusty-sdk/src/url.rs\<close>) and the wrappers of \<open>host.rs\<close> on values, as \<open>Sdk\<close> shows them to
  behave over the guest's memory. The functions on values keep the world's memory; handlers of one request are taken to run
  without other requests changing the plugin's store between two of their calls.
\<close>

section \<open>URL helpers (url.rs)\<close>

definition hex_val :: "char \<Rightarrow> nat option" where
  "hex_val c =
     (let b = of_char c :: nat in
      if 48 \<le> b \<and> b \<le> 57 then Some (b - 48)
      else if 97 \<le> b \<and> b \<le> 102 then Some (b - 97 + 10)
      else if 65 \<le> b \<and> b \<le> 70 then Some (b - 65 + 10) else None)"

fun decode_bytes :: "rstr \<Rightarrow> rstr" where
  "decode_bytes [] = []"
| "decode_bytes (c # cs) =
     (if c = CHR ''+'' then CHR '' '' # decode_bytes cs
      else if c = CHR ''%'' then
        (case cs of
           h # l # rest \<Rightarrow>
             (case (hex_val h, hex_val l) of
                (Some hi, Some lo) \<Rightarrow> byte (16 * hi + lo) # decode_bytes rest
              | _ \<Rightarrow> CHR ''%'' # decode_bytes cs)
         | _ \<Rightarrow> CHR ''%'' # decode_bytes cs)
      else c # decode_bytes cs)"

definition url_decode :: "rstr \<Rightarrow> rstr" where
  "url_decode input = from_utf8_lossy (decode_bytes input)"

fun find_param :: "rstr \<Rightarrow> rstr list \<Rightarrow> rstr option" where
  "find_param name [] = None"
| "find_param name (pair # pairs) =
     (let (key, val) = (case split_once (CHR ''='') pair of Some kv \<Rightarrow> kv | None \<Rightarrow> (pair, []))
      in if key = name then Some (url_decode val) else find_param name pairs)"

definition query_param :: "rstr \<Rightarrow> rstr \<Rightarrow> rstr option" where
  "query_param query name = find_param name (split_on (CHR ''&'') query)"

definition path_segment :: "rstr \<Rightarrow> nat \<Rightarrow> rstr option" where
  "path_segment path n =
     (if n = 0 then None
      else map_option url_decode (nth_item (filter (\<lambda>s. s \<noteq> []) (split_on (CHR ''/'') path)) (n - 1)))"

section \<open>The wrappers on values\<close>

definition api_req_meta :: "guest_world \<Rightarrow> rstr \<Rightarrow> rstr option" where
  "api_req_meta w key = deliver (meta_of (gw_data w) key)"

definition api_req_meta_str :: "guest_world \<Rightarrow> rstr \<Rightarrow> rstr option" where
  "api_req_meta_str w key = map_option from_utf8_lossy (api_req_meta w key)"

definition api_req_body :: "guest_world \<Rightarrow> rstr option" where
  "api_req_body w = api_req_meta w ''body''"

definition api_cfg :: "guest_world \<Rightarrow> rstr \<Rightarrow> rstr option" where
  "api_cfg w key = map_option from_utf8_lossy (deliver (cfg_of (gw_data w) key))"

definition api_peers :: "guest_world \<Rightarrow> peer_info list" where
  "api_peers w = map peer_seen (filter (\<lambda>p. length (peer_payload p) \<le> MAX_READ_LEN) (hd_peers (gw_data w)))"

definition api_set_peer :: "guest_world \<Rightarrow> u32 \<Rightarrow> guest_world \<times> bool" where
  "api_set_peer w idx = (case balancer_set_peer w idx of (w', r) \<Rightarrow> (w', r = 0))"

definition api_kv_get :: "u64 \<Rightarrow> guest_world \<Rightarrow> rstr \<Rightarrow> guest_world \<times> rstr option" where
  "api_kv_get now w key =
     (case kv_get now (gw_state w) key of (st, v) \<Rightarrow> (w\<lparr>gw_state := st\<rparr>, Option.bind v deliver))"

definition api_kv_set :: "u64 \<Rightarrow> guest_world \<Rightarrow> rstr \<Rightarrow> rstr \<Rightarrow> int \<Rightarrow> guest_world" where
  "api_kv_set now w key val ttl_ms = w\<lparr>gw_state := fst (kv_set now (gw_state w) key val ttl_ms)\<rparr>"

definition api_kv_del :: "guest_world \<Rightarrow> rstr \<Rightarrow> guest_world" where
  "api_kv_del w key = w\<lparr>gw_state := fst (kv_del (gw_state w) key)\<rparr>"

text \<open>The whole loop over a scan, which stops early at a pair the guest cannot hold.\<close>

definition api_kv_scan :: "(nat \<Rightarrow> u64) \<Rightarrow> guest_world \<Rightarrow> rstr \<Rightarrow> guest_world \<times> (rstr \<times> rstr) list" where
  "api_kv_scan now w prefix =
     (case scan_begin (now 0) (now 1) (now 2) (gw_state w) prefix of
        (st, c) \<Rightarrow>
          if c = - 1 then (w\<lparr>gw_state := st\<rparr>, [])
          else (w\<lparr>gw_state := scan_end st c\<rparr>,
                takeWhile (\<lambda>(k, v). 8 + length k + length v \<le> MAX_READ_LEN) (kv_scan (now 1) (begin_state (now 0) (gw_state w)) prefix)))"

definition api_resp_header :: "guest_world \<Rightarrow> rstr \<Rightarrow> rstr option" where
  "api_resp_header w name = map_option from_utf8_lossy (deliver (resp_header_of (gw_data w) name))"

definition api_set_resp_header :: "guest_world \<Rightarrow> rstr \<Rightarrow> rstr \<Rightarrow> guest_world" where
  "api_set_resp_header w name val = fst (resp_header_set w name val)"

definition api_del_resp_header :: "guest_world \<Rightarrow> rstr \<Rightarrow> guest_world" where
  "api_del_resp_header w name = fst (resp_header_del w name)"

definition api_set_resp_body :: "guest_world \<Rightarrow> rstr \<Rightarrow> guest_world \<times> bool" where
  "api_set_resp_body w body =
     (if RESP_BODY_MAX_BYTES < length body then (w, False)
      else (w\<lparr>gw_data := (gw_data w)\<lparr>hd_resp_body := Some body\<rparr>\<rparr>, True))"

definition api_set_req_uri :: "guest_world \<Rightarrow> rstr \<Rightarrow> guest_world \<times> bool" where
  "api_set_req_uri w path = (case rewrite_uri w path of (w', r) \<Rightarrow> (w', r = 0))"

definition api_set_req_query :: "guest_world \<Rightarrow> rstr \<Rightarrow> guest_world \<times> bool" where
  "api_set_req_query w query = (case rewrite_query w query of (w', r) \<Rightarrow> (w', r = 0))"

definition api_set_req_header :: "guest_world \<Rightarrow> rstr \<Rightarrow> rstr \<Rightarrow> guest_world \<times> bool" where
  "api_set_req_header w name val = (case rewrite_header w name val of (w', r) \<Rightarrow> (w', r = 0))"

definition api_del_req_header :: "guest_world \<Rightarrow> rstr \<Rightarrow> guest_world" where
  "api_del_req_header w name = fst (remove_header w name)"

definition api_body_chunk :: "guest_world \<Rightarrow> rstr \<times> bool" where
  "api_body_chunk w =
     (if length (hd_body_chunk (gw_data w)) \<le> MAX_READ_LEN then hd_body_chunk (gw_data w) else [], hd_body_last (gw_data w))"

definition api_respond_redirect :: "guest_world \<Rightarrow> u16 \<Rightarrow> rstr \<Rightarrow> guest_world \<times> decision" where
  "api_respond_redirect w status location = (api_set_resp_header w ''Location'' location, Deny (redirect_status status))"

section \<open>The wrappers over the memory do the same\<close>

text \<open>
  For a string argument that is valid UTF-8 the writing wrappers of \<open>host.rs\<close> are these functions; for the reading
  ones this is \<open>keyed_delivers\<close>, \<open>peers_deliver\<close> and \<open>scan_for_remaining\<close>.
\<close>

lemma writing_wrappers:
  assumes "read_guest_str (gw_mem w) (fst s) (snd s) = Some a" "read_guest_str (gw_mem w) (fst t) (snd t) = Some b"
  shows "sdk_set_req_uri now w s = api_set_req_uri w a" "sdk_set_req_query now w s = api_set_req_query w a"
    "sdk_set_req_header now w s t = api_set_req_header w a b" "sdk_del_req_header now w s = api_del_req_header w a"
    "sdk_set_resp_header now w s t = api_set_resp_header w a b" "sdk_del_resp_header now w s = api_del_resp_header w a"
    "sdk_set_peer now w i = api_set_peer w i"
  using assms
  by (simp_all add: sdk_set_req_uri_def api_set_req_uri_def sdk_set_req_query_def api_set_req_query_def sdk_set_req_header_def
      api_set_req_header_def sdk_del_req_header_def api_del_req_header_def sdk_set_resp_header_def api_set_resp_header_def
      sdk_del_resp_header_def api_del_resp_header_def sdk_set_peer_def api_set_peer_def)

lemma store_wrappers:
  assumes "read_guest (gw_mem w) (fst s) (snd s) = Some k" "read_guest (gw_mem w) (fst t) (snd t) = Some v"
  shows "sdk_kv_set now w s t ttl = api_kv_set (now 0) w k v ttl" "sdk_kv_del now w s = api_kv_del w k"
    "sdk_set_resp_body now w t = api_set_resp_body w v"
proof -
  show "sdk_kv_set now w s t ttl = api_kv_set (now 0) w k v ttl" "sdk_kv_del now w s = api_kv_del w k"
    using assms by (auto simp: sdk_kv_set_def api_kv_set_def sdk_kv_del_def api_kv_del_def split: prod.splits)
  have v: "length v = unat (snd t)" "0 \<le> sint (snd t)"
    using assms(2) read_guest_length by (auto simp: read_guest_def split: if_splits)
  have "sint (- 1 :: i32) = - 1" by simp
  then have "- 1 \<noteq> snd t" using v(2) by fastforce
  then show "sdk_set_resp_body now w t = api_set_resp_body w v"
    using assms(2) v by (simp add: sdk_set_resp_body_def api_set_resp_body_def)
qed

end
