(* ===== verification/Scheduler.thy ===== *)
theory Scheduler
  imports PluginApi
begin

text \<open>
  The affinity scheduler, a plugin that pins requests of one task to one peer
  (\<open>plugins/vllm-kv-scheduler/src/lib.rs\<close>, \<open>choice.rs\<close>), with the selection primitive of the SDK
  (\<open>crates/openrusty-sdk/src/sched.rs\<close>): the extraction of the task key, numerals and JSON strings included, and
  the balancer handler.
\<close>

section \<open>Least-loaded choice (sched.rs)\<close>

record node_stat =
  ns_healthy :: bool
  ns_active :: u32
  ns_last_sched_ms :: u64
  ns_cap :: u32

definition NEVER :: u64 where "NEVER = - 1"

definition eligible :: "node_stat \<Rightarrow> bool" where
  "eligible node = (ns_healthy node \<and> \<not> (ns_cap node \<noteq> 0 \<and> ns_active node \<ge> ns_cap node))"

definition load :: "node_stat \<Rightarrow> u32 \<times> u64" where
  "load node = (ns_active node, if ns_last_sched_ms node = NEVER then 0 else ns_last_sched_ms node)"

definition load_less :: "u32 \<times> u64 \<Rightarrow> u32 \<times> u64 \<Rightarrow> bool" where
  "load_less a b = (fst a < fst b \<or> fst a = fst b \<and> snd a < snd b)"

fun least_loaded_loop :: "nat \<Rightarrow> (nat \<times> u32 \<times> u64) option \<Rightarrow> node_stat list \<Rightarrow> (nat \<times> u32 \<times> u64) option" where
  "least_loaded_loop idx best [] = best"
| "least_loaded_loop idx best (node # nodes) =
     (if \<not> eligible node then least_loaded_loop (Suc idx) best nodes
      else least_loaded_loop (Suc idx)
        (case best of
           None \<Rightarrow> Some (idx, load node)
         | Some (_, best_load) \<Rightarrow> if load_less (load node) best_load then Some (idx, load node) else best) nodes)"

definition choose_least_loaded :: "node_stat list \<Rightarrow> nat option" where
  "choose_least_loaded nodes = map_option fst (least_loaded_loop 0 None nodes)"

section \<open>Numerals and keys (choice.rs)\<close>

fun ascii_digits_loop :: "nat \<Rightarrow> rstr \<Rightarrow> nat option" where
  "ascii_digits_loop v [] = Some v"
| "ascii_digits_loop v (b # bs) =
     (if \<not> is_ascii_digit b then None
      else let v' = 10 * v in
        if 2 ^ 64 \<le> v' then None
        else let v'' = v' + (of_char b - 48) in if 2 ^ 64 \<le> v'' then None else ascii_digits_loop v'' bs)"

definition parse_ascii_u64 :: "rstr \<Rightarrow> u64 option" where
  "parse_ascii_u64 bytes = (if bytes = [] then None else map_option of_nat (ascii_digits_loop 0 bytes))"

text \<open>The digits are written from the back of a buffer of 20 bytes; an index below its start would panic.\<close>

function ascii_loop :: "nat \<Rightarrow> nat \<Rightarrow> rstr \<Rightarrow> rstr rust" where
  "ascii_loop i v out =
     (if i = 0 then Panic
      else let out' = char_of (48 + v mod 10) # out; v' = v div 10 in
        if v' = 0 then Return out' else ascii_loop (i - 1) v' out')"
  by pat_completeness auto
termination
  by (relation "measure fst") auto

declare ascii_loop.simps [simp del]

definition ascii_u64 :: "u64 \<Rightarrow> rstr rust" where
  "ascii_u64 v = ascii_loop 20 (unat v) []"

definition aff_key :: "rstr \<Rightarrow> rstr" where
  "aff_key task = ''aff:'' @ task"

definition sched_key :: "nat \<Rightarrow> rstr rust" where
  "sched_key idx = rust_map ((@) ''sched:'') (ascii_u64 (of_nat idx))"

section \<open>Extraction of the task key (choice.rs)\<close>

datatype extract_rule = QueryParam rstr | PathSegment nat | BodyField rstr

text \<open>\<open>as usize\<close> keeps the low 32 bits on wasm32.\<close>

definition parse_extract :: "rstr \<Rightarrow> extract_rule option" where
  "parse_extract cfg0 =
     (let cfg = trim cfg0 in
      case strip_prefix cfg ''query:'' of
        Some param \<Rightarrow> (let param = trim param in if param = [] then None else Some (QueryParam param))
      | None \<Rightarrow>
          (case strip_prefix cfg ''path:'' of
             Some n \<Rightarrow>
               (case parse_ascii_u64 (trim n) of
                  None \<Rightarrow> None
                | Some n \<Rightarrow> let n = unat (ucast n :: usize) in if n = 0 then None else Some (PathSegment n))
           | None \<Rightarrow>
               (case strip_prefix cfg ''body:'' of
                  Some field \<Rightarrow> (let field = trim field in if field = [] then None else Some (BodyField field))
                | None \<Rightarrow> None)))"

definition is_json_ws :: "char \<Rightarrow> bool" where
  "is_json_ws c = (c \<in> {CHR '' '', byte 9, byte 10, byte 13})"

definition skip_ws :: "rstr \<Rightarrow> rstr" where
  "skip_ws s = dropWhile is_json_ws s"

fun hex4_loop :: "nat \<Rightarrow> rstr \<Rightarrow> nat option" where
  "hex4_loop v [] = Some v"
| "hex4_loop v (b # bs) = (case hex_val b of None \<Rightarrow> None | Some d \<Rightarrow> hex4_loop (16 * v + d) bs)"

definition parse_hex4 :: "rstr \<Rightarrow> nat option" where
  "parse_hex4 hex = (if length hex \<noteq> 4 then None else hex4_loop 0 hex)"

text \<open>\<open>char::from_u32\<close> and \<open>encode_utf8\<close> of a code point below 10000 (hex) that is no surrogate.\<close>

definition encode_utf8_bmp :: "nat \<Rightarrow> rstr" where
  "encode_utf8_bmp cp =
     (if cp < 0x80 then [byte cp]
      else if cp < 0x800 then [byte (0xC0 + cp div 64), byte (0x80 + cp mod 64)]
      else [byte (0xE0 + cp div 4096), byte (0x80 + cp div 64 mod 64), byte (0x80 + cp mod 64)])"

definition simple_escape :: "char \<Rightarrow> char option" where
  "simple_escape c =
     (if c = byte 34 then Some (byte 34)
      else if c = byte 92 then Some (byte 92)
      else if c = CHR ''/'' then Some (CHR ''/'')
      else if c = CHR ''b'' then Some (byte 8)
      else if c = CHR ''f'' then Some (byte 12)
      else if c = CHR ''n'' then Some (byte 10)
      else if c = CHR ''r'' then Some (byte 13)
      else if c = CHR ''t'' then Some (byte 9) else None)"

text \<open>The body is given by what is left of it from the index on.\<close>

function decode_string :: "rstr \<Rightarrow> rstr \<Rightarrow> rstr option" where
  "decode_string out [] = None"
| "decode_string out (b # rest) =
     (if b = byte 34 then Some out
      else if b = byte 92 then
        (case rest of
           [] \<Rightarrow> None
         | e # rest' \<Rightarrow>
             (case simple_escape e of
                Some c \<Rightarrow> decode_string (out @ [c]) rest'
              | None \<Rightarrow>
                  if e = CHR ''u'' then
                    if length rest' < 4 then None
                    else (case parse_hex4 (take 4 rest') of
                            None \<Rightarrow> None
                          | Some cp \<Rightarrow>
                              if 0xD800 \<le> cp \<and> cp \<le> 0xDFFF then None
                              else decode_string (out @ encode_utf8_bmp cp) (drop 4 rest'))
                  else None))
      else decode_string (out @ [b]) rest)"
  by pat_completeness auto
termination
  by (relation "measure (\<lambda>(out, s). length s)") auto

definition string_value_after :: "rstr \<Rightarrow> rstr option" where
  "string_value_after s =
     (case skip_ws s of
        c # rest \<Rightarrow>
          if c \<noteq> CHR '':'' then None
          else (case skip_ws rest of q # rest' \<Rightarrow> if q \<noteq> byte 34 then None else decode_string [] rest' | [] \<Rightarrow> None)
      | [] \<Rightarrow> None)"

text \<open>\<open>find_subslice\<close> and the search through its hits: the needle is tried at every offset from the left.\<close>

fun find_subslice :: "rstr \<Rightarrow> rstr \<Rightarrow> nat option" where
  "find_subslice [] needle = None"
| "find_subslice (c # cs) needle =
     (if needle = [] \<or> length (c # cs) < length needle then None
      else if starts_with (c # cs) needle then Some 0 else map_option Suc (find_subslice cs needle))"

function field_loop :: "rstr \<Rightarrow> rstr \<Rightarrow> rstr option" where
  "field_loop needle body =
     (case find_subslice body needle of
        None \<Rightarrow> None
      | Some rel \<Rightarrow>
          (case string_value_after (drop (rel + length needle) body) of
             Some val \<Rightarrow> Some val
           | None \<Rightarrow> field_loop needle (drop (rel + 1) body)))"
  by pat_completeness auto
termination
proof (relation "measure (\<lambda>(needle, body). length body)", simp)
  fix needle body :: rstr and rel
  assume "find_subslice body needle = Some rel"
  then have "body \<noteq> []" by auto
  then show "((needle, drop (rel + 1) body), (needle, body)) \<in> measure (\<lambda>(needle, body). length body)" by simp
qed

declare field_loop.simps [simp del]

definition json_string_field :: "rstr \<Rightarrow> rstr \<Rightarrow> rstr option" where
  "json_string_field body field =
     (if field = [] then None else field_loop ([byte 34] @ field @ [byte 34]) body)"

section \<open>The plugin (lib.rs)\<close>

definition DEFAULT_TTL_S :: u64 where "DEFAULT_TTL_S = 300"

definition AFF_PREFIX :: rstr where "AFF_PREFIX = ''aff:''"

definition task_of :: "guest_world \<Rightarrow> extract_rule \<Rightarrow> rstr option" where
  "task_of w rule =
     (case rule of
        QueryParam param \<Rightarrow> Option.bind (api_req_meta_str w ''query'') (\<lambda>query. query_param query param)
      | PathSegment n \<Rightarrow> Option.bind (api_req_meta_str w ''path'') (\<lambda>path. path_segment path n)
      | BodyField field \<Rightarrow>
          Option.bind (api_req_body w) (\<lambda>body.
          Option.bind (json_string_field body field) (\<lambda>raw.
            let s = trim (from_utf8_lossy raw) in if s = [] then None else Some s)))"

definition task_key :: "guest_world \<Rightarrow> rstr option" where
  "task_key w = Option.bind (api_cfg w ''extract'') (\<lambda>cfg. Option.bind (parse_extract cfg) (task_of w))"

definition affinity_index :: "rstr option \<Rightarrow> peer_info list \<Rightarrow> nat option" where
  "affinity_index raw peers =
     Option.bind raw (\<lambda>raw. Option.bind (parse_ascii_u64 raw) (\<lambda>v.
       let idx = unat (ucast v :: usize) in
       if idx < length peers \<and> pi_healthy (peers ! idx) then Some idx else None))"

definition affinity_peer :: "u64 \<Rightarrow> guest_world \<Rightarrow> rstr \<Rightarrow> peer_info list \<Rightarrow> guest_world \<times> nat option" where
  "affinity_peer now w task peers =
     (case api_kv_get now w (aff_key task) of (w', raw) \<Rightarrow> (w', affinity_index raw peers))"

definition cfg_num :: "guest_world \<Rightarrow> rstr \<Rightarrow> u64 \<Rightarrow> u64" where
  "cfg_num w key dflt =
     (case Option.bind (api_cfg w key) (\<lambda>s. parse_ascii_u64 (trim s)) of Some v \<Rightarrow> v | None \<Rightarrow> dflt)"

definition ttl_ms :: "guest_world \<Rightarrow> int" where
  "ttl_ms w = sint (saturating_mul (cfg_num w ''affinity_ttl_s'' DEFAULT_TTL_S) 1000)"

definition saturating_inc :: "u32 \<Rightarrow> u32" where
  "saturating_inc n = (if n = - 1 then n else n + 1)"

definition count_record :: "u32 list \<Rightarrow> rstr \<times> rstr \<Rightarrow> u32 list" where
  "count_record active kv =
     (case parse_ascii_u64 (snd kv) of
        None \<Rightarrow> active
      | Some v \<Rightarrow> let idx = unat (ucast v :: usize) in
          if idx < length active then active[idx := saturating_inc (active ! idx)] else active)"

definition sched_ts :: "u64 \<Rightarrow> guest_world \<Rightarrow> nat \<Rightarrow> (guest_world \<times> u64) rust" where
  "sched_ts now w idx =
     rust_map (\<lambda>key. case api_kv_get now w key of
       (w', v) \<Rightarrow> (w', case Option.bind v parse_ascii_u64 of Some t \<Rightarrow> t | None \<Rightarrow> 0)) (sched_key idx)"

text \<open>The clock readings of the n-th call to the host are \<open>T n\<close>.\<close>

fun gather_nodes :: "clock \<Rightarrow> nat \<Rightarrow> u32 \<Rightarrow> u32 list \<Rightarrow> guest_world \<Rightarrow> nat \<Rightarrow> peer_info list \<Rightarrow> (guest_world \<times> node_stat list) rust" where
  "gather_nodes T n cap active w i [] = Return (w, [])"
| "gather_nodes T n cap active w i (p # ps) =
     (case sched_ts (T n 0) w i of
        Panic \<Rightarrow> Panic
      | Return (w', t) \<Rightarrow>
          if length active \<le> i then Panic
          else rust_map (\<lambda>(w'', ns). (w'', \<lparr>ns_healthy = pi_healthy p, ns_active = active ! i, ns_last_sched_ms = t, ns_cap = cap\<rparr> # ns))
                 (gather_nodes T (Suc n) cap active w' (Suc i) ps))"

definition record_choice :: "clock \<Rightarrow> nat \<Rightarrow> int \<Rightarrow> rstr \<Rightarrow> guest_world \<Rightarrow> nat \<Rightarrow> guest_world rust" where
  "record_choice T n ttl task w pick =
     (case (ascii_u64 (of_nat pick), sched_key pick, ascii_u64 (sdk_now_ms (T (n + 1)))) of
        (Return idx, Return key, Return t) \<Rightarrow>
          Return (api_kv_set (T (n + 2) 0) (api_kv_set (T n 0) w (aff_key task) idx ttl) key t ttl)
      | _ \<Rightarrow> Panic)"

definition gather_and_pick :: "clock \<Rightarrow> nat \<Rightarrow> guest_world \<Rightarrow> rstr \<Rightarrow> peer_info list \<Rightarrow> (guest_world \<times> decision) rust" where
  "gather_and_pick T n w task peers =
     (if peers = [] then Return (w, Declined)
      else
        let ttl = ttl_ms w; cap = ucast (cfg_num w ''max_tasks_per_node'' 0) :: u32 in
        case api_kv_scan (T n) w AFF_PREFIX of
          (w', records) \<Rightarrow>
            (case gather_nodes T (n + 1) cap (foldl count_record (replicate (length peers) 0) records) w' 0 peers of
               Panic \<Rightarrow> Panic
             | Return (w'', nodes) \<Rightarrow>
                 (case choose_least_loaded nodes of
                    None \<Rightarrow> Return (w'', Declined)
                  | Some pick \<Rightarrow>
                      rust_map (\<lambda>w3. case api_set_peer w3 (of_nat pick) of (w4, ok) \<Rightarrow> (w4, if ok then Ok else Declined))
                        (record_choice T (n + 1 + length peers) ttl task w'' pick))))"

definition scheduler_balancer :: "clock \<Rightarrow> guest_world \<Rightarrow> (guest_world \<times> decision) rust" where
  "scheduler_balancer T w =
     (case task_key w of
        None \<Rightarrow> Return (w, Declined)
      | Some task \<Rightarrow>
          let peers = api_peers w in
          (case affinity_peer (T 0 0) w task peers of
             (w1, None) \<Rightarrow> gather_and_pick T 2 w1 task peers
           | (w1, Some idx) \<Rightarrow>
               (case ascii_u64 (of_nat idx) of
                  Panic \<Rightarrow> Panic
                | Return v \<Rightarrow>
                    (case api_set_peer (api_kv_set (T 1 0) w1 (aff_key task) v (ttl_ms w1)) (of_nat idx) of
                       (w2, True) \<Rightarrow> Return (w2, Ok)
                     | (w2, False) \<Rightarrow> gather_and_pick T 2 w2 task peers))))"

text \<open>The log handler writes one line with the task and the upstream; logging has no effect on the modelled state.\<close>

definition log_line :: "guest_world \<Rightarrow> rstr" where
  "log_line w =
     (case task_key w of
        Some task \<Rightarrow> ''vllm-kv-scheduler done task='' @ task @ '' upstream=''
          @ (case api_req_meta_str w ''upstream'' of Some u \<Rightarrow> u | None \<Rightarrow> [])
      | None \<Rightarrow> ''vllm-kv-scheduler done'')"

definition scheduler_log :: "guest_world \<Rightarrow> guest_world \<times> decision" where
  "scheduler_log w = (w, Ok)"

section \<open>Least-loaded choice\<close>

lemma load_less_trans: "load_less a b \<Longrightarrow> load_less b c \<Longrightarrow> load_less a c"
  by (auto simp: load_less_def)

lemma load_less_irrefl [simp]: "\<not> load_less a a"
  by (simp add: load_less_def)

text \<open>The best node of a list so far: eligible, not beaten by any, and strictly better than every earlier one.\<close>

definition best_at :: "node_stat list \<Rightarrow> nat \<Rightarrow> bool" where
  "best_at nodes i \<longleftrightarrow> i < length nodes \<and> eligible (nodes ! i)
     \<and> (\<forall>j < length nodes. eligible (nodes ! j) \<longrightarrow> \<not> load_less (load (nodes ! j)) (load (nodes ! i)))
     \<and> (\<forall>j < i. eligible (nodes ! j) \<longrightarrow> load_less (load (nodes ! i)) (load (nodes ! j)))"

lemma best_at_snoc_keep:
  assumes "best_at nodes i" "\<not> eligible node \<or> \<not> load_less (load node) (load (nodes ! i))"
  shows "best_at (nodes @ [node]) i"
  using assms by (auto simp: best_at_def nth_append less_Suc_eq)

lemma best_at_snoc_new:
  assumes "eligible node" "\<forall>j < length nodes. eligible (nodes ! j) \<longrightarrow> load_less (load node) (load (nodes ! j))"
  shows "best_at (nodes @ [node]) (length nodes)"
proof -
  have "\<not> load_less (load (nodes ! j)) (load node)" if "j < length nodes" "eligible (nodes ! j)" for j
    using assms(2) that load_less_trans load_less_irrefl by blast
  then show ?thesis using assms by (auto simp: best_at_def nth_append less_Suc_eq)
qed

lemma least_loaded_loop_spec:
  assumes "idx = length seen" "case best of None \<Rightarrow> \<not> list_ex eligible seen | Some (i, l) \<Rightarrow> best_at seen i \<and> l = load (seen ! i)"
  shows "case least_loaded_loop idx best nodes of
      None \<Rightarrow> \<not> list_ex eligible (seen @ nodes) | Some (i, l) \<Rightarrow> best_at (seen @ nodes) i \<and> l = load ((seen @ nodes) ! i)"
  using assms
proof (induction nodes arbitrary: idx best seen)
  case (Cons node nodes)
  let ?best = "if \<not> eligible node then best else case best of None \<Rightarrow> Some (idx, load node)
     | Some (_, l) \<Rightarrow> if load_less (load node) l then Some (idx, load node) else best"
  have step: "least_loaded_loop idx best (node # nodes) = least_loaded_loop (Suc idx) ?best nodes" by simp
  have best: "case ?best of None \<Rightarrow> \<not> list_ex eligible (seen @ [node])
     | Some (i, l) \<Rightarrow> best_at (seen @ [node]) i \<and> l = load ((seen @ [node]) ! i)"
  proof (cases best)
    case None
    then have "\<forall>j < length seen. \<not> eligible (seen ! j)" using Cons.prems(2) by (auto simp: list_ex_length)
    then show ?thesis using None Cons.prems by (auto intro: best_at_snoc_new)
  next
    case (Some il)
    obtain i l where il: "il = (i, l)" by (cases il) blast
    have b: "best_at seen i" "l = load (seen ! i)" using Cons.prems(2) Some il by auto
    have i: "i < length seen" using b(1) by (simp add: best_at_def)
    have "load_less (load node) (load (seen ! j))" if "load_less (load node) l" "j < length seen" "eligible (seen ! j)" for j
    proof -
      have "\<not> load_less (load (seen ! j)) l" using b that(2,3) by (simp add: best_at_def)
      then show ?thesis using that(1) by (auto simp: load_less_def)
    qed
    then show ?thesis
      using Some il b i Cons.prems(1) by (auto simp: nth_append intro: best_at_snoc_keep best_at_snoc_new)
  qed
  have "Suc idx = length (seen @ [node])" using Cons.prems(1) by simp
  from Cons.IH [OF this best] show ?case unfolding step append.assoc append.simps .
next
  case Nil
  then show ?case by (auto split: option.splits)
qed

lemma choose_least_loaded_spec:
  "case choose_least_loaded nodes of None \<Rightarrow> \<not> list_ex eligible nodes | Some i \<Rightarrow> best_at nodes i"
  using least_loaded_loop_spec [of 0 "[]" None nodes]
  by (auto simp: choose_least_loaded_def split: option.splits)

section \<open>Numerals\<close>

lemma ascii_loop_digits: "length (dec_digits v) \<le> i \<Longrightarrow> ascii_loop i v out = Return (dec_digits v @ out)"
proof (induction i v out rule: ascii_loop.induct)
  case (1 i v out)
  have i: "i \<noteq> 0" using 1(2) by (cases "dec_digits v") auto
  show ?case
  proof (cases "v < 10")
    case True
    then show ?thesis using i by (simp add: ascii_loop.simps [of i] dec_digits.simps [of v])
  next
    case False
    then have d: "dec_digits v = dec_digits (v div 10) @ [char_of (48 + v mod 10)]" by (simp add: dec_digits.simps [of v])
    have "ascii_loop (i - 1) (v div 10) (char_of (48 + v mod 10) # out) = Return (dec_digits (v div 10) @ char_of (48 + v mod 10) # out)"
      using 1(1) [OF i refl refl] 1(2) False d by simp
    then show ?thesis using i False d by (simp add: ascii_loop.simps [of i] Let_def)
  qed
qed

lemma length_dec_digits: "v < 10 ^ n \<Longrightarrow> 0 < n \<Longrightarrow> length (dec_digits v) \<le> n"
proof (induction n arbitrary: v)
  case (Suc n)
  show ?case
  proof (cases "v < 10")
    case True
    then show ?thesis by (simp add: dec_digits.simps [of v])
  next
    case False
    then have "0 < n" using Suc.prems(1) by (cases n) auto
    moreover have "v div 10 < 10 ^ n" using Suc.prems(1) by (simp add: less_mult_imp_div_less mult.commute)
    ultimately show ?thesis using Suc.IH [of "v div 10"] False by (simp add: dec_digits.simps [of v])
  qed
qed simp

text \<open>The buffer is long enough for every \<open>u64\<close>.\<close>

lemma ascii_u64_digits: "ascii_u64 v = Return (dec_digits (unat v))"
proof -
  have "unat v < 10 ^ 20" using unsigned_less [where 'a = nat, of v] by simp
  then have "length (dec_digits (unat v)) \<le> 20" by (rule length_dec_digits) simp
  then show ?thesis by (simp add: ascii_u64_def ascii_loop_digits)
qed

lemma ascii_digits_loop_value:
  assumes "list_all is_ascii_digit bs" "foldl (\<lambda>a c. 10 * a + (of_char c - 48)) v bs < 2 ^ 64"
  shows "ascii_digits_loop v bs = Some (foldl (\<lambda>a c. 10 * a + (of_char c - 48)) v bs)"
  using assms
proof (induction bs arbitrary: v)
  case (Cons b bs)
  let ?v = "10 * v + (of_char b - 48)"
  have mono: "x \<le> foldl (\<lambda>a c. 10 * a + (of_char c - 48)) x cs" for x :: nat and cs
  proof (induction cs arbitrary: x)
    case (Cons c cs)
    have "x \<le> 10 * x + (of_char c - 48)" by simp
    also have "\<dots> \<le> foldl (\<lambda>a c. 10 * a + (of_char c - 48)) (10 * x + (of_char c - 48)) cs" by (rule Cons.IH)
    finally show ?case by simp
  qed simp
  have "?v < 2 ^ 64" using mono [of ?v bs] Cons.prems(2) by simp
  then show ?case using Cons by simp
qed simp

lemma parse_ascii_dec: "n < 2 ^ 64 \<Longrightarrow> parse_ascii_u64 (dec_digits n) = Some (of_nat n)"
  using ascii_digits_loop_value [of "dec_digits n" 0] dec_digits_ascii [of n] digits_value_dec [of n]
  by (simp add: parse_ascii_u64_def digits_value_def)

lemma sched_key_digits: "sched_key idx = Return (''sched:'' @ dec_digits (unat (of_nat idx :: u64)))"
  by (simp add: sched_key_def ascii_u64_digits)

section \<open>JSON strings\<close>

text \<open>A value with its quotes and backslashes escaped is read back, whatever follows it.\<close>

definition json_escape :: "rstr \<Rightarrow> rstr" where
  "json_escape v = concat (map (\<lambda>c. if c = byte 34 \<or> c = byte 92 then [byte 92, c] else [c]) v)"

lemma byte_neq: "m < 256 \<Longrightarrow> n < 256 \<Longrightarrow> byte m = byte n \<longleftrightarrow> m = n"
  by (auto simp: byte_def)

lemma decode_string_escape: "decode_string out (json_escape v @ byte 34 # rest) = Some (out @ v)"
proof (induction v arbitrary: out)
  case (Cons c v)
  have q: "byte 92 \<noteq> byte 34" by (simp add: byte_neq)
  show ?case
  proof (cases "c = byte 34 \<or> c = byte 92")
    case True
    then have "simple_escape c = Some c" by (auto simp: simple_escape_def)
    then show ?thesis using True q Cons [of "out @ [c]"] by (simp add: json_escape_def)
  next
    case False
    then show ?thesis using Cons [of "out @ [c]"] by (simp add: json_escape_def)
  qed
qed (simp add: json_escape_def)

lemma json_string_field_render:
  assumes "field \<noteq> []"
  shows "json_string_field ([byte 34] @ field @ [byte 34] @ '':'' @ [byte 34] @ json_escape v @ [byte 34] @ rest) field = Some v"
proof -
  let ?n = "[byte 34] @ field @ [byte 34]" and ?val = "'':'' @ [byte 34] @ json_escape v @ byte 34 # rest"
  have pre: "starts_with (xs @ ys) xs" for xs ys :: rstr by (induction xs) auto
  have "find_subslice (?n @ ?val) ?n = Some 0" using pre [of ?n ?val] by simp
  moreover have "\<not> is_json_ws (CHR '':'')" "\<not> is_json_ws (byte 34)" by code_simp+
  then have "string_value_after ?val = Some v" by (simp add: string_value_after_def skip_ws_def decode_string_escape)
  ultimately have "field_loop ?n (?n @ ?val) = Some v"
    by (subst field_loop.simps) (simp add: numeral_2_eq_2)
  then show ?thesis using assms by (simp add: json_string_field_def)
qed

section \<open>The handler\<close>

definition record_index :: "rstr \<Rightarrow> nat option" where
  "record_index v = map_option (\<lambda>v. unat (ucast v :: usize)) (parse_ascii_u64 v)"

text \<open>The number of affinity records of a peer among those the scan gave.\<close>

definition tasks_of :: "(rstr \<times> rstr) list \<Rightarrow> nat \<Rightarrow> nat" where
  "tasks_of recs j = length (filter (\<lambda>kv. record_index (snd kv) = Some j) recs)"

lemma count_record_nth:
  "length (count_record active kv) = length active"
  "j < length active \<Longrightarrow> count_record active kv ! j = (if record_index (snd kv) = Some j then saturating_inc (active ! j) else active ! j)"
  by (auto simp: count_record_def record_index_def Let_def nth_list_update split: option.splits)

lemma saturating_inc_nat: "unat (saturating_inc n) = (if unat n + 1 < 2 ^ 32 then unat n + 1 else unat n)"
proof (cases "n = - 1")
  case False
  have "unat (- 1 :: u32) = 2 ^ 32 - 1" by (simp add: unsigned_minus_1_eq_mask mask_eq_exp_minus_1)
  then have "unat n \<noteq> 2 ^ 32 - 1" using False word_unat_eq_iff by metis
  then show ?thesis using False unsigned_less [where 'a = nat, of n] by (simp add: saturating_inc_def unat_word_ariths)
qed (simp add: saturating_inc_def unsigned_minus_1_eq_mask mask_eq_exp_minus_1)

lemma count_records:
  assumes "unat (active ! j) + length recs < 2 ^ 32" "j < length active"
  shows "unat (foldl count_record active recs ! j) = unat (active ! j) + tasks_of recs j"
  using assms
proof (induction recs arbitrary: active)
  case (Cons r recs)
  let ?a = "count_record active r"
  have l: "j < length ?a" using Cons.prems(2) by (simp add: count_record_nth)
  have a: "unat (?a ! j) = unat (active ! j) + (if record_index (snd r) = Some j then 1 else 0)"
    using Cons.prems by (simp add: count_record_nth saturating_inc_nat)
  have "unat (foldl count_record ?a recs ! j) = unat (?a ! j) + tasks_of recs j"
    using Cons.prems a by (intro Cons.IH l) (auto split: if_splits)
  then show ?case unfolding a by (simp add: tasks_of_def)
qed (simp add: tasks_of_def)

lemma count_records_length [simp]: "length (foldl count_record active recs) = length active"
  by (induction recs arbitrary: active) (simp_all add: count_record_nth)

lemma api_data [simp]:
  "gw_data (fst (api_kv_get now w k)) = gw_data w" "gw_data (api_kv_set now w k v ttl) = gw_data w"
  "gw_data (fst (api_kv_scan T w p)) = gw_data w"
  by (simp_all add: api_kv_get_def api_kv_set_def api_kv_scan_def split: prod.splits)

lemma gather_nodes_spec:
  assumes "i + length ps \<le> length active"
  shows "\<exists>w' nodes. gather_nodes T n cap active w i ps = Return (w', nodes) \<and> gw_data w' = gw_data w \<and> length nodes = length ps
    \<and> (\<forall>j < length ps. ns_healthy (nodes ! j) = pi_healthy (ps ! j) \<and> ns_active (nodes ! j) = active ! (i + j) \<and> ns_cap (nodes ! j) = cap)"
  using assms
proof (induction ps arbitrary: n w i)
  case (Cons p ps)
  obtain w1 t where t: "sched_ts (T n 0) w i = Return (w1, t)" "gw_data w1 = gw_data w"
    by (cases "api_kv_get (T n 0) w (''sched:'' @ dec_digits (unat (of_nat i :: u64)))")
      (auto simp: sched_ts_def sched_key_digits dest: arg_cong [where f = "\<lambda>r. gw_data (fst r)"])
  obtain w' nodes where "gather_nodes T (Suc n) cap active w1 (Suc i) ps = Return (w', nodes)" "gw_data w' = gw_data w1"
    "length nodes = length ps"
    "\<forall>j < length ps. ns_healthy (nodes ! j) = pi_healthy (ps ! j) \<and> ns_active (nodes ! j) = active ! (Suc i + j) \<and> ns_cap (nodes ! j) = cap"
    using Cons.IH [of "Suc i" "Suc n" w1] Cons.prems by auto
  then show ?case using t Cons.prems by (auto simp: nth_Cons split: nat.splits)
qed simp

lemma record_choice_total: "\<exists>w'. record_choice T n ttl task w pick = Return w' \<and> gw_data w' = gw_data w"
  by (simp add: record_choice_def sched_key_digits ascii_u64_digits)

definition pinned :: "host_data \<Rightarrow> nat \<Rightarrow> host_data" where
  "pinned D i = D\<lparr>hd_ctx := (hd_ctx D)\<lparr>rc_peer_index := Some (of_nat i)\<rparr>\<rparr>"

lemma api_set_peer_ok:
  assumes "i < length (hd_peers (gw_data w))" "i < 2 ^ 31"
  shows "api_set_peer w (of_nat i) = (w\<lparr>gw_data := pinned (gw_data w) i\<rparr>, True)"
  using assms sint_of_nat_i32(1) [OF assms(2)] unat_of_nat_i32 [OF assms(2)]
  by (simp add: api_set_peer_def balancer_set_peer_def Let_def pinned_def)

text \<open>
  A peer takes a further task when no cap is set or it has fewer tasks than the cap; the handler's pick is
  such a healthy peer with the fewest tasks, pinned, or nothing when there is none.
\<close>

definition takes_task :: "u32 \<Rightarrow> (rstr \<times> rstr) list \<Rightarrow> peer_info list \<Rightarrow> nat \<Rightarrow> bool" where
  "takes_task cap recs peers j \<longleftrightarrow> j < length peers \<and> pi_healthy (peers ! j) \<and> (cap = 0 \<or> tasks_of recs j < unat cap)"

definition least_task_pick :: "u32 \<Rightarrow> (rstr \<times> rstr) list \<Rightarrow> peer_info list \<Rightarrow> host_data \<Rightarrow> decision \<Rightarrow> host_data \<Rightarrow> bool" where
  "least_task_pick cap recs peers D d D' \<longleftrightarrow>
     (if \<exists>j. takes_task cap recs peers j
      then \<exists>i. takes_task cap recs peers i \<and> (\<forall>j. takes_task cap recs peers j \<longrightarrow> tasks_of recs i \<le> tasks_of recs j)
             \<and> d = Ok \<and> D' = pinned D i
      else d = Declined \<and> D' = D)"

lemma gather_and_pick_spec:
  assumes "length peers = length (hd_peers (gw_data w))" "length peers < 2 ^ 31"
    "length (snd (api_kv_scan (T n) w AFF_PREFIX)) < 2 ^ 32"
  shows "\<exists>w' d. gather_and_pick T n w task peers = Return (w', d)
    \<and> least_task_pick (ucast (cfg_num w ''max_tasks_per_node'' 0)) (snd (api_kv_scan (T n) w AFF_PREFIX)) peers (gw_data w) d (gw_data w')"
proof (cases "peers = []")
  case True
  then show ?thesis by (simp add: gather_and_pick_def least_task_pick_def takes_task_def)
next
  case False
  let ?cap = "ucast (cfg_num w ''max_tasks_per_node'' 0) :: u32"
  obtain w1 recs where s: "api_kv_scan (T n) w AFF_PREFIX = (w1, recs)" by force
  have d1: "gw_data w1 = gw_data w" using api_data(3) [of "T n" w AFF_PREFIX] s by simp
  let ?act = "foldl count_record (replicate (length peers) 0) recs"
  have act: "unat (?act ! j) = tasks_of recs j" if "j < length peers" for j
    using count_records [of "replicate (length peers) 0" j recs] that assms(3) s by simp
  obtain w2 nodes where g: "gather_nodes T (n + 1) ?cap ?act w1 0 peers = Return (w2, nodes)" "gw_data w2 = gw_data w1"
    "length nodes = length peers"
    "\<forall>j < length peers. ns_healthy (nodes ! j) = pi_healthy (peers ! j) \<and> ns_active (nodes ! j) = ?act ! j \<and> ns_cap (nodes ! j) = ?cap"
    using gather_nodes_spec [of 0 peers ?act T "n + 1" ?cap w1] by auto
  have el: "eligible (nodes ! j) \<longleftrightarrow> takes_task ?cap recs peers j" if "j < length peers" for j
    using g(4) act [OF that] that by (auto simp: eligible_def takes_task_def word_le_nat_alt)
  have less: "tasks_of recs i \<le> tasks_of recs j" if "i < length peers" "j < length peers" "\<not> load_less (load (nodes ! j)) (load (nodes ! i))" for i j
    using that g(4) act [OF that(1)] act [OF that(2)] by (auto simp: load_less_def load_def word_less_nat_alt)
  show ?thesis
  proof (cases "choose_least_loaded nodes")
    case None
    then have "\<not> takes_task ?cap recs peers j" for j
      using choose_least_loaded_spec [of nodes] el g(3) by (auto simp: list_ex_length takes_task_def)
    then show ?thesis using False s g(1,2) None d1 by (auto simp: gather_and_pick_def least_task_pick_def Let_def)
  next
    case (Some i)
    have b: "best_at nodes i" using choose_least_loaded_spec [of nodes] Some by simp
    then have i: "i < length peers" "takes_task ?cap recs peers i" using g(3) el by (auto simp: best_at_def)
    have min: "tasks_of recs i \<le> tasks_of recs j" if "takes_task ?cap recs peers j" for j
      using b that less el g(3) i(1) by (auto simp: best_at_def takes_task_def)
    obtain w3 where w3: "record_choice T (n + 1 + length peers) (ttl_ms w) task w2 i = Return w3" "gw_data w3 = gw_data w2"
      using record_choice_total by blast
    have "api_set_peer w3 (of_nat i) = (w3\<lparr>gw_data := pinned (gw_data w3) i\<rparr>, True)"
      using i(1) assms(1,2) w3(2) g(2) d1 by (intro api_set_peer_ok) auto
    then have "gather_and_pick T n w task peers = Return (w3\<lparr>gw_data := pinned (gw_data w) i\<rparr>, Ok)"
      using False s g(1,2) Some w3 d1 by (simp add: gather_and_pick_def Let_def)
    then show ?thesis using i(2) min s by (auto simp: least_task_pick_def)
  qed
qed

lemma api_cfg_data: "gw_data w' = gw_data w \<Longrightarrow> cfg_num w' key dflt = cfg_num w key dflt"
  by (simp add: cfg_num_def api_cfg_def)

lemma api_peers_fit: "\<forall>p \<in> set (hd_peers (gw_data w)). length (peer_payload p) \<le> MAX_READ_LEN \<Longrightarrow> api_peers w = map peer_seen (hd_peers (gw_data w))"
  by (simp add: api_peers_def)

lemma api_kv_get_live: "snd (api_kv_get now w k) = Option.bind (live now (gw_state w) k) deliver"
  by (simp add: api_kv_get_def kv_get_def kv_get_with_def live_def split: prod.splits option.splits)

section \<open>Properties\<close>


definition sample_peer :: "rstr \<Rightarrow> peer_view" where
  "sample_peer n = \<lparr>pv_name = n, pv_addr = ''10.0.0.1:80'', pv_healthy = True\<rparr>"

definition sample_sched_guest :: guest_world where
  "sample_sched_guest = \<lparr>gw_mem = None,
     gw_data = new_host_data (req_ctx_empty\<lparr>rc_query := ''t=a''\<rparr>) [sample_peer ''a'', sample_peer ''b''] [''extract'' \<mapsto> ''query:t''],
     gw_state = fst (kv_set 1 (host_state_new ''x'') ''aff:a'' ''1'' 0)\<rparr>"

lemma sample_task: "task_key sample_sched_guest = Some ''a''"
proof -
  have "from_utf8_lossy ''extract'' = ''extract''" "from_utf8_lossy ''query:t'' = ''query:t''" "from_utf8_lossy ''query'' = ''query''"
    "from_utf8_lossy ''t=a'' = ''t=a''" "parse_extract ''query:t'' = Some (QueryParam ''t'')" "query_param ''t=a'' ''t'' = Some ''a''"
    by code_simp+
  then show ?thesis
    by (simp add: task_key_def api_cfg_def cfg_of_def deliver_def sample_sched_guest_def new_host_data_def task_of_def api_req_meta_str_def
        api_req_meta_def meta_of_def req_meta_payload_def MAX_READ_LEN_def HEAP_SIZE_def)
qed


end
