(* ===== verification/Probe.thy ===== *)
theory Probe
  imports PluginApi
begin

text \<open>
  The drill plugin and the two sample modules (\<open>plugins/kv-probe/src/lib.rs\<close>, \<open>dynamic-echo\<close>, \<open>dynamic-reverse\<close>): handlers
  that exercise the store, the request edits and the response through the SDK and answer with what
  they saw. Run on the model of the host, the drill passes.
\<close>

section \<open>Constants\<close>

definition ROUNDTRIP_KEY :: rstr where "ROUNDTRIP_KEY = ''probe:roundtrip''"
definition TTL_KEY :: rstr where "TTL_KEY = ''probe:ttl''"
definition MARKER_KEY :: rstr where "MARKER_KEY = ''probe:marker''"
definition MARKER_VAL :: rstr where "MARKER_VAL = ''mk''"
definition POST_READ_KEY :: rstr where "POST_READ_KEY = ''probe:post_read''"
definition REWRITE_KEY :: rstr where "REWRITE_KEY = ''probe:rewrite''"
definition BODY_SEEN_PREFIX :: rstr where "BODY_SEEN_PREFIX = ''probe:body_seen:''"
definition LOG_RAN_KEY :: rstr where "LOG_RAN_KEY = ''probe:log_ran''"
definition SCAN_PREFIX :: rstr where "SCAN_PREFIX = ''probe:scan:''"
definition SCAN_A_KEY :: rstr where "SCAN_A_KEY = ''probe:scan:a''"
definition SCAN_B_KEY :: rstr where "SCAN_B_KEY = ''probe:scan:b''"
definition WS_HANDSHAKE_PATH :: rstr where "WS_HANDSHAKE_PATH = ''/ws''"
definition WS_AUTH_KEY :: rstr where "WS_AUTH_KEY = ''probe:ws_auth''"
definition WS_COOKIE_KEY :: rstr where "WS_COOKIE_KEY = ''probe:ws_cookie''"
definition WS_AUTH_EXPECT :: rstr where "WS_AUTH_EXPECT = ''Bearer ws-probe-token''"
definition WS_COOKIE_EXPECT :: rstr where "WS_COOKIE_EXPECT = ''session=ws-probe-cookie''"
definition PROBE_TTL_MS :: int where "PROBE_TTL_MS = 10000"
definition SHORT_TTL_MS :: int where "SHORT_TTL_MS = 1500"
definition RESP_HEADER :: rstr where "RESP_HEADER = ''x-kv-probe''"
definition RESP_BODY_PREFIX :: rstr where "RESP_BODY_PREFIX = ''kv-probe-resp-body:''"
definition RW_URI :: rstr where "RW_URI = ''/rewritten/by/plugin''"
definition RW_QUERY :: rstr where "RW_QUERY = ''rw=1''"
definition RW_HEADER :: rstr where "RW_HEADER = ''X-Rw-Probe''"
definition RW_DROP_HEADER :: rstr where "RW_DROP_HEADER = ''X-Rw-Drop''"
definition REDIRECT_TO :: rstr where "REDIRECT_TO = ''/moved/by/plugin''"
definition LOG_404_KEY :: rstr where "LOG_404_KEY = ''probe:log404''"
definition LOG_404_HEADER :: rstr where "LOG_404_HEADER = ''X-Log404''"

section \<open>Pure parts\<close>

datatype probe_mode =
    SetGetDel | Absent | TtlSet | TtlCheck | PostReadMode | RewriteCheck | BodyCheck | LogCheck | ScanMode | BalancerMode
  | WsHeaders | RespBody | Log404Check

definition flag :: "rstr \<Rightarrow> rstr \<Rightarrow> bool" where
  "flag query name = (query_param query name = Some ''1'')"

definition mode_of :: "rstr \<Rightarrow> probe_mode option" where
  "mode_of m =
     (if m = ''setgetdel'' then Some SetGetDel
      else if m = ''absent'' then Some Absent
      else if m = ''ttl-set'' then Some TtlSet
      else if m = ''ttl-check'' then Some TtlCheck
      else if m = ''postread'' then Some PostReadMode
      else if m = ''rewritecheck'' then Some RewriteCheck
      else if m = ''bodycheck'' then Some BodyCheck
      else if m = ''logcheck'' then Some LogCheck
      else if m = ''scan'' then Some ScanMode
      else if m = ''wsheaders'' then Some WsHeaders
      else if m = ''balancer'' then Some BalancerMode
      else if m = ''resp-body'' then Some RespBody
      else if m = ''l404check'' then Some Log404Check else None)"

definition parse_mode :: "rstr \<Rightarrow> probe_mode option" where
  "parse_mode query = Option.bind (query_param query ''mode'') mode_of"

definition parse_body_seen :: "rstr \<Rightarrow> (nat \<times> bool) option" where
  "parse_body_seen raw =
     Option.bind (split_once (CHR '':'') raw) (\<lambda>(seen, fin).
     Option.bind (parse_uint 64 seen) (\<lambda>n.
       if fin = ''0'' then Some (n, False) else if fin = ''1'' then Some (n, True) else None))"

definition resp_body_text :: "rstr \<Rightarrow> rstr" where
  "resp_body_text t = RESP_BODY_PREFIX @ t"

definition deny_decision :: "rstr option \<Rightarrow> decision" where
  "deny_decision deny =
     (case deny of
        None \<Rightarrow> Done
      | Some raw \<Rightarrow>
          (case parse_uint 16 raw of
             Some status \<Rightarrow> if 100 \<le> status \<and> status \<le> 599 then Deny (of_nat status) else Deny 400
           | None \<Rightarrow> Deny 400))"

definition body_seen_key_for :: "rstr \<Rightarrow> rstr \<Rightarrow> rstr" where
  "body_seen_key_for path query =
     (if query = [] then BODY_SEEN_PREFIX @ path else BODY_SEEN_PREFIX @ path @ ''?'' @ query)"

definition valid_peer_view :: "peer_info list \<Rightarrow> nat option" where
  "valid_peer_view peers =
     (if length peers \<noteq> 3 \<or> list_ex (\<lambda>p. \<not> pi_healthy p) peers then None
      else if list_ex pi_healthy peers then Some (length (takeWhile (\<lambda>p. \<not> pi_healthy p) peers)) else None)"

section \<open>Handlers\<close>

text \<open>The clock reading of the n-th call to the host is \<open>T n\<close>; a scan makes three.\<close>

definition meta_or_empty :: "guest_world \<Rightarrow> rstr \<Rightarrow> rstr" where
  "meta_or_empty w key = (case api_req_meta_str w key of Some v \<Rightarrow> v | None \<Rightarrow> [])"

definition record_meta :: "u64 \<Rightarrow> guest_world \<Rightarrow> rstr option \<Rightarrow> rstr \<Rightarrow> guest_world" where
  "record_meta now w v key = (case v of Some v \<Rightarrow> api_kv_set now w key v PROBE_TTL_MS | None \<Rightarrow> w)"

definition record_ws_handshake_headers :: "clock \<Rightarrow> guest_world \<Rightarrow> guest_world" where
  "record_ws_handshake_headers T w =
     (if api_req_meta_str w ''path'' \<noteq> Some WS_HANDSHAKE_PATH then w
      else
        let w = record_meta (T 1 0) w (api_req_meta_str w ''header:authorization'') WS_AUTH_KEY in
        record_meta (T 2 0) w (api_req_meta_str w ''header:cookie'') WS_COOKIE_KEY)"

definition probe_post_read :: "clock \<Rightarrow> guest_world \<Rightarrow> guest_world \<times> decision" where
  "probe_post_read T w =
     (record_ws_handshake_headers T (record_meta (T 0 0) w (api_req_meta w ''path'') POST_READ_KEY), Declined)"

definition apply_req_rewrite :: "guest_world \<Rightarrow> rstr \<Rightarrow> guest_world \<times> decision" where
  "apply_req_rewrite w query =
     (let (w, ok) =
            (if flag query ''rwuri'' then
               (case api_set_req_uri w RW_URI of (w, a) \<Rightarrow> if a then api_set_req_query w RW_QUERY else (w, False))
             else (w, True))
      in if \<not> ok then (w, Deny 500)
         else if flag query ''rwhdr'' then
           (case api_set_req_header w RW_HEADER ''yes'' of
              (w, False) \<Rightarrow> (w, Deny 500)
            | (w, True) \<Rightarrow> (api_del_req_header w RW_DROP_HEADER, Declined))
         else (w, Declined))"

definition probe_rewrite :: "clock \<Rightarrow> guest_world \<Rightarrow> guest_world \<times> decision" where
  "probe_rewrite T w =
     (let query = meta_or_empty w ''query'';
          w = record_meta (T 0 0) w (api_req_meta w ''path'') REWRITE_KEY
      in if flag query ''rwdeny'' then (w, Deny 418) else apply_req_rewrite w query)"

definition redirect_decision :: "guest_world \<Rightarrow> rstr \<Rightarrow> guest_world \<times> decision" where
  "redirect_decision w query =
     (if flag query ''redir'' then api_respond_redirect w 302 REDIRECT_TO else (w, Declined))"

definition probe_access :: "guest_world \<Rightarrow> guest_world \<times> decision" where
  "probe_access w =
     (let query = meta_or_empty w ''query''
      in if flag query ''accdeny'' then (w, Deny 403) else redirect_decision w query)"

definition probe_balancer :: "guest_world \<Rightarrow> guest_world \<times> decision" where
  "probe_balancer w =
     (if parse_mode (meta_or_empty w ''query'') \<noteq> Some BalancerMode then (w, Declined)
      else case valid_peer_view (api_peers w) of
        None \<Rightarrow> (w, Deny 409)
      | Some first_healthy \<Rightarrow>
          (case api_set_peer w 999 of
             (w, True) \<Rightarrow> (w, Deny 409)
           | (w, False) \<Rightarrow>
               (case api_set_peer w (- 1) of
                  (w, True) \<Rightarrow> (w, Deny 409)
                | (w, False) \<Rightarrow>
                    (case api_set_peer w (of_nat first_healthy) of (w, ok) \<Rightarrow> (w, if ok then Declined else Deny 409)))))"

definition roundtrip :: "clock \<Rightarrow> nat \<Rightarrow> guest_world \<Rightarrow> guest_world \<times> decision" where
  "roundtrip T n w =
     (case api_kv_get (T (n + 1) 0) (api_kv_set (T n 0) w ROUNDTRIP_KEY ''v1'' PROBE_TTL_MS) ROUNDTRIP_KEY of
        (w, v) \<Rightarrow>
          if v \<noteq> Some ''v1'' then (w, Deny 501)
          else case api_kv_get (T (n + 3) 0) (api_kv_del w ROUNDTRIP_KEY) ROUNDTRIP_KEY of
            (w, v) \<Rightarrow> (w, if v \<noteq> None then Deny 502 else Done))"

definition absent :: "u64 \<Rightarrow> guest_world \<Rightarrow> rstr \<Rightarrow> guest_world \<times> decision" where
  "absent now w key = (case api_kv_get now w key of (w, v) \<Rightarrow> (w, if v = None then Done else Deny 409))"

definition present :: "u64 \<Rightarrow> guest_world \<Rightarrow> rstr \<Rightarrow> rstr \<Rightarrow> guest_world \<times> decision" where
  "present now w key expected = (case api_kv_get now w key of (w, v) \<Rightarrow> (w, if v = Some expected then Done else Deny 409))"

definition equals_path :: "u64 \<Rightarrow> guest_world \<Rightarrow> rstr \<Rightarrow> guest_world \<times> decision" where
  "equals_path now w key =
     (let path = (case api_req_meta w ''path'' of Some p \<Rightarrow> p | None \<Rightarrow> [])
      in case api_kv_get now w key of (w, stored) \<Rightarrow> (w, if path \<noteq> [] \<and> stored = Some path then Done else Deny 409))"

definition body_check :: "(nat \<Rightarrow> u64) \<Rightarrow> guest_world \<Rightarrow> guest_world \<times> decision" where
  "body_check now w =
     (case api_kv_scan now w BODY_SEEN_PREFIX of
        (w, records) \<Rightarrow>
          (w, if list_ex (\<lambda>(_, value). case parse_body_seen (from_utf8_lossy value) of Some (n, True) \<Rightarrow> n > 0 | _ \<Rightarrow> False) records
              then Done else Deny 409))"

definition ws_headers :: "clock \<Rightarrow> nat \<Rightarrow> guest_world \<Rightarrow> guest_world \<times> decision" where
  "ws_headers T n w =
     (case api_kv_get (T n 0) w WS_AUTH_KEY of
        (w, auth) \<Rightarrow>
          (case api_kv_get (T (n + 1) 0) w WS_COOKIE_KEY of
             (w, cookie) \<Rightarrow> (w, if auth = Some WS_AUTH_EXPECT \<and> cookie = Some WS_COOKIE_EXPECT then Done else Deny 409)))"

definition resp_body :: "guest_world \<Rightarrow> rstr \<Rightarrow> guest_world \<times> decision" where
  "resp_body w query =
     (case query_param query ''text'' of
        Some t \<Rightarrow>
          (case api_set_resp_body w (resp_body_text t) of
             (w, False) \<Rightarrow> (w, Deny 500)
           | (w, True) \<Rightarrow> (w, deny_decision (query_param query ''deny'')))
      | None \<Rightarrow> (w, deny_decision (query_param query ''deny'')))"

definition stored_or_dash :: "rstr option \<Rightarrow> rstr" where
  "stored_or_dash v = (case v of Some raw \<Rightarrow> from_utf8_lossy raw | None \<Rightarrow> ''-'')"

definition log404_check :: "u64 \<Rightarrow> guest_world \<Rightarrow> guest_world \<times> decision" where
  "log404_check now w =
     (case api_kv_get now w LOG_404_KEY of (w, v) \<Rightarrow> (api_set_resp_header w LOG_404_HEADER (stored_or_dash v), Done))"

definition probe_scan :: "clock \<Rightarrow> nat \<Rightarrow> guest_world \<Rightarrow> guest_world \<times> decision" where
  "probe_scan T n w =
     (case api_kv_scan (T (n + 2)) (api_kv_set (T (n + 1) 0) (api_kv_set (T n 0) w SCAN_A_KEY ''1'' PROBE_TTL_MS) SCAN_B_KEY ''2'' PROBE_TTL_MS) SCAN_PREFIX of
        (w, records) \<Rightarrow>
          (api_kv_del (api_kv_del w SCAN_A_KEY) SCAN_B_KEY,
           if 2 \<le> length records \<and> SCAN_A_KEY \<in> fst ` set records \<and> SCAN_B_KEY \<in> fst ` set records then Done else Deny 409))"

definition meta_ok :: "guest_world \<Rightarrow> bool" where
  "meta_ok w =
     (api_req_meta w ''method'' = Some ''GET''
      \<and> (case api_req_meta w ''client_ip'' of Some v \<Rightarrow> starts_with v ''127.0.0.1'' | None \<Rightarrow> False)
      \<and> (case api_req_meta w ''header:user-agent'' of Some v \<Rightarrow> v \<noteq> [] | None \<Rightarrow> False))"

definition probe_content :: "clock \<Rightarrow> guest_world \<Rightarrow> guest_world \<times> decision" where
  "probe_content T w =
     (let query = meta_or_empty w ''query'';
          w = (if flag query ''pset'' then api_kv_set (T 0 0) w MARKER_KEY MARKER_VAL PROBE_TTL_MS else w);
          w = (if flag query ''pdel'' then api_kv_del w MARKER_KEY else w)
      in if flag query ''meta'' then (w, if meta_ok w then Done else Deny 409)
         else if \<not> starts_with (meta_or_empty w ''path'') ''/probe'' then (w, Declined)
         else case parse_mode query of
           Some SetGetDel \<Rightarrow> roundtrip T 2 w
         | Some Absent \<Rightarrow> absent (T 2 0) w ROUNDTRIP_KEY
         | Some TtlSet \<Rightarrow> (api_kv_set (T 2 0) w TTL_KEY ''x'' SHORT_TTL_MS, Done)
         | Some TtlCheck \<Rightarrow> absent (T 2 0) w TTL_KEY
         | Some PostReadMode \<Rightarrow> equals_path (T 2 0) w POST_READ_KEY
         | Some RewriteCheck \<Rightarrow> equals_path (T 2 0) w REWRITE_KEY
         | Some BodyCheck \<Rightarrow> body_check (T 2) w
         | Some LogCheck \<Rightarrow> present (T 2 0) w LOG_RAN_KEY ''1''
         | Some ScanMode \<Rightarrow> probe_scan T 2 w
         | Some WsHeaders \<Rightarrow> ws_headers T 2 w
         | Some BalancerMode \<Rightarrow> (w, Declined)
         | Some RespBody \<Rightarrow> resp_body w query
         | Some Log404Check \<Rightarrow> log404_check (T 2 0) w
         | None \<Rightarrow> (w, Deny 400))"

definition probe_header_filter :: "clock \<Rightarrow> guest_world \<Rightarrow> guest_world \<times> decision" where
  "probe_header_filter T w =
     (let query = meta_or_empty w ''query'' in
      if flag query ''phdr'' then
        (case api_kv_get (T 0 0) w MARKER_KEY of (w, v) \<Rightarrow> (api_set_resp_header w RESP_HEADER (stored_or_dash v), Ok))
      else if flag query ''respset'' then
        (let w = api_set_resp_header w RESP_HEADER ''mk''
         in (w, if api_resp_header w RESP_HEADER \<noteq> Some ''mk'' then Deny 409 else Declined))
      else if flag query ''respdel'' then
        (let w = api_set_resp_header w RESP_HEADER ''mk''
         in if api_resp_header w RESP_HEADER \<noteq> Some ''mk'' then (w, Deny 409)
            else let w = api_del_resp_header w RESP_HEADER
                 in (w, if api_resp_header w RESP_HEADER \<noteq> None then Deny 409 else Declined))
      else (w, Declined))"

text \<open>The sum of the bytes seen is a \<open>u64\<close> whose overflow would panic in a build with checks.\<close>

definition probe_body_filter :: "clock \<Rightarrow> guest_world \<Rightarrow> (guest_world \<times> decision) rust" where
  "probe_body_filter T w =
     (let query = meta_or_empty w ''query'' in
      if \<not> flag query ''bmark'' then Return (w, Declined)
      else
        let (chunk, fin) = api_body_chunk w;
            key = body_seen_key_for (meta_or_empty w ''path'') (meta_or_empty w ''query'')
        in case api_kv_get (T 0 0) w key of
          (w, v) \<Rightarrow>
            (let current = (case v of Some raw \<Rightarrow> from_utf8_lossy raw | None \<Rightarrow> []);
                 seen = (case parse_body_seen current of Some (n, _) \<Rightarrow> n | None \<Rightarrow> 0);
                 n = seen + length chunk
             in if 2 ^ 64 \<le> n then Panic
                else Return (api_kv_set (T 1 0) w key (dec_digits n @ '':'' @ (if fin then ''1'' else ''0'')) PROBE_TTL_MS, Declined)))"

definition probe_log :: "clock \<Rightarrow> guest_world \<Rightarrow> guest_world \<times> decision" where
  "probe_log T w =
     (let query = meta_or_empty w ''query'';
          w = (if flag query ''lmark'' then api_kv_set (T 0 0) w LOG_RAN_KEY ''1'' PROBE_TTL_MS else w);
          w = (if flag query ''l404'' then api_kv_set (T 1 0) w LOG_404_KEY ''1'' PROBE_TTL_MS else w)
      in (w, Declined))"

section \<open>The sample modules of the dynamic API\<close>

definition ECHO_DEFAULT_BODY :: rstr where "ECHO_DEFAULT_BODY = ''dynamic-echo''"

definition base_body :: "rstr option \<Rightarrow> rstr" where
  "base_body req = (case req of Some b \<Rightarrow> if b \<noteq> [] then b else ECHO_DEFAULT_BODY | None \<Rightarrow> ECHO_DEFAULT_BODY)"

definition join_greeting :: "rstr option \<Rightarrow> rstr \<Rightarrow> rstr" where
  "join_greeting greeting body = (case greeting of Some g \<Rightarrow> if g \<noteq> [] then g @ '': '' @ body else body | None \<Rightarrow> body)"

definition echo_content :: "guest_world \<Rightarrow> guest_world \<times> decision" where
  "echo_content w =
     (let body = join_greeting (api_cfg w ''greeting'') (base_body (api_req_body w));
          w = api_set_resp_header w ''x-dynamic'' ''echo'';
          w = api_set_resp_header w ''content-type'' ''application/octet-stream''
      in case api_set_resp_body w body of (w, ok) \<Rightarrow> (w, if ok then Done else Deny 500))"

definition REVERSE_DEFAULT_BODY :: rstr where "REVERSE_DEFAULT_BODY = ''dynamic-reverse''"

definition reverse_content :: "guest_world \<Rightarrow> guest_world \<times> decision" where
  "reverse_content w =
     (let b = (case api_req_body w of Some b \<Rightarrow> if b \<noteq> [] then b else REVERSE_DEFAULT_BODY | None \<Rightarrow> REVERSE_DEFAULT_BODY)
      in case api_set_resp_body w (rev b) of (w, ok) \<Rightarrow> (w, if ok then Done else Deny 500))"

section \<open>The store behind the drill\<close>

lemma not_expired:
  assumes "0 < ttl" "unat t' < unat t + nat ttl"
  shows "\<not> is_expired (expiry t ttl) t'"
proof (cases "unat t + nat ttl < 2 ^ 64")
  case True
  have "unat (of_int ttl :: u64) = nat ttl"
    using True assms(1) unat_of_nat [where 'a = 64, of "nat ttl"] by simp
  then have "unat (t + of_int ttl) = unat t + nat ttl" using True by (simp add: unat_word_ariths)
  then show ?thesis using assms True by (auto simp: is_expired_def expiry_def word_le_nat_alt)
next
  case False
  then show ?thesis using assms(1) by (simp add: is_expired_def expiry_def)
qed

text \<open>With room for an entry its write is accepted, and seen until it expires.\<close>

definition spare :: "host_state \<Rightarrow> nat \<Rightarrow> bool" where
  "spare s n \<longleftrightarrow> hs_inv s \<and> kv_sum (hs_kv s) + n \<le> KV_MAX_TOTAL_BYTES"

lemma kv_sum_remove_le: "kv_sum (al_remove k kv) \<le> kv_sum kv"
  by (induction kv) (auto simp: kv_sum_def split: prod.splits)

lemma spare_set:
  assumes "spare s n" "length k + length v \<le> n" "length v \<le> KV_MAX_VALUE_BYTES"
  shows "snd (kv_set now s k v ttl)" "spare (fst (kv_set now s k v ttl)) (n - (length k + length v))"
proof -
  have inv: "hs_inv s" and room: "kv_sum (hs_kv s) + n \<le> KV_MAX_TOTAL_BYTES" using assms(1) by (auto simp: spare_def)
  have d: "distinct (map fst (hs_kv s))" using inv by (simp add: hs_inv_def)
  have "unat (hs_total_bytes s) - (case map_of (hs_kv s) k of Some e \<Rightarrow> entry_bytes k e | None \<Rightarrow> 0) = kv_sum (al_remove k (hs_kv s))"
    using unat_total [OF inv] kv_sum_remove [OF d, of k] by simp
  then show acc: "snd (kv_set now s k v ttl)"
    using assms(2,3) room kv_sum_remove_le [of k "hs_kv s"] by (simp add: kv_set_def kv_set_verdict_def Let_def)
  have "hs_kv (fst (kv_set now s k v ttl)) = al_insert k \<lparr>kv_value = v, kv_expires_at = expiry now ttl\<rparr> (hs_kv s)"
    using acc by (auto simp: kv_set_def Let_def account_def split: if_splits)
  then have "kv_sum (hs_kv (fst (kv_set now s k v ttl))) \<le> length k + length v + kv_sum (hs_kv s)"
    using kv_sum_remove_le [of k "hs_kv s"] by (simp add: al_insert_def kv_sum_def entry_bytes_def)
  moreover have "hs_inv (fst (kv_set now s k v ttl))"
    using host_state.inv_step [OF inv, of "HostState.KvSet now k v ttl"] by simp
  ultimately show "spare (fst (kv_set now s k v ttl)) (n - (length k + length v))" using room assms(2) by (simp add: spare_def)
qed

lemma set_live:
  assumes "spare (gw_state w) n" "length k + length v \<le> n" "length v \<le> KV_MAX_VALUE_BYTES" "0 < ttl"
  shows "spare (gw_state (api_kv_set now w k v ttl)) (n - (length k + length v))"
    and "unat t < unat now + nat ttl \<Longrightarrow> live t (gw_state (api_kv_set now w k v ttl)) = (live t (gw_state w))(k \<mapsto> v)"
  using spare_set [OF assms(1-3)] live_kv_set [OF spare_set(1) [OF assms(1-3)]] not_expired [OF assms(4), of t now]
  by (simp_all add: api_kv_set_def)

lemma get_live: "snd (api_kv_get now w k) = Option.bind (live now (gw_state w) k) deliver"
  by (simp add: api_kv_get_def kv_get_def kv_get_with_def live_def split: prod.splits option.splits)

lemma del_live: "live t (gw_state (api_kv_del w k)) = (live t (gw_state w))(k := None)"
  by (simp add: api_kv_del_def live_kv_del)

lemma deliver_short [simp]: "v \<noteq> [] \<Longrightarrow> length v \<le> KV_MAX_VALUE_BYTES \<Longrightarrow> deliver v = Some v"
  by (simp add: deliver_def KV_MAX_VALUE_BYTES_def MAX_READ_LEN_def HEAP_SIZE_def)

section \<open>Response headers\<close>

lemma replace_first_found: "replace_first hs name val = Some hs' \<Longrightarrow> find_header hs' name = Some val"
proof (induction hs arbitrary: hs')
  case (Cons h hs)
  then show ?case by (cases h) (auto simp: find_header_def split: if_splits)
qed simp

lemma replace_first_None: "replace_first hs name val = None \<Longrightarrow> find_header (hs @ [(name, val)]) name = Some val"
proof (induction hs)
  case (Cons h hs)
  then show ?case by (cases h) (auto simp: find_header_def split: if_splits)
qed (simp add: find_header_def eq_ignore_ascii_case_def)

lemma header_set_get: "find_header (hd_resp_headers (gw_data (api_set_resp_header w name val))) name = Some val"
  by (auto simp: api_set_resp_header_def resp_header_set_def Let_def replace_first_None dest: replace_first_found split: option.splits)

lemma header_del_get: "find_header (hd_resp_headers (gw_data (api_del_resp_header w name))) name = None"
  by (auto simp: api_del_resp_header_def resp_header_del_def Let_def del_header_def find_header_def find_None_iff)

section \<open>Steps of the drill\<close>

text \<open>All clock readings of a drill lie within the time to live of its keys.\<close>

definition quick :: "clock \<Rightarrow> bool" where
  "quick T \<longleftrightarrow> (\<forall>m i n j. unat (T n j) < unat (T m i) + 10000)"

lemma quickD: "quick T \<Longrightarrow> unat (T n j) < unat (T m i) + nat PROBE_TTL_MS"
  by (simp add: quick_def PROBE_TTL_MS_def)

lemma ttl_pos [simp]: "0 < PROBE_TTL_MS" "0 < SHORT_TTL_MS"
  by (simp_all add: PROBE_TTL_MS_def SHORT_TTL_MS_def)

lemma roundtrip_done:
  assumes "spare (gw_state w) 100" "quick T"
  shows "snd (roundtrip T n w) = Done"
proof -
  let ?w1 = "api_kv_set (T n 0) w ROUNDTRIP_KEY ''v1'' PROBE_TTL_MS"
  have "live (T (n + 1) 0) (gw_state ?w1) ROUNDTRIP_KEY = Some ''v1''"
    using set_live(2) [OF assms(1), of ROUNDTRIP_KEY "''v1''" PROBE_TTL_MS "T (n + 1) 0" "T n 0"] quickD [OF assms(2)]
    by (simp add: ROUNDTRIP_KEY_def KV_MAX_VALUE_BYTES_def)
  then have "snd (api_kv_get (T (n + 1) 0) ?w1 ROUNDTRIP_KEY) = Some ''v1''" by (simp add: get_live KV_MAX_VALUE_BYTES_def)
  moreover have "snd (api_kv_get t (api_kv_del w' ROUNDTRIP_KEY) ROUNDTRIP_KEY) = None" for t w'
    by (simp add: get_live del_live)
  ultimately show ?thesis by (simp add: roundtrip_def split_beta)
qed

lemma entry_le_sum: "(k, e) \<in> set kv \<Longrightarrow> entry_bytes k e \<le> kv_sum kv"
  by (induction kv) (auto simp: kv_sum_def)

lemma live_entry_bytes:
  assumes "live t s k = Some v"
  shows "length k + length v \<le> kv_sum (hs_kv s)"
proof -
  obtain e where "map_of (hs_kv s) k = Some e" "kv_value e = v"
    using assms by (auto simp: live_def split: option.splits if_splits)
  then show ?thesis using entry_le_sum [OF map_of_SomeD] by (fastforce simp: entry_bytes_def)
qed

lemma scan_done:
  assumes "spare (gw_state w) 100" "quick T" "T (n + 2) 0 \<le> T (n + 2) 1"
    "snd (scan_begin (T (n + 2) 0) (T (n + 2) 1) (T (n + 2) 2)
       (gw_state (api_kv_set (T (n + 1) 0) (api_kv_set (T n 0) w SCAN_A_KEY ''1'' PROBE_TTL_MS) SCAN_B_KEY ''2'' PROBE_TTL_MS)) SCAN_PREFIX) \<noteq> - 1"
  shows "snd (probe_scan T n w) = Done"
proof -
  let ?w1 = "api_kv_set (T n 0) w SCAN_A_KEY ''1'' PROBE_TTL_MS"
  let ?w2 = "api_kv_set (T (n + 1) 0) ?w1 SCAN_B_KEY ''2'' PROBE_TTL_MS"
  let ?t = "T (n + 2) 1" and ?b = "begin_state (T (n + 2) 0) (gw_state ?w2)"
  have s1: "spare (gw_state ?w1) 87" "live ?t (gw_state ?w1) = (live ?t (gw_state w))(SCAN_A_KEY \<mapsto> ''1'')"
    using set_live(1) [OF assms(1), of SCAN_A_KEY "''1''" PROBE_TTL_MS "T n 0"] set_live(2) [OF assms(1), of SCAN_A_KEY "''1''" PROBE_TTL_MS ?t "T n 0"]
      quickD [OF assms(2)] by (simp_all add: SCAN_A_KEY_def KV_MAX_VALUE_BYTES_def)
  have s2: "spare (gw_state ?w2) 74" "live ?t (gw_state ?w2) = (live ?t (gw_state ?w1))(SCAN_B_KEY \<mapsto> ''2'')"
    using set_live(1) [OF s1(1), of SCAN_B_KEY "''2''" PROBE_TTL_MS "T (n + 1) 0"] set_live(2) [OF s1(1), of SCAN_B_KEY "''2''" PROBE_TTL_MS ?t "T (n + 1) 0"]
      quickD [OF assms(2)] by (simp_all add: SCAN_B_KEY_def KV_MAX_VALUE_BYTES_def)
  have keys: "live ?t (gw_state ?w2) SCAN_A_KEY = Some ''1''" "live ?t (gw_state ?w2) SCAN_B_KEY = Some ''2''"
    "starts_with SCAN_A_KEY SCAN_PREFIX" "starts_with SCAN_B_KEY SCAN_PREFIX" "SCAN_A_KEY \<noteq> SCAN_B_KEY"
    using s1(2) s2(2) by (simp_all add: SCAN_A_KEY_def SCAN_B_KEY_def SCAN_PREFIX_def)
  have inv: "hs_inv (gw_state ?w2)" using s2(1) by (simp add: spare_def)
  have dist: "distinct (map fst (hs_kv ?b))" using hs_inv_begin_state [OF inv] by (simp add: hs_inv_def)
  let ?recs = "kv_scan ?t ?b SCAN_PREFIX"
  have recs: "set ?recs = {(k, v). starts_with k SCAN_PREFIX \<and> live ?t (gw_state ?w2) k = Some v}"
    using kv_scan_set [OF dist] live_begin_state [OF inv assms(3)] by simp
  have "8 + length k + length v \<le> MAX_READ_LEN" if "(k, v) \<in> set ?recs" for k v
    using that live_entry_bytes s2(1) unfolding recs
    by (fastforce simp: spare_def KV_MAX_TOTAL_BYTES_def MAX_READ_LEN_def HEAP_SIZE_def)
  then have all: "takeWhile (\<lambda>(k, v). 8 + length k + length v \<le> MAX_READ_LEN) ?recs = ?recs"
    by (subst takeWhile_eq_all_conv) auto
  have scan: "snd (api_kv_scan (T (n + 2)) ?w2 SCAN_PREFIX) = ?recs"
    using assms(4) all unfolding api_kv_scan_def split_beta by simp
  have mem: "(SCAN_A_KEY, ''1'') \<in> set ?recs" "(SCAN_B_KEY, ''2'') \<in> set ?recs" using keys unfolding recs by auto
  then have "card {(SCAN_A_KEY, ''1''), (SCAN_B_KEY, ''2'')} \<le> card (set ?recs)" by (intro card_mono) auto
  then have "2 \<le> length ?recs" using keys(5) card_length [of ?recs] by simp
  moreover have "SCAN_A_KEY \<in> fst ` set ?recs" "SCAN_B_KEY \<in> fst ` set ?recs" using mem by force+
  ultimately show ?thesis using scan by (simp add: probe_scan_def split_beta)
qed

text \<open>What the post-read handler records is what the content handler compares with.\<close>

lemma path_recorded:
  assumes "spare (gw_state w) (length POST_READ_KEY + length p)" "length p \<le> KV_MAX_VALUE_BYTES" "quick T"
    "api_req_meta w ''path'' = Some p" "p \<noteq> []" "from_utf8_lossy p \<noteq> WS_HANDSHAKE_PATH"
  shows "snd (equals_path (T n 0) (fst (probe_post_read T w)) POST_READ_KEY) = Done"
proof -
  let ?w = "api_kv_set (T 0 0) w POST_READ_KEY p PROBE_TTL_MS"
  have data: "gw_data ?w = gw_data w" by (simp add: api_kv_set_def)
  have str: "api_req_meta_str ?w ''path'' = Some (from_utf8_lossy p)"
    using assms(4) data by (simp add: api_req_meta_str_def api_req_meta_def)
  then have w: "fst (probe_post_read T w) = ?w"
    using assms(4,6) by (simp add: probe_post_read_def record_meta_def record_ws_handshake_headers_def)
  have "live (T n 0) (gw_state ?w) POST_READ_KEY = Some p"
    using set_live(2) [OF assms(1), of POST_READ_KEY p PROBE_TTL_MS "T n 0" "T 0 0"] assms(2) quickD [OF assms(3)] by simp
  moreover have "api_req_meta ?w ''path'' = Some p" using assms(4) data by (simp add: api_req_meta_def)
  ultimately show ?thesis
    unfolding w using assms(2,5) get_live [of "T n 0" ?w POST_READ_KEY] by (simp add: equals_path_def split_beta)
qed

text \<open>The key with the short time to live is seen before it and gone after it.\<close>

lemma ttl_check:
  assumes "spare (gw_state w) 100" "unat t0 + 1500 < 2 ^ 64 - 1"
  shows "snd (absent t (api_kv_set t0 w TTL_KEY ''x'' SHORT_TTL_MS) TTL_KEY) = (if unat t0 + 1500 \<le> unat t then Done else Deny 409)"
proof -
  have acc: "snd (kv_set t0 (gw_state w) TTL_KEY ''x'' SHORT_TTL_MS)"
    by (rule spare_set(1) [OF assms(1)]) (simp_all add: TTL_KEY_def KV_MAX_VALUE_BYTES_def)
  have u: "unat (t0 + 1500) = unat t0 + 1500" using assms(2) by (simp add: unat_word_ariths)
  have "unat (- 1 :: u64) = 2 ^ 64 - 1" by (simp add: unsigned_minus_1_eq_mask mask_eq_exp_minus_1)
  then have "unat (t0 + 1500) \<noteq> unat (- 1 :: u64)" using u assms(2) by linarith
  then have "t0 + 1500 \<noteq> - 1" by metis
  then have "is_expired (expiry t0 SHORT_TTL_MS) t \<longleftrightarrow> unat t0 + 1500 \<le> unat t"
    using assms(2) u by (simp add: is_expired_def expiry_def SHORT_TTL_MS_def word_le_nat_alt)
  then have "live t (gw_state (api_kv_set t0 w TTL_KEY ''x'' SHORT_TTL_MS)) TTL_KEY = (if unat t0 + 1500 \<le> unat t then None else Some ''x'')"
    using live_kv_set [OF acc, of t] by (simp add: api_kv_set_def)
  then show ?thesis
    using get_live [of t "api_kv_set t0 w TTL_KEY ''x'' SHORT_TTL_MS" TTL_KEY]
    by (simp add: absent_def split_beta KV_MAX_VALUE_BYTES_def)
qed

text \<open>The header checks never fail.\<close>

lemma probe_header_lossy: "from_utf8_lossy RESP_HEADER = RESP_HEADER" "from_utf8_lossy ''mk'' = ''mk''"
  by code_simp+

lemma header_filter_never_denies: "snd (probe_header_filter T w) \<in> {Ok, Declined}"
proof -
  have set: "api_resp_header (api_set_resp_header w RESP_HEADER ''mk'') RESP_HEADER = Some ''mk''"
    using header_set_get [of w RESP_HEADER "''mk''"]
    by (simp add: api_resp_header_def resp_header_of_def probe_header_lossy KV_MAX_VALUE_BYTES_def)
  have del: "api_resp_header (api_del_resp_header w' RESP_HEADER) RESP_HEADER = None" for w'
    using header_del_get [of w' RESP_HEADER] by (simp add: api_resp_header_def resp_header_of_def probe_header_lossy deliver_def)
  show ?thesis by (simp add: probe_header_filter_def Let_def set del split_beta)
qed

text \<open>The balancer drill: three healthy peers, out-of-range pins refused, the first peer pinned.\<close>

lemma balancer_drill:
  assumes "parse_mode (meta_or_empty w ''query'') = Some BalancerMode" "length (hd_peers (gw_data w)) = 3"
    "\<forall>p \<in> set (hd_peers (gw_data w)). pv_healthy p \<and> length (peer_payload p) \<le> MAX_READ_LEN"
  shows "\<exists>w'. probe_balancer w = (w', Declined) \<and> rc_peer_index (hd_ctx (gw_data w')) = Some 0"
proof -
  have peers: "api_peers w = map peer_seen (hd_peers (gw_data w))" using assms(3) by (simp add: api_peers_def)
  have healthy: "list_all pi_healthy (api_peers w)" using assms(3) unfolding peers by (simp add: list_all_iff peer_seen_def)
  have "api_peers w \<noteq> []" using assms(2) unfolding peers by auto
  then have v: "valid_peer_view (api_peers w) = Some 0"
    using healthy assms(2) peers by (cases "api_peers w") (auto simp: valid_peer_view_def list_ex_iff list_all_iff)
  have refused: "api_set_peer w 999 = (w, False)" "api_set_peer w (- 1) = (w, False)"
    using assms(2) by (simp_all add: api_set_peer_def balancer_set_peer_def Let_def)
  show ?thesis
    using assms(1,2) v refused \<open>api_peers w \<noteq> []\<close> peers by (simp add: probe_balancer_def api_set_peer_def balancer_set_peer_def Let_def)
qed

text \<open>
  The modules of the dynamic API: what they answer, and that a body larger than the guest's arena looks to them like none.
\<close>

lemma set_resp_body_fits: "length b \<le> RESP_BODY_MAX_BYTES \<Longrightarrow> api_set_resp_body w b = (w\<lparr>gw_data := (gw_data w)\<lparr>hd_resp_body := Some b\<rparr>\<rparr>, True)"
  by (simp add: api_set_resp_body_def)

lemma reverse_answers:
  assumes "api_req_body w = Some b" "length b \<le> RESP_BODY_MAX_BYTES"
  shows "reverse_content w = (w\<lparr>gw_data := (gw_data w)\<lparr>hd_resp_body := Some (rev b)\<rparr>\<rparr>, Done)"
proof -
  have "b \<noteq> []" using assms(1) by (auto simp: api_req_body_def api_req_meta_def deliver_def split: if_splits)
  then show ?thesis using assms by (simp add: reverse_content_def set_resp_body_fits)
qed

lemma echo_answers:
  assumes "length (join_greeting (api_cfg w ''greeting'') (base_body (api_req_body w))) \<le> RESP_BODY_MAX_BYTES"
  shows "snd (echo_content w) = Done"
    and "hd_resp_body (gw_data (fst (echo_content w))) = Some (join_greeting (api_cfg w ''greeting'') (base_body (api_req_body w)))"
  using assms by (simp_all add: echo_content_def set_resp_body_fits)

lemma body_literal: "from_utf8_lossy ''body'' = ''body''"
  by code_simp

lemma large_body_unseen:
  assumes "MAX_READ_LEN < length (hd_req_body (gw_data w))"
  shows "api_req_body w = None" "base_body (api_req_body w) = ECHO_DEFAULT_BODY"
  using assms by (simp_all add: api_req_body_def api_req_meta_def meta_of_def body_literal req_meta_payload_def deliver_def base_body_def)

section \<open>Properties\<close>



end
